(* ===== verification/Prelude.thy ===== *)
theory Prelude
  imports Main "HOL-Library.Word"
begin

text \<open>
  Shared vocabulary of the development: the result type of a fallible C function, the errno
  values the sources set, the decimal rendering of \<^verbatim>\<open>printf\<close>, the encoding of job ids
  (\<^verbatim>\<open>src/common/libutil/idf58.h\<close>), the recorded calls of a plugin into its host, and the
  generic lemmas on lists, options and sums that the component theories share.
\<close>

section \<open>Collections\<close>

text \<open>
  \<open>parse_eval\<close> evaluates the reading of numbers and of sets of ids on concrete strings. Other
  collections are declared where their definitions are.
\<close>

named_theorems parse_eval \<open>definitions that read numbers and sets of ids\<close>

section \<open>Errors as values\<close>

datatype errno = EINVAL | ENOENT | ENOSPC | ENOMEM | ERANGE | ENOSYS | EPERM | EOVERFLOW | EDOM | EOTHER

text \<open>
  A C function that returns a pointer or a count, or fails with \<^verbatim>\<open>errno\<close> and an error text,
  is a function into \<open>'e + 'a\<close>: \<open>Inl\<close> is the failure.
\<close>

definition is_ok :: "'e + 'a \<Rightarrow> bool" where
  "is_ok r = (case r of Inl _ \<Rightarrow> False | Inr _ \<Rightarrow> True)"

lemma is_ok_simps [simp]: "is_ok (Inr a)" "\<not> is_ok (Inl e)"
  by (simp_all add: is_ok_def)

lemma is_ok_iff: "is_ok r \<longleftrightarrow> (\<exists>a. r = Inr a)"
  by (cases r) simp_all

section \<open>Decimal numbers\<close>

text \<open>The output of \<^verbatim>\<open>printf ("%ju")\<close> and \<^verbatim>\<open>printf ("%zu")\<close>.\<close>

definition digit_char :: "nat \<Rightarrow> char" where
  "digit_char d = char_of (48 + d)"

definition char_digit :: "char \<Rightarrow> nat option" where
  "char_digit c = (let n = of_char c :: nat in if 48 \<le> n \<and> n \<le> 57 then Some (n - 48) else None)"

lemma char_digit_of [simp]: "d < 10 \<Longrightarrow> char_digit (digit_char d) = Some d"
  by (simp add: char_digit_def digit_char_def)

fun dec_of_nat :: "nat \<Rightarrow> string" where
  "dec_of_nat n = (if n < 10 then [digit_char n] else dec_of_nat (n div 10) @ [digit_char (n mod 10)])"

declare dec_of_nat.simps [simp del]

text \<open>Reading a digit string back, most significant digit first.\<close>

fun read_digits :: "nat \<Rightarrow> string \<Rightarrow> nat option" where
  "read_digits acc [] = Some acc"
| "read_digits acc (c # cs) =
     (case char_digit c of None \<Rightarrow> None | Some d \<Rightarrow> read_digits (10 * acc + d) cs)"

definition nat_of_dec :: "string \<Rightarrow> nat option" where
  "nat_of_dec s = (if s = [] then None else read_digits 0 s)"

lemma read_digits_append:
  "read_digits acc (xs @ ys) =
     (case read_digits acc xs of None \<Rightarrow> None | Some a \<Rightarrow> read_digits a ys)"
  by (induction xs arbitrary: acc) (auto split: option.splits)

declare char_digit_def [parse_eval] and nat_of_dec_def [parse_eval]

lemma dec_of_nat_not_Nil [simp]: "dec_of_nat n \<noteq> []"
  by (subst dec_of_nat.simps) simp

lemma read_digits_dec_of_nat: "read_digits 0 (dec_of_nat n) = Some n"
proof (induction n rule: dec_of_nat.induct)
  case (1 n)
  then show ?case
    by (cases "n < 10") (auto simp: dec_of_nat.simps [of n] read_digits_append)
qed

lemma nat_of_dec_of_nat [simp]: "nat_of_dec (dec_of_nat n) = Some n"
  by (simp add: nat_of_dec_def read_digits_dec_of_nat)

lemma dec_of_nat_inj: "dec_of_nat m = dec_of_nat n \<longleftrightarrow> m = n"
  by (metis nat_of_dec_of_nat option.inject)

lemma dec_of_nat_digits: "c \<in> set (dec_of_nat n) \<Longrightarrow> char_digit c \<noteq> None"
proof (induction n rule: dec_of_nat.induct)
  case (1 n)
  then show ?case
    by (cases "n < 10") (auto simp: dec_of_nat.simps [of n])
qed

lemma length_dec_of_nat: "n < 10 ^ Suc k \<Longrightarrow> length (dec_of_nat n) \<le> Suc k"
proof (induction k arbitrary: n)
  case 0
  then show ?case by (subst dec_of_nat.simps) simp
next
  case (Suc k)
  have "n div 10 < 10 ^ Suc k"
    using Suc.prems by (simp add: less_mult_imp_div_less mult.commute)
  from Suc.IH [OF this] show ?case by (subst dec_of_nat.simps) simp
qed

text \<open>The output of \<^verbatim>\<open>printf ("%d")\<close>.\<close>

definition dec_of_int :: "int \<Rightarrow> string" where
  "dec_of_int i = (if i < 0 then CHR ''-'' # dec_of_nat (nat (- i)) else dec_of_nat (nat i))"

section \<open>Job ids\<close>

type_synonym jobid = "64 word"

text \<open>
  \<^verbatim>\<open>idf58 ()\<close>: the F58 encoding by flux-core's \<^verbatim>\<open>flux_job_id_encode\<close> (the parameter \<open>enc\<close>),
  or the decimal id when that fails.
\<close>

definition idf58 :: "(jobid \<Rightarrow> string option) \<Rightarrow> jobid \<Rightarrow> string" where
  "idf58 enc i = (case enc i of None \<Rightarrow> dec_of_nat (unat i) | Some s \<Rightarrow> s)"

text \<open>
  What the callers rely on: F58 strings are injective, and they start with an \<open>f\<close>-like
  character that is not a digit.
\<close>

locale f58_encoding =
  fixes enc :: "jobid \<Rightarrow> string option"
  assumes enc_inj: "enc i = Some s \<Longrightarrow> enc j = Some s \<Longrightarrow> i = j"
    and enc_prefix: "enc i = Some s \<Longrightarrow> \<exists>c cs. s = c # cs \<and> char_digit c = None"
begin

lemma enc_not_decimal:
  assumes "enc i = Some s"
  shows "s \<noteq> dec_of_nat n"
proof
  assume "s = dec_of_nat n"
  moreover obtain c cs where "s = c # cs" and "char_digit c = None"
    using enc_prefix [OF assms] by blast
  ultimately have "c \<in> set (dec_of_nat n)" by (metis list.set_intros(1))
  then show False
    using dec_of_nat_digits [of c n] \<open>char_digit c = None\<close> by blast
qed

lemma idf58_inj: "idf58 enc i = idf58 enc j \<longleftrightarrow> i = j"
proof (cases "enc i"; cases "enc j")
  fix s t assume "enc i = Some s" "enc j = Some t"
  then show ?thesis by (auto simp: idf58_def dest: enc_inj)
next
  fix t assume "enc i = None" "enc j = Some t"
  then show ?thesis using enc_not_decimal [of j t "unat i"] by (auto simp: idf58_def)
next
  fix s assume "enc i = Some s" "enc j = None"
  then show ?thesis using enc_not_decimal [of i s "unat j"] by (auto simp: idf58_def)
next
  assume "enc i = None" "enc j = None"
  then show ?thesis by (simp add: idf58_def dec_of_nat_inj word_unat_eq_iff)
qed

end

text \<open>An encoder of the documented kind, for the witnesses: the decimal id after a letter.\<close>

definition sample_enc :: "jobid \<Rightarrow> string option" where
  "sample_enc i = Some (CHR ''f'' # dec_of_nat (unat i))"

interpretation sample_f58: f58_encoding sample_enc
  by unfold_locales (auto simp: sample_enc_def dec_of_nat_inj char_digit_def word_unat_eq_iff)

text \<open>An encoder that always fails satisfies the laws too: then every key is decimal.\<close>

interpretation failing_f58: f58_encoding "\<lambda>_. None"
  by unfold_locales simp_all

section \<open>Generic lemmas\<close>

lemma UN_fun_upd: "(\<Union>k. (f(i := x)) k) = x \<union> (\<Union>k \<in> - {i}. f k)"
  by (auto split: if_splits)

lemma UN_fun_upd_empty:
  assumes "f i = {}"
  shows "(\<Union>k. (f(i := x)) k) = (\<Union>k. f k) \<union> x"
proof -
  have "(\<Union>k. f k) = f i \<union> (\<Union>k \<in> - {i}. f k)"
    by blast
  then show ?thesis unfolding UN_fun_upd assms by blast
qed

lemma disjoint_family_fun_upd:
  assumes "\<forall>j k. j \<noteq> k \<longrightarrow> f j \<inter> f k = {}" and "\<forall>k. k \<noteq> i \<longrightarrow> x \<inter> f k = {}"
  shows "\<forall>j k. j \<noteq> k \<longrightarrow> (f(i := x)) j \<inter> (f(i := x)) k = {}"
  using assms by (auto simp: fun_upd_def)

end
