(* ===== verification/CcanEndian.thy ===== *)
theory CcanEndian
  imports Prelude
begin

text \<open>
  The byte order conversions of \<^verbatim>\<open>src/common/libccan/ccan/endian/endian.h\<close>, for a host of either byte
  order: \<open>little\<close> is \<^verbatim>\<open>HAVE_LITTLE_ENDIAN\<close> of the build.
\<close>

unbundle bit_operations_syntax

section \<open>Swapping bytes\<close>

definition BSWAP_16 :: "16 word \<Rightarrow> 16 word" where
  "BSWAP_16 val = push_bit 8 (val AND 0x00ff)
     OR drop_bit 8 (val AND 0xff00)"

definition BSWAP_32 :: "32 word \<Rightarrow> 32 word" where
  "BSWAP_32 val = push_bit 24 (val AND 0x000000ff)
     OR push_bit 8 (val AND 0x0000ff00)
     OR drop_bit 8 (val AND 0x00ff0000)
     OR drop_bit 24 (val AND 0xff000000)"

definition BSWAP_64 :: "64 word \<Rightarrow> 64 word" where
  "BSWAP_64 val = push_bit 56 (val AND 0x00000000000000ff)
     OR push_bit 40 (val AND 0x000000000000ff00)
     OR push_bit 24 (val AND 0x0000000000ff0000)
     OR push_bit 8 (val AND 0x00000000ff000000)
     OR drop_bit 8 (val AND 0x000000ff00000000)
     OR drop_bit 24 (val AND 0x0000ff0000000000)
     OR drop_bit 40 (val AND 0x00ff000000000000)
     OR drop_bit 56 (val AND 0xff00000000000000)"

definition bswap_16 :: "16 word \<Rightarrow> 16 word" where
  "bswap_16 val = BSWAP_16 val"

definition bswap_32 :: "32 word \<Rightarrow> 32 word" where
  "bswap_32 val = BSWAP_32 val"

definition bswap_64 :: "64 word \<Rightarrow> 64 word" where
  "bswap_64 val = BSWAP_64 val"

section \<open>Conversions\<close>

definition cpu_to_le64 :: "bool \<Rightarrow> 64 word \<Rightarrow> 64 word" where
  "cpu_to_le64 little native = (if little then native else BSWAP_64 native)"

definition cpu_to_le32 :: "bool \<Rightarrow> 32 word \<Rightarrow> 32 word" where
  "cpu_to_le32 little native = (if little then native else BSWAP_32 native)"

definition cpu_to_le16 :: "bool \<Rightarrow> 16 word \<Rightarrow> 16 word" where
  "cpu_to_le16 little native = (if little then native else BSWAP_16 native)"

definition le64_to_cpu :: "bool \<Rightarrow> 64 word \<Rightarrow> 64 word" where
  "le64_to_cpu little le_val = (if little then le_val else BSWAP_64 le_val)"

definition le32_to_cpu :: "bool \<Rightarrow> 32 word \<Rightarrow> 32 word" where
  "le32_to_cpu little le_val = (if little then le_val else BSWAP_32 le_val)"

definition le16_to_cpu :: "bool \<Rightarrow> 16 word \<Rightarrow> 16 word" where
  "le16_to_cpu little le_val = (if little then le_val else BSWAP_16 le_val)"

definition cpu_to_be64 :: "bool \<Rightarrow> 64 word \<Rightarrow> 64 word" where
  "cpu_to_be64 little native = (if little then BSWAP_64 native else native)"

definition cpu_to_be32 :: "bool \<Rightarrow> 32 word \<Rightarrow> 32 word" where
  "cpu_to_be32 little native = (if little then BSWAP_32 native else native)"

definition cpu_to_be16 :: "bool \<Rightarrow> 16 word \<Rightarrow> 16 word" where
  "cpu_to_be16 little native = (if little then BSWAP_16 native else native)"

definition be64_to_cpu :: "bool \<Rightarrow> 64 word \<Rightarrow> 64 word" where
  "be64_to_cpu little be_val = (if little then BSWAP_64 be_val else be_val)"

definition be32_to_cpu :: "bool \<Rightarrow> 32 word \<Rightarrow> 32 word" where
  "be32_to_cpu little be_val = (if little then BSWAP_32 be_val else be_val)"

definition be16_to_cpu :: "bool \<Rightarrow> 16 word \<Rightarrow> 16 word" where
  "be16_to_cpu little be_val = (if little then BSWAP_16 be_val else be_val)"

lemmas to_cpu_defs = cpu_to_le64_def cpu_to_le32_def cpu_to_le16_def le64_to_cpu_def le32_to_cpu_def le16_to_cpu_def
  cpu_to_be64_def cpu_to_be32_def cpu_to_be16_def be64_to_cpu_def be32_to_cpu_def be16_to_cpu_def

section \<open>Bytes\<close>

text \<open>The bytes of a value from the least significant one, and as they are in the memory of the host.\<close>

definition value_bytes :: "'a::len word \<Rightarrow> 8 word list" where
  "value_bytes w = map (\<lambda>i. ucast (drop_bit (8 * i) w)) [0..<LENGTH('a) div 8]"

definition memory_bytes :: "bool \<Rightarrow> 'a::len word \<Rightarrow> 8 word list" where
  "memory_bytes little w = (if little then value_bytes w else rev (value_bytes w))"

lemma numeral_cases_8: "i < 8 \<Longrightarrow> i = 0 \<or> i = 1 \<or> i = 2 \<or> i = 3 \<or> i = 4 \<or> i = 5 \<or> i = 6 \<or> i = (7::nat)"
  by arith

text \<open>The byte \<open>m\<close> of a word moved up or down.\<close>

lemma bit_up:
  "bit (push_bit n (w AND push_bit m (mask 8)) :: 'a::len word) k \<longleftrightarrow>
     n \<le> k \<and> k < LENGTH('a) \<and> m + n \<le> k \<and> k < m + n + 8 \<and> bit w (k - n)"
  by (auto simp: bit_simps)

lemma bit_down:
  "bit (drop_bit n (w AND push_bit m (mask 8)) :: 'a::len word) k \<longleftrightarrow> m \<le> n + k \<and> n + k < m + 8 \<and> bit w (n + k)"
  using bit_imp_le_length [of w "n + k"] by (auto simp: bit_simps)

lemma byte_masks:
  "(0xff :: 'a::len word) = push_bit 0 (mask 8)" "(0xff00 :: 'a::len word) = push_bit 8 (mask 8)"
  "(0xff0000 :: 'a::len word) = push_bit 16 (mask 8)" "(0xff000000 :: 'a::len word) = push_bit 24 (mask 8)"
  "(0xff00000000 :: 'a::len word) = push_bit 32 (mask 8)" "(0xff0000000000 :: 'a::len word) = push_bit 40 (mask 8)"
  "(0xff000000000000 :: 'a::len word) = push_bit 48 (mask 8)" "(0xff00000000000000 :: 'a::len word) = push_bit 56 (mask 8)"
  by (simp_all add: mask_eq_exp_minus_1 push_bit_eq_mult)

lemmas swap_bits = byte_masks bit_or_iff bit_up bit_down

lemma bit_BSWAP_16:
  assumes "i < 2" and "j < 8"
  shows "bit (BSWAP_16 w) (8 * i + j) \<longleftrightarrow> bit w (8 * (1 - i) + j)"
proof -
  have "i = 0 \<or> i = 1" using assms(1) by arith
  with assms(2) show ?thesis unfolding BSWAP_16_def swap_bits by (elim disjE) simp_all
qed

lemma bit_BSWAP_32:
  assumes "i < 4" and "j < 8"
  shows "bit (BSWAP_32 w) (8 * i + j) \<longleftrightarrow> bit w (8 * (3 - i) + j)"
proof -
  have "i = 0 \<or> i = 1 \<or> i = 2 \<or> i = 3" using assms(1) by arith
  with assms(2) show ?thesis unfolding BSWAP_32_def swap_bits by (elim disjE) simp_all
qed

lemma bit_BSWAP_64:
  assumes "i < 8" and "j < 8"
  shows "bit (BSWAP_64 w) (8 * i + j) \<longleftrightarrow> bit w (8 * (7 - i) + j)"
  using numeral_cases_8 [OF assms(1)] assms(2) unfolding BSWAP_64_def swap_bits by (elim disjE) simp_all

text \<open>A word is given by its bytes.\<close>

lemma length_value_bytes [simp]: "length (value_bytes (w :: 'a::len word)) = LENGTH('a) div 8"
  by (simp add: value_bytes_def)

lemma bit_value_bytes:
  "i < LENGTH('a) div 8 \<Longrightarrow> j < 8 \<Longrightarrow> bit (value_bytes (w :: 'a::len word) ! i) j \<longleftrightarrow> bit w (8 * i + j)"
  by (simp add: value_bytes_def bit_simps)

lemma bytes_reversed:
  fixes v w :: "'a::len word"
  assumes "\<And>i j. i < LENGTH('a) div 8 \<Longrightarrow> j < 8 \<Longrightarrow> bit v (8 * i + j) \<longleftrightarrow> bit w (8 * (LENGTH('a) div 8 - 1 - i) + j)"
  shows "value_bytes v = rev (value_bytes w)"
proof (rule nth_equalityI)
  fix i assume "i < length (value_bytes v)"
  then have i: "i < LENGTH('a) div 8" by simp
  show "value_bytes v ! i = rev (value_bytes w) ! i"
  proof (rule bit_word_eqI)
    fix j :: nat assume "j < LENGTH(8)"
    then have j: "j < 8" by simp
    have r: "rev (value_bytes w) ! i = value_bytes w ! (LENGTH('a) div 8 - 1 - i)" using i by (simp add: rev_nth)
    have "LENGTH('a) div 8 - 1 - i < LENGTH('a) div 8" using i by simp
    with i j show "bit (value_bytes v ! i) j \<longleftrightarrow> bit (rev (value_bytes w) ! i) j"
      unfolding r by (simp only: bit_value_bytes assms)
  qed
qed simp

lemma swapped_bytes:
  "value_bytes (BSWAP_16 w) = rev (value_bytes w)"
  "value_bytes (BSWAP_32 x) = rev (value_bytes x)"
  "value_bytes (BSWAP_64 y) = rev (value_bytes y)"
  by (rule bytes_reversed; simp add: bit_BSWAP_16 bit_BSWAP_32 bit_BSWAP_64)+

lemma value_bytes_inj:
  fixes v w :: "'a::len word"
  assumes "8 dvd LENGTH('a)" and "value_bytes v = value_bytes w"
  shows "v = w"
proof (rule bit_word_eqI)
  fix k assume k: "k < LENGTH('a)"
  have "k div 8 < LENGTH('a) div 8" using assms(1) k by (auto simp: dvd_def)
  then have "bit u k \<longleftrightarrow> bit (value_bytes u ! (k div 8)) (k mod 8)" for u :: "'a word"
    by (simp add: bit_value_bytes)
  then show "bit v k \<longleftrightarrow> bit w k" by (simp add: assms(2))
qed

lemma swap_twice [simp]: "BSWAP_16 (BSWAP_16 w) = w" "BSWAP_32 (BSWAP_32 x) = x" "BSWAP_64 (BSWAP_64 y) = y"
  by (rule value_bytes_inj; simp add: swapped_bytes)+

lemmas conversion_facts = to_cpu_defs memory_bytes_def swapped_bytes

text \<open>
  Whatever the byte order of the host, a value that was converted to little endian has its bytes in
  memory from the least significant one, a value that was converted to big endian from the most
  significant one, and converting back gives the value: for 64, 32 and 16 bits.
\<close>

theorem endian_layout:
  "memory_bytes little (cpu_to_le64 little x) = value_bytes x \<and> memory_bytes little (cpu_to_be64 little x) = rev (value_bytes x)
   \<and> memory_bytes little (cpu_to_le32 little y) = value_bytes y \<and> memory_bytes little (cpu_to_be32 little y) = rev (value_bytes y)
   \<and> memory_bytes little (cpu_to_le16 little z) = value_bytes z \<and> memory_bytes little (cpu_to_be16 little z) = rev (value_bytes z)
   \<and> le64_to_cpu little (cpu_to_le64 little x) = x \<and> be64_to_cpu little (cpu_to_be64 little x) = x
   \<and> le32_to_cpu little (cpu_to_le32 little y) = y \<and> be32_to_cpu little (cpu_to_be32 little y) = y
   \<and> le16_to_cpu little (cpu_to_le16 little z) = z \<and> be16_to_cpu little (cpu_to_be16 little z) = z"
  by (cases little) (simp_all add: conversion_facts)

end
