(* ===== verification/CcanBitmap.thy ===== *)
theory CcanBitmap
  imports CcanEndian "HOL-Library.Monad_Syntax"
begin

text \<open>
  The bitmaps of \<^verbatim>\<open>src/common/libccan/ccan/bitmap\<close> with words of 64 bits. A bitmap is the list of the words
  that were allocated for it; reading or writing another word, and a failed assertion, is \<open>None\<close>. The
  numbers of bits are unsigned 64-bit integers, and \<open>little\<close> is the byte order of the host.
\<close>

section \<open>Words\<close>

type_synonym bitmap = "64 word list"
type_synonym ulong = "64 word"

definition BITMAP_NWORDS :: "ulong \<Rightarrow> ulong" where
  "BITMAP_NWORDS n = (n + 64 - 1) div 64"

definition bitmap_sizeof :: "ulong \<Rightarrow> ulong" where
  "bitmap_sizeof nbits = BITMAP_NWORDS nbits * 8"

definition bitmap_bswap :: "bool \<Rightarrow> 64 word \<Rightarrow> 64 word" where
  "bitmap_bswap little w = cpu_to_be64 little w"

text \<open>\<^verbatim>\<open>BITMAP_WORD\<close>, read and assigned to.\<close>

definition word_at :: "bitmap \<Rightarrow> nat \<Rightarrow> 64 word option" where
  "word_at bm i = (if i < length bm then Some (bm ! i) else None)"

definition change_word :: "bitmap \<Rightarrow> ulong \<Rightarrow> (64 word \<Rightarrow> 64 word) \<Rightarrow> bitmap option" where
  "change_word bm n f = (let i = unat (n div 64) in
     do { w \<leftarrow> word_at bm i; Some (bm[i := f w]) })"

definition BITMAP_WORDBIT :: "bool \<Rightarrow> ulong \<Rightarrow> 64 word" where
  "BITMAP_WORDBIT little n = bitmap_bswap little (push_bit (64 - unat (n mod 64) - 1) 1)"

definition BITMAP_HEADWORDS :: "ulong \<Rightarrow> nat" where
  "BITMAP_HEADWORDS nbits = unat (nbits div 64)"

definition BITMAP_HASTAIL :: "ulong \<Rightarrow> bool" where
  "BITMAP_HASTAIL nbits \<longleftrightarrow> nbits mod 64 \<noteq> 0"

definition BITMAP_TAILBITS :: "bool \<Rightarrow> ulong \<Rightarrow> 64 word" where
  "BITMAP_TAILBITS little nbits = bitmap_bswap little (NOT (drop_bit (unat (nbits mod 64)) (- 1)))"

definition BITMAP_TAIL :: "bool \<Rightarrow> bitmap \<Rightarrow> ulong \<Rightarrow> 64 word option" where
  "BITMAP_TAIL little bm nbits = do { w \<leftarrow> word_at bm (BITMAP_HEADWORDS nbits); Some (w AND BITMAP_TAILBITS little nbits) }"

text \<open>\<^verbatim>\<open>memset\<close> on whole words.\<close>

definition fill_words :: "bitmap \<Rightarrow> nat \<Rightarrow> nat \<Rightarrow> 64 word \<Rightarrow> bitmap option" where
  "fill_words bm i k v =
     (if i + k \<le> length bm then Some (take i bm @ replicate k v @ drop (i + k) bm) else None)"

section \<open>Single bits\<close>

definition bitmap_set_bit :: "bool \<Rightarrow> bitmap \<Rightarrow> ulong \<Rightarrow> bitmap option" where
  "bitmap_set_bit little bm n = change_word bm n (\<lambda>w. w OR BITMAP_WORDBIT little n)"

definition bitmap_clear_bit :: "bool \<Rightarrow> bitmap \<Rightarrow> ulong \<Rightarrow> bitmap option" where
  "bitmap_clear_bit little bm n = change_word bm n (\<lambda>w. w AND NOT (BITMAP_WORDBIT little n))"

definition bitmap_change_bit :: "bool \<Rightarrow> bitmap \<Rightarrow> ulong \<Rightarrow> bitmap option" where
  "bitmap_change_bit little bm n = change_word bm n (\<lambda>w. w XOR BITMAP_WORDBIT little n)"

definition bitmap_test_bit :: "bool \<Rightarrow> bitmap \<Rightarrow> ulong \<Rightarrow> bool option" where
  "bitmap_test_bit little bm n =
     do { w \<leftarrow> word_at bm (unat (n div 64)); Some (w AND BITMAP_WORDBIT little n \<noteq> 0) }"

section \<open>Ranges\<close>

definition BIT_ALIGN_DOWN :: "ulong \<Rightarrow> ulong" where
  "BIT_ALIGN_DOWN n = n AND NOT (64 - 1)"

definition BIT_ALIGN_UP :: "ulong \<Rightarrow> ulong" where
  "BIT_ALIGN_UP n = BIT_ALIGN_DOWN (n + 64 - 1)"

definition headmask_of :: "ulong \<Rightarrow> 64 word" where
  "headmask_of n = drop_bit (unat (n mod 64)) (- 1)"

definition tailmask_of :: "ulong \<Rightarrow> 64 word" where
  "tailmask_of m = NOT (drop_bit (unat (m mod 64)) (- 1))"

definition bitmap_zero_range :: "bool \<Rightarrow> bitmap \<Rightarrow> ulong \<Rightarrow> ulong \<Rightarrow> bitmap option" where
  "bitmap_zero_range little bm n m =
     (let an = BIT_ALIGN_UP n;
          am = BIT_ALIGN_DOWN m;
          headmask = headmask_of n;
          tailmask = tailmask_of m
      in if m < n then None
      else if am < an
      then change_word bm n (\<lambda>w. w AND NOT (bitmap_bswap little (headmask AND tailmask)))
      else do {
        bm \<leftarrow> if an > n then change_word bm n (\<lambda>w. w AND NOT (bitmap_bswap little headmask)) else Some bm;
        bm \<leftarrow> if am > an then fill_words bm (unat (an div 64)) (unat ((am - an) div 64)) 0 else Some bm;
        if m > am then change_word bm m (\<lambda>w. w AND NOT (bitmap_bswap little tailmask)) else Some bm
      })"

definition bitmap_fill_range :: "bool \<Rightarrow> bitmap \<Rightarrow> ulong \<Rightarrow> ulong \<Rightarrow> bitmap option" where
  "bitmap_fill_range little bm n m =
     (let an = BIT_ALIGN_UP n;
          am = BIT_ALIGN_DOWN m;
          headmask = headmask_of n;
          tailmask = tailmask_of m
      in if m < n then None
      else if am < an
      then change_word bm n (\<lambda>w. w OR bitmap_bswap little (headmask AND tailmask))
      else do {
        bm \<leftarrow> if an > n then change_word bm n (\<lambda>w. w OR bitmap_bswap little headmask) else Some bm;
        bm \<leftarrow> if am > an then fill_words bm (unat (an div 64)) (unat ((am - an) div 64)) (- 1) else Some bm;
        if m > am then change_word bm m (\<lambda>w. w OR bitmap_bswap little tailmask) else Some bm
      })"

text \<open>\<^verbatim>\<open>bitmap_clz\<close> without the builtin of the compiler; its loop does not end for the word 0.\<close>

partial_function (option) clz_loop :: "64 word \<Rightarrow> 64 word \<Rightarrow> nat \<Rightarrow> nat option" where
  "clz_loop w m1 lz = (if w AND m1 = 0 then clz_loop w (drop_bit 1 m1) (lz + 1) else Some lz)"

definition bitmap_clz :: "64 word \<Rightarrow> ulong option" where
  "bitmap_clz w = map_option of_nat (clz_loop w (push_bit (64 - 1) 1) 0)"

text \<open>The loop over the whole words, which gives \<open>Some None\<close> when all of them are 0.\<close>

partial_function (option) ffs_words :: "bool \<Rightarrow> bitmap \<Rightarrow> ulong \<Rightarrow> ulong \<Rightarrow> ulong option option" where
  "ffs_words little bm an am =
     (if an < am then
        do { x \<leftarrow> word_at bm (unat (an div 64));
             if bitmap_bswap little x \<noteq> 0
             then do { c \<leftarrow> bitmap_clz (bitmap_bswap little x); Some (Some (an + c)) }
             else ffs_words little bm (an + 64) am }
      else Some None)"

text \<open>A return of the first found bit, or what comes after.\<close>

definition or_found :: "ulong option option \<Rightarrow> ulong option \<Rightarrow> ulong option" where
  "or_found r rest = (case r of None \<Rightarrow> None | Some (Some p) \<Rightarrow> Some p | Some None \<Rightarrow> rest)"

definition found_in :: "bool \<Rightarrow> bitmap \<Rightarrow> ulong \<Rightarrow> 64 word \<Rightarrow> ulong \<Rightarrow> ulong option option" where
  "found_in little bm n msk base =
     do { x \<leftarrow> word_at bm (unat (n div 64));
          let w = bitmap_bswap little x AND msk in
          if w \<noteq> 0 then do { c \<leftarrow> bitmap_clz w; Some (Some (base + c)) } else Some None }"

definition bitmap_ffs :: "bool \<Rightarrow> bitmap \<Rightarrow> ulong \<Rightarrow> ulong \<Rightarrow> ulong option" where
  "bitmap_ffs little bm n m =
     (let an = BIT_ALIGN_UP n;
          am = BIT_ALIGN_DOWN m;
          headmask = headmask_of n;
          tailmask = tailmask_of m
      in if m < n then None
      else if am < an then or_found (found_in little bm n (headmask AND tailmask) am) (Some m)
      else or_found (if an > n then found_in little bm n headmask (BIT_ALIGN_DOWN n) else Some None)
        (or_found (ffs_words little bm an am)
          (or_found (if m > am then found_in little bm m tailmask am else Some None) (Some m))))"

section \<open>Whole bitmaps\<close>

definition bitmap_zero :: "bitmap \<Rightarrow> ulong \<Rightarrow> bitmap option" where
  "bitmap_zero bm nbits = fill_words bm 0 (unat (bitmap_sizeof nbits) div 8) 0"

definition bitmap_fill :: "bitmap \<Rightarrow> ulong \<Rightarrow> bitmap option" where
  "bitmap_fill bm nbits = fill_words bm 0 (unat (bitmap_sizeof nbits) div 8) (- 1)"

definition bitmap_copy :: "bitmap \<Rightarrow> bitmap \<Rightarrow> ulong \<Rightarrow> bitmap option" where
  "bitmap_copy dst src nbits = (let k = unat (bitmap_sizeof nbits) div 8 in
     if k \<le> length dst \<and> k \<le> length src then Some (take k src @ drop k dst) else None)"

text \<open>
  The loop of \<^verbatim>\<open>BITMAP_DEF_BINOP\<close> and of the complement, with \<open>k\<close> words left. The destination may be one of the
  sources: a word is read before it is written and never again.
\<close>

primrec words_loop :: "(nat \<Rightarrow> 64 word option) \<Rightarrow> nat \<Rightarrow> nat \<Rightarrow> bitmap \<Rightarrow> bitmap option" where
  "words_loop f i 0 dst = Some dst"
| "words_loop f i (Suc k) dst =
     do { w \<leftarrow> f i; _ \<leftarrow> word_at dst i; words_loop f (Suc i) k (dst[i := w]) }"

definition bitmap_binop :: "(64 word \<Rightarrow> 64 word \<Rightarrow> 64 word) \<Rightarrow> bitmap \<Rightarrow> bitmap \<Rightarrow> bitmap \<Rightarrow> ulong \<Rightarrow> bitmap option" where
  "bitmap_binop opr dst src1 src2 nbits =
     words_loop (\<lambda>i. do { a \<leftarrow> word_at src1 i; b \<leftarrow> word_at src2 i; Some (opr a b) }) 0 (unat (BITMAP_NWORDS nbits)) dst"

definition bitmap_and :: "bitmap \<Rightarrow> bitmap \<Rightarrow> bitmap \<Rightarrow> ulong \<Rightarrow> bitmap option" where
  "bitmap_and = bitmap_binop (AND)"

definition bitmap_or :: "bitmap \<Rightarrow> bitmap \<Rightarrow> bitmap \<Rightarrow> ulong \<Rightarrow> bitmap option" where
  "bitmap_or = bitmap_binop (OR)"

definition bitmap_xor :: "bitmap \<Rightarrow> bitmap \<Rightarrow> bitmap \<Rightarrow> ulong \<Rightarrow> bitmap option" where
  "bitmap_xor = bitmap_binop (XOR)"

definition bitmap_andnot :: "bitmap \<Rightarrow> bitmap \<Rightarrow> bitmap \<Rightarrow> ulong \<Rightarrow> bitmap option" where
  "bitmap_andnot = bitmap_binop (\<lambda>a b. a AND NOT b)"

definition bitmap_complement :: "bitmap \<Rightarrow> bitmap \<Rightarrow> ulong \<Rightarrow> bitmap option" where
  "bitmap_complement dst src nbits =
     words_loop (\<lambda>i. do { a \<leftarrow> word_at src i; Some (NOT a) }) 0 (unat (BITMAP_NWORDS nbits)) dst"

text \<open>A loop that returns as soon as a word is found that satisfies the condition.\<close>

primrec any_word :: "(nat \<Rightarrow> bool option) \<Rightarrow> nat \<Rightarrow> nat \<Rightarrow> bool option" where
  "any_word c i 0 = Some False"
| "any_word c i (Suc k) = do { b \<leftarrow> c i; if b then Some True else any_word c (Suc i) k }"

definition bitmap_equal :: "bool \<Rightarrow> bitmap \<Rightarrow> bitmap \<Rightarrow> ulong \<Rightarrow> bool option" where
  "bitmap_equal little src1 src2 nbits = (let k = BITMAP_HEADWORDS nbits in
     if length src1 < k \<or> length src2 < k then None
     else if take k src1 \<noteq> take k src2 then Some False
     else if \<not> BITMAP_HASTAIL nbits then Some True
     else do { a \<leftarrow> BITMAP_TAIL little src1 nbits; b \<leftarrow> BITMAP_TAIL little src2 nbits; Some (a = b) })"

definition bitmap_intersects :: "bool \<Rightarrow> bitmap \<Rightarrow> bitmap \<Rightarrow> ulong \<Rightarrow> bool option" where
  "bitmap_intersects little src1 src2 nbits =
     do { d \<leftarrow> any_word (\<lambda>i. do { a \<leftarrow> word_at src1 i; b \<leftarrow> word_at src2 i; Some (a AND b \<noteq> 0) }) 0 (BITMAP_HEADWORDS nbits);
          if d then Some True
          else if BITMAP_HASTAIL nbits
          then do { a \<leftarrow> BITMAP_TAIL little src1 nbits; b \<leftarrow> BITMAP_TAIL little src2 nbits; Some (a AND b \<noteq> 0) }
          else Some False }"

definition bitmap_subset :: "bool \<Rightarrow> bitmap \<Rightarrow> bitmap \<Rightarrow> ulong \<Rightarrow> bool option" where
  "bitmap_subset little src1 src2 nbits =
     do { d \<leftarrow> any_word (\<lambda>i. do { a \<leftarrow> word_at src1 i; b \<leftarrow> word_at src2 i; Some (a AND NOT b \<noteq> 0) }) 0 (BITMAP_HEADWORDS nbits);
          if d then Some False
          else if BITMAP_HASTAIL nbits
          then do { a \<leftarrow> BITMAP_TAIL little src1 nbits; b \<leftarrow> BITMAP_TAIL little src2 nbits; Some (\<not> (a AND NOT b \<noteq> 0)) }
          else Some True }"

definition bitmap_full :: "bool \<Rightarrow> bitmap \<Rightarrow> ulong \<Rightarrow> bool option" where
  "bitmap_full little bm nbits =
     do { d \<leftarrow> any_word (\<lambda>i. do { a \<leftarrow> word_at bm i; Some (a \<noteq> - 1) }) 0 (BITMAP_HEADWORDS nbits);
          if d then Some False
          else if BITMAP_HASTAIL nbits
          then do { a \<leftarrow> BITMAP_TAIL little bm nbits; Some (\<not> (a \<noteq> BITMAP_TAILBITS little nbits)) }
          else Some True }"

definition bitmap_empty :: "bool \<Rightarrow> bitmap \<Rightarrow> ulong \<Rightarrow> bool option" where
  "bitmap_empty little bm nbits =
     do { d \<leftarrow> any_word (\<lambda>i. do { a \<leftarrow> word_at bm i; Some (a \<noteq> 0) }) 0 (BITMAP_HEADWORDS nbits);
          if d then Some False
          else if BITMAP_HASTAIL nbits then do { a \<leftarrow> BITMAP_TAIL little bm nbits; Some (\<not> (a \<noteq> 0)) }
          else Some True }"

section \<open>Allocation\<close>

text \<open>
  \<open>malloc\<close> and \<open>realloc\<close> get the size in bytes and give the words, or \<open>None\<close> without memory; that an
  operation on the new bitmap has no value is the outer \<open>None\<close>.
\<close>

definition bitmap_alloc :: "(nat \<Rightarrow> bitmap option) \<Rightarrow> ulong \<Rightarrow> bitmap option" where
  "bitmap_alloc malloc nbits = malloc (unat (bitmap_sizeof nbits))"

definition bitmap_alloc0 :: "(nat \<Rightarrow> bitmap option) \<Rightarrow> ulong \<Rightarrow> bitmap option option" where
  "bitmap_alloc0 malloc nbits = (case bitmap_alloc malloc nbits of
       None \<Rightarrow> Some None
     | Some bm \<Rightarrow> map_option Some (bitmap_zero bm nbits))"

definition bitmap_alloc1 :: "(nat \<Rightarrow> bitmap option) \<Rightarrow> ulong \<Rightarrow> bitmap option option" where
  "bitmap_alloc1 malloc nbits = (case bitmap_alloc malloc nbits of
       None \<Rightarrow> Some None
     | Some bm \<Rightarrow> map_option Some (bitmap_fill bm nbits))"

definition bitmap_realloc0 ::
  "bool \<Rightarrow> (bitmap \<Rightarrow> nat \<Rightarrow> bitmap option) \<Rightarrow> bitmap \<Rightarrow> ulong \<Rightarrow> ulong \<Rightarrow> bitmap option option" where
  "bitmap_realloc0 little realloc bm obits nbits = (case realloc bm (unat (bitmap_sizeof nbits)) of
       None \<Rightarrow> Some None
     | Some bm \<Rightarrow> if nbits > obits then map_option Some (bitmap_zero_range little bm obits nbits) else Some (Some bm))"

definition bitmap_realloc1 ::
  "bool \<Rightarrow> (bitmap \<Rightarrow> nat \<Rightarrow> bitmap option) \<Rightarrow> bitmap \<Rightarrow> ulong \<Rightarrow> ulong \<Rightarrow> bitmap option option" where
  "bitmap_realloc1 little realloc bm obits nbits = (case realloc bm (unat (bitmap_sizeof nbits)) of
       None \<Rightarrow> Some None
     | Some bm \<Rightarrow> if nbits > obits then map_option Some (bitmap_fill_range little bm obits nbits) else Some (Some bm))"

section \<open>The set that a bitmap stands for\<close>

text \<open>The bit \<open>k\<close> of a word counts from the most significant one of the big-endian value.\<close>

definition word_bit :: "bool \<Rightarrow> 64 word \<Rightarrow> nat \<Rightarrow> bool" where
  "word_bit little w k \<longleftrightarrow> bit (bitmap_bswap little w) (63 - k)"

definition bits_of :: "bool \<Rightarrow> bitmap \<Rightarrow> nat set" where
  "bits_of little bm = {n. n < 64 * length bm \<and> word_bit little (bm ! (n div 64)) (n mod 64)}"

section \<open>Bits of words\<close>

definition swapped :: "bool \<Rightarrow> nat \<Rightarrow> nat" where
  "swapped little k = (if little then 8 * (7 - k div 8) + k mod 8 else k)"

lemma swapped_less: "k < 64 \<Longrightarrow> swapped little k < 64"
  by (simp add: swapped_def) arith

lemma bit_bswap: "k < 64 \<Longrightarrow> bit (bitmap_bswap little w) k \<longleftrightarrow> bit w (swapped little k)"
  using bit_BSWAP_64 [of "k div 8" "k mod 8" w] by (simp add: bitmap_bswap_def cpu_to_be64_def swapped_def)

lemma bswap_twice [simp]: "bitmap_bswap little (bitmap_bswap little w) = w"
  by (simp add: bitmap_bswap_def cpu_to_be64_def)

named_theorems word_bits \<open>the bits of words\<close>

lemma word_bit_logic [word_bits]:
  assumes "k < 64"
  shows "word_bit little (v AND w) k \<longleftrightarrow> word_bit little v k \<and> word_bit little w k"
    and "word_bit little (v OR w) k \<longleftrightarrow> word_bit little v k \<or> word_bit little w k"
    and "word_bit little (v XOR w) k \<longleftrightarrow> word_bit little v k \<noteq> word_bit little w k"
    and "word_bit little (NOT w) k \<longleftrightarrow> \<not> word_bit little w k"
    and "\<not> word_bit little 0 k" and "word_bit little (- 1) k"
    and "word_bit little (bitmap_bswap little x) k \<longleftrightarrow> bit x (63 - k)"
proof -
  have "63 - k < 64" by simp
  note B = bit_bswap [OF this] swapped_less [OF this]
  show "word_bit little (v AND w) k \<longleftrightarrow> word_bit little v k \<and> word_bit little w k"
    "word_bit little (v OR w) k \<longleftrightarrow> word_bit little v k \<or> word_bit little w k"
    "word_bit little (v XOR w) k \<longleftrightarrow> word_bit little v k \<noteq> word_bit little w k"
    "word_bit little (NOT w) k \<longleftrightarrow> \<not> word_bit little w k"
    "\<not> word_bit little 0 k" "word_bit little (- 1) k"
    using B by (simp_all add: word_bit_def bit_simps)
  show "word_bit little (bitmap_bswap little x) k \<longleftrightarrow> bit x (63 - k)" by (simp add: word_bit_def)
qed

lemma word_bit_eqI:
  assumes "\<And>k. k < 64 \<Longrightarrow> word_bit little v k \<longleftrightarrow> word_bit little w k"
  shows "v = w"
proof -
  have "bitmap_bswap little v = bitmap_bswap little w"
  proof (rule bit_word_eqI)
    fix j :: nat assume "j < LENGTH(64)"
    then have j: "j < 64" by simp
    then have "63 - j < 64" "63 - (63 - j) = j" by simp_all
    with assms [of "63 - j"] show "bit (bitmap_bswap little v) j \<longleftrightarrow> bit (bitmap_bswap little w) j"
      by (simp add: word_bit_def)
  qed
  then have "bitmap_bswap little (bitmap_bswap little v) = bitmap_bswap little (bitmap_bswap little w)" by simp
  then show ?thesis by simp
qed

lemma word_eq_iff_bits: "v = w \<longleftrightarrow> (\<forall>k < 64. word_bit little v k \<longleftrightarrow> word_bit little w k)"
  using word_bit_eqI by blast

lemma word_nonzero_bits: "w \<noteq> 0 \<longleftrightarrow> (\<exists>k < 64. word_bit little w k)"
  unfolding word_eq_iff_bits [of w 0 little] using word_bits(5) by blast

section \<open>Numbers of bits\<close>

lemma unat_index [simp]: "unat (n div 64 :: ulong) = unat n div 64" "unat (n mod 64 :: ulong) = unat n mod 64"
  by (simp_all add: unat_div_distrib unat_mod_distrib)

lemma unat_BIT_ALIGN_DOWN [simp]: "unat (BIT_ALIGN_DOWN n) = 64 * (unat n div 64)"
proof -
  have m: "(64 - 1 :: ulong) = mask 6" by (simp add: mask_eq_exp_minus_1)
  have "BIT_ALIGN_DOWN n = push_bit 6 (drop_bit 6 n)"
    unfolding BIT_ALIGN_DOWN_def m by (rule bit_word_eqI) (auto simp: bit_simps)
  then have "BIT_ALIGN_DOWN n = n div 64 * 64" by (simp add: push_bit_eq_mult drop_bit_eq_div)
  moreover have "unat n < 2 ^ 64" using unsigned_less [of n] by simp
  ultimately show ?thesis by (simp add: unat_word_ariths mult.commute)
qed

lemma unat_BIT_ALIGN_UP:
  assumes "unat n + 63 < 2 ^ 64"
  shows "unat (BIT_ALIGN_UP n) = 64 * ((unat n + 63) div 64)"
proof -
  have "unat (n + 63) = unat n + 63" using assms by (simp add: unat_word_ariths)
  then show ?thesis by (simp add: BIT_ALIGN_UP_def add.commute)
qed

lemma bit_headmask [word_bits]: "k < 64 \<Longrightarrow> bit (headmask_of n) (63 - k) \<longleftrightarrow> unat n mod 64 \<le> k"
  by (auto simp: headmask_of_def bit_simps)

lemma bit_tailmask [word_bits]: "k < 64 \<Longrightarrow> bit (tailmask_of m) (63 - k) \<longleftrightarrow> k < unat m mod 64"
  by (auto simp: tailmask_of_def bit_simps)

lemma bit_one [word_bits]: "k < 64 \<Longrightarrow> bit (push_bit (64 - unat (n mod 64 :: ulong) - 1) 1 :: ulong) (63 - k) \<longleftrightarrow> k = unat n mod 64"
  by (auto simp: bit_simps)

section \<open>Changing words\<close>

lemma bits_of_word: "p \<in> bits_of little bm \<longleftrightarrow> p div 64 < length bm \<and> word_bit little (bm ! (p div 64)) (p mod 64)"
  by (simp add: bits_of_def div_less_iff_less_mult mult.commute)

lemma bits_change:
  assumes "i < length bm"
  shows "bits_of little (bm[i := v]) = {p \<in> bits_of little bm. p div 64 \<noteq> i} \<union> {p. p div 64 = i \<and> word_bit little v (p mod 64)}"
proof (rule set_eqI)
  fix p
  show "p \<in> bits_of little (bm[i := v]) \<longleftrightarrow>
      p \<in> {p \<in> bits_of little bm. p div 64 \<noteq> i} \<union> {p. p div 64 = i \<and> word_bit little v (p mod 64)}"
    using assms by (cases "p div 64 = i") (auto simp: bits_of_word)
qed

text \<open>Taking bits out of a word, putting bits into it and inverting bits of it.\<close>

lemma change_clear:
  assumes "unat n div 64 < length bm"
  shows "\<exists>bm'. change_word bm n (\<lambda>w. w AND NOT (bitmap_bswap little x)) = Some bm' \<and> length bm' = length bm
    \<and> bits_of little bm' = bits_of little bm - {p. p div 64 = unat n div 64 \<and> bit x (63 - p mod 64)}"
  using assms by (auto simp: change_word_def word_at_def Let_def bits_change word_bits) (auto simp: bits_of_word)

lemma change_add:
  assumes "unat n div 64 < length bm"
  shows "\<exists>bm'. change_word bm n (\<lambda>w. w OR bitmap_bswap little x) = Some bm' \<and> length bm' = length bm
    \<and> bits_of little bm' = bits_of little bm \<union> {p. p div 64 = unat n div 64 \<and> bit x (63 - p mod 64)}"
  using assms by (auto simp: change_word_def word_at_def Let_def bits_change word_bits) (auto simp: bits_of_word)

lemma change_invert:
  assumes "unat n div 64 < length bm"
  shows "\<exists>bm'. change_word bm n (\<lambda>w. w XOR bitmap_bswap little x) = Some bm' \<and> length bm' = length bm
    \<and> bits_of little bm' = {p. p \<in> bits_of little bm \<longleftrightarrow> \<not> (p div 64 = unat n div 64 \<and> bit x (63 - p mod 64))}"
  using assms by (auto simp: change_word_def word_at_def Let_def bits_change word_bits) (auto simp: bits_of_word)

lemma fill_words_bits:
  assumes "i + k \<le> length bm"
  shows "\<exists>bm'. fill_words bm i k (if b then - 1 else 0) = Some bm' \<and> length bm' = length bm
    \<and> bits_of little bm' = (if b then bits_of little bm \<union> {64 * i..<64 * (i + k)} else bits_of little bm - {64 * i..<64 * (i + k)})"
proof -
  let ?v = "if b then - 1 else 0 :: 64 word"
  let ?bm = "take i bm @ replicate k ?v @ drop (i + k) bm"
  have nth: "?bm ! j = (if i \<le> j \<and> j < i + k then ?v else bm ! j)" if "j < length bm" for j
    using assms that by (auto simp: nth_append)
  have len: "length ?bm = length bm" using assms by simp
  have "bits_of little ?bm = (if b then bits_of little bm \<union> {64 * i..<64 * (i + k)} else bits_of little bm - {64 * i..<64 * (i + k)})"
  proof (rule set_eqI)
    fix p
    have "i \<le> p div 64 \<and> p div 64 < i + k \<longleftrightarrow> 64 * i \<le> p \<and> p < 64 * (i + k)" by auto
    then have "p \<in> bits_of little ?bm \<longleftrightarrow> (if 64 * i \<le> p \<and> p < 64 * (i + k) then b else p \<in> bits_of little bm)"
      using assms nth [of "p div 64"] by (auto simp: bits_of_word len word_bits)
    then show "p \<in> bits_of little ?bm \<longleftrightarrow>
        p \<in> (if b then bits_of little bm \<union> {64 * i..<64 * (i + k)} else bits_of little bm - {64 * i..<64 * (i + k)})"
      by (simp split: if_split) auto
  qed
  then show ?thesis using assms len unfolding fill_words_def by simp
qed

section \<open>Ranges as sets\<close>

text \<open>Filling and zeroing a range differ only in what is done to a word; \<open>b\<close> is the new value of the bits.\<close>

definition put :: "bool \<Rightarrow> 64 word \<Rightarrow> 64 word \<Rightarrow> 64 word" where
  "put b x w = (if b then w OR x else w AND NOT x)"

definition range_op :: "bool \<Rightarrow> bool \<Rightarrow> bitmap \<Rightarrow> ulong \<Rightarrow> ulong \<Rightarrow> bitmap option" where
  "range_op b little bm n m =
     (let an = BIT_ALIGN_UP n; am = BIT_ALIGN_DOWN m
      in if m < n then None
      else if am < an then change_word bm n (put b (bitmap_bswap little (headmask_of n AND tailmask_of m)))
      else do {
        bm \<leftarrow> if an > n then change_word bm n (put b (bitmap_bswap little (headmask_of n))) else Some bm;
        bm \<leftarrow> if am > an then fill_words bm (unat (an div 64)) (unat ((am - an) div 64)) (if b then - 1 else 0) else Some bm;
        if m > am then change_word bm m (put b (bitmap_bswap little (tailmask_of m))) else Some bm
      })"

lemma put_cases: "put False x = (\<lambda>w. w AND NOT x)" "put True x = (\<lambda>w. w OR x)"
  by (simp_all add: put_def fun_eq_iff)

lemma range_op_cases:
  "bitmap_zero_range little bm n m = range_op False little bm n m"
  "bitmap_fill_range little bm n m = range_op True little bm n m"
  by (simp_all only: bitmap_zero_range_def bitmap_fill_range_def range_op_def put_cases Let_def if_True if_False)

definition put_set :: "bool \<Rightarrow> nat set \<Rightarrow> nat set \<Rightarrow> nat set" where
  "put_set b P S = (if b then S \<union> P else S - P)"

lemma put_set_simps [simp]: "put_set b {} S = S" "put_set b Q (put_set b P S) = put_set b (P \<union> Q) S"
  by (auto simp: put_set_def)

lemma change_put:
  assumes "unat n div 64 < length bm"
  shows "\<exists>bm'. change_word bm n (put b (bitmap_bswap little x)) = Some bm' \<and> length bm' = length bm
    \<and> bits_of little bm' = put_set b {p. p div 64 = unat n div 64 \<and> bit x (63 - p mod 64)} (bits_of little bm)"
  using change_add [OF assms, of little x] change_clear [OF assms, of little x]
  by (cases b) (simp_all add: put_def [abs_def] put_set_def)

lemma fill_put:
  "i + k \<le> length bm \<Longrightarrow> \<exists>bm'. fill_words bm i k (if b then - 1 else 0) = Some bm' \<and> length bm' = length bm
    \<and> bits_of little bm' = put_set b {64 * i..<64 * (i + k)} (bits_of little bm)"
  unfolding put_set_def by (rule fill_words_bits)

lemma split_up:
  fixes a b r s :: nat
  assumes "r < 64" and "s < 64"
  shows "b = a \<and> r \<le> s \<longleftrightarrow> 64 * a + r \<le> 64 * b + s \<and> 64 * b + s < 64 * a + 64"
  using assms by (cases a b rule: linorder_cases) auto

lemma split_down:
  fixes a b r s :: nat
  assumes "r < 64" and "s < 64"
  shows "b = a \<and> s < r \<longleftrightarrow> 64 * a \<le> 64 * b + s \<and> 64 * b + s < 64 * a + r"
  using assms by (cases a b rule: linorder_cases) auto
lemma words_up: "(n + 63) div 64 = n div 64 + (if n mod 64 = 0 then 0 else 1)" for n :: nat
proof -
  obtain a r where n: "n = 64 * a + r" "r < 64" by (metis mult_div_mod_eq mod_less_divisor zero_less_numeral)
  have "r = 0 \<or> (\<exists>s. r = Suc s \<and> s < 64)" using n(2) by (cases r) auto
  then show ?thesis
  proof (elim disjE exE conjE)
    fix s assume s: "r = Suc s" "s < 64"
    then have "(n + 63) div 64 = (s + 64 * (a + 1)) div 64" by (simp add: n)
    also have "\<dots> = a + 1" using s(2) by simp
    finally show ?thesis using n s by simp
  qed (simp add: n)
qed
text \<open>The parts of a range: inside a word, up to the end of a word, from the start of a word.\<close>

lemma range_parts:
  fixes n m :: nat
  shows "n div 64 = m div 64 \<Longrightarrow> {p. p div 64 = n div 64 \<and> n mod 64 \<le> p mod 64 \<and> p mod 64 < m mod 64} = {n..<m}"
    and "{p. p div 64 = n div 64 \<and> n mod 64 \<le> p mod 64} = {n..<64 * (n div 64) + 64}"
    and "{p. p div 64 = m div 64 \<and> p mod 64 < m mod 64} = {64 * (m div 64)..<m}"
proof -
  note up = split_up [of "n mod 64" "p mod 64" "p div 64" "n div 64" for p]
    and down = split_down [of "m mod 64" "p mod 64" "p div 64" "m div 64" for p]
  show U: "{p. p div 64 = n div 64 \<and> n mod 64 \<le> p mod 64} = {n..<64 * (n div 64) + 64}"
    using up by (auto simp: set_eq_iff)
  show D: "{p. p div 64 = m div 64 \<and> p mod 64 < m mod 64} = {64 * (m div 64)..<m}"
    using down by (auto simp: set_eq_iff)
  assume e: "n div 64 = m div 64"
  have "{p. p div 64 = n div 64 \<and> n mod 64 \<le> p mod 64 \<and> p mod 64 < m mod 64} =
      {p. p div 64 = n div 64 \<and> n mod 64 \<le> p mod 64} \<inter> {p. p div 64 = m div 64 \<and> p mod 64 < m mod 64}"
    unfolding e [symmetric] by blast
  also have "\<dots> = {n..<m}"
    unfolding U D using e split_up [of 0 "m mod 64" "m div 64" "m div 64"] by auto
  finally show "{p. p div 64 = n div 64 \<and> n mod 64 \<le> p mod 64 \<and> p mod 64 < m mod 64} = {n..<m}" .
qed

text \<open>
  A range within a bitmap: it lies inside a word, or it is the rest of a word, whole words, and the start of
  a word, where the first and the last part may be empty.
\<close>

definition good_range :: "bitmap \<Rightarrow> ulong \<Rightarrow> ulong \<Rightarrow> bool" where
  "good_range bm n m \<longleftrightarrow> length bm < 2 ^ 58 \<and> n \<le> m \<and> unat m \<le> 64 * length bm"

abbreviation first_word :: "ulong \<Rightarrow> nat" where "first_word n \<equiv> (unat n + 63) div 64"

lemma range_basics:
  assumes "good_range bm n m"
  shows "\<not> m < n" and "unat n \<le> unat m" and "unat (BIT_ALIGN_UP n) = 64 * first_word n"
proof -
  show "\<not> m < n" "unat n \<le> unat m" using assms by (simp_all add: good_range_def word_le_nat_alt not_less)
  then have "unat n + 63 < 2 ^ 64" using assms by (simp add: good_range_def)
  then show "unat (BIT_ALIGN_UP n) = 64 * first_word n" by (rule unat_BIT_ALIGN_UP)
qed

lemma inside_word:
  assumes "good_range bm n m" and "BIT_ALIGN_DOWN m < BIT_ALIGN_UP n"
  shows "unat n div 64 = unat m div 64" and "unat n div 64 < length bm"
proof -
  note R = range_basics [OF assms(1)]
  have "64 * (unat m div 64) < 64 * first_word n" using assms(2) by (simp only: word_less_nat_alt unat_BIT_ALIGN_DOWN R(3))
  moreover have "unat n div 64 \<le> unat m div 64" using R(2) by (rule div_le_mono)
  ultimately have "unat n div 64 = unat m div 64" "unat n mod 64 \<noteq> 0" by (simp_all add: words_up split: if_splits)
  moreover have "unat n = 64 * (unat n div 64) + unat n mod 64" by simp
  ultimately show "unat n div 64 = unat m div 64" "unat n div 64 < length bm"
    using R(2) assms(1) unfolding good_range_def by linarith+
qed

lemma many_words:
  assumes "good_range bm n m" and "\<not> BIT_ALIGN_DOWN m < BIT_ALIGN_UP n"
  shows "unat n \<le> 64 * first_word n" and "first_word n \<le> unat m div 64" and "64 * (unat m div 64) \<le> unat m"
    and "unat m div 64 \<le> length bm"
proof -
  note R = range_basics [OF assms(1)]
  have "64 * first_word n + (unat n + 63) mod 64 = unat n + 63" "(unat n + 63) mod 64 < 64" by simp_all
  then show "unat n \<le> 64 * first_word n" by linarith
  show "first_word n \<le> unat m div 64"
    using assms(2) by (simp only: word_less_nat_alt R(3) unat_BIT_ALIGN_DOWN not_less mult_le_cancel1)
  show "64 * (unat m div 64) \<le> unat m" by simp
  have "64 * (unat m div 64) \<le> 64 * length bm" using assms(1) \<open>64 * (unat m div 64) \<le> unat m\<close>
    unfolding good_range_def by linarith
  then show "unat m div 64 \<le> length bm" by simp
qed

lemma head_word:
  assumes "good_range bm n m"
  shows "if n < BIT_ALIGN_UP n then 64 * first_word n = 64 * (unat n div 64) + 64 \<and> unat n div 64 < length bm
    else 64 * first_word n = unat n"
proof (cases "unat n mod 64 = 0")
  case True
  then have "64 * first_word n = unat n" using mult_div_mod_eq [of 64 "unat n"] by (simp add: words_up)
  then show ?thesis by (simp add: word_less_nat_alt range_basics(3) [OF assms])
next
  case False
  then have "64 * first_word n = 64 * (unat n div 64) + 64" by (simp add: words_up)
  moreover have "unat n = 64 * (unat n div 64) + unat n mod 64" "unat n mod 64 < 64" by simp_all
  ultimately have "unat n < 64 * first_word n" "64 * (unat n div 64) < unat n" using False by linarith+
  then show ?thesis using range_basics(2) [OF assms] assms \<open>64 * first_word n = _\<close>
    by (simp add: word_less_nat_alt range_basics(3) [OF assms] good_range_def)
qed

lemma tail_word:
  assumes "good_range bm n m"
  shows "if BIT_ALIGN_DOWN m < m then unat m div 64 < length bm else 64 * (unat m div 64) = unat m"
proof -
  have "unat m = 64 * (unat m div 64) + unat m mod 64" by simp
  moreover have "unat m \<le> 64 * length bm" using assms by (simp add: good_range_def)
  ultimately show ?thesis unfolding word_less_nat_alt unat_BIT_ALIGN_DOWN by auto
qed

text \<open>The three steps of filling or zeroing a range.\<close>

lemma range_head:
  assumes "good_range bm n m"
  shows "\<exists>bm'. (if BIT_ALIGN_UP n > n then change_word bm n (put b (bitmap_bswap little (headmask_of n))) else Some bm) = Some bm'
    \<and> length bm' = length bm \<and> bits_of little bm' = put_set b {unat n..<64 * first_word n} (bits_of little bm)"
proof (cases "BIT_ALIGN_UP n > n")
  case True
  with head_word [OF assms] have up: "64 * first_word n = 64 * (unat n div 64) + 64" and i: "unat n div 64 < length bm" by simp_all
  have "{p. p div 64 = unat n div 64 \<and> bit (headmask_of n) (63 - p mod 64)} = {unat n..<64 * first_word n}"
    unfolding up by (subst range_parts(2) [symmetric]) (simp add: word_bits)
  with change_put [OF i, of b little "headmask_of n"] True show ?thesis by auto
qed (use head_word [OF assms] in simp)

lemma range_words:
  assumes "good_range bm n m" and "\<not> BIT_ALIGN_DOWN m < BIT_ALIGN_UP n" and "length bm1 = length bm"
    and "an = BIT_ALIGN_UP n" and "am = BIT_ALIGN_DOWN m"
  shows "\<exists>bm'. (if am > an then fill_words bm1 (unat (an div 64)) (unat ((am - an) div 64)) (if b then - 1 else 0) else Some bm1) = Some bm'
    \<and> length bm' = length bm \<and> bits_of little bm' = put_set b {64 * first_word n..<64 * (unat m div 64)} (bits_of little bm1)"
proof (cases "am > an")
  case True
  note an = range_basics(3) [OF assms(1)] and M = many_words [OF assms(1,2)]
  have "unat (am - an) = 64 * (unat m div 64) - 64 * first_word n"
    using True by (simp add: unat_sub an word_less_nat_alt word_le_nat_alt assms(4,5))
  then have k: "unat ((am - an) div 64) = unat m div 64 - first_word n" "unat (an div 64) = first_word n"
    by (simp_all add: an assms(4) flip: diff_mult_distrib2)
  have "first_word n + (unat m div 64 - first_word n) \<le> length bm1" using M(2,4) assms(3) by simp
  from fill_put [OF this, of b little] True k M(2) assms(3) show ?thesis by auto
next
  case False
  with assms(2,4,5) have "64 * first_word n = 64 * (unat m div 64)"
    by (simp add: word_less_nat_alt range_basics(3) [OF assms(1)])
  with False assms(3) show ?thesis by simp
qed

lemma range_tail:
  assumes "good_range bm n m" and "length bm2 = length bm"
  shows "\<exists>bm'. (if m > BIT_ALIGN_DOWN m then change_word bm2 m (put b (bitmap_bswap little (tailmask_of m))) else Some bm2) = Some bm'
    \<and> length bm' = length bm \<and> bits_of little bm' = put_set b {64 * (unat m div 64)..<unat m} (bits_of little bm2)"
proof (cases "m > BIT_ALIGN_DOWN m")
  case True
  with tail_word [OF assms(1)] assms(2) have j: "unat m div 64 < length bm2" by simp
  have "{p. p div 64 = unat m div 64 \<and> bit (tailmask_of m) (63 - p mod 64)} = {64 * (unat m div 64)..<unat m}"
    by (subst range_parts(3) [symmetric]) (simp add: word_bits)
  with change_put [OF j, of b little "tailmask_of m"] True assms(2) show ?thesis by auto
qed (use tail_word [OF assms(1)] assms(2) in simp)

lemma range_op_bits:
  assumes "length bm < 2 ^ 58" and "n \<le> m" and "unat m \<le> 64 * length bm"
  shows "\<exists>bm'. range_op b little bm n m = Some bm' \<and> length bm' = length bm
    \<and> bits_of little bm' = put_set b {unat n..<unat m} (bits_of little bm)"
proof -
  have G: "good_range bm n m" using assms by (simp add: good_range_def)
  note lt = range_basics(1) [OF G]
  show ?thesis
  proof (cases "BIT_ALIGN_DOWN m < BIT_ALIGN_UP n")
    case True
    note I = inside_word [OF G True]
    have set: "{p. p div 64 = unat n div 64 \<and> bit (headmask_of n AND tailmask_of m) (63 - p mod 64)} = {unat n..<unat m}"
      by (subst range_parts(1) [OF I(1), symmetric]) (simp add: bit_and_iff word_bits)
    have "range_op b little bm n m = change_word bm n (put b (bitmap_bswap little (headmask_of n AND tailmask_of m)))"
      using True lt by (simp add: range_op_def Let_def)
    with change_put [OF I(2), of b little "headmask_of n AND tailmask_of m"] set show ?thesis by simp
  next
    case False
    note M = many_words [OF G False]
    obtain bm1 where bm1: "(if BIT_ALIGN_UP n > n then change_word bm n (put b (bitmap_bswap little (headmask_of n))) else Some bm) = Some bm1"
      "length bm1 = length bm" "bits_of little bm1 = put_set b {unat n..<64 * first_word n} (bits_of little bm)"
      using range_head [OF G] by blast
    from range_words [OF G False this(2) refl refl] obtain bm2 where bm2: "(if BIT_ALIGN_DOWN m > BIT_ALIGN_UP n
        then fill_words bm1 (unat (BIT_ALIGN_UP n div 64)) (unat ((BIT_ALIGN_DOWN m - BIT_ALIGN_UP n) div 64)) (if b then - 1 else 0)
        else Some bm1) = Some bm2" "length bm2 = length bm"
      "bits_of little bm2 = put_set b {64 * first_word n..<64 * (unat m div 64)} (bits_of little bm1)" by blast
    from range_tail [OF G this(2)] obtain bm3 where bm3: "(if m > BIT_ALIGN_DOWN m
        then change_word bm2 m (put b (bitmap_bswap little (tailmask_of m))) else Some bm2) = Some bm3"
      "length bm3 = length bm" "bits_of little bm3 = put_set b {64 * (unat m div 64)..<unat m} (bits_of little bm2)" by blast
    have "{unat n..<64 * first_word n} \<union> {64 * first_word n..<64 * (unat m div 64)} \<union> {64 * (unat m div 64)..<unat m} = {unat n..<unat m}"
      using M by (simp add: ivl_disj_un)
    then have "bits_of little bm3 = put_set b {unat n..<unat m} (bits_of little bm)"
      by (simp add: bm3(3) bm2(3) bm1(3) Un_assoc)
    moreover have "range_op b little bm n m = Some bm3"
      using False lt bm1(1) bm2(1) bm3(1) by (simp only: range_op_def Let_def if_False Option.bind.simps)
    ultimately show ?thesis using bm3(2) by blast
  qed
qed

section \<open>The first set bit\<close>

declare clz_loop.simps [code] ffs_words.simps [code]

lemma and_one_bit: "w AND push_bit k 1 = 0 \<longleftrightarrow> \<not> bit w k" if "k < 64" for w :: "64 word"
proof -
  have "w AND push_bit k 1 = (if bit w k then push_bit k 1 else 0)"
    using that by (intro bit_word_eqI) (auto simp: bit_simps)
  moreover have "push_bit k 1 \<noteq> (0 :: 64 word)" using that by (auto simp: bit_eq_iff bit_simps)
  ultimately show ?thesis by simp
qed

lemma and_power_bit: "w AND 2 ^ k = 0 \<longleftrightarrow> \<not> bit w k" if "k < 64" for w :: "64 word"
  using and_one_bit [OF that, of w] by (simp add: push_bit_eq_mult)

lemma clz_loop_first:
  assumes "k \<le> j" and "j < 64" and "bit w (63 - j)" and "\<forall>i. k \<le> i \<and> i < j \<longrightarrow> \<not> bit w (63 - i)"
  shows "clz_loop w (push_bit (63 - k) 1) k = Some j"
  using assms
proof (induction "j - k" arbitrary: k)
  case 0
  then show ?case by (subst clz_loop.simps) (simp add: and_power_bit)
next
  case (Suc d)
  then have k: "k < j" "\<not> bit w (63 - k)" by auto
  then have "drop_bit 1 (push_bit (63 - k) 1) = (push_bit (63 - Suc k) 1 :: 64 word)"
    using Suc.prems(2) by (intro bit_word_eqI) (auto simp: bit_simps)
  then have "clz_loop w (push_bit (63 - k) 1) k = clz_loop w (push_bit (63 - Suc k) 1) (Suc k)"
    using k by (subst clz_loop.simps) (simp add: and_power_bit)
  also have "\<dots> = Some j" using Suc k by (intro Suc.hyps(1)) auto
  finally show ?case .
qed

lemma clz_first:
  assumes "w \<noteq> 0"
  obtains j where "bitmap_clz w = Some (of_nat j)" and "j < 64" and "bit w (63 - j)" and "\<forall>i < j. \<not> bit w (63 - i)"
proof -
  define Q where "Q j \<longleftrightarrow> j < 64 \<and> bit w (63 - j)" for j
  obtain l where "l < 64" "bit w l" using assms by (auto simp: bit_eq_iff bit_simps dest: bit_imp_le_length)
  then have "Q (63 - l)" by (simp add: Q_def)
  then have "Q (LEAST j. Q j)" by (rule LeastI)
  moreover have "\<forall>i < (LEAST j. Q j). \<not> Q i" using not_less_Least by blast
  ultimately have j: "(LEAST j. Q j) < 64" "bit w (63 - (LEAST j. Q j))" "\<forall>i < (LEAST j. Q j). \<not> bit w (63 - i)"
    by (auto simp: Q_def)
  with clz_loop_first [of 0 "LEAST j. Q j" w] that show ?thesis by (auto simp: bitmap_clz_def)
qed

text \<open>A search in the part \<open>P\<close>, from the front.\<close>

definition search_ok :: "nat set \<Rightarrow> nat set \<Rightarrow> ulong option option \<Rightarrow> bool" where
  "search_ok S P r \<longleftrightarrow> (case r of None \<Rightarrow> False
     | Some None \<Rightarrow> S \<inter> P = {}
     | Some (Some q) \<Rightarrow> unat q \<in> S \<inter> P \<and> (\<forall>p \<in> S \<inter> P. unat q \<le> p))"

lemma unat_add_small: "unat b = 64 * i \<Longrightarrow> i < 2 ^ 58 \<Longrightarrow> j < 64 \<Longrightarrow> unat (b + of_nat j :: ulong) = 64 * i + j"
  by (simp add: unat_word_ariths unat_of_nat)

lemma word_search:
  assumes "i < length bm" and "i < 2 ^ 58" and "unat b = 64 * i" and "w = bitmap_bswap little (bm ! i) AND msk"
  shows "search_ok (bits_of little bm) {p. p div 64 = i \<and> bit msk (63 - p mod 64)}
    (if w \<noteq> 0 then do { c \<leftarrow> bitmap_clz w; Some (Some (b + c)) } else Some None)"
proof -
  have bits: "p \<in> bits_of little bm \<inter> {p. p div 64 = i \<and> bit msk (63 - p mod 64)} \<longleftrightarrow> p div 64 = i \<and> bit w (63 - p mod 64)" for p
    using assms(1,4) by (auto simp: bits_of_word word_bit_def bit_and_iff)
  show ?thesis
  proof (cases "w = 0")
    case True
    with bits show ?thesis by (auto simp: search_ok_def set_eq_iff)
  next
    case False
    then obtain j where j: "bitmap_clz w = Some (of_nat j)" "j < 64" "bit w (63 - j)" "\<forall>i < j. \<not> bit w (63 - i)"
      by (rule clz_first)
    have q: "unat (b + of_nat j) = 64 * i + j" by (rule unat_add_small [OF assms(3,2) j(2)])
    have "64 * i + j \<le> p" if "p div 64 = i" "bit w (63 - p mod 64)" for p
    proof -
      have "j \<le> p mod 64" using j(4) that(2) by (metis not_le)
      then show ?thesis using that(1) by (metis add_le_cancel_left mult_div_mod_eq)
    qed
    moreover have "64 * i + j \<in> bits_of little bm \<inter> {p. p div 64 = i \<and> bit msk (63 - p mod 64)}"
      using bits [of "64 * i + j"] j(2,3) by simp
    ultimately show ?thesis using False j(1) q bits by (simp add: search_ok_def)
  qed
qed

definition first_bit :: "nat set \<Rightarrow> nat \<Rightarrow> nat \<Rightarrow> nat \<Rightarrow> bool" where
  "first_bit S n m r \<longleftrightarrow> n \<le> r \<and> r \<le> m \<and> S \<inter> {n..<r} = {} \<and> (r < m \<longrightarrow> r \<in> S)"

lemma search_none [simp]: "search_ok S {} (Some None)"
  by (simp add: search_ok_def)

lemma search_joined:
  assumes "search_ok S {a..<b} r" and "a \<le> b" and "b \<le> c"
    and "r = Some None \<Longrightarrow> search_ok S {b..<c} r'"
  shows "search_ok S {a..<c} (case r of None \<Rightarrow> None | Some (Some q) \<Rightarrow> Some (Some q) | Some None \<Rightarrow> r')"
proof (cases r)
  case (Some x)
  have u: "{a..<c} = {a..<b} \<union> {b..<c}" using assms(2,3) by (simp add: ivl_disj_un)
  show ?thesis
  proof (cases x)
    case None
    with Some assms(1,4) show ?thesis unfolding u by (auto simp: search_ok_def split: option.splits)
  next
    case found: (Some q)
    with Some assms(1) have q: "unat q \<in> S" "a \<le> unat q" "unat q < b" "\<forall>p \<in> S \<inter> {a..<b}. unat q \<le> p"
      by (auto simp: search_ok_def)
    have "unat q \<le> p" if "p \<in> S \<inter> {a..<c}" for p using q that by (cases "p < b") auto
    with q assms(3) Some found show ?thesis by (auto simp: search_ok_def)
  qed
qed (use assms(1) in \<open>simp add: search_ok_def\<close>)

lemma or_found_first:
  assumes "search_ok S {a..<b} r" and "a \<le> b" and "b \<le> m" and "\<exists>q. rest = Some q \<and> first_bit S b m (unat q)"
  shows "\<exists>q. or_found r rest = Some q \<and> first_bit S a m (unat q)"
proof (cases r)
  case (Some x)
  show ?thesis
  proof (cases x)
    case None
    obtain q where q: "rest = Some q" "b \<le> unat q" "unat q \<le> m" "S \<inter> {b..<unat q} = {}" "unat q < m \<longrightarrow> unat q \<in> S"
      using assms(4) by (auto simp: first_bit_def)
    have "{a..<unat q} = {a..<b} \<union> {b..<unat q}" using assms(2) q(2) by (simp add: ivl_disj_un)
    with q assms(1,2) Some None show ?thesis by (auto simp: or_found_def first_bit_def search_ok_def)
  next
    case found: (Some q)
    with Some assms(1) have q: "unat q \<in> S" "a \<le> unat q" "unat q < b" "\<forall>p \<in> S \<inter> {a..<b}. unat q \<le> p"
      by (auto simp: search_ok_def)
    have "p \<notin> S" if "a \<le> p" "p < unat q" for p
    proof
      assume "p \<in> S"
      with that q(3) have "p \<in> S \<inter> {a..<b}" by simp
      with q(4) have "unat q \<le> p" by (rule bspec)
      with that(2) show False by simp
    qed
    then have "S \<inter> {a..<unat q} = {}" by auto
    with q show ?thesis using Some found assms(3) by (auto simp: or_found_def first_bit_def)
  qed
qed (use assms(1) in \<open>simp add: search_ok_def\<close>)

lemma found_in_search:
  assumes "unat n div 64 < length bm" and "length bm < 2 ^ 58" and "unat b = 64 * (unat n div 64)"
  shows "search_ok (bits_of little bm) {p. p div 64 = unat n div 64 \<and> bit msk (63 - p mod 64)} (found_in little bm n msk b)"
  using word_search [OF assms(1) _ assms(3) refl, of little msk] assms(1,2)
  by (simp add: found_in_def word_at_def Let_def)

lemma ffs_words_search:
  assumes "i \<le> j" and "j \<le> length bm" and "length bm < 2 ^ 58" and "unat an = 64 * i" and "unat am = 64 * j"
  shows "search_ok (bits_of little bm) {64 * i..<64 * j} (ffs_words little bm an am)"
  using assms
proof (induction "j - i" arbitrary: i an)
  case 0
  then have "\<not> an < am" by (simp add: word_less_nat_alt)
  with 0 show ?case by (subst ffs_words.simps) simp
next
  case (Suc d)
  then have lt: "i < j" "an < am" "i < length bm" "i < 2 ^ 58" by (simp_all add: word_less_nat_alt)
  let ?w = "bitmap_bswap little (bm ! i)"
  let ?r = "if ?w \<noteq> 0 then do { c \<leftarrow> bitmap_clz ?w; Some (Some (an + c)) } else Some None"
  have "{p. p div 64 = i} = {64 * i..<64 * i + 64}" using range_parts(2) [of "64 * i"] by simp
  moreover have "bit (- 1 :: 64 word) (63 - p mod 64)" for p by (simp add: bit_simps)
  ultimately have r: "search_ok (bits_of little bm) {64 * i..<64 * Suc i} ?r"
    using word_search [OF lt(3,4) Suc.prems(4), of ?w little "- 1"] by (simp add: add.commute)
  have up: "unat (an + 64) = 64 * Suc i" using Suc.prems lt(1) by (simp add: unat_word_ariths)
  have next_words: "search_ok (bits_of little bm) {64 * Suc i..<64 * j} (ffs_words little bm (an + 64) am)"
    using Suc lt(1) up by (intro Suc.hyps(1)) auto
  have step: "ffs_words little bm an am = (case ?r of None \<Rightarrow> None | Some (Some q) \<Rightarrow> Some (Some q)
      | Some None \<Rightarrow> ffs_words little bm (an + 64) am)"
    using lt Suc.prems(4) by (subst ffs_words.simps) (auto simp: word_at_def split: option.split bind_splits)
  have "64 * i \<le> 64 * Suc i" "64 * Suc i \<le> 64 * j" using lt(1) by simp_all
  from search_joined [OF r this next_words] show ?case by (simp only: step)
qed

text \<open>The search before and after the whole words.\<close>

lemma ffs_head:
  assumes "good_range bm n m"
  shows "search_ok (bits_of little bm) {unat n..<64 * first_word n}
    (if BIT_ALIGN_UP n > n then found_in little bm n (headmask_of n) (BIT_ALIGN_DOWN n) else Some None)"
proof (cases "BIT_ALIGN_UP n > n")
  case True
  with head_word [OF assms] have up: "64 * first_word n = 64 * (unat n div 64) + 64" and i: "unat n div 64 < length bm" by simp_all
  have l: "length bm < 2 ^ 58" using assms by (simp add: good_range_def)
  have "search_ok (bits_of little bm) {unat n..<64 * first_word n} (found_in little bm n (headmask_of n) (BIT_ALIGN_DOWN n))"
    using found_in_search [OF i l unat_BIT_ALIGN_DOWN, of little "headmask_of n"]
    unfolding up by (subst range_parts(2) [symmetric]) (simp add: word_bits)
  with True show ?thesis by simp
qed (use head_word [OF assms] in simp)

lemma ffs_tail:
  assumes "good_range bm n m"
  shows "search_ok (bits_of little bm) {64 * (unat m div 64)..<unat m}
    (if m > BIT_ALIGN_DOWN m then found_in little bm m (tailmask_of m) (BIT_ALIGN_DOWN m) else Some None)"
proof (cases "m > BIT_ALIGN_DOWN m")
  case True
  with tail_word [OF assms] have j: "unat m div 64 < length bm" by simp
  have l: "length bm < 2 ^ 58" using assms by (simp add: good_range_def)
  have "search_ok (bits_of little bm) {64 * (unat m div 64)..<unat m} (found_in little bm m (tailmask_of m) (BIT_ALIGN_DOWN m))"
    using found_in_search [OF j l unat_BIT_ALIGN_DOWN, of little "tailmask_of m"]
    by (subst range_parts(3) [symmetric]) (simp add: word_bits)
  with True show ?thesis by simp
qed (use tail_word [OF assms] in simp)

lemma ffs_finds:
  assumes "length bm < 2 ^ 58" and "n \<le> m" and "unat m \<le> 64 * length bm"
  shows "\<exists>r. bitmap_ffs little bm n m = Some r \<and> first_bit (bits_of little bm) (unat n) (unat m) (unat r)"
proof -
  let ?S = "bits_of little bm"
  have G: "good_range bm n m" using assms by (simp add: good_range_def)
  note R = range_basics [OF G]
  have last: "\<exists>q. Some m = Some q \<and> first_bit ?S (unat m) (unat m) (unat q)" by (simp add: first_bit_def)
  show ?thesis
  proof (cases "BIT_ALIGN_DOWN m < BIT_ALIGN_UP n")
    case True
    note I = inside_word [OF G True]
    have "unat (BIT_ALIGN_DOWN m) = 64 * (unat n div 64)" by (simp add: I(1))
    from found_in_search [OF I(2) assms(1) this, of little "headmask_of n AND tailmask_of m"]
    have "search_ok ?S {unat n..<unat m} (found_in little bm n (headmask_of n AND tailmask_of m) (BIT_ALIGN_DOWN m))"
      by (subst range_parts(1) [OF I(1), symmetric]) (simp add: bit_and_iff word_bits)
    from or_found_first [OF this R(2) order_refl last] show ?thesis using True R(1) by (simp add: bitmap_ffs_def Let_def)
  next
    case False
    note M = many_words [OF G False]
    have mid: "search_ok ?S {64 * first_word n..<64 * (unat m div 64)} (ffs_words little bm (BIT_ALIGN_UP n) (BIT_ALIGN_DOWN m))"
      by (rule ffs_words_search [OF M(2,4) assms(1) R(3) unat_BIT_ALIGN_DOWN])
    have ij: "64 * first_word n \<le> 64 * (unat m div 64)" "64 * first_word n \<le> unat m" using M by linarith+
    note T = or_found_first [OF ffs_tail [OF G] M(3) order_refl last]
    note W = or_found_first [OF mid ij(1) M(3) T]
    from or_found_first [OF ffs_head [OF G] M(1) ij(2) W] show ?thesis
      using False R(1) by (simp add: bitmap_ffs_def Let_def)
  qed
qed

section \<open>Whole bitmaps as sets\<close>

lemma words_loop_result:
  assumes "\<And>j. i \<le> j \<Longrightarrow> j < i + k \<Longrightarrow> f j = Some (g j)" and "i + k \<le> length dst"
  shows "\<exists>dst'. words_loop f i k dst = Some dst' \<and> length dst' = length dst
    \<and> (\<forall>j < length dst. dst' ! j = (if i \<le> j \<and> j < i + k then g j else dst ! j))"
  using assms
proof (induction k arbitrary: i dst)
  case (Suc k)
  have f: "f i = Some (g i)" using Suc.prems(1) [of i] by simp
  have "\<exists>dst'. words_loop f (Suc i) k (dst[i := g i]) = Some dst' \<and> length dst' = length (dst[i := g i])
    \<and> (\<forall>j < length (dst[i := g i]). dst' ! j = (if Suc i \<le> j \<and> j < Suc i + k then g j else dst[i := g i] ! j))"
    using Suc.prems by (intro Suc.IH) auto
  then obtain dst' where d: "words_loop f (Suc i) k (dst[i := g i]) = Some dst'" "length dst' = length dst"
    "\<And>j. j < length dst \<Longrightarrow> dst' ! j = (if Suc i \<le> j \<and> j < Suc i + k then g j else dst[i := g i] ! j)"
    by auto
  have "dst' ! j = (if i \<le> j \<and> j < i + Suc k then g j else dst ! j)" if "j < length dst" for j
    using d(3) [OF that] that by (cases "j = i") (auto simp: Suc_le_eq)
  with d(1,2) f Suc.prems(2) show ?case by (simp add: word_at_def)
qed auto

lemma any_word_result:
  assumes "\<And>j. i \<le> j \<Longrightarrow> j < i + k \<Longrightarrow> c j = Some (P j)"
  shows "any_word c i k = Some (\<exists>j. i \<le> j \<and> j < i + k \<and> P j)"
  using assms
proof (induction k arbitrary: i)
  case (Suc k)
  have "any_word c (Suc i) k = Some (\<exists>j. Suc i \<le> j \<and> j < Suc i + k \<and> P j)"
    using Suc.prems by (intro Suc.IH) auto
  moreover have "c i = Some (P i)" using Suc.prems [of i] by simp
  moreover have "(\<exists>j. i \<le> j \<and> j < i + Suc k \<and> P j) \<longleftrightarrow> P i \<or> (\<exists>j. Suc i \<le> j \<and> j < Suc i + k \<and> P j)"
    by (metis Suc_leD Suc_leI add_Suc_right add_Suc le_neq_implies_less le_add1 le_imp_less_Suc order_refl)
  ultimately show ?case by simp
qed simp

lemma BITMAP_NWORDS_unat:
  assumes "unat n + 63 < 2 ^ 64"
  shows "unat (BITMAP_NWORDS n) = (unat n + 63) div 64"
proof -
  have "unat (n + 63) = unat n + 63" using assms by (simp add: unat_word_ariths)
  then show ?thesis by (simp add: BITMAP_NWORDS_def add.commute)
qed

lemma sizeof_unat:
  assumes "unat n + 63 < 2 ^ 64"
  shows "unat (bitmap_sizeof n) div 8 = (unat n + 63) div 64"
proof -
  have "(unat n + 63) div 64 * 8 < 2 ^ 64" using assms by simp
  then have "unat (bitmap_sizeof n) = (unat n + 63) div 64 * 8"
    using BITMAP_NWORDS_unat [OF assms] by (simp add: bitmap_sizeof_def unat_word_ariths)
  then show ?thesis by simp
qed

text \<open>The bits below a bound, in the whole words and in the last one.\<close>

lemma split_less:
  fixes a b r s :: nat
  assumes "r < 64" and "s < 64"
  shows "64 * b + s < 64 * a + r \<longleftrightarrow> b < a \<or> (b = a \<and> s < r)"
  using assms by (cases a b rule: linorder_cases) auto

lemma below_parts:
  fixes n p :: nat
  shows "p < n \<longleftrightarrow> p div 64 < n div 64 \<or> (p div 64 = n div 64 \<and> p mod 64 < n mod 64)"
  using split_less [of "n mod 64" "p mod 64" "p div 64" "n div 64"] by simp

lemma exists_below:
  "(\<exists>p < n. Q (p div 64) (p mod 64)) \<longleftrightarrow> (\<exists>j < n div 64. \<exists>k < 64. Q j k) \<or> (\<exists>k < n mod 64. Q (n div 64) k)" for n :: nat
proof
  assume "\<exists>p < n. Q (p div 64) (p mod 64)"
  then obtain p where "Q (p div 64) (p mod 64)" "p div 64 < n div 64 \<or> (p div 64 = n div 64 \<and> p mod 64 < n mod 64)"
    by (auto simp: below_parts [of _ n])
  then show "(\<exists>j < n div 64. \<exists>k < 64. Q j k) \<or> (\<exists>k < n mod 64. Q (n div 64) k)"
    using mod_less_divisor [of 64 p] by auto
next
  assume "(\<exists>j < n div 64. \<exists>k < 64. Q j k) \<or> (\<exists>k < n mod 64. Q (n div 64) k)"
  moreover have "k < 64" if "k < n mod 64" for k
    by (rule less_trans [OF that]) simp
  ultimately obtain j k where q: "Q j k" "k < 64" "j < n div 64 \<or> (j = n div 64 \<and> k < n mod 64)"
    by blast
  have "(64 * j + k) div 64 = j" "(64 * j + k) mod 64 = k" using q(2) by simp_all
  with q show "\<exists>p < n. Q (p div 64) (p mod 64)" by (intro exI [of _ "64 * j + k"]) (simp add: below_parts [of _ n])
qed

lemma word_bit_tail [word_bits]: "k < 64 \<Longrightarrow> word_bit little (BITMAP_TAILBITS little n) k \<longleftrightarrow> k < unat n mod 64"
  by (simp add: BITMAP_TAILBITS_def word_bits) (auto simp: bit_simps)

text \<open>The loops that compare all bits below a bound.\<close>

lemma head_tail:
  assumes "unat n \<le> 64 * length bm"
  shows "BITMAP_HEADWORDS n = unat n div 64" and "BITMAP_HASTAIL n \<longleftrightarrow> unat n mod 64 \<noteq> 0" and "unat n div 64 \<le> length bm"
    and "BITMAP_HASTAIL n \<Longrightarrow> unat n div 64 < length bm
      \<and> BITMAP_TAIL little bm n = Some ((bm ! (unat n div 64)) AND BITMAP_TAILBITS little n)"
proof -
  show t: "BITMAP_HASTAIL n \<longleftrightarrow> unat n mod 64 \<noteq> 0"
    by (simp add: BITMAP_HASTAIL_def unat_eq_0 [symmetric] del: unat_eq_0)
  show "BITMAP_HEADWORDS n = unat n div 64" by (simp add: BITMAP_HEADWORDS_def)
  show "unat n div 64 \<le> length bm" using assms by simp
  assume "BITMAP_HASTAIL n"
  then have "0 < unat n mod 64" by (simp add: t)
  then have "unat n div 64 < length bm" using assms div_mult_mod_eq [of "unat n" 64] by linarith
  then show "unat n div 64 < length bm
      \<and> BITMAP_TAIL little bm n = Some ((bm ! (unat n div 64)) AND BITMAP_TAILBITS little n)"
    by (simp add: BITMAP_TAIL_def BITMAP_HEADWORDS_def word_at_def)
qed

text \<open>\<open>R\<close> relates the bits of the two bitmaps at a position; \<open>T\<close> is the test of the code on two words.\<close>

lemma bits_scan:
  assumes "unat n \<le> 64 * length bm1" and "unat n \<le> 64 * length bm2"
    and "\<And>a b. T a b \<longleftrightarrow> (\<exists>k < 64. R (word_bit little a k) (word_bit little b k))" and "\<not> R False False"
  shows "any_word (\<lambda>i. do { a \<leftarrow> word_at bm1 i; b \<leftarrow> word_at bm2 i; Some (T a b) }) 0 (BITMAP_HEADWORDS n) =
      Some (\<exists>j < unat n div 64. T (bm1 ! j) (bm2 ! j))"
    and "(\<exists>p < unat n. R (p \<in> bits_of little bm1) (p \<in> bits_of little bm2)) \<longleftrightarrow>
      (\<exists>j < unat n div 64. T (bm1 ! j) (bm2 ! j)) \<or>
      (BITMAP_HASTAIL n \<and> T ((bm1 ! (unat n div 64)) AND BITMAP_TAILBITS little n) ((bm2 ! (unat n div 64)) AND BITMAP_TAILBITS little n))"
proof -
  note h1 = head_tail [OF assms(1)] and h2 = head_tail [OF assms(2)]
  show "any_word (\<lambda>i. do { a \<leftarrow> word_at bm1 i; b \<leftarrow> word_at bm2 i; Some (T a b) }) 0 (BITMAP_HEADWORDS n) =
      Some (\<exists>j < unat n div 64. T (bm1 ! j) (bm2 ! j))"
    using h1(3) h2(3) by (subst any_word_result [where P = "\<lambda>j. T (bm1 ! j) (bm2 ! j)"]) (auto simp: word_at_def h1(1))
  let ?Q = "\<lambda>j k. R (word_bit little (bm1 ! j) k) (word_bit little (bm2 ! j) k)"
  have "(\<exists>p < unat n. R (p \<in> bits_of little bm1) (p \<in> bits_of little bm2)) \<longleftrightarrow> (\<exists>p < unat n. ?Q (p div 64) (p mod 64))"
  proof -
    have "p div 64 < length bm1 \<and> p div 64 < length bm2" if "p < unat n" for p
      using that assms(1,2) by (simp add: div_less_iff_less_mult mult.commute)
    then show ?thesis by (auto simp: bits_of_word)
  qed
  also have "\<dots> \<longleftrightarrow> (\<exists>j < unat n div 64. \<exists>k < 64. ?Q j k) \<or> (\<exists>k < unat n mod 64. ?Q (unat n div 64) k)"
    by (rule exists_below)
  also have "(\<exists>k < unat n mod 64. ?Q (unat n div 64) k) \<longleftrightarrow> BITMAP_HASTAIL n \<and>
      T ((bm1 ! (unat n div 64)) AND BITMAP_TAILBITS little n) ((bm2 ! (unat n div 64)) AND BITMAP_TAILBITS little n)"
  proof -
    have "k < 64" if "k < unat n mod 64" for k by (rule less_trans [OF that]) simp
    moreover have "R (word_bit little (a AND BITMAP_TAILBITS little n) k) (word_bit little (b AND BITMAP_TAILBITS little n) k)
        \<longleftrightarrow> k < unat n mod 64 \<and> R (word_bit little a k) (word_bit little b k)" if "k < 64" for a b k
      using assms(4) that by (cases "k < unat n mod 64") (simp_all add: word_bits)
    ultimately show ?thesis unfolding assms(3) h1(2) by (metis not_less_zero)
  qed
  finally show "(\<exists>p < unat n. R (p \<in> bits_of little bm1) (p \<in> bits_of little bm2)) \<longleftrightarrow>
      (\<exists>j < unat n div 64. T (bm1 ! j) (bm2 ! j)) \<or>
      (BITMAP_HASTAIL n \<and> T ((bm1 ! (unat n div 64)) AND BITMAP_TAILBITS little n) ((bm2 ! (unat n div 64)) AND BITMAP_TAILBITS little n))"
    by (simp add: assms(3))
qed

definition bits_below :: "bool \<Rightarrow> bitmap \<Rightarrow> ulong \<Rightarrow> nat set" where
  "bits_below little bm n = {p \<in> bits_of little bm. p < unat n}"

lemma word_tests:
  "a \<noteq> b \<longleftrightarrow> (\<exists>k < 64. word_bit little a k \<noteq> word_bit little b k)"
  "a AND b \<noteq> 0 \<longleftrightarrow> (\<exists>k < 64. word_bit little a k \<and> word_bit little b k)"
  "a AND NOT b \<noteq> 0 \<longleftrightarrow> (\<exists>k < 64. word_bit little a k \<and> \<not> word_bit little b k)"
  "a \<noteq> 0 \<longleftrightarrow> (\<exists>k < 64. word_bit little a k)"
  unfolding word_eq_iff_bits [of _ _ little] by (auto simp: word_bits)

lemma no_bits: "\<not> (False \<noteq> False)" "\<not> (False \<and> False)" "\<not> (False \<and> \<not> False)" "\<not> False"
  by simp_all

lemma equal_result:
  assumes "unat n \<le> 64 * length bm1" and "unat n \<le> 64 * length bm2"
  shows "bitmap_equal little bm1 bm2 n = Some (bits_below little bm1 n = bits_below little bm2 n)"
proof -
  note h1 = head_tail(1-3) [OF assms(1)] head_tail(4) [OF assms(1), of little] and h2 = head_tail(1-3) [OF assms(2)] head_tail(4) [OF assms(2), of little]
  note S = bits_scan(2) [where T = "(\<noteq>)" and R = "(\<noteq>)" and little = little, OF assms word_tests(1) no_bits(1)]
  have T: "take (unat n div 64) bm1 \<noteq> take (unat n div 64) bm2 \<longleftrightarrow> (\<exists>j < unat n div 64. bm1 ! j \<noteq> bm2 ! j)"
    using h1(3) h2(3) by (auto simp: list_eq_iff_nth_eq)
  have "bits_below little bm1 n = bits_below little bm2 n \<longleftrightarrow>
      \<not> (\<exists>p < unat n. (p \<in> bits_of little bm1) \<noteq> (p \<in> bits_of little bm2))"
    by (auto simp: bits_below_def)
  note E = this [unfolded S]
  show ?thesis using T E h1 h2 by (cases "BITMAP_HASTAIL n") (auto simp: bitmap_equal_def Let_def)
qed

lemma intersects_result:
  assumes "unat n \<le> 64 * length bm1" and "unat n \<le> 64 * length bm2"
  shows "bitmap_intersects little bm1 bm2 n = Some (bits_below little bm1 n \<inter> bits_below little bm2 n \<noteq> {})"
proof -
  note h1 = head_tail(1-3) [OF assms(1)] head_tail(4) [OF assms(1), of little] and h2 = head_tail(1-3) [OF assms(2)] head_tail(4) [OF assms(2), of little]
  note S = bits_scan [OF assms, of "\<lambda>a b. a AND b \<noteq> 0" "(\<and>)" little, OF word_tests(2), simplified simp_thms not_False_eq_True]
  have "bits_below little bm1 n \<inter> bits_below little bm2 n \<noteq> {} \<longleftrightarrow>
      (\<exists>p < unat n. p \<in> bits_of little bm1 \<and> p \<in> bits_of little bm2)"
    by (auto simp: bits_below_def)
  then show ?thesis using h1 h2 S by (cases "BITMAP_HASTAIL n") (auto simp: bitmap_intersects_def)
qed

lemma subset_result:
  assumes "unat n \<le> 64 * length bm1" and "unat n \<le> 64 * length bm2"
  shows "bitmap_subset little bm1 bm2 n = Some (bits_below little bm1 n \<subseteq> bits_below little bm2 n)"
proof -
  note h1 = head_tail(1-3) [OF assms(1)] head_tail(4) [OF assms(1), of little] and h2 = head_tail(1-3) [OF assms(2)] head_tail(4) [OF assms(2), of little]
  note S = bits_scan [OF assms, of "\<lambda>a b. a AND NOT b \<noteq> 0" "\<lambda>x y. x \<and> \<not> y" little, OF word_tests(3), simplified simp_thms not_False_eq_True]
  have "bits_below little bm1 n \<subseteq> bits_below little bm2 n \<longleftrightarrow>
      \<not> (\<exists>p < unat n. p \<in> bits_of little bm1 \<and> p \<notin> bits_of little bm2)"
    by (auto simp: bits_below_def)
  then show ?thesis using h1 h2 S by (cases "BITMAP_HASTAIL n") (simp_all add: bitmap_subset_def)
qed

lemma empty_result:
  assumes "unat n \<le> 64 * length bm"
  shows "bitmap_empty little bm n = Some (bits_below little bm n = {})"
proof -
  note h = head_tail(1-3) [OF assms] head_tail(4) [OF assms, of little]
  note S = bits_scan(2) [OF assms assms, of "\<lambda>a b. a \<noteq> 0" "\<lambda>x y. x" little, OF word_tests(4), simplified simp_thms not_False_eq_True]
  have "any_word (\<lambda>i. do { a \<leftarrow> word_at bm i; Some (a \<noteq> 0) }) 0 (BITMAP_HEADWORDS n) = Some (\<exists>j < unat n div 64. bm ! j \<noteq> 0)"
    using h(1,3) by (subst any_word_result [where P = "\<lambda>j. bm ! j \<noteq> 0"]) (auto simp: word_at_def)
  moreover have "bits_below little bm n = {} \<longleftrightarrow> \<not> (\<exists>p < unat n. p \<in> bits_of little bm)"
    by (auto simp: bits_below_def)
  ultimately show ?thesis using h S by (cases "BITMAP_HASTAIL n") (simp_all add: bitmap_empty_def)
qed

lemma full_result:
  assumes "unat n \<le> 64 * length bm"
  shows "bitmap_full little bm n = Some (bits_below little bm n = {..<unat n})"
proof -
  let ?all = "replicate (length bm) (- 1) :: bitmap"
  have all: "unat n \<le> 64 * length ?all" using assms by simp
  note h = head_tail(1-3) [OF assms] head_tail(4) [OF assms, of little]
  note S = bits_scan(2) [where T = "(\<noteq>)" and R = "(\<noteq>)" and little = little, OF assms all word_tests(1) no_bits(1)]
  have "p \<in> bits_of little ?all" if "p < unat n" for p
    using that all by (simp add: bits_of_word div_less_iff_less_mult mult.commute word_bits)
  then have "bits_below little bm n = {..<unat n} \<longleftrightarrow>
      \<not> (\<exists>p < unat n. (p \<in> bits_of little bm) \<noteq> (p \<in> bits_of little ?all))"
    by (auto simp: bits_below_def)
  note E = this [unfolded S]
  have "any_word (\<lambda>i. do { a \<leftarrow> word_at bm i; Some (a \<noteq> - 1) }) 0 (BITMAP_HEADWORDS n) = Some (\<exists>j < unat n div 64. bm ! j \<noteq> ?all ! j)"
    using h(1,3) by (subst any_word_result [where P = "\<lambda>j. bm ! j \<noteq> ?all ! j"]) (auto simp: word_at_def)
  with E h show ?thesis by (cases "BITMAP_HASTAIL n") (auto simp: bitmap_full_def)
qed

text \<open>The operation succeeds within the words of the bitmap, which then stands for the set.\<close>

definition gives :: "bool \<Rightarrow> bitmap option \<Rightarrow> nat \<Rightarrow> nat set \<Rightarrow> bool" where
  "gives little r k S \<longleftrightarrow> (\<exists>bm'. r = Some bm' \<and> length bm' = k \<and> bits_of little bm' = S)"

definition gives_below :: "bool \<Rightarrow> bitmap option \<Rightarrow> ulong \<Rightarrow> nat \<Rightarrow> nat set \<Rightarrow> bool" where
  "gives_below little r n k S \<longleftrightarrow> (\<exists>bm'. r = Some bm' \<and> length bm' = k \<and> bits_below little bm' n = S)"

lemma one_position: "{p. p div 64 = N div 64 \<and> p mod 64 = N mod 64} = {N}" for N :: nat
  by (auto, metis div_mult_mod_eq)

lemma one_bit_set:
  "{p. p div 64 = unat n div 64 \<and> bit (push_bit (64 - unat (n mod 64 :: ulong) - 1) 1 :: ulong) (63 - p mod 64)} = {unat n}"
  by (subst one_position [symmetric]) (simp only: bit_one mod_less_divisor zero_less_numeral)

lemma single_bits:
  assumes "unat n < 64 * length bm"
  shows "gives little (bitmap_set_bit little bm n) (length bm) (insert (unat n) (bits_of little bm))"
    and "gives little (bitmap_clear_bit little bm n) (length bm) (bits_of little bm - {unat n})"
    and "gives little (bitmap_change_bit little bm n) (length bm)
      (if unat n \<in> bits_of little bm then bits_of little bm - {unat n} else insert (unat n) (bits_of little bm))"
    and "bitmap_test_bit little bm n = Some (unat n \<in> bits_of little bm)"
proof -
  have i: "unat n div 64 < length bm" using assms by (simp add: div_less_iff_less_mult mult.commute)
  let ?x = "push_bit (64 - unat (n mod 64) - 1) 1 :: ulong"
  have one: "p div 64 = unat n div 64 \<and> bit ?x (63 - p mod 64) \<longleftrightarrow> p = unat n" for p
    using one_bit_set [of n] by blast
  show "gives little (bitmap_set_bit little bm n) (length bm) (insert (unat n) (bits_of little bm))"
    using change_add [OF i, of little ?x] by (simp only: gives_def bitmap_set_bit_def BITMAP_WORDBIT_def one_bit_set Un_insert_right Un_empty_right)
  show "gives little (bitmap_clear_bit little bm n) (length bm) (bits_of little bm - {unat n})"
    using change_clear [OF i, of little ?x] by (simp only: gives_def bitmap_clear_bit_def BITMAP_WORDBIT_def one_bit_set)
  have "{p. p \<in> bits_of little bm \<longleftrightarrow> p \<noteq> unat n} =
      (if unat n \<in> bits_of little bm then bits_of little bm - {unat n} else insert (unat n) (bits_of little bm))"
    by auto
  with change_invert [OF i, of little ?x]
  show "gives little (bitmap_change_bit little bm n) (length bm)
      (if unat n \<in> bits_of little bm then bits_of little bm - {unat n} else insert (unat n) (bits_of little bm))"
    by (simp only: gives_def bitmap_change_bit_def BITMAP_WORDBIT_def one)
  have "(bm ! (unat n div 64)) AND bitmap_bswap little ?x \<noteq> 0 \<longleftrightarrow>
      (\<exists>k < 64. word_bit little (bm ! (unat n div 64)) k \<and> k = unat n mod 64)"
    unfolding word_tests(2) [of _ _ little] by (intro ex_cong1 conj_cong refl) (simp only: word_bit_logic(7) bit_one)
  also have "\<dots> \<longleftrightarrow> unat n \<in> bits_of little bm" using i by (auto simp: bits_of_word)
  finally show "bitmap_test_bit little bm n = Some (unat n \<in> bits_of little bm)"
    using i by (simp add: bitmap_test_bit_def word_at_def BITMAP_WORDBIT_def)
qed

lemma words_below:
  assumes "unat n + 63 < 2 ^ 64" and "(unat n + 63) div 64 \<le> length dst"
    and "\<And>j. j < (unat n + 63) div 64 \<Longrightarrow> f j = Some (g j)"
    and "\<And>j k. k < 64 \<Longrightarrow> j < (unat n + 63) div 64 \<Longrightarrow> word_bit little (g j) k \<longleftrightarrow> Q (64 * j + k)"
  shows "gives_below little (words_loop f 0 (unat (BITMAP_NWORDS n)) dst) n (length dst) {p. p < unat n \<and> Q p}"
proof -
  let ?k = "(unat n + 63) div 64"
  obtain dst' where d: "words_loop f 0 ?k dst = Some dst'" "length dst' = length dst"
    "\<forall>j < length dst. dst' ! j = (if 0 \<le> j \<and> j < 0 + ?k then g j else dst ! j)"
    using words_loop_result [of 0 ?k f g dst] assms(2,3) by auto
  have "p \<in> bits_of little dst' \<longleftrightarrow> Q p" if "p < unat n" for p
  proof -
    have p: "p div 64 < ?k" using that by (simp add: div_less_iff_less_mult)
    then show ?thesis using d(2,3) assms(2) assms(4) [of "p mod 64" "p div 64"] by (simp add: bits_of_word)
  qed
  then have "bits_below little dst' n = {p. p < unat n \<and> Q p}" by (auto simp: bits_below_def)
  with d(1,2) show ?thesis by (simp add: gives_below_def BITMAP_NWORDS_unat [OF assms(1)])
qed

lemma binop_gives:
  assumes "unat n + 63 < 2 ^ 64" and "unat n \<le> 64 * length dst" and "unat n \<le> 64 * length bm1" and "unat n \<le> 64 * length bm2"
    and "\<And>a b k. k < 64 \<Longrightarrow> word_bit little (opr a b) k \<longleftrightarrow> F (word_bit little a k) (word_bit little b k)"
  shows "gives_below little (bitmap_binop opr dst bm1 bm2 n) n (length dst)
    {p. p < unat n \<and> F (p \<in> bits_of little bm1) (p \<in> bits_of little bm2)}"
proof -
  have k: "(unat n + 63) div 64 \<le> l" if "unat n \<le> 64 * l" for l using that by (simp add: less_Suc_eq_le [symmetric] div_less_iff_less_mult)
  show ?thesis
    unfolding bitmap_binop_def
    by (rule words_below [OF assms(1) k [OF assms(2)], where g = "\<lambda>j. opr (bm1 ! j) (bm2 ! j)"])
      (use k [OF assms(3)] k [OF assms(4)] in \<open>simp_all add: word_at_def bits_of_word assms(5)\<close>)
qed

lemma complement_gives:
  assumes "unat n + 63 < 2 ^ 64" and "unat n \<le> 64 * length dst" and "unat n \<le> 64 * length bm"
  shows "gives_below little (bitmap_complement dst bm n) n (length dst) {p. p < unat n \<and> p \<notin> bits_of little bm}"
proof -
  have k: "(unat n + 63) div 64 \<le> l" if "unat n \<le> 64 * l" for l using that by (simp add: less_Suc_eq_le [symmetric] div_less_iff_less_mult)
  show ?thesis
    unfolding bitmap_complement_def
    by (rule words_below [OF assms(1) k [OF assms(2)], where g = "\<lambda>j. NOT (bm ! j)"])
      (use k [OF assms(3)] in \<open>simp_all add: word_at_def bits_of_word word_bits\<close>)
qed

text \<open>
  C19. A bitmap is a set of numbers. On a host of either byte order, for bits within the bitmap:
  setting, clearing and changing a bit, zeroing and filling a range of bits, and testing a bit do to the
  set what they should and access only words of the bitmap; and the search for the first set bit in a
  range ends with the smallest element in it, or with the end of the range when there is none.
\<close>

theorem bitmap_is_set:
  assumes "length bm < 2 ^ 58" and "unat p < 64 * length bm" and "n \<le> m" and "unat m \<le> 64 * length bm"
  shows "gives little (bitmap_set_bit little bm p) (length bm) (insert (unat p) (bits_of little bm))
    \<and> gives little (bitmap_clear_bit little bm p) (length bm) (bits_of little bm - {unat p})
    \<and> gives little (bitmap_change_bit little bm p) (length bm)
        (if unat p \<in> bits_of little bm then bits_of little bm - {unat p} else insert (unat p) (bits_of little bm))
    \<and> bitmap_test_bit little bm p = Some (unat p \<in> bits_of little bm)
    \<and> gives little (bitmap_zero_range little bm n m) (length bm) (bits_of little bm - {unat n..<unat m})
    \<and> gives little (bitmap_fill_range little bm n m) (length bm) (bits_of little bm \<union> {unat n..<unat m})
    \<and> (\<exists>r. bitmap_ffs little bm n m = Some r \<and> first_bit (bits_of little bm) (unat n) (unat m) (unat r))"
  using single_bits [OF assms(2)] ffs_finds [OF assms(1,3,4)]
    range_op_bits [OF assms(1,3,4), of False little] range_op_bits [OF assms(1,3,4), of True little]
  by (simp add: range_op_cases gives_def put_set_def)

theorem bitmap_is_set_witness:
  "gives True (bitmap_fill_range True [0, 0] 3 70) 2 {3..<70} \<and> bitmap_test_bit True [0, 0] 5 = Some False"
proof -
  have e: "bits_of True [0, 0] = {}" by (auto simp: bits_of_def word_bits nth_Cons split: nat.split)
  have h: "length [0, 0 :: ulong] < 2 ^ 58" "unat (5 :: ulong) < 64 * length [0, 0 :: ulong]" "(3 :: ulong) \<le> 70"
    "unat (70 :: ulong) \<le> 64 * length [0, 0 :: ulong]" by simp_all
  have "length [0, 0 :: ulong] = 2" by simp
  with bitmap_is_set [OF h, of True] show ?thesis unfolding e by (simp only:) simp
qed

text \<open>
  The operations on whole bitmaps. Below the given number of bits: intersection, union, symmetric
  difference, difference and complement are those of the sets, and the comparisons decide equality,
  common elements, inclusion, and being full or empty.
\<close>

theorem bitmap_algebra:
  assumes "length dst < 2 ^ 58" and "unat n \<le> 64 * length dst" and "unat n \<le> 64 * length bm1" and "unat n \<le> 64 * length bm2"
    and "S1 = bits_below little bm1 n" and "S2 = bits_below little bm2 n"
  shows "gives_below little (bitmap_and dst bm1 bm2 n) n (length dst) (S1 \<inter> S2)
    \<and> gives_below little (bitmap_or dst bm1 bm2 n) n (length dst) (S1 \<union> S2)
    \<and> gives_below little (bitmap_xor dst bm1 bm2 n) n (length dst) ((S1 - S2) \<union> (S2 - S1))
    \<and> gives_below little (bitmap_andnot dst bm1 bm2 n) n (length dst) (S1 - S2)
    \<and> gives_below little (bitmap_complement dst bm1 n) n (length dst) ({..<unat n} - S1)
    \<and> bitmap_equal little bm1 bm2 n = Some (S1 = S2)
    \<and> bitmap_intersects little bm1 bm2 n = Some (S1 \<inter> S2 \<noteq> {})
    \<and> bitmap_subset little bm1 bm2 n = Some (S1 \<subseteq> S2)
    \<and> bitmap_full little bm1 n = Some (S1 = {..<unat n})
    \<and> bitmap_empty little bm1 n = Some (S1 = {})"
proof -
  have u: "unat n + 63 < 2 ^ 64" using assms(1,2) by simp
  note B = binop_gives [OF u assms(2-4)]
  have sets: "S1 \<inter> S2 = {p. p < unat n \<and> (p \<in> bits_of little bm1 \<and> p \<in> bits_of little bm2)}"
    "S1 \<union> S2 = {p. p < unat n \<and> (p \<in> bits_of little bm1 \<or> p \<in> bits_of little bm2)}"
    "(S1 - S2) \<union> (S2 - S1) = {p. p < unat n \<and> (p \<in> bits_of little bm1) \<noteq> (p \<in> bits_of little bm2)}"
    "S1 - S2 = {p. p < unat n \<and> (p \<in> bits_of little bm1 \<and> \<not> p \<in> bits_of little bm2)}"
    "{..<unat n} - S1 = {p. p < unat n \<and> p \<notin> bits_of little bm1}"
    by (auto simp: assms(5,6) bits_below_def)
  have "gives_below little (bitmap_and dst bm1 bm2 n) n (length dst) (S1 \<inter> S2)"
    unfolding sets(1) bitmap_and_def by (rule B [where F = "(\<and>)"]) (simp add: word_bits)
  moreover have "gives_below little (bitmap_or dst bm1 bm2 n) n (length dst) (S1 \<union> S2)"
    unfolding sets(2) bitmap_or_def by (rule B [where F = "(\<or>)"]) (simp add: word_bits)
  moreover have "gives_below little (bitmap_xor dst bm1 bm2 n) n (length dst) ((S1 - S2) \<union> (S2 - S1))"
    unfolding sets(3) bitmap_xor_def by (rule B [where F = "(\<noteq>)"]) (simp add: word_bits)
  moreover have "gives_below little (bitmap_andnot dst bm1 bm2 n) n (length dst) (S1 - S2)"
    unfolding sets(4) bitmap_andnot_def by (rule B [where F = "\<lambda>x y. x \<and> \<not> y"]) (simp add: word_bits)
  moreover have "gives_below little (bitmap_complement dst bm1 n) n (length dst) ({..<unat n} - S1)"
    unfolding sets(5) by (rule complement_gives [OF u assms(2,3)])
  ultimately show ?thesis
    using equal_result [OF assms(3,4), of little] intersects_result [OF assms(3,4), of little]
      subset_result [OF assms(3,4), of little] full_result [OF assms(3), of little] empty_result [OF assms(3), of little]
    by (simp add: assms(5,6))
qed

theorem bitmap_algebra_witness:
  "gives_below False (bitmap_complement [0] [0] 10) 10 1 {..<10} \<and> bitmap_subset False [0] [0] 10 = Some True"
proof -
  have e: "bits_below False [0] 10 = {}" by (auto simp: bits_below_def bits_of_def word_bits)
  have h: "length [0 :: ulong] < 2 ^ 58" "unat (10 :: ulong) \<le> 64 * length [0 :: ulong]" by simp_all
  from bitmap_algebra [OF h(1) h(2) h(2) h(2) refl refl, of False] e show ?thesis by simp
qed

section \<open>Allocated bitmaps\<close>

lemma fill_all:
  assumes "unat n + 63 < 2 ^ 64" and "length bm = unat (bitmap_sizeof n) div 8"
  shows "fill_words bm 0 (unat (bitmap_sizeof n) div 8) v = Some (replicate ((unat n + 63) div 64) v)"
  using assms by (simp add: fill_words_def sizeof_unat)

lemma bitmap_allocation:
  assumes "unat n + 63 < 2 ^ 64" and "malloc (unat (bitmap_sizeof n)) = Some bm" and "length bm = unat (bitmap_sizeof n) div 8"
  shows "\<exists>bm0 bm1. bitmap_alloc0 malloc n = Some (Some bm0) \<and> bits_below little bm0 n = {}
    \<and> bitmap_alloc1 malloc n = Some (Some bm1) \<and> bits_below little bm1 n = {..<unat n}"
proof -
  have "p div 64 < (unat n + 63) div 64" if "p < unat n" for p using that by (simp add: div_less_iff_less_mult)
  then have "bits_below little (replicate ((unat n + 63) div 64) (- 1)) n = {..<unat n}"
    by (auto simp: bits_below_def bits_of_word word_bits)
  moreover have "bits_below little (replicate ((unat n + 63) div 64) 0) n = {}"
    by (auto simp: bits_below_def bits_of_word word_bits)
  ultimately show ?thesis
    using assms(2) fill_all [OF assms(1,3)]
    by (simp add: bitmap_alloc0_def bitmap_alloc1_def bitmap_alloc_def bitmap_zero_def bitmap_fill_def)
qed

text \<open>The number of words wraps around: for the largest numbers of bits nothing is allocated.\<close>

lemma bitmap_sizeof_wraps: "bitmap_sizeof (- 1) = 0"
  by (simp add: bitmap_sizeof_def BITMAP_NWORDS_def)

lemma realloc_keeps:
  assumes "length bm' = unat (bitmap_sizeof n) div 8" and "unat n + 63 < 2 ^ 64" and "unat old \<le> 64 * length bm"
    and "take (length bm) bm' = take (length bm') bm" and "old \<le> n"
  shows "bits_below little bm' old = bits_below little bm old"
proof -
  have "p \<in> bits_of little bm' \<longleftrightarrow> p \<in> bits_of little bm" if "p < unat old" for p
  proof -
    have "unat old \<le> unat n" using assms(5) by (simp add: word_le_nat_alt)
    then have p: "p div 64 < length bm'" "p div 64 < length bm"
      using that assms(1,3) by (simp_all add: sizeof_unat [OF assms(2)] div_less_iff_less_mult mult.commute)
    have "bm' ! (p div 64) = take (length bm) bm' ! (p div 64)" using p by simp
    also have "\<dots> = bm ! (p div 64)" unfolding assms(4) using p by simp
    finally show ?thesis using p by (simp add: bits_of_word)
  qed
  then show ?thesis by (auto simp: bits_below_def)
qed

text \<open>A bitmap that grows keeps its bits, and the new ones are 0 or 1.\<close>

lemma bitmap_reallocation:
  assumes "unat n + 63 < 2 ^ 64" and "old < n" and "unat old \<le> 64 * length bm"
    and "realloc bm (unat (bitmap_sizeof n)) = Some bm'" and "length bm' = unat (bitmap_sizeof n) div 8"
    and "take (length bm) bm' = take (length bm') bm"
  shows "\<exists>bm0 bm1. bitmap_realloc0 little realloc bm old n = Some (Some bm0) \<and> bits_below little bm0 n = bits_below little bm old
    \<and> bitmap_realloc1 little realloc bm old n = Some (Some bm1)
    \<and> bits_below little bm1 n = bits_below little bm old \<union> {unat old..<unat n}"
proof -
  have len: "length bm' = (unat n + 63) div 64" using assms(5) by (simp add: sizeof_unat [OF assms(1)])
  have l: "length bm' < 2 ^ 58" using assms(1) by (simp add: len)
  have o: "old \<le> n" "unat old < unat n" using assms(2) by (simp_all add: word_less_nat_alt word_le_nat_alt)
  have m: "unat n \<le> 64 * length bm'"
  proof -
    have "64 * ((unat n + 63) div 64) + (unat n + 63) mod 64 = unat n + 63" "(unat n + 63) mod 64 < 64" by simp_all
    then show ?thesis unfolding len by linarith
  qed
  note K = realloc_keeps [OF assms(5,1,3,6) o(1), of little]
  obtain bm0 where b0: "bitmap_zero_range little bm' old n = Some bm0" "bits_of little bm0 = bits_of little bm' - {unat old..<unat n}"
    using range_op_bits [OF l o(1) m, of False little] by (auto simp: range_op_cases put_set_def)
  obtain bm1 where b1: "bitmap_fill_range little bm' old n = Some bm1" "bits_of little bm1 = bits_of little bm' \<union> {unat old..<unat n}"
    using range_op_bits [OF l o(1) m, of True little] by (auto simp: range_op_cases put_set_def)
  have "bits_below little bm0 n = bits_below little bm old" "bits_below little bm1 n = bits_below little bm old \<union> {unat old..<unat n}"
    unfolding K [symmetric] using o(2) by (auto simp: bits_below_def b0(2) b1(2))
  with b0(1) b1(1) show ?thesis using assms(2,4) by (simp add: bitmap_realloc0_def bitmap_realloc1_def)
qed

end
