(* ===== verification/CcanBase64.thy ===== *)
theory CcanBase64
  imports Prelude "HOL-Library.Monad_Syntax"
begin

text \<open>
  The base64 coding of \<^verbatim>\<open>src/common/libccan/ccan/base64\<close>, with any alphabet. A \<^verbatim>\<open>char\<close> is a byte; where
  the code promotes a \<^verbatim>\<open>signed char\<close> and shifts it right, the shift is arithmetic. A failed assertion is
  \<open>None\<close>. The result of coding is the number of bytes and the whole destination, or the errno; what an
  error leaves in the destination is not modelled.
\<close>

unbundle bit_operations_syntax

section \<open>Maps\<close>

type_synonym cbyte = "8 word"

definition cbytes :: "string \<Rightarrow> cbyte list" where
  "cbytes t = map (\<lambda>c. of_nat (of_char c)) t"

definition pad :: cbyte where
  "pad = of_nat (of_char (CHR ''=''))"

definition letter_A :: cbyte where
  "letter_A = of_nat (of_char (CHR ''A''))"

record base64_maps =
  encode_map :: "cbyte list"
  decode_map :: "cbyte list"

definition sixbit_to_b64 :: "base64_maps \<Rightarrow> cbyte \<Rightarrow> cbyte option" where
  "sixbit_to_b64 maps sixbit = (if \<not> sixbit \<le> 63 then None else Some (encode_map maps ! unat sixbit))"

definition sixbit_from_b64 :: "base64_maps \<Rightarrow> cbyte \<Rightarrow> cbyte" where
  "sixbit_from_b64 maps b64letter = (let ret = decode_map maps ! unat b64letter in
     if ret = 0xff then - 1 else ret)"

definition base64_char_in_alphabet :: "base64_maps \<Rightarrow> cbyte \<Rightarrow> bool" where
  "base64_char_in_alphabet maps b64char \<longleftrightarrow> decode_map maps ! unat b64char \<noteq> 0xff"

primrec fill_decode_map :: "cbyte list \<Rightarrow> nat \<Rightarrow> cbyte list \<Rightarrow> cbyte list" where
  "fill_decode_map [] i dm = dm"
| "fill_decode_map (c # src) i dm = fill_decode_map src (Suc i) (dm[unat c := of_nat i])"

definition base64_init_maps :: "cbyte list \<Rightarrow> base64_maps" where
  "base64_init_maps src = \<lparr>encode_map = src, decode_map = fill_decode_map src 0 (replicate 256 0xff)\<rparr>"

section \<open>Encoding\<close>

definition base64_encoded_length :: "nat \<Rightarrow> nat" where
  "base64_encoded_length srclen = (srclen + 2) mod 2 ^ 64 div 3 * 4 mod 2 ^ 64"

definition base64_encode_triplet_using_maps :: "base64_maps \<Rightarrow> cbyte \<Rightarrow> cbyte \<Rightarrow> cbyte \<Rightarrow> cbyte list option" where
  "base64_encode_triplet_using_maps maps a b c =
     do { d0 \<leftarrow> sixbit_to_b64 maps (drop_bit 2 (a AND 0xfc));
          d1 \<leftarrow> sixbit_to_b64 maps (push_bit 4 (a AND 0x3) OR drop_bit 4 (b AND 0xf0));
          d2 \<leftarrow> sixbit_to_b64 maps (drop_bit 6 (c AND 0xc0) OR push_bit 2 (b AND 0xf));
          d3 \<leftarrow> sixbit_to_b64 maps (c AND 0x3f);
          Some [d0, d1, d2, d3] }"

definition base64_encode_tail_using_maps :: "base64_maps \<Rightarrow> cbyte list \<Rightarrow> cbyte list option" where
  "base64_encode_tail_using_maps maps src =
     (if \<not> length src \<le> 3 then None
      else let longsrc = src @ replicate (3 - length src) 0 in
        do { dest \<leftarrow> base64_encode_triplet_using_maps maps (longsrc ! 0) (longsrc ! 1) (longsrc ! 2);
             Some (take (1 + length src) dest @ replicate (3 - length src) pad) })"

text \<open>The loop over the triplets and the tail after it.\<close>

fun encode_blocks :: "base64_maps \<Rightarrow> cbyte list \<Rightarrow> cbyte list option" where
  "encode_blocks maps (a # b # c # src) =
     do { block \<leftarrow> base64_encode_triplet_using_maps maps a b c; rest \<leftarrow> encode_blocks maps src; Some (block @ rest) }"
| "encode_blocks maps [] = Some []"
| "encode_blocks maps src = base64_encode_tail_using_maps maps src"

definition base64_encode_using_maps :: "base64_maps \<Rightarrow> nat \<Rightarrow> cbyte list \<Rightarrow> (errno + nat \<times> cbyte list) option" where
  "base64_encode_using_maps maps destlen src =
     (if destlen < base64_encoded_length (length src) then Some (Inl EOVERFLOW)
      else do { blocks \<leftarrow> encode_blocks maps src;
                Some (Inr (length blocks, blocks @ replicate (destlen - length blocks) 0)) })"

section \<open>Decoding\<close>

definition base64_decoded_length :: "nat \<Rightarrow> nat" where
  "base64_decoded_length srclen = (srclen + 3) mod 2 ^ 64 div 4 * 3"

definition base64_decode_quartet_using_maps ::
  "base64_maps \<Rightarrow> cbyte \<Rightarrow> cbyte \<Rightarrow> cbyte \<Rightarrow> cbyte \<Rightarrow> errno + cbyte list" where
  "base64_decode_quartet_using_maps maps s0 s1 s2 s3 =
     (let a = sixbit_from_b64 maps s0;
          b = sixbit_from_b64 maps s1;
          c = sixbit_from_b64 maps s2;
          d = sixbit_from_b64 maps s3
      in if a = - 1 \<or> b = - 1 \<or> c = - 1 \<or> d = - 1 then Inl EDOM
      else Inr [push_bit 2 a OR signed_drop_bit 4 b,
                push_bit 4 (b AND 0xf) OR signed_drop_bit 2 c,
                push_bit 6 (c AND 0x3) OR d])"

definition base64_decode_tail_using_maps :: "base64_maps \<Rightarrow> cbyte list \<Rightarrow> errno + cbyte list" where
  "base64_decode_tail_using_maps maps src =
     (let insize = length (rev (dropWhile (\<lambda>c. c = pad) (rev src))) in
      if insize = 0 then Inr []
      else if insize = 1 then Inl EINVAL
      else let longsrc = take insize src @ replicate (4 - insize) letter_A in
        (case base64_decode_quartet_using_maps maps (longsrc ! 0) (longsrc ! 1) (longsrc ! 2) (longsrc ! 3) of
           Inl e \<Rightarrow> Inl e
         | Inr bytes \<Rightarrow> Inr (take (insize - 1) bytes)))"

text \<open>The loop while more than four characters are left, and the tail after it.\<close>

fun decode_blocks :: "base64_maps \<Rightarrow> cbyte list \<Rightarrow> errno + cbyte list" where
  "decode_blocks maps (s0 # s1 # s2 # s3 # s4 # src) =
     (case base64_decode_quartet_using_maps maps s0 s1 s2 s3 of
        Inl e \<Rightarrow> Inl e
      | Inr bytes \<Rightarrow> (case decode_blocks maps (s4 # src) of Inl e \<Rightarrow> Inl e | Inr rest \<Rightarrow> Inr (bytes @ rest)))"
| "decode_blocks maps src = base64_decode_tail_using_maps maps src"

definition base64_decode_using_maps :: "base64_maps \<Rightarrow> nat \<Rightarrow> cbyte list \<Rightarrow> errno + nat \<times> cbyte list" where
  "base64_decode_using_maps maps destlen src =
     (if destlen < base64_decoded_length (length src) then Inl EOVERFLOW
      else (case decode_blocks maps src of
         Inl e \<Rightarrow> Inl e
       | Inr bytes \<Rightarrow> Inr (length bytes, bytes @ replicate (destlen - length bytes) 0)))"

section \<open>The alphabet of RFC 4648\<close>

definition rfc4648_alphabet :: "cbyte list" where
  "rfc4648_alphabet = cbytes ''ABCDEFGHIJKLMNOPQRSTUVWXYZabcdefghijklmnopqrstuvwxyz0123456789+/''"

definition base64_maps_rfc4648 :: base64_maps where
  "base64_maps_rfc4648 = \<lparr>encode_map = rfc4648_alphabet, decode_map = [
     0xff, 0xff, 0xff, 0xff, 0xff,
     0xff, 0xff, 0xff, 0xff, 0xff,
     0xff, 0xff, 0xff, 0xff, 0xff,
     0xff, 0xff, 0xff, 0xff, 0xff,
     0xff, 0xff, 0xff, 0xff, 0xff,
     0xff, 0xff, 0xff, 0xff, 0xff,
     0xff, 0xff, 0xff, 0xff, 0xff,
     0xff, 0xff, 0xff, 0xff, 0xff,
     0xff, 0xff, 0xff, 0x3e, 0xff,
     0xff, 0xff, 0x3f, 0x34, 0x35,
     0x36, 0x37, 0x38, 0x39, 0x3a,
     0x3b, 0x3c, 0x3d, 0xff, 0xff,
     0xff, 0xff, 0xff, 0xff, 0xff,
     0x00, 0x01, 0x02, 0x03, 0x04,
     0x05, 0x06, 0x07, 0x08, 0x09,
     0x0a, 0x0b, 0x0c, 0x0d, 0x0e,
     0x0f, 0x10, 0x11, 0x12, 0x13,
     0x14, 0x15, 0x16, 0x17, 0x18,
     0x19, 0xff, 0xff, 0xff, 0xff,
     0xff, 0xff, 0x1a, 0x1b, 0x1c,
     0x1d, 0x1e, 0x1f, 0x20, 0x21,
     0x22, 0x23, 0x24, 0x25, 0x26,
     0x27, 0x28, 0x29, 0x2a, 0x2b,
     0x2c, 0x2d, 0x2e, 0x2f, 0x30,
     0x31, 0x32, 0x33, 0xff, 0xff,
     0xff, 0xff, 0xff, 0xff, 0xff, 0xff, 0xff, 0xff, 0xff, 0xff,
     0xff, 0xff, 0xff, 0xff, 0xff, 0xff, 0xff, 0xff, 0xff, 0xff,
     0xff, 0xff, 0xff, 0xff, 0xff, 0xff, 0xff, 0xff, 0xff, 0xff,
     0xff, 0xff, 0xff, 0xff, 0xff, 0xff, 0xff, 0xff, 0xff, 0xff,
     0xff, 0xff, 0xff, 0xff, 0xff, 0xff, 0xff, 0xff, 0xff, 0xff,
     0xff, 0xff, 0xff, 0xff, 0xff, 0xff, 0xff, 0xff, 0xff, 0xff,
     0xff, 0xff, 0xff, 0xff, 0xff, 0xff, 0xff, 0xff, 0xff, 0xff,
     0xff, 0xff, 0xff, 0xff, 0xff, 0xff, 0xff, 0xff, 0xff, 0xff,
     0xff, 0xff, 0xff, 0xff, 0xff, 0xff, 0xff, 0xff, 0xff, 0xff,
     0xff, 0xff, 0xff, 0xff, 0xff, 0xff, 0xff, 0xff, 0xff, 0xff,
     0xff, 0xff, 0xff, 0xff, 0xff, 0xff, 0xff, 0xff, 0xff, 0xff,
     0xff, 0xff, 0xff, 0xff, 0xff, 0xff, 0xff, 0xff, 0xff, 0xff,
     0xff, 0xff, 0xff, 0xff, 0xff, 0xff, 0xff, 0xff, 0xff, 0xff, 0xff]\<rparr>"

definition base64_encode :: "nat \<Rightarrow> cbyte list \<Rightarrow> (errno + nat \<times> cbyte list) option" where
  "base64_encode destlen src = base64_encode_using_maps base64_maps_rfc4648 destlen src"

definition base64_decode :: "nat \<Rightarrow> cbyte list \<Rightarrow> errno + nat \<times> cbyte list" where
  "base64_decode destlen src = base64_decode_using_maps base64_maps_rfc4648 destlen src"

definition base64_encode_triplet :: "cbyte \<Rightarrow> cbyte \<Rightarrow> cbyte \<Rightarrow> cbyte list option" where
  "base64_encode_triplet a b c = base64_encode_triplet_using_maps base64_maps_rfc4648 a b c"

definition base64_encode_tail :: "cbyte list \<Rightarrow> cbyte list option" where
  "base64_encode_tail src = base64_encode_tail_using_maps base64_maps_rfc4648 src"

definition base64_decode_quartet :: "cbyte \<Rightarrow> cbyte \<Rightarrow> cbyte \<Rightarrow> cbyte \<Rightarrow> errno + cbyte list" where
  "base64_decode_quartet s0 s1 s2 s3 = base64_decode_quartet_using_maps base64_maps_rfc4648 s0 s1 s2 s3"

definition base64_decode_tail :: "cbyte list \<Rightarrow> errno + cbyte list" where
  "base64_decode_tail src = base64_decode_tail_using_maps base64_maps_rfc4648 src"

text \<open>The table of the code is the one that the initialisation would compute.\<close>

lemma rfc4648_maps: "base64_maps_rfc4648 = base64_init_maps rfc4648_alphabet"
  by code_simp

section \<open>Bits\<close>

lemma all_bits_8:
  fixes v w :: cbyte
  assumes "bit v 0 = bit w 0" "bit v 1 = bit w 1" "bit v 2 = bit w 2" "bit v 3 = bit w 3"
    "bit v 4 = bit w 4" "bit v 5 = bit w 5" "bit v 6 = bit w 6" "bit v 7 = bit w 7"
  shows "v = w"
proof (rule bit_word_eqI)
  fix k :: nat assume "k < LENGTH(8)"
  then have "k = 0 \<or> k = 1 \<or> k = 2 \<or> k = 3 \<or> k = 4 \<or> k = 5 \<or> k = 6 \<or> k = 7" by simp arith
  with assms show "bit v k = bit w k" by auto
qed

text \<open>The four values of six bits that a triplet is split into, and what decoding puts together.\<close>

definition sextets :: "cbyte \<Rightarrow> cbyte \<Rightarrow> cbyte \<Rightarrow> cbyte list" where
  "sextets a b c = [drop_bit 2 (a AND 0xfc), push_bit 4 (a AND 0x3) OR drop_bit 4 (b AND 0xf0),
     drop_bit 6 (c AND 0xc0) OR push_bit 2 (b AND 0xf), c AND 0x3f]"

lemma six_bits: "\<not> bit s 6 \<Longrightarrow> \<not> bit s 7 \<Longrightarrow> s \<le> 63" for s :: cbyte
proof -
  assume "\<not> bit s 6" "\<not> bit s 7"
  then have "s = s AND 63" by (intro all_bits_8) (simp_all add: bit_simps)
  then show ?thesis by (metis word_and_le1)
qed

lemma sextets_small: "\<forall>s \<in> set (sextets a b c). s \<le> 63"
  by (auto simp: sextets_def bit_simps intro!: six_bits)

lemma sextets_join:
  "push_bit 2 (sextets a b c ! 0) OR signed_drop_bit 4 (sextets a b c ! 1) = a"
  "push_bit 4 (sextets a b c ! 1 AND 0xf) OR signed_drop_bit 2 (sextets a b c ! 2) = b"
  "push_bit 6 (sextets a b c ! 2 AND 0x3) OR sextets a b c ! 3 = c"
  by (rule all_bits_8; simp add: sextets_def bit_simps)+

section \<open>Alphabets\<close>

lemma length_fill [simp]: "length (fill_decode_map src i dm) = length dm"
  by (induction src arbitrary: i dm) simp_all

lemma fill_other: "c \<notin> set src \<Longrightarrow> fill_decode_map src i dm ! unat c = dm ! unat c"
proof (induction src arbitrary: i dm)
  case (Cons x src)
  then have "unat x \<noteq> unat c" by (auto dest: unsigned_word_eqI)
  with Cons show ?case by simp
qed simp

lemma fill_letter:
  "distinct src \<Longrightarrow> j < length src \<Longrightarrow> length dm = 256 \<Longrightarrow> fill_decode_map src i dm ! unat (src ! j) = of_nat (i + j)"
proof (induction src arbitrary: i j dm)
  case (Cons x src)
  have x: "unat x < 256" using unsigned_less [of x] by simp
  show ?case
  proof (cases j)
    case 0
    with Cons.prems x show ?thesis by (simp add: fill_other)
  next
    case (Suc k)
    with Cons.prems Cons.IH [of k "dm[unat x := of_nat i]" "Suc i"] show ?thesis by simp
  qed
qed simp

text \<open>What an alphabet must be for the coding to work: 64 different letters, without the padding and with \<open>A\<close>.\<close>

locale base64_alphabet =
  fixes alphabet :: "cbyte list"
  assumes letters: "length alphabet = 64" "distinct alphabet"
    and no_pad: "pad \<notin> set alphabet"
    and has_A: "letter_A \<in> set alphabet"
begin

abbreviation maps :: base64_maps where
  "maps \<equiv> base64_init_maps alphabet"

lemma maps_simps: "encode_map maps = alphabet" "decode_map maps = fill_decode_map alphabet 0 (replicate 256 0xff)"
  by (simp_all add: base64_init_maps_def)

lemma decode_letter:
  assumes "s \<le> 63"
  shows "sixbit_from_b64 maps (alphabet ! unat s) = s" and "s \<noteq> - 1"
proof -
  have "unat s \<le> unat (63 :: cbyte)" using assms by (simp add: word_le_nat_alt)
  then have "unat s < length alphabet" by (simp add: letters(1))
  from fill_letter [OF letters(2) this, of "replicate 256 0xff" 0] have "decode_map maps ! unat (alphabet ! unat s) = s"
    by (simp add: maps_simps)
  moreover have "s \<noteq> 0xff" using assms by auto
  ultimately show "sixbit_from_b64 maps (alphabet ! unat s) = s" by (simp add: sixbit_from_b64_def Let_def)
  have "\<not> (- 1 :: cbyte) \<le> 63" by code_simp
  with assms show "s \<noteq> - 1" by blast
qed

lemma decode_other: "c \<notin> set alphabet \<Longrightarrow> sixbit_from_b64 maps c = - 1"
proof -
  assume "c \<notin> set alphabet"
  moreover have "unat c < 256" using unsigned_less [of c] by simp
  ultimately show ?thesis by (simp add: sixbit_from_b64_def maps_simps fill_other Let_def)
qed

lemma decode_valid: "c \<in> set alphabet \<Longrightarrow> sixbit_from_b64 maps c \<noteq> - 1"
proof -
  assume "c \<in> set alphabet"
  then obtain j where j: "j < 64" "c = alphabet ! j" by (metis in_set_conv_nth letters(1))
  then have "unat (of_nat j :: cbyte) = j" by (simp add: unat_of_nat)
  moreover from this have "(of_nat j :: cbyte) \<le> 63" using j(1) by (simp add: word_le_nat_alt)
  ultimately show ?thesis using decode_letter [of "of_nat j"] j(2) by simp
qed

lemma encode_letter: "s \<le> 63 \<Longrightarrow> sixbit_to_b64 maps s = Some (alphabet ! unat s) \<and> alphabet ! unat s \<in> set alphabet"
  by (simp add: sixbit_to_b64_def maps_simps letters(1) word_le_nat_alt less_Suc_eq_le [symmetric])

text \<open>The letters of a triplet.\<close>

definition letters_of :: "cbyte \<Rightarrow> cbyte \<Rightarrow> cbyte \<Rightarrow> cbyte list" where
  "letters_of a b c = map (\<lambda>s. alphabet ! unat s) (sextets a b c)"

lemma triplet: "base64_encode_triplet_using_maps maps a b c = Some (letters_of a b c)"
  using sextets_small [of a b c] encode_letter
  by (simp add: base64_encode_triplet_using_maps_def letters_of_def sextets_def)

lemma letters_of_set: "length (letters_of a b c) = 4" "set (letters_of a b c) \<subseteq> set alphabet"
  using sextets_small [of a b c] encode_letter by (auto simp: letters_of_def sextets_def)

lemma from_letters: "i < 4 \<Longrightarrow> sixbit_from_b64 maps (letters_of a b c ! i) = sextets a b c ! i \<and> sextets a b c ! i \<noteq> - 1"
proof -
  assume "i < 4"
  then have "i < length (sextets a b c)" by (simp add: sextets_def)
  then have "sextets a b c ! i \<le> 63" using sextets_small by (metis nth_mem)
  then show ?thesis using decode_letter \<open>i < length (sextets a b c)\<close> by (simp add: letters_of_def)
qed

text \<open>Decoding letters gives the bytes back, also when the last letters are replaced by \<open>A\<close>.\<close>

lemma quartet:
  assumes "letters_of a b c = [s0, s1, s2, s3]"
  shows "base64_decode_quartet_using_maps maps s0 s1 s2 s3 = Inr [a, b, c]"
proof -
  have s: "sixbit_from_b64 maps s0 = sextets a b c ! 0" "sixbit_from_b64 maps s1 = sextets a b c ! 1"
    "sixbit_from_b64 maps s2 = sextets a b c ! 2" "sixbit_from_b64 maps s3 = sextets a b c ! 3"
    "sextets a b c ! 0 \<noteq> - 1" "sextets a b c ! 1 \<noteq> - 1" "sextets a b c ! 2 \<noteq> - 1" "sextets a b c ! 3 \<noteq> - 1"
    using from_letters [of 0 a b c] from_letters [of 1 a b c] from_letters [of 2 a b c] from_letters [of 3 a b c]
    by (simp_all add: assms)
  show ?thesis unfolding base64_decode_quartet_using_maps_def s(1-4) Let_def using s(5-8) by (simp only: sextets_join) simp
qed

lemma quartet_A:
  assumes "letters_of a b c = [s0, s1, s2, s3]"
  shows "\<exists>x y. base64_decode_quartet_using_maps maps s0 s1 letter_A letter_A = Inr [a, x, y]"
    and "\<exists>x. base64_decode_quartet_using_maps maps s0 s1 s2 letter_A = Inr [a, b, x]"
proof -
  have s: "sixbit_from_b64 maps s0 = sextets a b c ! 0" "sixbit_from_b64 maps s1 = sextets a b c ! 1"
    "sixbit_from_b64 maps s2 = sextets a b c ! 2"
    "sextets a b c ! 0 \<noteq> - 1" "sextets a b c ! 1 \<noteq> - 1" "sextets a b c ! 2 \<noteq> - 1"
    using from_letters [of 0 a b c] from_letters [of 1 a b c] from_letters [of 2 a b c] by (simp_all add: assms)
  note A = decode_valid [OF has_A]
  show "\<exists>x y. base64_decode_quartet_using_maps maps s0 s1 letter_A letter_A = Inr [a, x, y]"
    unfolding base64_decode_quartet_using_maps_def s(1-3) Let_def using s(4-6) A by (simp only: sextets_join) simp
  show "\<exists>x. base64_decode_quartet_using_maps maps s0 s1 s2 letter_A = Inr [a, b, x]"
    unfolding base64_decode_quartet_using_maps_def s(1-3) Let_def using s(4-6) A by (simp only: sextets_join) simp
qed

text \<open>The last block.\<close>

lemma letters_split:
  obtains s0 s1 s2 s3 where "letters_of a b c = [s0, s1, s2, s3]"
    and "s0 \<noteq> pad" and "s1 \<noteq> pad" and "s2 \<noteq> pad" and "s3 \<noteq> pad"
proof -
  obtain s0 s1 s2 s3 where l: "letters_of a b c = [s0, s1, s2, s3]"
    using letters_of_set(1) [of a b c] by (auto simp: length_Suc_conv numeral_eq_Suc)
  moreover have "pad \<notin> set (letters_of a b c)" using letters_of_set(2) [of a b c] no_pad by blast
  ultimately show ?thesis using that by auto
qed

lemma tail_full:
  assumes "letters_of a b c = [s0, s1, s2, s3]" and "s3 \<noteq> pad"
  shows "base64_decode_tail_using_maps maps [s0, s1, s2, s3] = Inr [a, b, c]"
  using quartet [OF assms(1)] assms(2) by (simp add: base64_decode_tail_using_maps_def Let_def numeral_eq_Suc)

lemma tail_one: "\<exists>es. base64_encode_tail_using_maps maps [a] = Some es \<and> length es = 4 \<and> decode_blocks maps es = Inr [a]"
proof -
  obtain s0 s1 s2 s3 where l: "letters_of a 0 0 = [s0, s1, s2, s3]" "s0 \<noteq> pad" "s1 \<noteq> pad" "s2 \<noteq> pad" "s3 \<noteq> pad" by (rule letters_split)
  obtain x y where q: "base64_decode_quartet_using_maps maps s0 s1 letter_A letter_A = Inr [a, x, y]" using quartet_A(1) [OF l(1)] by blast
  have "base64_encode_tail_using_maps maps [a] = Some [s0, s1, pad, pad]"
    by (simp add: base64_encode_tail_using_maps_def Let_def numeral_eq_Suc triplet l(1))
  moreover have "base64_decode_tail_using_maps maps [s0, s1, pad, pad] = Inr [a]"
    using l(2-5) q by (simp add: base64_decode_tail_using_maps_def Let_def numeral_eq_Suc)
  ultimately show ?thesis by simp
qed

lemma tail_two: "\<exists>es. base64_encode_tail_using_maps maps [a, b] = Some es \<and> length es = 4 \<and> decode_blocks maps es = Inr [a, b]"
proof -
  obtain s0 s1 s2 s3 where l: "letters_of a b 0 = [s0, s1, s2, s3]" "s0 \<noteq> pad" "s1 \<noteq> pad" "s2 \<noteq> pad" "s3 \<noteq> pad" by (rule letters_split)
  obtain x where q: "base64_decode_quartet_using_maps maps s0 s1 s2 letter_A = Inr [a, b, x]" using quartet_A(2) [OF l(1)] by blast
  have "base64_encode_tail_using_maps maps [a, b] = Some [s0, s1, s2, pad]"
    by (simp add: base64_encode_tail_using_maps_def Let_def numeral_eq_Suc triplet l(1))
  moreover have "base64_decode_tail_using_maps maps [s0, s1, s2, pad] = Inr [a, b]"
    using l(2-5) q by (simp add: base64_decode_tail_using_maps_def Let_def numeral_eq_Suc)
  ultimately show ?thesis by simp
qed

lemma blocks_roundtrip:
  "\<exists>es. encode_blocks maps src = Some es \<and> length es = (length src + 2) div 3 * 4 \<and> decode_blocks maps es = Inr src"
proof (induction maps src rule: encode_blocks.induct)
  case (1 a b c src)
  obtain es where es: "encode_blocks maps src = Some es" "length es = (length src + 2) div 3 * 4" "decode_blocks maps es = Inr src"
    using 1 triplet by blast
  obtain s0 s1 s2 s3 where l: "letters_of a b c = [s0, s1, s2, s3]" "s0 \<noteq> pad" "s1 \<noteq> pad" "s2 \<noteq> pad" "s3 \<noteq> pad" by (rule letters_split)
  have "decode_blocks maps ([s0, s1, s2, s3] @ es) = Inr (a # b # c # src)"
  proof (cases es)
    case Nil
    then have "length src + 2 < 3" using es(2) by (simp add: div_eq_0_iff)
    then show ?thesis using Nil tail_full [OF l(1,5)] by simp
  next
    case (Cons e es')
    with es(3) quartet [OF l(1)] show ?thesis by simp
  qed
  moreover have "encode_blocks maps (a # b # c # src) = Some ([s0, s1, s2, s3] @ es)" by (simp add: triplet es(1) l(1))
  moreover have "length ([s0, s1, s2, s3] @ es) = (length (a # b # c # src) + 2) div 3 * 4"
  proof -
    have "(length src + 2 + 3) div 3 = (length src + 2) div 3 + 1" by (rule div_add_self2) simp
    then show ?thesis by (simp add: es(2))
  qed
  ultimately show ?case by blast
qed (use tail_one tail_two in \<open>simp_all add: base64_decode_tail_using_maps_def\<close>)

lemma coding_roundtrip:
  assumes "length src < 2 ^ 61" and "base64_encoded_length (length src) \<le> destlen"
    and "base64_decoded_length (base64_encoded_length (length src)) \<le> destlen'"
  shows "\<exists>dest. base64_encode_using_maps maps destlen src = Some (Inr (base64_encoded_length (length src), dest))
    \<and> length dest = destlen \<and> (\<forall>c \<in> set (drop (base64_encoded_length (length src)) dest). c = 0)
    \<and> base64_decode_using_maps maps destlen' (take (base64_encoded_length (length src)) dest)
      = Inr (length src, src @ replicate (destlen' - length src) 0)"
proof -
  obtain es where es: "encode_blocks maps src = Some es" "length es = (length src + 2) div 3 * 4" "decode_blocks maps es = Inr src"
    using blocks_roundtrip by blast
  have "(length src + 2) div 3 * 4 < 2 ^ 64" using assms(1) by (simp add: less_mult_imp_div_less div_less_iff_less_mult)
  then have n: "base64_encoded_length (length src) = length es"
    using assms(1) by (simp add: base64_encoded_length_def es(2))
  show ?thesis using assms(2,3) es(1,3)
    by (simp add: n base64_encode_using_maps_def base64_decode_using_maps_def)
qed

end

section \<open>Properties\<close>

interpretation rfc4648: base64_alphabet rfc4648_alphabet
proof
  show "length rfc4648_alphabet = 64" "distinct rfc4648_alphabet" "pad \<notin> set rfc4648_alphabet" "letter_A \<in> set rfc4648_alphabet"
    by code_simp+
qed

text \<open>Single blocks: three bytes become four letters and come back, and one or two bytes with padding.\<close>

lemma rfc4648_blocks:
  "\<exists>s0 s1 s2 s3. base64_encode_triplet a b c = Some [s0, s1, s2, s3] \<and> base64_decode_quartet s0 s1 s2 s3 = Inr [a, b, c]"
  "src \<in> {[a], [a, b]} \<Longrightarrow> \<exists>es. base64_encode_tail src = Some es \<and> base64_decode_tail es = Inr src"
proof -
  obtain s0 s1 s2 s3 where l: "rfc4648.letters_of a b c = [s0, s1, s2, s3]" by (rule rfc4648.letters_split)
  then show "\<exists>s0 s1 s2 s3. base64_encode_triplet a b c = Some [s0, s1, s2, s3] \<and> base64_decode_quartet s0 s1 s2 s3 = Inr [a, b, c]"
    using rfc4648.triplet [of a b c] rfc4648.quartet [OF l]
    by (simp add: base64_encode_triplet_def base64_decode_quartet_def rfc4648_maps)
  have four: "decode_blocks m es = base64_decode_tail_using_maps m es" if "length es = 4" for m es
    using that by (auto simp: length_Suc_conv numeral_eq_Suc)
  show "src \<in> {[a], [a, b]} \<Longrightarrow> \<exists>es. base64_encode_tail src = Some es \<and> base64_decode_tail es = Inr src"
    using rfc4648.tail_one [of a] rfc4648.tail_two [of a b] four
    by (fastforce simp: base64_encode_tail_def base64_decode_tail_def rfc4648_maps)
qed

lemma rfc4648_roundtrip:
  assumes "length src < 2 ^ 61"
  shows "\<exists>dest. base64_encode (base64_encoded_length (length src)) src = Some (Inr (base64_encoded_length (length src), dest))
    \<and> base64_decode (base64_decoded_length (base64_encoded_length (length src))) dest =
      Inr (length src, src @ replicate (base64_decoded_length (base64_encoded_length (length src)) - length src) 0)"
proof -
  obtain dest where d: "base64_encode_using_maps base64_maps_rfc4648 (base64_encoded_length (length src)) src =
      Some (Inr (base64_encoded_length (length src), dest))" "length dest = base64_encoded_length (length src)"
    "base64_decode_using_maps base64_maps_rfc4648 (base64_decoded_length (base64_encoded_length (length src)))
      (take (base64_encoded_length (length src)) dest) =
      Inr (length src, src @ replicate (base64_decoded_length (base64_encoded_length (length src)) - length src) 0)"
    using rfc4648.coding_roundtrip [OF assms order_refl order_refl] unfolding rfc4648_maps by blast
  then show ?thesis by (simp add: base64_encode_def base64_decode_def)
qed

text \<open>
  C20. What was encoded can be decoded. For an alphabet of 64 different letters without the padding
  character and with the letter \<open>A\<close>, as that of RFC 4648, and every source: encoding writes the promised number
  of characters and fills the rest of the destination with zeros, no assertion fails, and decoding these
  characters into a large enough destination gives exactly the source, followed by zeros.
\<close>

theorem base64_roundtrip:
  assumes "base64_alphabet alphabet" and "length src < 2 ^ 61" and "base64_encoded_length (length src) \<le> destlen"
    and "base64_decoded_length (base64_encoded_length (length src)) \<le> destlen'"
    and "maps = base64_init_maps alphabet" and "n = base64_encoded_length (length src)"
  shows "\<exists>dest. base64_encode_using_maps maps destlen src = Some (Inr (n, dest))
    \<and> length dest = destlen \<and> (\<forall>c \<in> set (drop n dest). c = 0)
    \<and> base64_decode_using_maps maps destlen' (take n dest) = Inr (length src, src @ replicate (destlen' - length src) 0)"
  unfolding assms(5,6) by (rule base64_alphabet.coding_roundtrip [OF assms(1-4)])

theorem base64_roundtrip_witness:
  "\<exists>dest. base64_encode 10 (cbytes ''foob'') = Some (Inr (8, dest)) \<and> base64_decode 6 (take 8 dest) = Inr (4, cbytes ''foob'' @ [0, 0])"
proof -
  have l: "length (cbytes ''foob'') = 4" by (simp add: cbytes_def)
  have n: "base64_encoded_length 4 = 8" "base64_decoded_length 8 = 6"
    by (simp_all add: base64_encoded_length_def base64_decoded_length_def)
  have h: "length (cbytes ''foob'') < 2 ^ 61" "base64_encoded_length (length (cbytes ''foob'')) \<le> 10"
    "base64_decoded_length (base64_encoded_length (length (cbytes ''foob''))) \<le> 6" by (simp_all add: l n)
  from base64_roundtrip [OF rfc4648.base64_alphabet_axioms h rfc4648_maps refl] show ?thesis
    by (auto simp: l n base64_encode_def base64_decode_def numeral_2_eq_2)
qed

text \<open>
  With another alphabet the decoder fails on what the encoder made. The end of the last block is filled up
  with the letter \<open>A\<close> whatever the alphabet is; when \<open>A\<close> is not one of its letters, a source whose length is
  not a multiple of three is encoded, but decoding the result is an error.
\<close>

definition alphabet_without_A :: "cbyte list" where
  "alphabet_without_A = cbytes ''.BCDEFGHIJKLMNOPQRSTUVWXYZabcdefghijklmnopqrstuvwxyz0123456789+/''"

theorem base64_without_A:
  "length alphabet_without_A = 64 \<and> distinct alphabet_without_A \<and> pad \<notin> set alphabet_without_A
   \<and> base64_encode_using_maps (base64_init_maps alphabet_without_A) 4 (cbytes ''a'') = Some (Inr (4, cbytes ''YQ==''))
   \<and> base64_decode_using_maps (base64_init_maps alphabet_without_A) 3 (cbytes ''YQ=='') = Inl EDOM"
proof -
  have "length alphabet_without_A = 64 \<and> distinct alphabet_without_A \<and> pad \<notin> set alphabet_without_A" by code_simp
  moreover have "encode_blocks (base64_init_maps alphabet_without_A) (cbytes ''a'') = Some (cbytes ''YQ=='')" by code_simp
  moreover have "decode_blocks (base64_init_maps alphabet_without_A) (cbytes ''YQ=='') = Inl EDOM" by code_simp
  moreover have "length (cbytes ''a'') = 1" "length (cbytes ''YQ=='') = 4" by (simp_all add: cbytes_def)
  ultimately show ?thesis
    by (simp add: base64_encode_using_maps_def base64_decode_using_maps_def base64_encoded_length_def base64_decoded_length_def)
qed

end
