(* ===== verification/Idset.thy ===== *)
theory Idset
  imports Prelude
begin

text \<open>
  The interface to flux-core's \<^verbatim>\<open>idset\<close> library, which is not part of this repository: a
  record of its operations (the parameter of every definition that calls it) and a locale with
  the documented behaviour the callers rely on. A pointer to a set is an \<open>'i option\<close>, with
  \<open>None\<close> for \<^verbatim>\<open>NULL\<close>. The theory ends with an instance of the interface, built on plain sets,
  that the witnesses use.
\<close>

section \<open>The operations\<close>

record 'i idset_api =
  idset_test :: "'i option \<Rightarrow> nat \<Rightarrow> bool"
  idset_equal :: "'i option \<Rightarrow> 'i option \<Rightarrow> bool"
  idset_intersect :: "'i option \<Rightarrow> 'i option \<Rightarrow> 'i option"
  idset_count :: "'i option \<Rightarrow> nat"
  idset_universe_size :: "'i \<Rightarrow> nat"
  idset_create_full_rr :: "nat \<Rightarrow> 'i option"
    \<comment> \<open>\<^verbatim>\<open>idset_create (size, IDSET_FLAG_INITFULL | IDSET_FLAG_ALLOC_RR)\<close>\<close>
  idset_clear :: "'i \<Rightarrow> nat \<Rightarrow> 'i option"
  idset_alloc :: "'i option \<Rightarrow> (nat \<times> 'i) option"
  idset_free :: "'i option \<Rightarrow> nat \<Rightarrow> 'i option"
  idset_decode_ex :: "string \<Rightarrow> string + 'i"
  idset_encode :: "'i option \<Rightarrow> string option"
  idset_first :: "'i \<Rightarrow> nat option"
    \<comment> \<open>\<open>None\<close> for \<^verbatim>\<open>IDSET_INVALID_ID\<close>\<close>
  idset_next :: "'i \<Rightarrow> nat \<Rightarrow> nat option"

section \<open>What the callers rely on\<close>

text \<open>The ids of a set pointer: none for \<^verbatim>\<open>NULL\<close>.\<close>

definition ids_of :: "('i \<Rightarrow> nat set) \<Rightarrow> 'i option \<Rightarrow> nat set" where
  "ids_of elems p = (case p of None \<Rightarrow> {} | Some i \<Rightarrow> elems i)"

lemma ids_of_simps [simp]: "ids_of elems None = {}" "ids_of elems (Some i) = elems i"
  by (simp_all add: ids_of_def)

locale idset_lib =
  fixes api :: "'i idset_api"
    and elems :: "'i \<Rightarrow> nat set"
  assumes test_NULL [simp]: "\<not> idset_test api None x"
    and test_iff [simp]: "idset_test api (Some i) x \<longleftrightarrow> x \<in> elems i"
    and equal_NULL [simp]: "\<not> idset_equal api None P" "\<not> idset_equal api P None"
    and equal_iff [simp]: "idset_equal api (Some i) (Some j) \<longleftrightarrow> elems i = elems j"
    and intersect_NULL: "idset_intersect api None P = None" "idset_intersect api P None = None"
    and intersect_elems:
      "idset_intersect api (Some i) (Some j) = Some k \<Longrightarrow> elems k = elems i \<inter> elems j"
    and elems_bound: "x \<in> elems i \<Longrightarrow> x < idset_universe_size api i"
    and universe_size_pos: "0 < idset_universe_size api i"
    and create_elems: "0 < n \<Longrightarrow> idset_create_full_rr api n = Some p \<Longrightarrow> elems p = {..<n}"
    and create_size:
      "0 < n \<Longrightarrow> idset_create_full_rr api n = Some p \<Longrightarrow> idset_universe_size api p = n"
    and clear_elems: "idset_clear api p x = Some q \<Longrightarrow> elems q = elems p - {x}"
    and clear_size:
      "idset_clear api p x = Some q \<Longrightarrow> idset_universe_size api q = idset_universe_size api p"
    and alloc_NULL [simp]: "idset_alloc api None = None"
    and alloc_empty: "idset_alloc api (Some p) = None \<longleftrightarrow> elems p = {}"
    and alloc_member: "idset_alloc api (Some p) = Some (x, q) \<Longrightarrow> x \<in> elems p"
    and alloc_elems: "idset_alloc api (Some p) = Some (x, q) \<Longrightarrow> elems q = elems p - {x}"
    and alloc_size:
      "idset_alloc api (Some p) = Some (x, q) \<Longrightarrow> idset_universe_size api q = idset_universe_size api p"
    and free_NULL [simp]: "idset_free api None x = None"
    and free_Some: "\<exists>q. idset_free api (Some p) x = Some q"
    and free_elems: "idset_free api (Some p) x = Some q \<Longrightarrow>
      elems q = (if x < idset_universe_size api p then insert x (elems p) else elems p)"
    and free_size:
      "idset_free api (Some p) x = Some q \<Longrightarrow> idset_universe_size api q = idset_universe_size api p"
    and count_NULL [simp]: "idset_count api None = 0"
    and count_card [simp]: "idset_count api (Some p) = card (elems p)"
    and decode_valid_set: "idset_decode_ex api ''0,2-9,11-65535'' = Inr v \<Longrightarrow>
      elems v = {x. x \<le> 65535 \<and> x \<noteq> 1 \<and> x \<noteq> 10}"
    and first_None: "idset_first api i = None \<longleftrightarrow> elems i = {}"
    and first_Some: "idset_first api i = Some x \<Longrightarrow> x \<in> elems i \<and> (\<forall>y \<in> elems i. x \<le> y)"
    and next_None: "idset_next api i x = None \<longleftrightarrow> (\<forall>y \<in> elems i. y \<le> x)"
    and next_Some: "idset_next api i x = Some y \<Longrightarrow>
      y \<in> elems i \<and> x < y \<and> (\<forall>z \<in> elems i. x < z \<longrightarrow> y \<le> z)"
begin

abbreviation ids :: "'i option \<Rightarrow> nat set" where
  "ids \<equiv> ids_of elems"

lemma test_ids [simp]: "idset_test api p x \<longleftrightarrow> x \<in> ids p"
  by (cases p) simp_all

lemma finite_elems [simp]: "finite (elems i)"
  by (rule finite_subset [of _ "{..<idset_universe_size api i}"]) (auto dest: elems_bound)

lemma count_ids [simp]: "idset_count api p = card (ids p)"
  by (cases p) simp_all

lemma finite_ids [simp]: "finite (ids p)"
  by (cases p) simp_all

lemma alloc_None_iff: "idset_alloc api p = None \<longleftrightarrow> ids p = {}"
  by (cases p) (simp_all add: alloc_empty)

lemma alloc_SomeD:
  assumes "idset_alloc api p = Some (x, q)"
  shows "x \<in> ids p" and "elems q = ids p - {x}"
  using assms by (cases p, auto dest: alloc_member alloc_elems)+

end

section \<open>An instance on plain sets\<close>

text \<open>
  The ids of a set, its universe size and the id from which the round-robin allocator searches.
  The string form is RFC 22's: comma-separated ids and \<^verbatim>\<open>lo-hi\<close> ranges.
\<close>

record rset =
  r_elems :: "nat set"
  r_size :: nat
  r_from :: nat

definition rset_wf :: "rset \<Rightarrow> bool" where
  "rset_wf r \<longleftrightarrow> 0 < r_size r \<and> (\<forall>x \<in> r_elems r. x < r_size r)"

typedef refset = "{r. rset_wf r}"
  by (rule exI [of _ "\<lparr>r_elems = {}, r_size = 1, r_from = 0\<rparr>"]) (simp add: rset_wf_def)

setup_lifting type_definition_refset

lift_definition rs_elems :: "refset \<Rightarrow> nat set" is r_elems .
lift_definition rs_size :: "refset \<Rightarrow> nat" is r_size .
lift_definition rs_from :: "refset \<Rightarrow> nat" is r_from .

lift_definition rs_make :: "nat set \<Rightarrow> nat \<Rightarrow> nat \<Rightarrow> refset" is
  "\<lambda>xs n k. \<lparr>r_elems = {x \<in> xs. x < Suc n}, r_size = Suc n, r_from = k\<rparr>"
  by (simp add: rset_wf_def)

lemma rs_make_simps [simp]:
  "rs_elems (rs_make xs n k) = {x \<in> xs. x < Suc n}"
  "rs_size (rs_make xs n k) = Suc n"
  "rs_from (rs_make xs n k) = k"
  by (transfer, simp)+

lemma rs_bound: "x \<in> rs_elems r \<Longrightarrow> x < rs_size r"
  by transfer (simp add: rset_wf_def)

lemma rs_size_pos [simp]: "0 < rs_size r"
  by transfer (simp add: rset_wf_def)

lemma rs_finite [simp]: "finite (rs_elems r)"
  by (rule finite_subset [of _ "{..<rs_size r}"]) (auto dest: rs_bound)

definition rs_pick :: "refset \<Rightarrow> nat" where
  "rs_pick r = (let later = {x \<in> rs_elems r. rs_from r \<le> x}
                in if later = {} then Min (rs_elems r) else Min later)"

lemma rs_pick_in:
  assumes "rs_elems r \<noteq> {}"
  shows "rs_pick r \<in> rs_elems r"
proof (cases "{x \<in> rs_elems r. rs_from r \<le> x} = {}")
  case True
  then show ?thesis using assms by (simp add: rs_pick_def Let_def)
next
  case False
  have "Min {x \<in> rs_elems r. rs_from r \<le> x} \<in> {x \<in> rs_elems r. rs_from r \<le> x}"
    by (rule Min_in) (use False in auto)
  moreover have "rs_pick r = Min {x \<in> rs_elems r. rs_from r \<le> x}"
    using False by (simp only: rs_pick_def Let_def if_False)
  ultimately show ?thesis by simp
qed

lemma rs_pick_member: "x \<in> rs_elems r \<Longrightarrow> rs_pick r \<in> rs_elems r"
  using rs_pick_in [of r] by blast

text \<open>Same universe as \<open>r\<close>, other members, next search position.\<close>

definition rs_with :: "refset \<Rightarrow> nat set \<Rightarrow> nat \<Rightarrow> refset" where
  "rs_with r xs k = rs_make xs (rs_size r - 1) k"

lemma rs_with_simps [simp]:
  "rs_elems (rs_with r xs k) = {x \<in> xs. x < rs_size r}"
  "rs_size (rs_with r xs k) = rs_size r"
  "rs_from (rs_with r xs k) = k"
  by (simp_all add: rs_with_def)

fun split_on :: "char \<Rightarrow> string \<Rightarrow> string list" where
  "split_on c [] = [[]]"
| "split_on c (x # xs) =
     (if x = c then [] # split_on c xs
      else (case split_on c xs of [] \<Rightarrow> [[x]] | w # ws \<Rightarrow> (x # w) # ws))"

definition parse_range :: "string \<Rightarrow> (nat \<times> nat) option" where
  "parse_range s = (case map nat_of_dec (split_on CHR ''-'' s) of
       [Some a] \<Rightarrow> Some (a, a)
     | [Some a, Some b] \<Rightarrow> (if a < b then Some (a, b) else None)
     | _ \<Rightarrow> None)"

fun parse_ranges :: "string list \<Rightarrow> (nat \<times> nat) list option" where
  "parse_ranges [] = Some []"
| "parse_ranges (w # ws) = (case parse_range w of None \<Rightarrow> None | Some r \<Rightarrow>
     map_option ((#) r) (parse_ranges ws))"

definition rs_decode :: "string \<Rightarrow> string + refset" where
  "rs_decode s = (if s = [] then Inr (rs_make {} 0 0) else
     (case parse_ranges (split_on CHR '','' s) of
        None \<Rightarrow> Inl ''parse error''
      | Some rs \<Rightarrow> Inr (rs_make (\<Union>(a, b) \<in> set rs. {a..b}) (foldr (max \<circ> snd) rs 0) 0)))"

fun join_with :: "char \<Rightarrow> string list \<Rightarrow> string" where
  "join_with c [] = []"
| "join_with c [w] = w"
| "join_with c (w # ws) = w @ c # join_with c ws"

declare parse_range_def [parse_eval] and rs_decode_def [parse_eval]

definition ref_api :: "refset idset_api" where
  "ref_api = \<lparr>
     idset_test = (\<lambda>p x. case p of None \<Rightarrow> False | Some r \<Rightarrow> x \<in> rs_elems r),
     idset_equal = (\<lambda>p q. case (p, q) of (Some r, Some s) \<Rightarrow> rs_elems r = rs_elems s | _ \<Rightarrow> False),
     idset_intersect = (\<lambda>p q. case (p, q) of
        (Some r, Some s) \<Rightarrow> Some (rs_with r (rs_elems r \<inter> rs_elems s) 0) | _ \<Rightarrow> None),
     idset_count = (\<lambda>p. case p of None \<Rightarrow> 0 | Some r \<Rightarrow> card (rs_elems r)),
     idset_universe_size = rs_size,
     idset_create_full_rr = (\<lambda>n. Some (if n = 0 then rs_make UNIV 1023 0 else rs_make UNIV (n - 1) 0)),
     idset_clear = (\<lambda>r x. Some (rs_with r (rs_elems r - {x}) (rs_from r))),
     idset_alloc = (\<lambda>p. case p of None \<Rightarrow> None | Some r \<Rightarrow>
        if rs_elems r = {} then None
        else Some (rs_pick r, rs_with r (rs_elems r - {rs_pick r}) (Suc (rs_pick r)))),
     idset_free = (\<lambda>p x. map_option (\<lambda>r. rs_with r (insert x (rs_elems r)) (rs_from r)) p),
     idset_decode_ex = rs_decode,
     idset_encode = map_option (\<lambda>r. join_with CHR '','' (map dec_of_nat (sorted_list_of_set (rs_elems r)))),
     idset_first = (\<lambda>r. if rs_elems r = {} then None else Some (Min (rs_elems r))),
     idset_next = (\<lambda>r x. let later = {y \<in> rs_elems r. x < y}
        in if later = {} then None else Some (Min later))\<rparr>"

lemma rs_decode_valid_set:
  assumes "rs_decode ''0,2-9,11-65535'' = Inr v"
  shows "rs_elems v = {x. x \<le> 65535 \<and> x \<noteq> 1 \<and> x \<noteq> 10}"
proof -
  have "v = rs_make (insert 0 ({Suc (Suc 0)..9} \<union> {11..65535})) 65535 0"
    using assms
    by (simp add: parse_eval)
  then show ?thesis by auto
qed

lemma Min_first:
  "rs_elems i \<noteq> {} \<Longrightarrow> Min (rs_elems i) = x \<Longrightarrow> x \<in> rs_elems i \<and> (\<forall>y \<in> rs_elems i. x \<le> y)"
  by (metis Min_in Min_le rs_finite)

lemma Min_later:
  fixes r :: refset and x :: nat
  assumes "{y \<in> rs_elems r. x < y} \<noteq> {}" and "Min {y \<in> rs_elems r. x < y} = m"
  shows "m \<in> rs_elems r \<and> x < m \<and> (\<forall>z \<in> rs_elems r. x < z \<longrightarrow> m \<le> z)"
proof -
  have "m \<in> {y \<in> rs_elems r. x < y}"
    using Min_in [of "{y \<in> rs_elems r. x < y}"] assms by auto
  moreover have "\<forall>z \<in> {y \<in> rs_elems r. x < y}. m \<le> z"
    using assms(2) Min_le [of "{y \<in> rs_elems r. x < y}"] by fastforce
  ultimately show ?thesis by blast
qed

interpretation ref: idset_lib ref_api rs_elems
proof
  fix i x
  show "(idset_first ref_api i = None) = (rs_elems i = {})"
    by (simp add: ref_api_def)
  show "idset_first ref_api i = Some x \<Longrightarrow> x \<in> rs_elems i \<and> (\<forall>y \<in> rs_elems i. x \<le> y)"
    using Min_first [of i x] by (auto simp: ref_api_def split: if_splits)
  show "(idset_next ref_api i x = None) = (\<forall>y \<in> rs_elems i. y \<le> x)"
    by (auto simp: ref_api_def Let_def not_le)
  fix y
  show "idset_next ref_api i x = Some y \<Longrightarrow>
      y \<in> rs_elems i \<and> x < y \<and> (\<forall>z \<in> rs_elems i. x < z \<longrightarrow> y \<le> z)"
    using Min_later [of i x y] by (auto simp: ref_api_def Let_def split: if_splits)
qed (auto simp: ref_api_def rs_pick_in rs_decode_valid_set rs_bound
      intro: rs_pick_member dest: rs_bound
      split: option.splits if_splits)

end
