(* ===== verification/Taskmap.thy ===== *)
theory Taskmap
  imports Idset
begin

text \<open>
  The interface to flux-core's \<^verbatim>\<open>taskmap\<close> library, which is not part of this repository: the
  operations that \<^verbatim>\<open>libapinfo\<close> and the shell plugins call as a record, the documented behaviour
  as a locale that extends the one of idsets, and an instance on lists.
\<close>

record ('t, 'i) taskmap_api =
  taskmap_create :: "'t option"
  taskmap_append :: "'t \<Rightarrow> int \<Rightarrow> int \<Rightarrow> int \<Rightarrow> 't option"
  taskmap_nnodes :: "'t \<Rightarrow> int"
  taskmap_ntasks :: "'t \<Rightarrow> int \<Rightarrow> int"
  taskmap_total_ntasks :: "'t \<Rightarrow> int"
  taskmap_nodeid :: "'t \<Rightarrow> int \<Rightarrow> int"
  taskmap_taskids :: "'t \<Rightarrow> int \<Rightarrow> 'i option"

text \<open>
  \<open>tasks t\<close> lists the node of every task of the map \<open>t\<close>, by task id. The counts are C integers.
\<close>

locale taskmap_lib = idset_lib ia elems for ia :: "'i idset_api" and elems +
  fixes ta :: "('t, 'i) taskmap_api"
    and tasks :: "'t \<Rightarrow> nat list"
  assumes total_tasks [simp]: "taskmap_total_ntasks ta t = int (length (tasks t))"
    and tasks_int: "int (length (tasks t)) < 2 ^ 31"
    and nodeid_tasks [simp]: "k < length (tasks t) \<Longrightarrow> taskmap_nodeid ta t (int k) = int (tasks t ! k)"
    and nnodes_bound: "n \<in> set (tasks t) \<Longrightarrow> int n < taskmap_nnodes ta t"
    and nnodes_int: "taskmap_nnodes ta t < 2 ^ 31"
    and ntasks_count: "int n < taskmap_nnodes ta t \<Longrightarrow> taskmap_ntasks ta t (int n) = int (count_list (tasks t) n)"
    and taskids_Some: "n \<in> set (tasks t) \<Longrightarrow> \<exists>s. taskmap_taskids ta t (int n) = Some s
      \<and> elems s = {k. k < length (tasks t) \<and> tasks t ! k = n}"
    and create_tasks: "taskmap_create ta = Some t \<Longrightarrow> tasks t = []"
    and append_tasks: "taskmap_append ta t (int n) 1 1 = Some t' \<Longrightarrow> tasks t' = tasks t @ [n]"

section \<open>An instance on lists\<close>

text \<open>Lists of at most as many tasks and nodes as the counts can hold.\<close>

typedef task_list = "{ns :: nat list. length ns < 2 ^ 31 \<and> (\<forall>n \<in> set ns. n < 2 ^ 31 - 1)}"
  by (rule exI [of _ "[]"]) simp

setup_lifting type_definition_task_list

lift_definition tl_list :: "task_list \<Rightarrow> nat list" is "\<lambda>ns. ns" .

lift_definition tl_make :: "nat list \<Rightarrow> task_list" is
  "\<lambda>ns. if length ns < 2 ^ 31 \<and> (\<forall>n \<in> set ns. n < 2 ^ 31 - 1) then ns else []"
  by auto

lemma tl_make_list [simp]:
  "length ns < 2 ^ 31 \<Longrightarrow> \<forall>n \<in> set ns. n < 2 ^ 31 - 1 \<Longrightarrow> tl_list (tl_make ns) = ns"
  by transfer simp

lemma tl_list_bounds: "length (tl_list t) < 2 ^ 31" "n \<in> set (tl_list t) \<Longrightarrow> n < 2 ^ 31 - 1"
  by (transfer, simp)+

definition tl_nnodes :: "task_list \<Rightarrow> nat" where
  "tl_nnodes t = foldr (max \<circ> Suc) (tl_list t) 0"

lemma foldr_max_Suc: "foldr (max \<circ> Suc) ns 0 \<le> m \<longleftrightarrow> (\<forall>n \<in> set ns. n < m)"
  by (induction ns) auto

definition tl_taskmap :: "(task_list, refset) taskmap_api" where
  "tl_taskmap = \<lparr>taskmap_create = Some (tl_make []),
     taskmap_append = (\<lambda>t n k p.
       if n < 0 \<or> n \<ge> 2 ^ 31 - 1 \<or> length (tl_list t) + 1 \<ge> 2 ^ 31 \<or> k \<noteq> 1 \<or> p \<noteq> 1 then None
       else Some (tl_make (tl_list t @ [nat n]))),
     taskmap_nnodes = (\<lambda>t. int (tl_nnodes t)),
     taskmap_ntasks = (\<lambda>t n. int (count_list (tl_list t) (nat n))),
     taskmap_total_ntasks = (\<lambda>t. int (length (tl_list t))),
     taskmap_nodeid = (\<lambda>t k. int (tl_list t ! nat k)),
     taskmap_taskids = (\<lambda>t n. Some (rs_make {k. k < length (tl_list t) \<and> tl_list t ! k = nat n}
        (length (tl_list t)) 0))\<rparr>"

interpretation tl_map: taskmap_lib ref_api rs_elems tl_taskmap tl_list
proof
  fix t t' :: task_list and n k :: nat
  show "int (length (tl_list t)) < 2 ^ 31"
    using tl_list_bounds(1) [of t] by simp
  have "tl_nnodes t \<le> 2 ^ 31 - 1"
    using tl_list_bounds(2) [of _ t] unfolding tl_nnodes_def foldr_max_Suc by blast
  then show "taskmap_nnodes tl_taskmap t < 2 ^ 31"
    by (simp add: tl_taskmap_def)
  show "n \<in> set (tl_list t) \<Longrightarrow> int n < taskmap_nnodes tl_taskmap t"
    using foldr_max_Suc [of "tl_list t" "tl_nnodes t"] by (simp add: tl_taskmap_def tl_nnodes_def)
  show "taskmap_append tl_taskmap t (int n) 1 1 = Some t' \<Longrightarrow> tl_list t' = tl_list t @ [n]"
    using tl_list_bounds(2) [of _ t] by (auto simp: tl_taskmap_def split: if_splits)
qed (auto simp: tl_taskmap_def)

end
