(* ===== verification/Hostlist.thy ===== *)
theory Hostlist
  imports Prelude
begin

text \<open>
  The interface to flux-core's \<^verbatim>\<open>hostlist\<close> library, which is not part of this repository, and to
  the JSON arrays of host names that the plugins read: the operations as a record, the documented
  behaviour as a locale, and an instance on lists of names for the witnesses.
\<close>

record 'h hostlist_api =
  hostlist_create :: "'h option"
  hostlist_append :: "'h \<Rightarrow> string \<Rightarrow> 'h option"
  hostlist_count :: "'h \<Rightarrow> nat"
  hostlist_nth :: "'h \<Rightarrow> nat \<Rightarrow> string"

text \<open>
  \<open>hosts\<close> lists the names of a hostlist, \<open>expand\<close> the names that a hostlist string such as
  \<^verbatim>\<open>"n[1-3]"\<close> denotes.
\<close>

locale hostlist_lib =
  fixes hl :: "'h hostlist_api"
    and hosts :: "'h \<Rightarrow> string list"
    and expand :: "string \<Rightarrow> string list option"
  assumes create_hosts: "hostlist_create hl = Some h \<Longrightarrow> hosts h = []"
    and append_hosts: "hostlist_append hl h s = Some h' \<Longrightarrow> \<exists>xs. expand s = Some xs \<and> hosts h' = hosts h @ xs"
    and append_fails: "expand s = None \<Longrightarrow> hostlist_append hl h s = None"
    and count_hosts [simp]: "hostlist_count hl h = length (hosts h)"
    and nth_hosts [simp]: "n < length (hosts h) \<Longrightarrow> hostlist_nth hl h n = hosts h ! n"

definition list_hostlist :: "string list hostlist_api" where
  "list_hostlist = \<lparr>hostlist_create = Some [], hostlist_append = (\<lambda>h s. Some (h @ [s])),
     hostlist_count = length, hostlist_nth = (!)\<rparr>"

interpretation plain_hosts: hostlist_lib list_hostlist "\<lambda>h. h" "\<lambda>s. Some [s]"
  by unfold_locales (auto simp: list_hostlist_def)

text \<open>
  A JSON value that should be an array of strings: \<open>None\<close> when it is not an array, and
  \<open>None\<close> for an entry that is not a string.
\<close>

type_synonym json_names = "string option list option"

text \<open>\<^verbatim>\<open>hostlist_from_array\<close>, which both PMI plugins have a copy of, and its loop.\<close>

fun append_names :: "'h hostlist_api \<Rightarrow> 'h \<Rightarrow> string option list \<Rightarrow> 'h option" where
  "append_names hl h [] = Some h"
| "append_names hl h (v # vs) = (case v of
       None \<Rightarrow> None
     | Some entry \<Rightarrow> (case hostlist_append hl h entry of
          None \<Rightarrow> None
        | Some h' \<Rightarrow> append_names hl h' vs))"

definition hostlist_from_array :: "'h hostlist_api \<Rightarrow> json_names \<Rightarrow> 'h option" where
  "hostlist_from_array hl nodelist_array = (case nodelist_array of
       None \<Rightarrow> None
     | Some vs \<Rightarrow> (case hostlist_create hl of None \<Rightarrow> None | Some h \<Rightarrow> append_names hl h vs))"

context hostlist_lib
begin

text \<open>The hosts of the list are those that its strings denote, in order.\<close>

lemma append_names_hosts:
  "append_names hl h vs = Some h' \<Longrightarrow> \<exists>names xss. vs = map Some names \<and> map expand names = map Some xss
     \<and> hosts h' = hosts h @ concat xss"
proof (induction vs arbitrary: h)
  case (Cons v vs)
  then obtain e h1 where v: "v = Some e" "hostlist_append hl h e = Some h1" "append_names hl h1 vs = Some h'"
    by (auto split: option.splits)
  obtain xs where xs: "expand e = Some xs" "hosts h1 = hosts h @ xs"
    using append_hosts [OF v(2)] by (elim exE conjE)
  obtain names xss where n: "vs = map Some names" "map expand names = map Some xss"
    "hosts h' = hosts h1 @ concat xss"
    using Cons.IH [OF v(3)] by (elim exE conjE)
  show ?case
    by (rule exI [of _ "e # names"], rule exI [of _ "xs # xss"]) (simp add: v(1) xs n)
qed simp

lemma from_array_hosts:
  assumes "hostlist_from_array hl vs = Some h"
  shows "\<exists>names xss. vs = Some (map Some names) \<and> map expand names = map Some xss \<and> hosts h = concat xss"
proof -
  obtain us h0 where "vs = Some us" "hostlist_create hl = Some h0" "append_names hl h0 us = Some h"
    using assms by (auto simp: hostlist_from_array_def split: option.splits)
  with append_names_hosts [of h0 us h] create_hosts [of h0] show ?thesis by fastforce
qed

end

end
