(* ===== verification/Libutil.thy ===== *)
theory Libutil
  imports Prelude Complex_Main
begin

text \<open>
  The utility functions of \<^verbatim>\<open>src/common/libutil\<close>: the error container of \<^verbatim>\<open>errprintf.c\<close>, the
  monotonic clock of \<^verbatim>\<open>monotime.c\<close> and the duration strings of \<^verbatim>\<open>fsd.c\<close>.
\<close>

section \<open>C strings\<close>

text \<open>
  A character array and the string in it, up to the first NUL; \<open>snprintf_to\<close> is what
  \<^verbatim>\<open>snprintf (buf, n, ...)\<close> leaves in the array when the formatted text is \<open>s\<close>.
\<close>

abbreviation NUL :: char where
  "NUL \<equiv> CHR 0x00"

definition c_string :: "char list \<Rightarrow> string" where
  "c_string buf = takeWhile (\<lambda>c. c \<noteq> NUL) buf"

definition snprintf_to :: "char list \<Rightarrow> nat \<Rightarrow> string \<Rightarrow> char list" where
  "snprintf_to buf n s =
     (if n = 0 then buf
      else (let t = take (n - 1) s in t @ NUL # drop (Suc (length t)) buf))"

lemma c_string_append [simp]: "NUL \<notin> set s \<Longrightarrow> c_string (s @ NUL # r) = s"
  by (induction s) (auto simp: c_string_def)

lemma length_snprintf_to: "n \<le> length buf \<Longrightarrow> length (snprintf_to buf n s) = length buf"
  by (auto simp: snprintf_to_def Let_def)

lemma c_string_snprintf:
  "NUL \<notin> set s \<Longrightarrow> 0 < n \<Longrightarrow> c_string (snprintf_to buf n s) = take (n - 1) s"
proof -
  assume s: "NUL \<notin> set s" and n: "0 < n"
  have "snprintf_to buf n s = take (n - 1) s @ NUL # drop (Suc (length (take (n - 1) s))) buf"
    using n by (simp add: snprintf_to_def Let_def)
  moreover have "NUL \<notin> set (take (n - 1) s)" using s by (auto dest: in_set_takeD)
  ultimately show ?thesis using c_string_append [of "take (n - 1) s"] by metis
qed

section \<open>errprintf\<close>

definition flux_error_size :: nat where
  "flux_error_size = 160"

text \<open>
  The text after \<^verbatim>\<open>verrprintf\<close>: \<open>errp\<close> is the old text (\<open>None\<close> for a \<^verbatim>\<open>NULL\<close> pointer) and
  \<open>msg\<close> the formatted message (\<open>None\<close> for a \<^verbatim>\<open>NULL\<close> format). \<^verbatim>\<open>errno\<close> is saved and restored.
\<close>

definition verrprintf :: "char list option \<Rightarrow> string option \<Rightarrow> char list option \<times> int" where
  "verrprintf errp msg =
     (case errp of
        None \<Rightarrow> (None, -1)
      | Some old \<Rightarrow>
          (let text = replicate flux_error_size NUL in
           case msg of
             None \<Rightarrow> (Some text, -1)
           | Some s \<Rightarrow>
               (let text = snprintf_to text flux_error_size s; n = length s in
                (Some (if n > flux_error_size then text[flux_error_size - 2 := CHR ''+''] else text), -1))))"

definition errprintf :: "char list option \<Rightarrow> string option \<Rightarrow> char list option \<times> int" where
  "errprintf errp msg = verrprintf errp msg"

definition err_init :: "char list option \<Rightarrow> char list option" where
  "err_init errp = (case errp of None \<Rightarrow> None | Some old \<Rightarrow> Some (replicate flux_error_size NUL))"

text \<open>The message that a caller reads from its error container.\<close>

definition error_msg :: "string \<Rightarrow> string" where
  "error_msg s = (case errprintf (Some []) (Some s) of (Some t, _) \<Rightarrow> c_string t | _ \<Rightarrow> [])"

lemma c_string_replicate [simp]: "c_string (replicate n NUL) = []"
  by (cases n) (simp_all add: c_string_def)

text \<open>
  The text left by \<^verbatim>\<open>errprintf\<close> is a NUL-terminated string in the 160 bytes of the
  container: the message itself when it has at most 159 characters; when it has more than 160,
  its first 158 characters and a \<^verbatim>\<open>+\<close>. A message of exactly 160 characters loses its last one
  without the mark.
\<close>

theorem errprintf_text:
  assumes "NUL \<notin> set s"
  shows "\<exists>t. errprintf (Some old) (Some s) = (Some t, -1) \<and> length t = 160 \<and> last t = NUL
    \<and> c_string t = (if length s \<le> 159 then s
        else if length s = 160 then take 159 s else take 158 s @ ''+'')"
proof -
  let ?t = "snprintf_to (replicate 160 NUL) 160 s"
  have len: "length ?t = 160" by (simp add: length_snprintf_to)
  have last: "last ?t = NUL"
    by (auto simp: snprintf_to_def Let_def last_append last_drop)
  show ?thesis
  proof (cases "length s > 160")
    case True
    then have t: "?t = take 159 s @ [NUL]" by (simp add: snprintf_to_def Let_def)
    have "take 159 s = take 158 s @ [s ! 158]"
      using True take_Suc_conv_app_nth [of 158 s] by simp
    then have "?t[158 := CHR ''+''] = take 158 s @ CHR ''+'' # [NUL]"
      using True t by (simp add: list_update_append)
    moreover have "c_string ((take 158 s @ ''+'') @ NUL # []) = take 158 s @ ''+''"
      by (rule c_string_append) (use assms in \<open>auto dest: in_set_takeD\<close>)
    ultimately show ?thesis
      using True by (simp add: errprintf_def verrprintf_def flux_error_size_def Let_def)
  next
    case False
    then have "c_string ?t = (if length s \<le> 159 then s else take 159 s)"
      using c_string_snprintf [OF assms, of 160] by simp
    then show ?thesis
      using False len last by (simp add: errprintf_def verrprintf_def flux_error_size_def Let_def)
  qed
qed

theorem errprintf_text_witness:
  "\<exists>t. errprintf (Some []) (Some (replicate 160 CHR ''x'')) = (Some t, -1)
     \<and> c_string t = replicate 159 CHR ''x''"
  using errprintf_text [of "replicate 160 CHR ''x''" "[]"] by (auto simp: min_def)

lemma error_msg_short:
  assumes "NUL \<notin> set s" and "length s \<le> 159"
  shows "error_msg s = s"
  using assms c_string_snprintf [OF assms(1), of 160 "replicate 160 NUL"]
  by (simp add: error_msg_def errprintf_def verrprintf_def flux_error_size_def Let_def)

section \<open>monotime\<close>

record timespec =
  tv_sec :: int
  tv_nsec :: int

definition ts_diff :: "timespec \<Rightarrow> timespec \<Rightarrow> timespec" where
  "ts_diff start fin =
     (if tv_nsec fin - tv_nsec start < 0
      then \<lparr>tv_sec = tv_sec fin - tv_sec start - 1, tv_nsec = 1000000000 + tv_nsec fin - tv_nsec start\<rparr>
      else \<lparr>tv_sec = tv_sec fin - tv_sec start, tv_nsec = tv_nsec fin - tv_nsec start\<rparr>)"

text \<open>\<open>now\<close> is what \<^verbatim>\<open>clock_gettime\<close> reports; the result is in milliseconds, before rounding.\<close>

definition monotime_since :: "timespec \<Rightarrow> timespec \<Rightarrow> real" where
  "monotime_since now t0 =
     (let d = ts_diff t0 now in of_int (tv_sec d) * 1000 + of_int (tv_nsec d) / 1000000)"

definition monotime_isset :: "timespec \<Rightarrow> bool" where
  "monotime_isset t \<longleftrightarrow> tv_sec t \<noteq> 0 \<or> tv_nsec t \<noteq> 0"

definition ts_ok :: "timespec \<Rightarrow> bool" where
  "ts_ok t \<longleftrightarrow> 0 \<le> tv_nsec t \<and> tv_nsec t < 1000000000"

definition ts_ns :: "timespec \<Rightarrow> int" where
  "ts_ns t = 1000000000 * tv_sec t + tv_nsec t"

text \<open>
  The difference of two normalised times is normalised and is their distance in
  nanoseconds, in whichever order they come, and \<^verbatim>\<open>monotime_since\<close> reports it in milliseconds;
  so the reported time is not negative when the clock did not go back.
\<close>

theorem ts_diff_exact:
  assumes "ts_ok t0" and "ts_ok now"
  shows "ts_ok (ts_diff t0 now) \<and> ts_ns (ts_diff t0 now) = ts_ns now - ts_ns t0
    \<and> monotime_since now t0 = of_int (ts_ns now - ts_ns t0) / 1000000
    \<and> (0 \<le> monotime_since now t0 \<longleftrightarrow> ts_ns t0 \<le> ts_ns now)"
proof -
  have ok: "ts_ok (ts_diff t0 now)"
    using assms by (auto simp: ts_ok_def ts_diff_def)
  have ns: "ts_ns (ts_diff t0 now) = ts_ns now - ts_ns t0"
    by (simp add: ts_ns_def ts_diff_def)
  have "monotime_since now t0 = of_int (ts_ns (ts_diff t0 now)) / 1000000"
    by (simp add: monotime_since_def ts_ns_def Let_def field_simps)
  then have "monotime_since now t0 = of_int (ts_ns now - ts_ns t0) / 1000000"
    by (simp only: ns)
  moreover from this have "0 \<le> monotime_since now t0 \<longleftrightarrow> ts_ns t0 \<le> ts_ns now"
    by (simp only: zero_le_divide_iff of_int_0_le_iff) simp
  ultimately show ?thesis using ok ns by simp
qed

theorem ts_diff_exact_witness:
  "ts_ns (ts_diff \<lparr>tv_sec = 5, tv_nsec = 900000000\<rparr> \<lparr>tv_sec = 7, tv_nsec = 100000000\<rparr>) = 1200000000"
  using ts_diff_exact [of "\<lparr>tv_sec = 5, tv_nsec = 900000000\<rparr>" "\<lparr>tv_sec = 7, tv_nsec = 100000000\<rparr>"]
  by (simp add: ts_ok_def ts_ns_def)

section \<open>Flux standard durations\<close>

text \<open>
  A C \<^verbatim>\<open>double\<close> without its bits: not a number, an infinity with its sign, or a finite value.
  The floating-point operations and conversions of the C library that \<^verbatim>\<open>fsd.c\<close> calls are a
  parameter: multiplication and division, \<^verbatim>\<open>strtod\<close> (the value and the unread rest) and the
  \<^verbatim>\<open>%.*g\<close> conversion.
\<close>

datatype double = NaN | Infinite bool | Finite real

record float_ops =
  fmul :: "double \<Rightarrow> double \<Rightarrow> double"
  fdiv :: "double \<Rightarrow> double \<Rightarrow> double"
  strtod :: "string \<Rightarrow> double \<times> string"
  fmt_g :: "int \<Rightarrow> double \<Rightarrow> string"

definition double_less :: "double \<Rightarrow> real \<Rightarrow> bool" where
  "double_less d x = (case d of NaN \<Rightarrow> False | Infinite neg \<Rightarrow> neg | Finite r \<Rightarrow> r < x)"

definition isinf :: "double \<Rightarrow> bool" where
  "isinf d = (case d of Infinite _ \<Rightarrow> True | _ \<Rightarrow> False)"

definition is_invalid_duration :: "double \<Rightarrow> errno option" where
  "is_invalid_duration d = (if d = NaN then Some EINVAL else if double_less d 0 then Some EINVAL else None)"

definition fsd_unit :: "string \<Rightarrow> real option" where
  "fsd_unit p =
     (if p = ''ms'' then Some (1 / 1000) else if p = ''s'' then Some 1 else if p = ''m'' then Some 60
      else if p = ''h'' then Some (60 * 60) else if p = ''d'' then Some (60 * 60 * 24) else None)"

definition fsd_parse_duration :: "float_ops \<Rightarrow> string option \<Rightarrow> errno + double" where
  "fsd_parse_duration F arg = (case arg of
       None \<Rightarrow> Inl EINVAL
     | Some s \<Rightarrow>
         (let (d, p) = strtod F s in
          case is_invalid_duration d of
            Some e \<Rightarrow> Inl e
          | None \<Rightarrow>
              if p = [] then Inr d
              else if isinf d then Inl EINVAL
              else (case fsd_unit p of
                  None \<Rightarrow> Inl EINVAL
                | Some multiplier \<Rightarrow> Inr (fmul F d (Finite multiplier)))))"

text \<open>The text that \<^verbatim>\<open>fsd_format_duration_ex\<close> prints, and its call with precision 6.\<close>

definition fsd_format_text :: "float_ops \<Rightarrow> double \<Rightarrow> int \<Rightarrow> errno + string" where
  "fsd_format_text F duration precision =
     (if isinf duration then Inr ''infinity''
      else if is_invalid_duration duration \<noteq> None then Inl EINVAL
      else if double_less duration (1 / 10) \<and> duration \<noteq> Finite 0
        then Inr (fmt_g F precision (fmul F duration (Finite 1000)) @ ''ms'')
      else if double_less duration 60 then Inr (fmt_g F precision duration @ ''s'')
      else if double_less duration (60 * 60)
        then Inr (fmt_g F precision (fdiv F duration (Finite 60)) @ ''m'')
      else if double_less duration (60 * 60 * 24)
        then Inr (fmt_g F precision (fdiv F duration (Finite (60 * 60))) @ ''h'')
      else Inr (fmt_g F precision (fdiv F duration (Finite (60 * 60 * 24))) @ ''d''))"

definition fsd_format_duration_ex ::
  "float_ops \<Rightarrow> char list option \<Rightarrow> nat \<Rightarrow> double \<Rightarrow> int \<Rightarrow> errno + (char list \<times> nat)" where
  "fsd_format_duration_ex F buf len duration precision = (case buf of
       None \<Rightarrow> Inl EINVAL
     | Some b \<Rightarrow>
         if len = 0 then Inl EINVAL
         else (case fsd_format_text F duration precision of
             Inl e \<Rightarrow> Inl e
           | Inr s \<Rightarrow> Inr (snprintf_to b len s, length s)))"

definition fsd_format_duration ::
  "float_ops \<Rightarrow> char list option \<Rightarrow> nat \<Rightarrow> double \<Rightarrow> errno + (char list \<times> nat)" where
  "fsd_format_duration F buf len duration = fsd_format_duration_ex F buf len duration 6"

text \<open>
  What the durations rely on in the C library, for values between \<open>lo\<close> and \<open>hi\<close>: \<^verbatim>\<open>strtod\<close> reads a number
  that \<^verbatim>\<open>%.*g\<close> wrote in front of a unit up to a relative error of \<open>eps\<close>, which depends on the precision,
  and leaves the unit; a product and a quotient have a relative error of at most \<open>ulp\<close>, which also
  covers the rounding of the constants in the program; and \<^verbatim>\<open>infinity\<close> is read. For doubles and
  six digits \<open>eps\<close> is about \<open>5 / 10 ^ 6\<close> and \<open>ulp\<close> about \<open>1 / 2 ^ 52\<close>.
\<close>

definition in_range :: "real \<Rightarrow> real \<Rightarrow> real \<Rightarrow> bool" where
  "in_range lo hi x \<longleftrightarrow> x = 0 \<or> (lo \<le> x \<and> x \<le> hi)"

definition near :: "real \<Rightarrow> real \<Rightarrow> real \<Rightarrow> bool" where
  "near e x y \<longleftrightarrow> \<bar>y - x\<bar> \<le> e * x"

text \<open>The units of RFC 23, in seconds.\<close>

definition unit_seconds :: "(string \<times> real) list" where
  "unit_seconds = [(''ms'', 1 / 1000), (''s'', 1), (''m'', 60), (''h'', 3600), (''d'', 86400)]"

locale float_lib =
  fixes F :: float_ops and eps :: "int \<Rightarrow> real" and ulp lo hi :: real
  assumes bounds: "0 \<le> eps prec" "eps prec \<le> 1 / 2" "0 \<le> ulp" "ulp \<le> 1 / 8" "0 < lo" "lo \<le> 1 / 1000" "400000000 \<le> hi"
    and strtod_fmt: "u \<in> fst ` set unit_seconds \<Longrightarrow> in_range lo (hi / 2) r \<Longrightarrow>
      \<exists>v. strtod F (fmt_g F prec (Finite r) @ u) = (Finite v, u) \<and> near (eps prec) r v"
    and strtod_infinity: "strtod F ''infinity'' = (Infinite False, [])"
    and mul: "0 \<le> x \<Longrightarrow> 0 < m \<Longrightarrow> in_range lo hi (x * m) \<Longrightarrow>
      \<exists>v. fmul F (Finite x) (Finite m) = Finite v \<and> near ulp (x * m) v"
    and div: "0 \<le> x \<Longrightarrow> 0 < m \<Longrightarrow> in_range lo hi (x / m) \<Longrightarrow>
      \<exists>v. fdiv F (Finite x) (Finite m) = Finite v \<and> near ulp (x / m) v"
begin

lemma near_pos: "near e x y \<Longrightarrow> e \<le> b \<Longrightarrow> 0 \<le> x \<Longrightarrow> (1 - b) * x \<le> y \<and> y \<le> (1 + b) * x"
  using mult_right_mono [of e b x] by (auto simp: near_def abs_le_iff algebra_simps)

text \<open>Two errors in a row.\<close>

lemma near_trans:
  assumes "near a x y" and "near b y z" and "0 \<le> x" and "0 \<le> b"
  shows "near ((1 + a) * (1 + b) - 1) x z"
proof -
  have y: "y \<le> (1 + a) * x" using near_pos [OF assms(1) order_refl assms(3)] by simp
  have "\<bar>z - x\<bar> \<le> \<bar>z - y\<bar> + \<bar>y - x\<bar>" by simp
  also have "\<dots> \<le> b * y + a * x" using assms(1,2) by (simp add: near_def)
  also have "\<dots> \<le> b * ((1 + a) * x) + a * x" using mult_left_mono [OF y assms(4)] by simp
  finally show ?thesis by (simp add: near_def algebra_simps)
qed

lemma near_scale: "near e x y \<Longrightarrow> 0 \<le> m \<Longrightarrow> near e (x * m) (y * m)"
  using mult_right_mono [of "\<bar>y - x\<bar>" "e * x" m]
  by (simp add: near_def abs_mult flip: left_diff_distrib)

lemma unit_value: "(u, secs) \<in> set unit_seconds \<Longrightarrow> fsd_unit u = Some secs \<and> u \<noteq> [] \<and> 0 < secs \<and> u \<in> fst ` set unit_seconds"
  by (auto simp: unit_seconds_def fsd_unit_def)

text \<open>A printed number with a unit is read as that many of the unit.\<close>

lemma parse_formatted:
  assumes u: "(u, secs) \<in> set unit_seconds" and "in_range lo (hi / 2) r" and "in_range (2 * lo) (hi / 2) (r * secs)" and "0 \<le> r"
  shows "\<exists>v. fsd_parse_duration F (Some (fmt_g F prec (Finite r) @ u)) = Inr (Finite v)
    \<and> near ((1 + eps prec) * (1 + ulp) - 1) (r * secs) v"
proof -
  note U = unit_value [OF u]
  obtain y where y: "strtod F (fmt_g F prec (Finite r) @ u) = (Finite y, u)" "near (eps prec) r y"
    using strtod_fmt [of u r prec] U assms(2) by blast
  have yr: "1 / 2 * r \<le> y" "y \<le> 3 / 2 * r" using near_pos [OF y(2) bounds(2) assms(4)] by auto
  have y0: "0 \<le> y" using yr(1) assms(4) by simp
  have "1 / 2 * (r * secs) \<le> y * secs" "y * secs \<le> 3 / 2 * (r * secs)"
    using mult_right_mono [OF yr(1), of secs] mult_right_mono [OF yr(2), of secs] U by simp_all
  moreover have "r = 0 \<longrightarrow> y = 0" using yr by simp
  ultimately have "in_range lo hi (y * secs)" using assms(3) bounds(5,7) by (auto simp: in_range_def)
  with mul [OF y0, of secs] U obtain v where v: "fmul F (Finite y) (Finite secs) = Finite v" "near ulp (y * secs) v" by blast
  have "near ((1 + eps prec) * (1 + ulp) - 1) (r * secs) v"
    by (rule near_trans [OF near_scale [OF y(2)] v(2)]) (use U assms(4) bounds(3) in simp_all)
  moreover have "is_invalid_duration (Finite y) = None" using y0 by (simp add: is_invalid_duration_def double_less_def)
  ultimately show ?thesis using y(1) U v(1) by (simp add: fsd_parse_duration_def isinf_def)
qed

text \<open>The printed number of units is close to the duration.\<close>

definition prints :: "int \<Rightarrow> real \<Rightarrow> real \<Rightarrow> string \<Rightarrow> real \<Rightarrow> bool" where
  "prints prec r x u secs \<longleftrightarrow> (u, secs) \<in> set unit_seconds \<and> 0 \<le> x \<and> in_range lo (hi / 2) x \<and> near ulp r (x * secs)
    \<and> fsd_format_text F (Finite r) prec = Inr (fmt_g F prec (Finite x) @ u)"

lemma format_text:
  assumes "0 \<le> r"
  shows "fsd_format_text F (Finite r) prec =
      (if r < 1 / 10 \<and> r \<noteq> 0 then Inr (fmt_g F prec (fmul F (Finite r) (Finite 1000)) @ ''ms'')
       else if r < 60 then Inr (fmt_g F prec (Finite r) @ ''s'')
       else if r < 3600 then Inr (fmt_g F prec (fdiv F (Finite r) (Finite 60)) @ ''m'')
       else if r < 86400 then Inr (fmt_g F prec (fdiv F (Finite r) (Finite 3600)) @ ''h'')
       else Inr (fmt_g F prec (fdiv F (Finite r) (Finite 86400)) @ ''d''))"
  using assms by (simp add: fsd_format_text_def is_invalid_duration_def double_less_def isinf_def)

lemma divided:
  assumes "1 \<le> secs" and "secs \<le> r" and "r \<le> hi / 400000"
  shows "\<exists>x. fdiv F (Finite r) (Finite secs) = Finite x \<and> 0 \<le> x \<and> in_range lo (hi / 2) x \<and> near ulp r (x * secs)"
proof -
  have q: "1 \<le> r / secs" "r / secs \<le> r" using assms by (simp_all add: field_simps mult_left_le)
  then have "in_range lo hi (r / secs)" using assms(3) bounds(6,7) by (auto simp: in_range_def)
  with div [of r secs] assms obtain x where x: "fdiv F (Finite r) (Finite secs) = Finite x" "near ulp (r / secs) x" by auto
  have b: "7 / 8 * (r / secs) \<le> x" "x \<le> 9 / 8 * (r / secs)"
    using near_pos [OF x(2) bounds(4)] q(1) by simp_all
  have "7 / 8 \<le> x" "x \<le> 9 / 8 * r" using b q by simp_all
  then have "in_range lo (hi / 2) x" "0 \<le> x" using assms(3) bounds(6,7) by (auto simp: in_range_def)
  moreover have "near ulp (r / secs * secs) (x * secs)" by (rule near_scale [OF x(2)]) (use assms(1) in simp)
  ultimately show ?thesis using x(1) assms(1) by simp
qed

lemma format_prints:
  assumes "r = 0 \<or> 4000 * lo \<le> r \<and> r \<le> hi / 400000"
  shows "\<exists>x u secs. prints prec r x u secs"
proof -
  have r0: "0 \<le> r" using assms bounds(5) by auto
  note T = format_text [OF r0, of prec]
  have secs: "(''ms'', 1 / 1000) \<in> set unit_seconds" "(''s'', 1) \<in> set unit_seconds" "(''m'', 60) \<in> set unit_seconds"
    "(''h'', 3600) \<in> set unit_seconds" "(''d'', 86400) \<in> set unit_seconds" by (simp_all add: unit_seconds_def)
  consider "r < 1 / 10" "r \<noteq> 0" | "r < 60" "\<not> (r < 1 / 10 \<and> r \<noteq> 0)" | "60 \<le> r" "r < 3600" | "3600 \<le> r" "r < 86400" | "86400 \<le> r"
    by linarith
  then show ?thesis
  proof cases
    case 1
    with assms bounds(5-7) have "in_range lo hi (r * 1000)" by (auto simp: in_range_def)
    with mul [OF r0, of 1000] obtain x where x: "fmul F (Finite r) (Finite 1000) = Finite x" "near ulp (r * 1000) x" by auto
    have b: "7 / 8 * (r * 1000) \<le> x" "x \<le> 9 / 8 * (r * 1000)" using near_pos [OF x(2) bounds(4)] r0 by simp_all
    then have "in_range lo (hi / 2) x" "0 \<le> x" using 1 r0 assms bounds(5,7) by (auto simp: in_range_def)
    moreover have "near ulp (r * 1000 * (1 / 1000)) (x * (1 / 1000))" by (rule near_scale [OF x(2)]) simp
    ultimately have "prints prec r x ''ms'' (1 / 1000)" using 1 x(1) secs(1) by (simp add: prints_def T)
    then show ?thesis by blast
  next
    case 2
    then have "in_range lo (hi / 2) r" using assms bounds(5,7) by (auto simp: in_range_def)
    then have "prints prec r r ''s'' 1" using 2 r0 secs(2) bounds(3) by (simp add: prints_def T near_def del: de_Morgan_conj)
    then show ?thesis by blast
  next
    case 3
    with divided [of 60 r] assms obtain x where "fdiv F (Finite r) (Finite 60) = Finite x" "0 \<le> x" "in_range lo (hi / 2) x"
      "near ulp r (x * 60)" by auto
    then have "prints prec r x ''m'' 60" using 3 secs(3) by (simp add: prints_def T)
    then show ?thesis by blast
  next
    case 4
    with divided [of 3600 r] assms obtain x where "fdiv F (Finite r) (Finite 3600) = Finite x" "0 \<le> x" "in_range lo (hi / 2) x"
      "near ulp r (x * 3600)" by auto
    then have "prints prec r x ''h'' 3600" using 4 secs(4) by (simp add: prints_def T)
    then show ?thesis by blast
  next
    case 5
    with divided [of 86400 r] assms obtain x where "fdiv F (Finite r) (Finite 86400) = Finite x" "0 \<le> x" "in_range lo (hi / 2) x"
      "near ulp r (x * 86400)" by auto
    then have "prints prec r x ''d'' 86400" using 5 secs(5) by (simp add: prints_def T)
    then show ?thesis by blast
  qed
qed

lemma format_parse:
  assumes "r = 0 \<or> 4000 * lo \<le> r \<and> r \<le> hi / 400000"
  shows "\<exists>s v. fsd_format_text F (Finite r) prec = Inr s \<and> fsd_parse_duration F (Some s) = Inr (Finite v)
    \<and> near ((1 + ulp) ^ 2 * (1 + eps prec) - 1) r v"
proof -
  obtain x u secs where P: "prints prec r x u secs" using format_prints [OF assms] by blast
  note p = P[unfolded prints_def]
  have r0: "0 \<le> r" using assms bounds(5) by auto
  have n: "near ulp r (x * secs)" using p by simp
  have b: "7 / 8 * r \<le> x * secs" "x * secs \<le> 9 / 8 * r" using near_pos [OF n bounds(4) r0] by simp_all
  then have "in_range (2 * lo) (hi / 2) (x * secs)" using assms bounds(5,7) by (auto simp: in_range_def)
  with parse_formatted [of u secs x prec] p obtain v where
    v: "fsd_parse_duration F (Some (fmt_g F prec (Finite x) @ u)) = Inr (Finite v)"
      "near ((1 + eps prec) * (1 + ulp) - 1) (x * secs) v" by blast
  have "0 \<le> eps prec + ulp + eps prec * ulp" using bounds(1,3) by simp
  then have "0 \<le> (1 + eps prec) * (1 + ulp) - 1" by (simp add: algebra_simps)
  from near_trans [OF n v(2) r0 this] have "near ((1 + ulp) ^ 2 * (1 + eps prec) - 1) r v"
    by (simp add: power2_eq_square mult_ac)
  with p v(1) show ?thesis by auto
qed

lemma parse_unit:
  assumes "(u, secs) \<in> set unit_seconds" and "r = 0 \<or> 4000 * lo \<le> r \<and> r \<le> hi / 400000"
  shows "\<exists>v. fsd_parse_duration F (Some (fmt_g F prec (Finite r) @ u)) = Inr (Finite v)
    \<and> near ((1 + eps prec) * (1 + ulp) - 1) (r * secs) v"
proof -
  have s: "1 / 1000 \<le> secs" "secs \<le> 86400" using assms(1) by (auto simp: unit_seconds_def)
  have r0: "0 \<le> r" using assms(2) bounds(5) by auto
  have "r * (1 / 1000) \<le> r * secs" "r * secs \<le> r * 86400"
    by (rule mult_left_mono [OF s(1) r0], rule mult_left_mono [OF s(2) r0])
  then have "r = 0 \<or> 2 * lo \<le> r * secs \<and> r * secs \<le> hi / 2" using assms(2) bounds(5,7) by linarith
  then have "in_range (2 * lo) (hi / 2) (r * secs)" by (auto simp: in_range_def)
  moreover have "in_range lo (hi / 2) r" using assms(2) bounds(5,7) by (auto simp: in_range_def)
  ultimately show ?thesis using r0 by (intro parse_formatted [OF assms(1)])
qed

end

text \<open>
  An instance for the witnesses: exact arithmetic, and numbers printed as quotients of whole numbers,
  with a relative error of at most 1 in 1000. A number without a quotient is read as it stands.
\<close>

definition ratio :: "real \<Rightarrow> nat \<times> nat" where
  "ratio r = (if r \<ge> 1 then (nat \<lfloor>1000 * r\<rfloor>, 1000) else if r > 0 then (1000, nat \<lceil>1000 / r\<rceil>) else (0, 1))"

definition read_ratio :: "string \<Rightarrow> double \<times> string" where
  "read_ratio s = (let ds = takeWhile (\<lambda>c. char_digit c \<noteq> None) s; rest = drop (length ds) s in
     case nat_of_dec ds of
       None \<Rightarrow> (Finite 0, s)
     | Some n \<Rightarrow>
         if rest \<noteq> [] \<and> hd rest = CHR ''/''
         then (let es = takeWhile (\<lambda>c. char_digit c \<noteq> None) (tl rest) in
           case nat_of_dec es of
             None \<Rightarrow> (Finite (real n), rest)
           | Some d \<Rightarrow> (Finite (real n / real d), drop (length es) (tl rest)))
         else (Finite (real n), rest))"

definition sample_float :: float_ops where
  "sample_float = \<lparr>fmul = (\<lambda>a b. case (a, b) of (Finite x, Finite y) \<Rightarrow> Finite (x * y) | _ \<Rightarrow> NaN),
     fdiv = (\<lambda>a b. case (a, b) of (Finite x, Finite y) \<Rightarrow> Finite (x / y) | _ \<Rightarrow> NaN),
     strtod = (\<lambda>s. if s = ''infinity'' then (Infinite False, []) else read_ratio s),
     fmt_g = (\<lambda>_ d. case d of
        Finite r \<Rightarrow> dec_of_nat (fst (ratio r)) @ CHR ''/'' # dec_of_nat (snd (ratio r)) | _ \<Rightarrow> ''nan'')\<rparr>"

lemma takeWhile_dec:
  assumes "char_digit c = None"
  shows "takeWhile (\<lambda>c. char_digit c \<noteq> None) (dec_of_nat n @ c # cs) = dec_of_nat n"
  using dec_of_nat_digits [of _ n] assms by (simp add: takeWhile_append2)

lemma infinity_not_number: "dec_of_nat n @ u \<noteq> ''infinity''"
proof
  assume *: "dec_of_nat n @ u = ''infinity''"
  obtain c cs where c: "dec_of_nat n = c # cs" by (cases "dec_of_nat n") auto
  with * have "c = CHR ''i''" by simp
  with dec_of_nat_digits [of c n] c show False by (simp add: char_digit_def)
qed

lemma ratio_near:
  assumes "0 \<le> r"
  shows "near (1 / 1000) r (real (fst (ratio r)) / real (snd (ratio r)))"
proof -
  consider "1 \<le> r" | "0 < r" "r < 1" | "r = 0" using assms by linarith
  then show ?thesis
  proof cases
    case 1
    define a where "a = real (nat \<lfloor>1000 * r\<rfloor>)"
    have "a \<le> 1000 * r" "1000 * r < a + 1" using 1 by (simp_all add: a_def of_nat_nat)
    with 1 have "\<bar>a / 1000 - r\<bar> \<le> 1 / 1000 * r" by (simp add: abs_le_iff)
    then show ?thesis using 1 by (simp add: near_def ratio_def a_def)
  next
    case 2
    define b where "b = real (nat \<lceil>1000 / r\<rceil>)"
    have b: "1000 / r \<le> b" "b < 1000 / r + 1" using 2 ceiling_correct [of "1000 / r"] by (simp_all add: b_def of_nat_nat)
    have "1000 < 1000 / r" using 2 by (simp add: field_simps)
    with b(1) have pos: "1000 < b" by linarith
    have up: "1000 / b \<le> r" using b(1) 2 pos by (simp add: field_simps)
    have "b * r < 1000 + r" using b(2) 2 by (simp add: field_simps)
    then have "(b * r - 1000) / b \<le> r / b" using pos by (intro divide_right_mono) simp_all
    then have "r - 1000 / b \<le> r / b" using pos by (simp add: diff_divide_distrib)
    also have "\<dots> \<le> r / 1000" using 2 pos by (intro divide_left_mono) simp_all
    finally show ?thesis using up 2 by (simp add: near_def ratio_def b_def abs_le_iff)
  qed (simp add: near_def ratio_def)
qed

lemma read_printed:
  assumes "u \<in> fst ` set unit_seconds"
  shows "read_ratio (dec_of_nat n @ CHR ''/'' # dec_of_nat d @ u) = (Finite (real n / real d), u)"
proof -
  have "u \<noteq> []" "char_digit (hd u) = None" using assms by (auto simp: unit_seconds_def char_digit_def)
  then obtain c cs where u: "u = c # cs" "char_digit c = None" by (cases u) simp_all
  have s: "char_digit CHR ''/'' = None" by (simp add: char_digit_def)
  have d: "drop (length (dec_of_nat k)) (dec_of_nat k @ xs) = xs" for k xs by simp
  show ?thesis
    unfolding u(1) read_ratio_def Let_def takeWhile_dec [OF s] d nat_of_dec_of_nat option.case list.sel takeWhile_dec [OF u(2)]
    by simp
qed

interpretation sample_float: float_lib sample_float "\<lambda>_. 1 / 1000" 0 "1 / 1000000" 400000000
proof
  fix u and r :: real and prec :: int
  assume u: "u \<in> fst ` set unit_seconds" and r: "in_range (1 / 1000000) (400000000 / 2) r"
  have "0 \<le> r" using r by (auto simp: in_range_def)
  with u show "\<exists>v. strtod sample_float (fmt_g sample_float prec (Finite r) @ u) = (Finite v, u) \<and> near (1 / 1000) r v"
    using infinity_not_number [of "fst (ratio r)" "CHR ''/'' # dec_of_nat (snd (ratio r)) @ u"] ratio_near
    by (simp add: sample_float_def read_printed)
qed (simp_all add: sample_float_def near_def)

text \<open>
  C33. Printing a duration and reading it again gives the duration up to rounding: the relative error
  is that of one conversion to and from decimal at the given precision and of two floating-point
  operations. And a printed number in front of a unit of RFC 23 is read as that many of the unit, up
  to the error of the conversion and of one operation. Infinity comes back as infinity. The durations
  are zero or a factor of at least 400000 away from the ends of the range of the floating-point numbers.
\<close>

theorem fsd_format_parse:
  assumes "float_lib F eps ulp lo hi" and "r = 0 \<or> 4000 * lo \<le> r \<and> r \<le> hi / 400000"
  shows "(\<exists>s v. fsd_format_text F (Finite r) prec = Inr s \<and> fsd_parse_duration F (Some s) = Inr (Finite v)
      \<and> \<bar>v - r\<bar> \<le> ((1 + ulp) ^ 2 * (1 + eps prec) - 1) * r)
    \<and> (\<forall>(u, secs) \<in> set [(''ms'', 1 / 1000), (''s'', 1), (''m'', 60), (''h'', 3600), (''d'', 86400)].
        \<exists>v. fsd_parse_duration F (Some (fmt_g F prec (Finite r) @ u)) = Inr (Finite v)
          \<and> \<bar>v - r * secs\<bar> \<le> ((1 + eps prec) * (1 + ulp) - 1) * (r * secs))
    \<and> fsd_format_text F (Infinite False) prec = Inr ''infinity''
    \<and> fsd_parse_duration F (Some ''infinity'') = Inr (Infinite False)"
proof (intro conjI)
  show "\<exists>s v. fsd_format_text F (Finite r) prec = Inr s \<and> fsd_parse_duration F (Some s) = Inr (Finite v)
      \<and> \<bar>v - r\<bar> \<le> ((1 + ulp) ^ 2 * (1 + eps prec) - 1) * r"
    using float_lib.format_parse [OF assms, of prec] unfolding near_def .
  show "\<forall>(u, secs) \<in> set [(''ms'', 1 / 1000), (''s'', 1), (''m'', 60), (''h'', 3600), (''d'', 86400)].
        \<exists>v. fsd_parse_duration F (Some (fmt_g F prec (Finite r) @ u)) = Inr (Finite v)
          \<and> \<bar>v - r * secs\<bar> \<le> ((1 + eps prec) * (1 + ulp) - 1) * (r * secs)"
    unfolding unit_seconds_def [symmetric]
    using float_lib.parse_unit [OF assms(1) _ assms(2), of _ _ prec, unfolded near_def] by blast
qed (use float_lib.strtod_infinity [OF assms(1)] in
    \<open>simp_all add: fsd_format_text_def fsd_parse_duration_def isinf_def is_invalid_duration_def double_less_def\<close>)

theorem fsd_format_parse_witness:
  "\<exists>s v. fsd_format_text sample_float (Finite 90) 6 = Inr s \<and> fsd_parse_duration sample_float (Some s) = Inr (Finite v)
     \<and> \<bar>v - 90\<bar> \<le> 9 / 100"
proof -
  have "(90 :: real) = 0 \<or> 4000 * (1 / 1000000) \<le> (90 :: real) \<and> (90 :: real) \<le> 400000000 / 400000" by simp
  from fsd_format_parse [OF sample_float.float_lib_axioms this, of 6] show ?thesis by auto
qed

end
