(* ===== verification/ApinfoBase.thy ===== *)
theory ApinfoBase
  imports Taskmap Hostlist Libutil
begin

text \<open>
  What the two file formats of \<^verbatim>\<open>src/common/libapinfo\<close> have in common: the little-endian bytes of C
  integers on the 64-bit ABI, the output stream, the structures that \<^verbatim>\<open>apinfo1.h\<close> and \<^verbatim>\<open>apinfo5.h\<close>
  declare with the same members, and the code that \<^verbatim>\<open>apinfo1.c\<close> and \<^verbatim>\<open>apinfo5.c\<close> share word by
  word.
\<close>

section \<open>Bytes\<close>

type_synonym byte = "8 word"
type_synonym size_t = "64 word"

fun le_bytes :: "nat \<Rightarrow> nat \<Rightarrow> byte list" where
  "le_bytes 0 n = []"
| "le_bytes (Suc k) n = of_nat n # le_bytes k (n div 256)"

fun le_value :: "byte list \<Rightarrow> nat" where
  "le_value [] = 0"
| "le_value (b # bs) = unat b + 256 * le_value bs"

lemma length_le_bytes [simp]: "length (le_bytes k n) = k"
  by (induction k arbitrary: n) auto

lemma le_value_bytes: "le_value (le_bytes k n) = n mod 256 ^ k"
proof (induction k arbitrary: n)
  case (Suc k)
  have "n mod (256 * 256 ^ k) = 256 * (n div 256 mod 256 ^ k) + n mod 256"
    by (rule mod_mult2_eq)
  then show ?case by (simp add: Suc unat_of_nat)
qed simp

text \<open>A C \<^verbatim>\<open>int\<close>, a \<^verbatim>\<open>size_t\<close>, a \<^verbatim>\<open>short\<close> or \<^verbatim>\<open>uint16_t\<close>, a byte, characters, and padding.\<close>

definition int_bytes :: "int \<Rightarrow> byte list" where
  "int_bytes i = le_bytes 4 (nat (i mod 2 ^ 32))"

definition size_bytes :: "size_t \<Rightarrow> byte list" where
  "size_bytes w = le_bytes 8 (unat w)"

definition short_bytes :: "int \<Rightarrow> byte list" where
  "short_bytes i = le_bytes 2 (nat (i mod 2 ^ 16))"

definition char_bytes :: "char list \<Rightarrow> byte list" where
  "char_bytes cs = map (\<lambda>c. of_nat (of_char c)) cs"

definition padding :: "nat \<Rightarrow> byte list" where
  "padding n = replicate n 0"

lemma length_bytes [simp]:
  "length (int_bytes i) = 4" "length (size_bytes w) = 8" "length (short_bytes i) = 2"
  "length (char_bytes cs) = length cs" "length (padding n) = n"
  by (simp_all add: int_bytes_def size_bytes_def short_bytes_def char_bytes_def padding_def)

text \<open>Reading an \<^verbatim>\<open>int\<close> and a \<^verbatim>\<open>size_t\<close> back, the way a consumer of the file does.\<close>

definition read_int :: "byte list \<Rightarrow> int" where
  "read_int bs = (let n = int (le_value bs) in if n < 2 ^ 31 then n else n - 2 ^ 32)"

definition read_size :: "byte list \<Rightarrow> nat" where
  "read_size bs = le_value bs"

lemma read_int_bytes:
  assumes "- (2 ^ 31) \<le> i" and "i < 2 ^ 31"
  shows "read_int (int_bytes i) = i"
proof -
  have "int (nat (i mod 2 ^ 32) mod 256 ^ 4) = i mod 2 ^ 32"
    by (simp add: nat_mod_distrib zmod_int)
  then have v: "int (le_value (int_bytes i)) = i mod 2 ^ 32"
    by (simp add: int_bytes_def le_value_bytes)
  show ?thesis
  proof (cases "0 \<le> i")
    case True
    with assms v show ?thesis by (simp add: read_int_def Let_def)
  next
    case False
    then have "i mod 2 ^ 32 = i + 2 ^ 32"
      using assms mod_add_self2 [of i "2 ^ 32"] mod_pos_pos_trivial [of "i + 2 ^ 32" "2 ^ 32"] by simp
    with assms False v show ?thesis by (simp add: read_int_def Let_def)
  qed
qed

lemma read_size_bytes [simp]: "read_size (size_bytes w) = unat w"
proof -
  have "unat w < 256 ^ 8" using unsigned_less [of w] by simp
  then show ?thesis by (simp add: read_size_def size_bytes_def le_value_bytes)
qed

text \<open>The bytes of a range of a file.\<close>

definition bytes_at :: "nat \<Rightarrow> nat \<Rightarrow> 'a list \<Rightarrow> 'a list" where
  "bytes_at off n bs = take n (drop off bs)"

lemma bytes_at_skip [simp]: "length xs \<le> off \<Longrightarrow> bytes_at off n (xs @ ys) = bytes_at (off - length xs) n ys"
  by (simp add: bytes_at_def)

lemma bytes_at_here [simp]: "n = length xs \<Longrightarrow> bytes_at 0 n (xs @ ys) = xs"
  by (simp add: bytes_at_def)

lemma bytes_at_concat:
  assumes "k < length xs" and "\<forall>x \<in> set xs. length (f x) = n"
  shows "bytes_at (n * k) n (concat (map f xs) @ ys) = f (xs ! k)"
  using assms
proof (induction xs arbitrary: k)
  case (Cons x xs)
  show ?case
  proof (cases k)
    case 0
    with Cons.prems show ?thesis by (simp add: bytes_at_def)
  next
    case (Suc j)
    then have "bytes_at (n * k) n (f x @ concat (map f xs) @ ys) = bytes_at (n * j) n (concat (map f xs) @ ys)"
      using Cons.prems by (subst bytes_at_skip) auto
    with Cons Suc show ?thesis by simp
  qed
qed simp

lemma length_concat_map: "\<forall>x \<in> set xs. length (f x) = n \<Longrightarrow> length (concat (map f xs)) = n * length xs"
  by (induction xs) auto

section \<open>The output stream\<close>

text \<open>
  A stream has the bytes written and the room left on the medium. \<^verbatim>\<open>fwrite\<close> of \<open>n\<close> elements of
  \<open>sz\<close> bytes writes what fits and returns the number of whole elements written. \<open>data\<close> are the
  bytes from the pointer on.
\<close>

record stream =
  written :: "byte list"
  room :: nat

definition fwrite :: "byte list \<Rightarrow> nat \<Rightarrow> nat \<Rightarrow> stream \<Rightarrow> stream \<times> nat" where
  "fwrite data sz n st =
     (let bs = take (sz * n) data; m = min (room st) (length bs) in
      (st\<lparr>written := written st @ take m bs, room := room st - m\<rparr>, if sz = 0 then 0 else m div sz))"

text \<open>A sequence of \<^verbatim>\<open>fwrite\<close> calls that stops at the first short one.\<close>

fun fwrite_all :: "(byte list \<times> nat \<times> nat) list \<Rightarrow> stream \<Rightarrow> stream \<times> (errno + unit)" where
  "fwrite_all [] st = (st, Inr ())"
| "fwrite_all ((data, sz, n) # ws) st =
     (let (st', k) = fwrite data sz n st in if k \<noteq> n then (st', Inl ENOSPC) else fwrite_all ws st')"

definition section_ok :: "byte list \<times> nat \<times> nat \<Rightarrow> bool" where
  "section_ok s = (case s of (data, sz, n) \<Rightarrow> 0 < sz \<and> length data = sz * n)"

lemma fwrite_all_result:
  assumes "\<forall>s \<in> set ws. section_ok s"
  shows "let image = concat (map fst ws) in
    fwrite_all ws st =
      (if length image \<le> room st
       then (st\<lparr>written := written st @ image, room := room st - length image\<rparr>, Inr ())
       else (fst (fwrite_all ws st), Inl ENOSPC))
    \<and> (\<exists>p. written (fst (fwrite_all ws st)) = written st @ p \<and> p = take (length p) image)"
  using assms
proof (induction ws arbitrary: st)
  case Nil
  then show ?case by simp
next
  case (Cons w ws)
  obtain data sz n where w: "w = (data, sz, n)" by (cases w)
  with Cons.prems have s: "0 < sz" "length data = sz * n" by (auto simp: section_ok_def)
  let ?rest = "concat (map fst ws)"
  show ?case
  proof (cases "length data \<le> room st")
    case True
    let ?st = "st\<lparr>written := written st @ data, room := room st - length data\<rparr>"
    have f: "fwrite data sz n st = (?st, n)"
      using True s by (simp add: fwrite_def Let_def)
    have IH: "fwrite_all ws ?st = (if length ?rest \<le> room ?st
         then (?st\<lparr>written := written ?st @ ?rest, room := room ?st - length ?rest\<rparr>, Inr ())
         else (fst (fwrite_all ws ?st), Inl ENOSPC))"
      "\<exists>p. written (fst (fwrite_all ws ?st)) = written ?st @ p \<and> p = take (length p) ?rest"
      using Cons.IH [of ?st] Cons.prems by (simp_all add: Let_def)
    from IH(2) obtain p where "written (fst (fwrite_all ws ?st)) = written ?st @ p" "p = take (length p) ?rest"
      by (elim exE conjE)
    then have "\<exists>q. written (fst (fwrite_all ws ?st)) = written st @ q \<and> q = take (length q) (data @ ?rest)"
      by (intro exI [of _ "data @ p"]) simp
    moreover have "fwrite_all (w # ws) st = fwrite_all ws ?st" by (simp add: w f)
    moreover have "fwrite_all ws ?st = (if length (data @ ?rest) \<le> room st
        then (st\<lparr>written := written st @ data @ ?rest, room := room st - length (data @ ?rest)\<rparr>, Inr ())
        else (fst (fwrite_all ws ?st), Inl ENOSPC))"
    proof (cases "length ?rest \<le> room ?st")
      case fits: True
      then have "length (data @ ?rest) \<le> room st" using True by simp
      with IH(1) fits show ?thesis by (simp add: diff_diff_eq)
    next
      case no: False
      then have "\<not> length (data @ ?rest) \<le> room st" by simp
      with IH(1) no show ?thesis by (simp only: if_False)
    qed
    ultimately show ?thesis by (simp only: w Let_def fst_conv list.map concat.simps)
  next
    case False
    then have "room st div sz < n"
      using s by (simp add: less_mult_imp_div_less mult.commute)
    then show ?thesis
      using False s by (auto simp: w fwrite_def Let_def)
  qed
qed

section \<open>The shared structures\<close>

record pals_cmd =
  cmd_npes :: int
  pes_per_node :: int
  cpus_per_pe :: int

record pals_pe =
  pe_localidx :: int
  pe_cmdidx :: int
  nodeidx :: int

record pals_node =
  nid :: int
  hostname :: "char list"
  \<comment> \<open>an array of 64\<close>

datatype pals_address_type = PALS_ADDR_IPV4 | PALS_ADDR_IPV6 | PALS_ADDR_MAC

text \<open>
  The members that both headers have, in their order. The header of version 5 extends this record
  in \<open>Apinfo5\<close>, as its structure continues this one.
\<close>

record pals_header =
  version :: int
  total_size :: size_t
  comm_profile_size :: size_t
  comm_profile_offset :: size_t
  ncomm_profiles :: int
  cmd_size :: size_t
  cmd_offset :: size_t
  ncmds :: int
  pe_size :: size_t
  pe_offset :: size_t
  npes :: int
  node_size :: size_t
  node_offset :: size_t
  nnodes :: int
  nic_size :: size_t
  nic_offset :: size_t
  nnics :: int

text \<open>The bytes of a structure, members aligned as the ABI does, with the padding cleared.\<close>

definition cmd_bytes :: "pals_cmd \<Rightarrow> byte list" where
  "cmd_bytes c = int_bytes (cmd_npes c) @ int_bytes (pes_per_node c) @ int_bytes (cpus_per_pe c)"

definition pe_bytes :: "pals_pe \<Rightarrow> byte list" where
  "pe_bytes p = int_bytes (pe_localidx p) @ int_bytes (pe_cmdidx p) @ int_bytes (nodeidx p)"

definition node_bytes :: "pals_node \<Rightarrow> byte list" where
  "node_bytes n = int_bytes (nid n) @ char_bytes (hostname n)"

definition address_type_int :: "pals_address_type \<Rightarrow> int" where
  "address_type_int t = (case t of PALS_ADDR_IPV4 \<Rightarrow> 0 | PALS_ADDR_IPV6 \<Rightarrow> 1 | PALS_ADDR_MAC \<Rightarrow> 2)"

definition header_bytes :: "'z pals_header_scheme \<Rightarrow> byte list" where
  "header_bytes h =
     int_bytes (version h) @ padding 4 @ size_bytes (total_size h)
     @ size_bytes (comm_profile_size h) @ size_bytes (comm_profile_offset h)
     @ int_bytes (ncomm_profiles h) @ padding 4
     @ size_bytes (cmd_size h) @ size_bytes (cmd_offset h) @ int_bytes (ncmds h) @ padding 4
     @ size_bytes (pe_size h) @ size_bytes (pe_offset h) @ int_bytes (npes h) @ padding 4
     @ size_bytes (node_size h) @ size_bytes (node_offset h) @ int_bytes (nnodes h) @ padding 4
     @ size_bytes (nic_size h) @ size_bytes (nic_offset h) @ int_bytes (nnics h) @ padding 4"

lemma length_structs [simp]:
  "length (cmd_bytes c) = 12" "length (pe_bytes p) = 12" "length (header_bytes h) = 136"
  "length (node_bytes n) = 4 + length (hostname n)"
  by (simp_all add: cmd_bytes_def pe_bytes_def node_bytes_def header_bytes_def)

lemma header_fields:
  "bytes_at 8 8 (header_bytes h @ r) = size_bytes (total_size h)"
  "bytes_at 72 8 (header_bytes h @ r) = size_bytes (pe_offset h)"
  "bytes_at 80 4 (header_bytes h @ r) = int_bytes (npes h)"
  "bytes_at 96 8 (header_bytes h @ r) = size_bytes (node_offset h)"
  "bytes_at 104 4 (header_bytes h @ r) = int_bytes (nnodes h)"
  "bytes_at 48 8 (header_bytes h @ r) = size_bytes (cmd_offset h)"
  "bytes_at 56 4 (header_bytes h @ r) = int_bytes (ncmds h)"
  "bytes_at 0 4 (header_bytes h @ r) = int_bytes (version h)"
  by (simp_all add: header_bytes_def)

text \<open>
  \<^verbatim>\<open>struct apinfo1\<close>, and the part of \<^verbatim>\<open>struct apinfo5\<close> that is the same. An array that was not
  allocated is the empty list; \<open>cached_hosts\<close> and \<open>cached_map\<close> are the members \<^verbatim>\<open>hosts\<close> and
  \<^verbatim>\<open>map\<close>.
\<close>

record ('h, 'comm, 'nic, 'hl, 't) sections =
  hdr :: 'h
  comms :: "'comm list"
  cmds :: "pals_cmd list"
  pes :: "pals_pe list"
  nodes :: "pals_node list"
  nics :: "'nic list"
  cached_hosts :: "'hl option"
  cached_map :: "'t option"

text \<open>Whether each \<^verbatim>\<open>calloc\<close> finds memory.\<close>

record calloc_env =
  calloc_handle :: bool
  calloc_cmds :: bool
  calloc_pes :: bool
  calloc_nodes :: bool

section \<open>The shared code\<close>

text \<open>
  The assignments of \<^verbatim>\<open>set_offsets\<close> up to \<^verbatim>\<open>nic_offset\<close>; the result is the header and the final
  value of the local \<^verbatim>\<open>offset\<close>. A count is converted to \<^verbatim>\<open>size_t\<close> in the product.
\<close>

definition section_offsets :: "size_t \<Rightarrow> 'z pals_header_scheme \<Rightarrow> 'z pals_header_scheme \<times> size_t" where
  "section_offsets sizeof_hdr h =
     (let offset0 = sizeof_hdr;
          offset1 = offset0 + comm_profile_size h * of_int (ncomm_profiles h);
          offset2 = offset1 + cmd_size h * of_int (ncmds h);
          offset3 = offset2 + pe_size h * of_int (npes h);
          offset4 = offset3 + node_size h * of_int (nnodes h);
          offset5 = offset4 + nic_size h * of_int (nnics h)
      in (h\<lparr>comm_profile_offset := offset0, cmd_offset := offset1, pe_offset := offset2,
            node_offset := offset3, nic_offset := offset4\<rparr>, offset5))"

definition max_ntasks :: "('t, 'i) taskmap_api \<Rightarrow> 't \<Rightarrow> int" where
  "max_ntasks ta tmap = foldl (\<lambda>m nodeid. let ntasks = taskmap_ntasks ta tmap nodeid in
     if m < ntasks then ntasks else m) 0 [0..taskmap_nnodes ta tmap - 1]"

partial_function (option) localidx_loop ::
  "'i idset_api \<Rightarrow> 'i \<Rightarrow> int \<Rightarrow> nat option \<Rightarrow> int \<Rightarrow> int option" where
  "localidx_loop ia ids taskid cur idx = (case cur of
       None \<Rightarrow> Some (-1)
     | Some i \<Rightarrow> if int i = taskid then Some idx
         else localidx_loop ia ids taskid (idset_next ia ids i) (idx + 1))"

text \<open>\<open>None\<close> would be a loop that does not end; see the termination lemma below.\<close>

definition localidx :: "'i idset_api \<Rightarrow> ('t, 'i) taskmap_api \<Rightarrow> 't \<Rightarrow> int \<Rightarrow> int \<Rightarrow> int option" where
  "localidx ia ta tmap nodeid taskid = (case taskmap_taskids ta tmap nodeid of
       None \<Rightarrow> Some (-1)
     | Some ids \<Rightarrow> localidx_loop ia ids taskid (idset_first ia ids) 0)"

text \<open>The loop of \<^verbatim>\<open>set_pes\<close>, and the loop of \<^verbatim>\<open>op_set_hostlist\<close>.\<close>

definition pe_entry :: "'i idset_api \<Rightarrow> ('t, 'i) taskmap_api \<Rightarrow> 't \<Rightarrow> int \<Rightarrow> pals_pe option" where
  "pe_entry ia ta tmap taskid =
     (let nodeid = taskmap_nodeid ta tmap taskid in
      map_option (\<lambda>l. \<lparr>pe_localidx = l, pe_cmdidx = 0, nodeidx = nodeid\<rparr>)
        (localidx ia ta tmap nodeid taskid))"

definition fill_pes :: "'i idset_api \<Rightarrow> ('t, 'i) taskmap_api \<Rightarrow> 't \<Rightarrow> int \<Rightarrow> pals_pe list option" where
  "fill_pes ia ta tmap n = those (map (pe_entry ia ta tmap) [0..n - 1])"

definition fill_nodes :: "'hl hostlist_api \<Rightarrow> 'hl \<Rightarrow> nat \<Rightarrow> pals_node list" where
  "fill_nodes hl hosts n = map (\<lambda>nodeid. \<lparr>nid = int nodeid,
     hostname = snprintf_to (replicate 64 NUL) 64 (hostlist_nth hl hosts nodeid)\<rparr>) [0..<n]"

text \<open>
  The two loops of \<^verbatim>\<open>op_check\<close>: the first task whose node index is not below the number of nodes,
  and the first node that no task refers to. The message is formatted into the error container.
\<close>

definition bad_pe :: "pals_pe list \<Rightarrow> int \<Rightarrow> int \<Rightarrow> int option" where
  "bad_pe ps np nn = find (\<lambda>taskid. nn \<le> nodeidx (ps ! nat taskid)) [0..np - 1]"

definition idle_node :: "pals_pe list \<Rightarrow> int \<Rightarrow> pals_node list \<Rightarrow> int \<Rightarrow> int option" where
  "idle_node ps np ns nn = find (\<lambda>nodeid.
     \<not> list_ex (\<lambda>taskid. nodeidx (ps ! nat taskid) = nid (ns ! nat nodeid)) [0..np - 1]) [0..nn - 1]"

definition check_sections ::
  "pals_pe list \<Rightarrow> int \<Rightarrow> pals_node list \<Rightarrow> int \<Rightarrow> (string \<times> errno) + unit" where
  "check_sections ps np ns nn = (case bad_pe ps np nn of
       Some taskid \<Rightarrow> Inl (error_msg (''pes['' @ dec_of_int taskid @ ''].nodeidx >= nnodes (''
         @ dec_of_int nn @ '')''), EINVAL)
     | None \<Rightarrow> (case idle_node ps np ns nn of
          Some nodeid \<Rightarrow> Inl (error_msg (''no PE references nodeid '' @ dec_of_int (nid (ns ! nat nodeid))
            @ '' ('' @ c_string (hostname (ns ! nat nodeid)) @ '')''), EINVAL)
        | None \<Rightarrow> Inr ()))"

text \<open>The loops of \<^verbatim>\<open>op_get_hostlist\<close> and \<^verbatim>\<open>op_get_taskmap\<close>.\<close>

fun append_nodes :: "'hl hostlist_api \<Rightarrow> 'hl \<Rightarrow> pals_node list \<Rightarrow> 'hl option" where
  "append_nodes hl h [] = Some h"
| "append_nodes hl h (n # ns) = (case hostlist_append hl h (c_string (hostname n)) of
       None \<Rightarrow> None
     | Some h' \<Rightarrow> append_nodes hl h' ns)"

fun append_pes :: "('t, 'i) taskmap_api \<Rightarrow> 't \<Rightarrow> pals_pe list \<Rightarrow> 't option" where
  "append_pes ta m [] = Some m"
| "append_pes ta m (p # ps) = (case taskmap_append ta m (nodeidx p) 1 1 of
       None \<Rightarrow> None
     | Some m' \<Rightarrow> append_pes ta m' ps)"

section \<open>What the shared code computes\<close>

lemma upto_int: "[0..int n - 1] = map int [0..<n]"
  by (induction n) (simp_all add: upto_rec2)

lemma foldl_max:
  "foldl (\<lambda>m x. let y = f x in if m < y then y else m) (a :: int) xs = foldl max a (map f xs)"
  by (induction xs arbitrary: a) (auto simp: Let_def max_def)

lemma foldl_max_ge: "(a :: int) \<le> foldl max a xs \<and> (\<forall>x \<in> set xs. x \<le> foldl max a xs)"
proof (induction xs arbitrary: a)
  case (Cons x xs)
  from Cons.IH [of "max a x"] show ?case by auto
qed simp

lemma foldl_max_in: "foldl max (a :: int) xs = a \<or> foldl max a xs \<in> set xs"
  by (induction xs arbitrary: a) (auto simp: max_def)

lemma those_map_Some: "(\<And>x. x \<in> set xs \<Longrightarrow> f x = Some (g x)) \<Longrightarrow> those (map f xs) = Some (map g xs)"
  by (induction xs) auto

text \<open>The rank of task \<open>k\<close> among the tasks of its node.\<close>

definition local_rank :: "nat list \<Rightarrow> nat \<Rightarrow> nat" where
  "local_rank ns k = length (filter (\<lambda>n. n = ns ! k) (take k ns))"

definition pe_of :: "nat list \<Rightarrow> nat \<Rightarrow> pals_pe" where
  "pe_of ns k = \<lparr>pe_localidx = int (local_rank ns k), pe_cmdidx = 0, nodeidx = int (ns ! k)\<rparr>"

definition pes_of :: "nat list \<Rightarrow> pals_pe list" where
  "pes_of ns = map (pe_of ns) [0..<length ns]"

lemma local_rank_card: "k \<le> length ns \<Longrightarrow> local_rank ns k = card {j. j < k \<and> ns ! j = ns ! k}"
proof -
  assume k: "k \<le> length ns"
  have "local_rank ns k = card {j. j < length (take k ns) \<and> take k ns ! j = ns ! k}"
    by (simp only: local_rank_def length_filter_conv_card)
  also have "{j. j < length (take k ns) \<and> take k ns ! j = ns ! k} = {j. j < k \<and> ns ! j = ns ! k}"
    using k by auto
  finally show ?thesis .
qed

context idset_lib
begin

lemma localidx_loop_finds:
  assumes "x \<in> elems es" and "k \<in> elems es" and "x \<le> k"
  shows "localidx_loop api es (int k) (Some x) n = Some (n + int (card {y \<in> elems es. x \<le> y \<and> y < k}))"
  using assms
proof (induction "k - x" arbitrary: x n rule: less_induct)
  case less
  show ?case
  proof (cases "x = k")
    case True
    then have "{y \<in> elems es. x \<le> y \<and> y < k} = {}" by auto
    with True show ?thesis by (simp add: localidx_loop.simps)
  next
    case False
    then have lt: "x < k" using less.prems(3) by simp
    then have "idset_next api es x \<noteq> None"
      using next_None [of es x] less.prems(2) by (auto simp: not_le)
    then obtain y where y: "idset_next api es x = Some y" by auto
    note N = next_Some [OF y]
    have yk: "y \<in> elems es" "x < y" "y \<le> k" using N less.prems(2) lt by auto
    have "{z \<in> elems es. x \<le> z \<and> z < k} = insert x {z \<in> elems es. y \<le> z \<and> z < k}"
      using N less.prems(1) lt by (auto simp: order_less_le_trans not_less dest: less_imp_le)
    moreover have "x \<notin> {z \<in> elems es. y \<le> z \<and> z < k}" using yk by simp
    ultimately have c: "card {z \<in> elems es. x \<le> z \<and> z < k} = Suc (card {z \<in> elems es. y \<le> z \<and> z < k})"
      by simp
    have "localidx_loop api es (int k) (Some x) n = localidx_loop api es (int k) (Some y) (n + 1)"
      using lt y by (subst localidx_loop.simps) simp
    also have "\<dots> = Some (n + 1 + int (card {z \<in> elems es. y \<le> z \<and> z < k}))"
      using less.hyps [of y "n + 1"] yk lt less.prems(2) by simp
    finally show ?thesis by (simp add: c)
  qed
qed

text \<open>The loop ends on every idset and for every task id.\<close>

lemma localidx_loop_ends:
  "x \<in> elems es \<Longrightarrow> \<exists>r. localidx_loop api es k (Some x) n = Some r"
proof (induction "idset_universe_size api es - x" arbitrary: x n rule: less_induct)
  case less
  show ?case
  proof (cases "int x = k")
    case True
    then show ?thesis by (simp add: localidx_loop.simps)
  next
    case False
    show ?thesis
    proof (cases "idset_next api es x")
      case None
      with False show ?thesis by (simp add: localidx_loop.simps)
    next
      case (Some y)
      from next_Some [OF this] have "y \<in> elems es" "x < y" by auto
      with less.hyps [of y "n + 1"] elems_bound [of y es] elems_bound [OF less.prems] Some False
      show ?thesis by (simp add: localidx_loop.simps diff_less_mono2)
    qed
  qed
qed

end

context taskmap_lib
begin

lemma max_ntasks_spec:
  "(\<forall>n. int n < taskmap_nnodes ta t \<longrightarrow> int (count_list (tasks t) n) \<le> max_ntasks ta t)
   \<and> (max_ntasks ta t = 0 \<or> (\<exists>n. max_ntasks ta t = int (count_list (tasks t) n)))"
proof -
  let ?ns = "[0..taskmap_nnodes ta t - 1]"
  have e: "max_ntasks ta t = foldl max 0 (map (taskmap_ntasks ta t) ?ns)"
    by (simp add: max_ntasks_def foldl_max)
  have c: "taskmap_ntasks ta t i = int (count_list (tasks t) (nat i))" if "i \<in> set ?ns" for i
    using ntasks_count [of "nat i" t] that by simp
  have "int (count_list (tasks t) n) \<le> max_ntasks ta t" if "int n < taskmap_nnodes ta t" for n
  proof -
    have "int n \<in> set ?ns" using that by simp
    then have "taskmap_ntasks ta t (int n) \<le> max_ntasks ta t"
      using foldl_max_ge [of 0 "map (taskmap_ntasks ta t) ?ns"] unfolding e by simp
    with ntasks_count [OF that] show ?thesis by simp
  qed
  moreover have "max_ntasks ta t = 0 \<or> (\<exists>n. max_ntasks ta t = int (count_list (tasks t) n))"
    using foldl_max_in [of 0 "map (taskmap_ntasks ta t) ?ns"] c unfolding e by auto
  ultimately show ?thesis by blast
qed

text \<open>It is the largest number of tasks on a node, as the tasks themselves say it.\<close>

lemma max_ntasks_Max: "max_ntasks ta t = int (Max (insert 0 (count_list (tasks t) ` set (tasks t))))"
proof (rule antisym)
  let ?S = "insert 0 (count_list (tasks t) ` set (tasks t))"
  have M: "Max ?S \<in> ?S" by (rule Max_in) simp_all
  have ge: "count_list (tasks t) n \<le> Max ?S" for n
  proof (cases "n \<in> set (tasks t)")
    case False
    then show ?thesis by (simp add: count_list_0_iff)
  qed simp
  with max_ntasks_spec [of t] show "max_ntasks ta t \<le> int (Max ?S)" by auto
  have pos: "0 \<le> max_ntasks ta t" by (simp add: max_ntasks_def foldl_max foldl_max_ge)
  from M show "int (Max ?S) \<le> max_ntasks ta t"
  proof
    assume "Max ?S \<in> count_list (tasks t) ` set (tasks t)"
    then obtain n where n: "n \<in> set (tasks t)" "Max ?S = count_list (tasks t) n" by auto
    then have "int n < taskmap_nnodes ta t" using nnodes_bound by blast
    with max_ntasks_spec [of t] n(2) show ?thesis by simp
  qed (use pos in simp)
qed

lemma max_ntasks_bound: "0 \<le> max_ntasks ta t \<and> max_ntasks ta t \<le> int (length (tasks t))"
proof -
  have "0 \<le> max_ntasks ta t"
    by (simp add: max_ntasks_def foldl_max foldl_max_ge)
  moreover have "count_list (tasks t) n \<le> length (tasks t)" for n
    by (rule count_le_length)
  ultimately show ?thesis using max_ntasks_spec [of t] by auto
qed

lemma localidx_rank:
  assumes "k < length (tasks t)"
  shows "localidx ia ta t (int (tasks t ! k)) (int k) = Some (int (local_rank (tasks t) k))"
proof -
  have "tasks t ! k \<in> set (tasks t)" using assms by simp
  from taskids_Some [OF this] obtain s where s: "taskmap_taskids ta t (int (tasks t ! k)) = Some s"
    "elems s = {j. j < length (tasks t) \<and> tasks t ! j = tasks t ! k}" by (elim exE conjE)
  then have k: "k \<in> elems s" using assms by simp
  then have "idset_first ia s \<noteq> None" using first_None [of s] by auto
  then obtain x where x: "idset_first ia s = Some x" by auto
  have xk: "x \<in> elems s" "x \<le> k" using first_Some [OF x] k by auto
  have "{y \<in> elems s. x \<le> y \<and> y < k} = {j. j < k \<and> tasks t ! j = tasks t ! k}"
    using first_Some [OF x] s(2) assms by auto
  then show ?thesis
    using localidx_loop_finds [OF xk(1) k xk(2), of 0] s(1) x assms
    by (simp add: localidx_def local_rank_card)
qed

lemma fill_pes_spec: "fill_pes ia ta t (taskmap_total_ntasks ta t) = Some (pes_of (tasks t))"
proof -
  have "those (map (pe_entry ia ta t \<circ> int) [0..<length (tasks t)]) = Some (map (pe_of (tasks t)) [0..<length (tasks t)])"
    by (rule those_map_Some) (simp add: pe_entry_def localidx_rank pe_of_def Let_def)
  then show ?thesis by (simp add: fill_pes_def upto_int pes_of_def)
qed

lemma append_pes_spec:
  "append_pes ta m ps = Some m' \<Longrightarrow> list_all (\<lambda>p. 0 \<le> nodeidx p) ps \<Longrightarrow>
     tasks m' = tasks m @ map (nat \<circ> nodeidx) ps"
proof (induction ps arbitrary: m)
  case (Cons p ps)
  then obtain m1 where m1: "taskmap_append ta m (nodeidx p) 1 1 = Some m1" "append_pes ta m1 ps = Some m'"
    by (auto split: option.splits)
  have "tasks m1 = tasks m @ [nat (nodeidx p)]"
    using append_tasks [of m "nat (nodeidx p)" m1] m1(1) Cons.prems(2) by simp
  with Cons.IH [OF m1(2)] Cons.prems(2) show ?case by simp
qed simp

end

lemma pes_of_simps [simp]:
  "length (pes_of ns) = length ns"
  "k < length ns \<Longrightarrow> pes_of ns ! k = pe_of ns k"
  by (simp_all add: pes_of_def)

lemma nodeidx_pes_of: "map (nat \<circ> nodeidx) (pes_of ns) = ns"
  by (rule nth_equalityI) (simp_all add: pe_of_def)

lemma nodeidx_pes_of_set: "nodeidx ` set (pes_of ns) = int ` set ns"
proof -
  have "map nodeidx (pes_of ns) = map int ns" by (rule nth_equalityI) (simp_all add: pe_of_def)
  then show ?thesis by (metis list.set_map)
qed

lemma fill_nodes_simps [simp]:
  "length (fill_nodes hl h n) = n"
  "k < n \<Longrightarrow> fill_nodes hl h n ! k = \<lparr>nid = int k,
     hostname = snprintf_to (replicate 64 NUL) 64 (hostlist_nth hl h k)\<rparr>"
  by (simp_all add: fill_nodes_def)

lemma hostname_length: "x \<in> set (fill_nodes hl h n) \<Longrightarrow> length (hostname x) = 64"
  by (auto simp: fill_nodes_def length_snprintf_to)

lemma find_None_list_all: "find P xs = None \<longleftrightarrow> (\<forall>x \<in> set xs. \<not> P x)"
  by (auto simp: find_None_iff)

lemma check_sections_ok:
  assumes "np = int (length ps)" and "nn = int (length ns)"
  shows "check_sections ps np ns nn = Inr () \<longleftrightarrow>
    (\<forall>p \<in> set ps. nodeidx p < int (length ns)) \<and> (\<forall>n \<in> set ns. \<exists>p \<in> set ps. nodeidx p = nid n)"
proof -
  have 1: "bad_pe ps np nn = None \<longleftrightarrow> (\<forall>p \<in> set ps. nodeidx p < nn)"
    by (auto simp: bad_pe_def find_None_list_all upto_int assms(1) all_set_conv_all_nth not_le)
  have ex: "(\<exists>i < length ps. nodeidx (ps ! i) = c) \<longleftrightarrow> (\<exists>p \<in> set ps. nodeidx p = c)" for c
  proof -
    have "set ps = (!) ps ` {0..<length ps}" using nth_image [of "length ps" ps] by simp
    then show ?thesis by auto
  qed
  have ex': "(\<exists>i \<in> {0..<length ps}. nodeidx (ps ! i) = c) \<longleftrightarrow> (\<exists>p \<in> set ps. nodeidx p = c)" for c
    unfolding ex [symmetric] by auto
  have 2: "idle_node ps np ns nn = None \<longleftrightarrow> (\<forall>n \<in> set ns. \<exists>p \<in> set ps. nodeidx p = nid n)"
    by (auto simp: idle_node_def find_None_list_all upto_int assms list_ex_iff all_set_conv_all_nth ex ex')
  show ?thesis
    using 1 2 assms(2) by (auto simp: check_sections_def split: option.splits)
qed

end
