(* ===== verification/ApinfoSections.thy ===== *)
theory ApinfoSections
  imports ApinfoBase
begin

text \<open>
  The operations on \<^verbatim>\<open>struct apinfo1\<close> and \<^verbatim>\<open>struct apinfo5\<close> that the two files spell alike, with
  the file's \<^verbatim>\<open>set_offsets\<close> as an argument; the table of operations of \<^verbatim>\<open>apimpl.h\<close>; and the
  contract of such a table as a locale, in which the path that \<^verbatim>\<open>cray_pals\<close> takes through the
  operations is verified once for both versions.
\<close>

section \<open>Operations common to both versions\<close>

definition set_cmd ::
  "(('z pals_header_scheme, 'c, 'n, 'hl, 't, 'x) sections_scheme \<Rightarrow>
    ('z pals_header_scheme, 'c, 'n, 'hl, 't, 'x) sections_scheme) \<Rightarrow>
   ('t, 'i) taskmap_api \<Rightarrow> calloc_env \<Rightarrow>
   ('z pals_header_scheme, 'c, 'n, 'hl, 't, 'x) sections_scheme \<Rightarrow> 't \<Rightarrow> int \<Rightarrow>
   ('z pals_header_scheme, 'c, 'n, 'hl, 't, 'x) sections_scheme \<times> (errno + unit)" where
  "set_cmd set_offsets ta m ap tmap cpus =
     (if \<not> calloc_cmds m then (ap, Inl ENOMEM)
      else (set_offsets (ap\<lparr>
          cmds := [\<lparr>cmd_npes = taskmap_total_ntasks ta tmap, pes_per_node = max_ntasks ta tmap,
                    cpus_per_pe = cpus\<rparr>],
          hdr := (hdr ap)\<lparr>ncmds := 1\<rparr>\<rparr>), Inr ()))"

definition set_pes ::
  "(('z pals_header_scheme, 'c, 'n, 'hl, 't, 'x) sections_scheme \<Rightarrow>
    ('z pals_header_scheme, 'c, 'n, 'hl, 't, 'x) sections_scheme) \<Rightarrow>
   'i idset_api \<Rightarrow> ('t, 'i) taskmap_api \<Rightarrow> calloc_env \<Rightarrow>
   ('z pals_header_scheme, 'c, 'n, 'hl, 't, 'x) sections_scheme \<Rightarrow> 't \<Rightarrow>
   (('z pals_header_scheme, 'c, 'n, 'hl, 't, 'x) sections_scheme \<times> (errno + unit)) option" where
  "set_pes set_offsets ia ta m ap tmap =
     (let n = taskmap_total_ntasks ta tmap in
      if \<not> calloc_pes m then Some (ap, Inl ENOMEM)
      else map_option (\<lambda>ps. (set_offsets (ap\<lparr>pes := ps, hdr := (hdr ap)\<lparr>npes := n\<rparr>\<rparr>), Inr ()))
        (fill_pes ia ta tmap n))"

definition set_taskmap ::
  "(('z pals_header_scheme, 'c, 'n, 'hl, 't, 'x) sections_scheme \<Rightarrow>
    ('z pals_header_scheme, 'c, 'n, 'hl, 't, 'x) sections_scheme) \<Rightarrow>
   'i idset_api \<Rightarrow> ('t, 'i) taskmap_api \<Rightarrow> calloc_env \<Rightarrow>
   ('z pals_header_scheme, 'c, 'n, 'hl, 't, 'x) sections_scheme \<Rightarrow> 't \<Rightarrow> int \<Rightarrow>
   (('z pals_header_scheme, 'c, 'n, 'hl, 't, 'x) sections_scheme \<times> (errno + unit)) option" where
  "set_taskmap set_offsets ia ta m ap tmap cpus =
     (case set_pes set_offsets ia ta m ap tmap of
        None \<Rightarrow> None
      | Some (ap1, Inl e) \<Rightarrow> Some (ap1, Inl e)
      | Some (ap1, Inr _) \<Rightarrow> Some (set_cmd set_offsets ta m ap1 tmap cpus))"

definition set_hostlist ::
  "(('z pals_header_scheme, 'c, 'n, 'hl, 't, 'x) sections_scheme \<Rightarrow>
    ('z pals_header_scheme, 'c, 'n, 'hl, 't, 'x) sections_scheme) \<Rightarrow>
   'hl hostlist_api \<Rightarrow> calloc_env \<Rightarrow>
   ('z pals_header_scheme, 'c, 'n, 'hl, 't, 'x) sections_scheme \<Rightarrow> 'hl \<Rightarrow>
   ('z pals_header_scheme, 'c, 'n, 'hl, 't, 'x) sections_scheme \<times> (errno + unit)" where
  "set_hostlist set_offsets hl m ap hs =
     (let n = hostlist_count hl hs in
      if \<not> calloc_nodes m then (ap, Inl ENOMEM)
      else (set_offsets (ap\<lparr>nodes := fill_nodes hl hs n, hdr := (hdr ap)\<lparr>nnodes := int n\<rparr>\<rparr>), Inr ()))"

definition check_op :: "('z pals_header_scheme, 'c, 'n, 'hl, 't, 'x) sections_scheme \<Rightarrow> (string \<times> errno) + unit" where
  "check_op ap = check_sections (pes ap) (npes (hdr ap)) (nodes ap) (nnodes (hdr ap))"

definition get_hostlist ::
  "'hl hostlist_api \<Rightarrow> ('z pals_header_scheme, 'c, 'n, 'hl, 't, 'x) sections_scheme \<Rightarrow>
   ('z pals_header_scheme, 'c, 'n, 'hl, 't, 'x) sections_scheme \<times> 'hl option" where
  "get_hostlist hl ap = (case hostlist_create hl of
       None \<Rightarrow> (ap, None)
     | Some h0 \<Rightarrow> (case append_nodes hl h0 (take (nat (nnodes (hdr ap))) (nodes ap)) of
          None \<Rightarrow> (ap, None)
        | Some hs \<Rightarrow> (ap\<lparr>cached_hosts := Some hs\<rparr>, Some hs)))"

definition get_taskmap ::
  "('t, 'i) taskmap_api \<Rightarrow> ('z pals_header_scheme, 'c, 'n, 'hl, 't, 'x) sections_scheme \<Rightarrow>
   ('z pals_header_scheme, 'c, 'n, 'hl, 't, 'x) sections_scheme \<times> 't option" where
  "get_taskmap ta ap = (case taskmap_create ta of
       None \<Rightarrow> (ap, None)
     | Some m0 \<Rightarrow> (case append_pes ta m0 (take (nat (npes (hdr ap))) (pes ap)) of
          None \<Rightarrow> (ap, None)
        | Some m \<Rightarrow> (ap\<lparr>cached_map := Some m\<rparr>, Some m)))"

section \<open>The layout of the sections\<close>

text \<open>
  The invariant of both structures: the counts are those of the arrays, the element sizes those of
  the structures, and the offsets place the sections one after the other behind a header of \<open>H\<close>
  bytes. Both files leave the communication profiles and the NICs empty.
\<close>

definition body_size :: "pals_cmd list \<Rightarrow> pals_pe list \<Rightarrow> pals_node list \<Rightarrow> nat" where
  "body_size cs ps ns = 12 * length cs + 12 * length ps + 68 * length ns"

definition arrays_ok :: "('z pals_header_scheme, 'c, 'n, 'hl, 't, 'x) sections_scheme \<Rightarrow> bool" where
  "arrays_ok ap \<longleftrightarrow> comms ap = [] \<and> nics ap = [] \<and> ncomm_profiles (hdr ap) = 0 \<and> nnics (hdr ap) = 0
     \<and> ncmds (hdr ap) = int (length (cmds ap)) \<and> length (cmds ap) \<le> 1
     \<and> npes (hdr ap) = int (length (pes ap)) \<and> int (length (pes ap)) < 2 ^ 31
     \<and> nnodes (hdr ap) = int (length (nodes ap)) \<and> int (length (nodes ap)) < 2 ^ 31
     \<and> (\<forall>n \<in> set (nodes ap). length (hostname n) = 64)
     \<and> cmd_size (hdr ap) = 12 \<and> pe_size (hdr ap) = 12 \<and> node_size (hdr ap) = 68"

definition offsets_ok :: "nat \<Rightarrow> ('z pals_header_scheme, 'c, 'n, 'hl, 't, 'x) sections_scheme \<Rightarrow> bool" where
  "offsets_ok H ap \<longleftrightarrow>
     comm_profile_offset (hdr ap) = of_nat H \<and> cmd_offset (hdr ap) = of_nat H
     \<and> pe_offset (hdr ap) = of_nat (H + 12 * length (cmds ap))
     \<and> node_offset (hdr ap) = of_nat (H + 12 * length (cmds ap) + 12 * length (pes ap))
     \<and> nic_offset (hdr ap) = of_nat (H + body_size (cmds ap) (pes ap) (nodes ap))
     \<and> total_size (hdr ap) = of_nat (H + body_size (cmds ap) (pes ap) (nodes ap))"

lemma section_offsets_values:
  assumes "arrays_ok ap"
  shows "section_offsets (of_nat H) (hdr ap) =
    ((hdr ap)\<lparr>comm_profile_offset := of_nat H, cmd_offset := of_nat H,
       pe_offset := of_nat (H + 12 * length (cmds ap)),
       node_offset := of_nat (H + 12 * length (cmds ap) + 12 * length (pes ap)),
       nic_offset := of_nat (H + body_size (cmds ap) (pes ap) (nodes ap))\<rparr>,
     of_nat (H + body_size (cmds ap) (pes ap) (nodes ap)))"
  using assms by (simp add: section_offsets_def arrays_ok_def Let_def body_size_def)

lemma unat_offset:
  assumes "length cs \<le> 1" and "int (length ps) < 2 ^ 31" and "int (length ns) < 2 ^ 31"
    and "H \<le> 1000" and "n \<le> H + body_size cs ps ns"
  shows "unat (of_nat n :: size_t) = n"
proof -
  have "length ps < 2147483648" "length ns < 2147483648" using assms(2,3) by simp_all
  then have "n < 2 ^ 64" using assms(1,4,5) by (simp add: body_size_def)
  then show ?thesis by (simp add: unsigned_of_nat take_bit_nat_eq_self)
qed

text \<open>What a reader of the file finds when it follows the offsets of the header.\<close>

definition file_spec :: "int \<Rightarrow> pals_cmd list \<Rightarrow> pals_pe list \<Rightarrow> pals_node list \<Rightarrow> byte list \<Rightarrow> bool" where
  "file_spec ver cs ps ns img \<longleftrightarrow>
     read_int (bytes_at 0 4 img) = ver \<and> read_size (bytes_at 8 8 img) = length img
     \<and> read_int (bytes_at 56 4 img) = int (length cs)
     \<and> (\<forall>k < length cs. bytes_at (read_size (bytes_at 48 8 img) + 12 * k) 12 img = cmd_bytes (cs ! k))
     \<and> read_int (bytes_at 80 4 img) = int (length ps)
     \<and> (\<forall>k < length ps. bytes_at (read_size (bytes_at 72 8 img) + 12 * k) 12 img = pe_bytes (ps ! k))
     \<and> read_int (bytes_at 104 4 img) = int (length ns)
     \<and> (\<forall>k < length ns. bytes_at (read_size (bytes_at 96 8 img) + 68 * k) 68 img = node_bytes (ns ! k))"

definition file_image :: "byte list \<Rightarrow> pals_cmd list \<Rightarrow> pals_pe list \<Rightarrow> pals_node list \<Rightarrow> byte list" where
  "file_image hb cs ps ns =
     hb @ concat (map cmd_bytes cs) @ concat (map pe_bytes ps) @ concat (map node_bytes ns)"

lemma length_file_image:
  "\<forall>n \<in> set ns. length (hostname n) = 64 \<Longrightarrow>
     length (file_image hb cs ps ns) = length hb + body_size cs ps ns"
  using length_concat_map [of cs cmd_bytes 12] length_concat_map [of ps pe_bytes 12]
    length_concat_map [of ns node_bytes 68]
  by (simp add: file_image_def body_size_def)

lemma file_image_spec:
  assumes "arrays_ok ap" and "offsets_ok H ap" and "H \<le> 1000" and "length ext + 136 = H"
    and "- (2 ^ 31) \<le> version (hdr ap)" and "version (hdr ap) < 2 ^ 31"
  shows "file_spec (version (hdr ap)) (cmds ap) (pes ap) (nodes ap)
    (file_image (header_bytes (hdr ap) @ ext) (cmds ap) (pes ap) (nodes ap))"
proof -
  note A = assms(1) [unfolded arrays_ok_def]
  let ?h = "hdr ap" and ?C = "concat (map cmd_bytes (cmds ap))"
    and ?P = "concat (map pe_bytes (pes ap))" and ?N = "concat (map node_bytes (nodes ap))"
  let ?img = "file_image (header_bytes ?h @ ext) (cmds ap) (pes ap) (nodes ap)"
  have img: "?img = header_bytes ?h @ (ext @ ?C @ ?P @ ?N)" by (simp add: file_image_def)
  have b: "length (cmds ap) \<le> 1" "int (length (pes ap)) < 2 ^ 31" "int (length (nodes ap)) < 2 ^ 31"
    using A by simp_all
  note U = unat_offset [OF b assms(3)]
  have len: "length ?img = H + body_size (cmds ap) (pes ap) (nodes ap)"
    using length_file_image [of "nodes ap"] A assms(4) by simp
  have lenC: "length ?C = 12 * length (cmds ap)" and lenP: "length ?P = 12 * length (pes ap)"
    by (simp_all add: length_concat_map)
  have o: "unat (cmd_offset ?h) = H" "unat (pe_offset ?h) = H + 12 * length (cmds ap)"
    "unat (node_offset ?h) = H + 12 * length (cmds ap) + 12 * length (pes ap)"
    "unat (total_size ?h) = length ?img"
  proof -
    have e: "cmd_offset ?h = of_nat H" "pe_offset ?h = of_nat (H + 12 * length (cmds ap))"
      "node_offset ?h = of_nat (H + 12 * length (cmds ap) + 12 * length (pes ap))"
      "total_size ?h = of_nat (H + body_size (cmds ap) (pes ap) (nodes ap))"
      using assms(2) unfolding offsets_ok_def by blast+
    show "unat (cmd_offset ?h) = H" "unat (pe_offset ?h) = H + 12 * length (cmds ap)"
      "unat (node_offset ?h) = H + 12 * length (cmds ap) + 12 * length (pes ap)"
      "unat (total_size ?h) = length ?img"
      unfolding e len by (rule U; simp add: body_size_def)+
  qed
  have body: "bytes_at (H + m) n ?img = bytes_at m n (?C @ ?P @ ?N)" for m n
    using assms(4) [symmetric] bytes_at_skip [of "header_bytes ?h @ ext" "H + m" n "?C @ ?P @ ?N"]
    by (simp add: file_image_def)
  have C: "bytes_at (H + 12 * k) 12 ?img = cmd_bytes (cmds ap ! k)" if "k < length (cmds ap)" for k
    using bytes_at_concat [OF that, of cmd_bytes 12] by (simp add: body)
  have P: "bytes_at (H + 12 * length (cmds ap) + 12 * k) 12 ?img = pe_bytes (pes ap ! k)"
    if "k < length (pes ap)" for k
    using bytes_at_concat [OF that, of pe_bytes 12 ?N] bytes_at_skip [of ?C "12 * length (cmds ap) + 12 * k" 12 "?P @ ?N"]
    unfolding add.assoc body by (simp add: lenC)
  have N: "bytes_at (H + 12 * length (cmds ap) + 12 * length (pes ap) + 68 * k) 68 ?img = node_bytes (nodes ap ! k)"
    if "k < length (nodes ap)" for k
    using bytes_at_concat [OF that, of node_bytes 68 "[]"] A
      bytes_at_skip [of "?C @ ?P" "12 * length (cmds ap) + (12 * length (pes ap) + 68 * k)" 68 ?N]
    unfolding add.assoc body by (simp add: lenC lenP)
  show ?thesis
    unfolding file_spec_def img header_fields read_size_bytes o
    using C P N A assms(5,6) b unfolding img
    by (simp add: read_int_bytes)
qed

text \<open>
  A consumer of the file, such as Cray's libpals: it finds the sections through the offsets of the
  header.
\<close>

definition file_version :: "byte list \<Rightarrow> int" where
  "file_version img = read_int (bytes_at 0 4 img)"

definition file_size :: "byte list \<Rightarrow> nat" where
  "file_size img = read_size (bytes_at 8 8 img)"

definition file_npes :: "byte list \<Rightarrow> int" where
  "file_npes img = read_int (bytes_at 80 4 img)"

definition file_nnodes :: "byte list \<Rightarrow> int" where
  "file_nnodes img = read_int (bytes_at 104 4 img)"

definition file_pe :: "byte list \<Rightarrow> nat \<Rightarrow> pals_pe" where
  "file_pe img k = (let p = bytes_at (read_size (bytes_at 72 8 img) + 12 * k) 12 img in
     \<lparr>pe_localidx = read_int (bytes_at 0 4 p), pe_cmdidx = read_int (bytes_at 4 4 p),
      nodeidx = read_int (bytes_at 8 4 p)\<rparr>)"

definition byte_char :: "byte \<Rightarrow> char" where
  "byte_char b = char_of (unat b)"

definition file_host :: "byte list \<Rightarrow> nat \<Rightarrow> int \<times> string" where
  "file_host img k = (let n = bytes_at (read_size (bytes_at 96 8 img) + 68 * k) 68 img in
     (read_int (bytes_at 0 4 n), c_string (map byte_char (bytes_at 4 64 n))))"

definition file_cmd :: "byte list \<Rightarrow> nat \<Rightarrow> pals_cmd" where
  "file_cmd img k = (let c = bytes_at (read_size (bytes_at 48 8 img) + 12 * k) 12 img in
     \<lparr>cmd_npes = read_int (bytes_at 0 4 c), pes_per_node = read_int (bytes_at 4 4 c),
      cpus_per_pe = read_int (bytes_at 8 4 c)\<rparr>)"

abbreviation is_int :: "int \<Rightarrow> bool" where
  "is_int i \<equiv> - (2 ^ 31) \<le> i \<and> i < 2 ^ 31"

lemma bytes_at_exact: "n = length xs \<Longrightarrow> bytes_at 0 n xs = xs"
  by (simp add: bytes_at_def)

lemma pe_bytes_read:
  assumes "is_int (pe_localidx p)" and "is_int (pe_cmdidx p)" and "is_int (nodeidx p)"
  shows "read_int (bytes_at 0 4 (pe_bytes p)) = pe_localidx p"
    "read_int (bytes_at 4 4 (pe_bytes p)) = pe_cmdidx p"
    "read_int (bytes_at 8 4 (pe_bytes p)) = nodeidx p"
  using assms by (simp_all add: pe_bytes_def read_int_bytes bytes_at_exact)

lemma cmd_bytes_read:
  assumes "is_int (cmd_npes c)" and "is_int (pes_per_node c)" and "is_int (cpus_per_pe c)"
  shows "read_int (bytes_at 0 4 (cmd_bytes c)) = cmd_npes c"
    "read_int (bytes_at 4 4 (cmd_bytes c)) = pes_per_node c"
    "read_int (bytes_at 8 4 (cmd_bytes c)) = cpus_per_pe c"
  using assms by (simp_all add: cmd_bytes_def read_int_bytes bytes_at_exact)

lemma char_bytes_read: "map byte_char (char_bytes cs) = cs"
proof -
  have "byte_char (of_nat (of_char c)) = c" for c :: char
  proof -
    have "(of_char c :: nat) < 256" by simp
    then have "unat (of_nat (of_char c) :: byte) = of_char c"
      by (simp only: unsigned_of_nat) (simp add: take_bit_nat_eq_self)
    then show ?thesis by (simp add: byte_char_def)
  qed
  then show ?thesis by (simp add: char_bytes_def comp_def)
qed

lemma node_bytes_read:
  assumes "is_int (nid n)" and "length (hostname n) = 64"
  shows "read_int (bytes_at 0 4 (node_bytes n)) = nid n"
    "map byte_char (bytes_at 4 64 (node_bytes n)) = hostname n"
  using assms char_bytes_read [of "hostname n"] by (simp_all add: node_bytes_def read_int_bytes bytes_at_exact)

section \<open>Updating a section\<close>

text \<open>
  What the operations need of a file's \<^verbatim>\<open>set_offsets\<close> and of the rest of its structure: after a
  section was replaced together with its count, \<^verbatim>\<open>set_offsets\<close> restores the file's invariant \<open>ok\<close>
  and leaves the arrays alone; and the invariant does not depend on the caches.
\<close>

locale section_layout =
  fixes set_offsets :: "('z pals_header_scheme, 'c, 'n, 'hl, 't, 'x) sections_scheme \<Rightarrow>
      ('z pals_header_scheme, 'c, 'n, 'hl, 't, 'x) sections_scheme"
    and ok :: "('z pals_header_scheme, 'c, 'n, 'hl, 't, 'x) sections_scheme \<Rightarrow> bool"
  assumes ok_arrays: "ok ap \<Longrightarrow> arrays_ok ap"
    and offsets_arrays: "cmds (set_offsets ap) = cmds ap" "pes (set_offsets ap) = pes ap"
      "nodes (set_offsets ap) = nodes ap"
    and ok_cmds: "ok ap \<Longrightarrow> length cs = 1 \<Longrightarrow>
      ok (set_offsets (ap\<lparr>cmds := cs, hdr := (hdr ap)\<lparr>ncmds := 1\<rparr>\<rparr>))"
    and ok_pes: "ok ap \<Longrightarrow> int (length ps) < 2 ^ 31 \<Longrightarrow>
      ok (set_offsets (ap\<lparr>pes := ps, hdr := (hdr ap)\<lparr>npes := int (length ps)\<rparr>\<rparr>))"
    and ok_nodes: "ok ap \<Longrightarrow> int (length ns) < 2 ^ 31 \<Longrightarrow> \<forall>n \<in> set ns. length (hostname n) = 64 \<Longrightarrow>
      ok (set_offsets (ap\<lparr>nodes := ns, hdr := (hdr ap)\<lparr>nnodes := int (length ns)\<rparr>\<rparr>))"
    and ok_caches: "ok (ap\<lparr>cached_hosts := h\<rparr>) = ok ap" "ok (ap\<lparr>cached_map := m\<rparr>) = ok ap"
begin

lemma set_hostlist_ok:
  assumes "ok ap" and "int (hostlist_count hl hs) < 2 ^ 31" and "set_hostlist set_offsets hl m ap hs = (ap', r)"
  shows "ok ap' \<and> cmds ap' = cmds ap \<and> pes ap' = pes ap
    \<and> nodes ap' = (if calloc_nodes m then fill_nodes hl hs (hostlist_count hl hs) else nodes ap)
    \<and> r = (if calloc_nodes m then Inr () else Inl ENOMEM)"
proof -
  have "\<forall>n \<in> set (fill_nodes hl hs (hostlist_count hl hs)). length (hostname n) = 64"
    by (simp add: hostname_length)
  from ok_nodes [OF assms(1) _ this] assms show ?thesis
    by (auto simp: set_hostlist_def Let_def offsets_arrays split: if_splits)
qed

lemma check_op_ok:
  assumes "ok ap"
  shows "check_op ap = check_sections (pes ap) (int (length (pes ap))) (nodes ap) (int (length (nodes ap)))"
  using ok_arrays [OF assms] by (simp add: check_op_def arrays_ok_def)

lemma get_hostlist_ok:
  assumes "ok ap" and "get_hostlist hl ap = (ap', r)"
  shows "ok ap' \<and> cmds ap' = cmds ap \<and> pes ap' = pes ap \<and> nodes ap' = nodes ap
    \<and> r = (case hostlist_create hl of None \<Rightarrow> None | Some h0 \<Rightarrow> append_nodes hl h0 (nodes ap))"
  using assms(2) ok_arrays [OF assms(1)] assms(1)
  by (auto simp: get_hostlist_def arrays_ok_def ok_caches split: option.splits)

lemma get_taskmap_ok:
  assumes "ok ap" and "get_taskmap ta ap = (ap', r)"
  shows "ok ap' \<and> cmds ap' = cmds ap \<and> pes ap' = pes ap \<and> nodes ap' = nodes ap
    \<and> r = (case taskmap_create ta of None \<Rightarrow> None | Some m0 \<Rightarrow> append_pes ta m0 (pes ap))"
  using assms(2) ok_arrays [OF assms(1)] assms(1)
  by (auto simp: get_taskmap_def arrays_ok_def ok_caches split: option.splits)

lemma set_taskmap_ok:
  assumes "taskmap_lib ia elems ta tasks" and "ok ap"
  shows "\<exists>ap' r. set_taskmap set_offsets ia ta m ap t cpus = Some (ap', r) \<and> ok ap' \<and> nodes ap' = nodes ap
    \<and> r = (if calloc_pes m \<and> calloc_cmds m then Inr () else Inl ENOMEM)
    \<and> pes ap' = (if calloc_pes m then pes_of (tasks t) else pes ap)
    \<and> cmds ap' = (if calloc_pes m \<and> calloc_cmds m
        then [\<lparr>cmd_npes = int (length (tasks t)), pes_per_node = max_ntasks ta t, cpus_per_pe = cpus\<rparr>]
        else cmds ap)"
proof -
  note T = taskmap_lib.fill_pes_spec [OF assms(1), of t] taskmap_lib.tasks_int [OF assms(1), of t]
    taskmap_lib.total_tasks [OF assms(1), of t]
  let ?ap1 = "set_offsets (ap\<lparr>pes := pes_of (tasks t), hdr := (hdr ap)\<lparr>npes := int (length (tasks t))\<rparr>\<rparr>)"
  have 1: "ok ?ap1"
    using ok_pes [OF assms(2), of "pes_of (tasks t)"] T(2) by simp
  have p: "set_pes set_offsets ia ta m ap t = Some (if calloc_pes m then (?ap1, Inr ()) else (ap, Inl ENOMEM))"
    using T by (simp add: set_pes_def Let_def)
  show ?thesis
    using assms(2) 1 ok_cmds [OF 1] T(3)
    by (simp add: set_taskmap_def p set_cmd_def offsets_arrays)
qed

end

section \<open>The table of operations\<close>

text \<open>
  \<^verbatim>\<open>struct apinfo_impl\<close>, for an object of type \<open>'h\<close>; \<^verbatim>\<open>destroy\<close>, which only frees memory, is left
  out. An operation that changes the object returns it; \<open>set_taskmap\<close> is \<open>None\<close> when its loop does
  not end.
\<close>

record ('h, 'hl, 't) apinfo_impl =
  impl_version :: int
  impl_create :: "calloc_env \<Rightarrow> errno + 'h"
  impl_write :: "'h \<Rightarrow> stream \<Rightarrow> stream \<times> (errno + unit)"
  impl_set_taskmap :: "calloc_env \<Rightarrow> 'h \<Rightarrow> 't \<Rightarrow> int \<Rightarrow> ('h \<times> (errno + unit)) option"
  impl_set_hostlist :: "calloc_env \<Rightarrow> 'h \<Rightarrow> 'hl \<Rightarrow> 'h \<times> (errno + unit)"
  impl_check :: "'h \<Rightarrow> (string \<times> errno) + unit"
  impl_get_size :: "'h \<Rightarrow> size_t"
  impl_get_nnodes :: "'h \<Rightarrow> int"
  impl_get_npes :: "'h \<Rightarrow> int"
  impl_get_hostlist :: "'h \<Rightarrow> 'h \<times> 'hl option"
  impl_get_taskmap :: "'h \<Rightarrow> 'h \<times> 't option"

text \<open>The result of writing an image to a stream: all of it, or an error and a part of it.\<close>

definition write_result :: "byte list \<Rightarrow> stream \<Rightarrow> stream \<times> (errno + unit) \<Rightarrow> bool" where
  "write_result img st res \<longleftrightarrow>
     (if length img \<le> room st
      then res = (st\<lparr>written := written st @ img, room := room st - length img\<rparr>, Inr ())
      else snd res = Inl ENOSPC \<and> (\<exists>n. written (fst res) = written st @ take n img))"

lemma fwrite_all_write_result:
  assumes "\<forall>s \<in> set ws. section_ok s"
  shows "write_result (concat (map fst ws)) st (fwrite_all ws st)"
proof -
  note F = fwrite_all_result [OF assms, of st, unfolded Let_def]
  show ?thesis
  proof (cases "length (concat (map fst ws)) \<le> room st")
    case True
    with F show ?thesis by (simp add: write_result_def)
  next
    case False
    then have r: "snd (fwrite_all ws st) = Inl ENOSPC"
      using conjunct1 [OF F] by (metis snd_conv)
    obtain p where "written (fst (fwrite_all ws st)) = written st @ p" "p = take (length p) (concat (map fst ws))"
      using conjunct2 [OF F] by (elim exE conjE)
    then have "written (fst (fwrite_all ws st)) = written st @ take (length p) (concat (map fst ws))"
      by simp
    with r show ?thesis unfolding write_result_def if_not_P [OF False] by blast
  qed
qed

text \<open>
  The contract of a version: \<open>inv\<close> holds from creation on, the operations act on the three arrays
  as described, and writing produces an image whose header leads a reader to them.
\<close>

locale apinfo_backend = taskmap_lib ia elems ta tasks
  for ia :: "'i idset_api" and elems and ta :: "('t, 'i) taskmap_api" and tasks +
  fixes hl :: "'hl hostlist_api"
    and im :: "('h, 'hl, 't) apinfo_impl"
    and inv :: "'h \<Rightarrow> bool"
    and cmds_of :: "'h \<Rightarrow> pals_cmd list"
    and pes_in :: "'h \<Rightarrow> pals_pe list"
    and nodes_of :: "'h \<Rightarrow> pals_node list"
    and image :: "'h \<Rightarrow> byte list"
  assumes create_ok: "impl_create im m = Inr h0 \<Longrightarrow> inv h0 \<and> cmds_of h0 = [] \<and> pes_in h0 = [] \<and> nodes_of h0 = []"
    and create_total: "is_ok (impl_create im m) = calloc_handle m"
    and hostlist_ok: "inv h \<Longrightarrow> int (hostlist_count hl hs) < 2 ^ 31 \<Longrightarrow>
      impl_set_hostlist im m h hs = (h', r) \<Longrightarrow>
      inv h' \<and> cmds_of h' = cmds_of h \<and> pes_in h' = pes_in h
      \<and> nodes_of h' = (if calloc_nodes m then fill_nodes hl hs (hostlist_count hl hs) else nodes_of h)
      \<and> r = (if calloc_nodes m then Inr () else Inl ENOMEM)"
    and taskmap_ok: "inv h \<Longrightarrow>
      \<exists>h' r. impl_set_taskmap im m h t cpus = Some (h', r) \<and> inv h' \<and> nodes_of h' = nodes_of h
      \<and> r = (if calloc_pes m \<and> calloc_cmds m then Inr () else Inl ENOMEM)
      \<and> pes_in h' = (if calloc_pes m then pes_of (tasks t) else pes_in h)
      \<and> cmds_of h' = (if calloc_pes m \<and> calloc_cmds m
          then [\<lparr>cmd_npes = int (length (tasks t)), pes_per_node = max_ntasks ta t, cpus_per_pe = cpus\<rparr>]
          else cmds_of h)"
    and check_ok: "inv h \<Longrightarrow> impl_check im h =
      check_sections (pes_in h) (int (length (pes_in h))) (nodes_of h) (int (length (nodes_of h)))"
    and image_spec: "inv h \<Longrightarrow> file_spec (impl_version im) (cmds_of h) (pes_in h) (nodes_of h) (image h)"
    and size_ok: "inv h \<Longrightarrow> unat (impl_get_size im h) = length (image h)"
    and counts_ok: "inv h \<Longrightarrow> impl_get_nnodes im h = int (length (nodes_of h))
      \<and> impl_get_npes im h = int (length (pes_in h))"
    and write_ok: "inv h \<Longrightarrow> write_result (image h) st (impl_write im h st)"
    and get_hostlist_law: "inv h \<Longrightarrow> impl_get_hostlist im h = (h', hr) \<Longrightarrow>
      inv h' \<and> cmds_of h' = cmds_of h \<and> pes_in h' = pes_in h \<and> nodes_of h' = nodes_of h
      \<and> hr = (case hostlist_create hl of None \<Rightarrow> None | Some g \<Rightarrow> append_nodes hl g (nodes_of h))"
    and get_taskmap_law: "inv h \<Longrightarrow> impl_get_taskmap im h = (h', tr) \<Longrightarrow>
      inv h' \<and> cmds_of h' = cmds_of h \<and> pes_in h' = pes_in h \<and> nodes_of h' = nodes_of h
      \<and> tr = (case taskmap_create ta of None \<Rightarrow> None | Some g \<Rightarrow> append_pes ta g (pes_in h))"
begin

text \<open>
  The path of \<^verbatim>\<open>create_apinfo\<close> in \<^verbatim>\<open>cray_pals\<close>: create, set the host list, set the task map. When
  all three succeed the object describes exactly this host list and task map, whatever version it
  has; the check passes exactly when the tasks run on all of the hosts and on no other node.
\<close>

lemma built_object:
  assumes "impl_create im m = Inr h0" and "impl_set_hostlist im m h0 hs = (h1, Inr ())"
    and "impl_set_taskmap im m h1 t cpus = Some (h2, Inr ())" and "int (hostlist_count hl hs) < 2 ^ 31"
  shows "inv h2 \<and> nodes_of h2 = fill_nodes hl hs (hostlist_count hl hs) \<and> pes_in h2 = pes_of (tasks t)
    \<and> cmds_of h2 = [\<lparr>cmd_npes = int (length (tasks t)), pes_per_node = max_ntasks ta t, cpus_per_pe = cpus\<rparr>]"
proof -
  have h0: "inv h0" using create_ok [OF assms(1)] by simp
  from hostlist_ok [OF h0 assms(4,2)]
  have h1: "inv h1" "nodes_of h1 = fill_nodes hl hs (hostlist_count hl hs)"
    by (simp_all split: if_splits)
  from taskmap_ok [OF h1(1), of m t cpus] assms(3) h1(2) show ?thesis
    by (auto split: if_splits)
qed

lemma built_file:
  assumes "inv h" and "nodes_of h = fill_nodes hl hs (hostlist_count hl hs)" and "pes_in h = pes_of (tasks t)"
    and "cmds_of h = [\<lparr>cmd_npes = int (length (tasks t)), pes_per_node = max_ntasks ta t, cpus_per_pe = cpus\<rparr>]"
    and "int (hostlist_count hl hs) < 2 ^ 31" and "is_int cpus" and "\<forall>n \<in> set (tasks t). int n < 2 ^ 31"
  shows "file_version (image h) = impl_version im \<and> file_size (image h) = length (image h)
    \<and> file_npes (image h) = int (length (tasks t)) \<and> file_nnodes (image h) = int (hostlist_count hl hs)
    \<and> file_cmd (image h) 0 =
        \<lparr>cmd_npes = int (length (tasks t)), pes_per_node = max_ntasks ta t, cpus_per_pe = cpus\<rparr>
    \<and> (\<forall>k < length (tasks t). file_pe (image h) k =
        \<lparr>pe_localidx = int (local_rank (tasks t) k), pe_cmdidx = 0, nodeidx = int (tasks t ! k)\<rparr>)
    \<and> (\<forall>k < hostlist_count hl hs. NUL \<notin> set (hostlist_nth hl hs k) \<longrightarrow>
        file_host (image h) k = (int k, take 63 (hostlist_nth hl hs k)))"
proof -
  note S = image_spec [OF assms(1), unfolded file_spec_def assms(2-4)]
  have C: "bytes_at (read_size (bytes_at 48 8 (image h))) 12 (image h) =
      cmd_bytes \<lparr>cmd_npes = int (length (tasks t)), pes_per_node = max_ntasks ta t, cpus_per_pe = cpus\<rparr>"
    using S by simp
  have c: "is_int (int (length (tasks t)))" using tasks_int [of t] by simp
  have m: "is_int (max_ntasks ta t)"
    using max_ntasks_bound [of t] tasks_int [of t] by simp
  have "file_cmd (image h) 0 =
      \<lparr>cmd_npes = int (length (tasks t)), pes_per_node = max_ntasks ta t, cpus_per_pe = cpus\<rparr>"
    using C cmd_bytes_read [of "\<lparr>cmd_npes = int (length (tasks t)), pes_per_node = max_ntasks ta t,
      cpus_per_pe = cpus\<rparr>"] c m assms(6) by (simp add: file_cmd_def)
  moreover have "file_pe (image h) k =
      \<lparr>pe_localidx = int (local_rank (tasks t) k), pe_cmdidx = 0, nodeidx = int (tasks t ! k)\<rparr>"
    if k: "k < length (tasks t)" for k
  proof -
    have P: "bytes_at (read_size (bytes_at 72 8 (image h)) + 12 * k) 12 (image h) = pe_bytes (pe_of (tasks t) k)"
      using S k by simp
    have "local_rank (tasks t) k \<le> k"
      unfolding local_rank_def using length_filter_le [of _ "take k (tasks t)"] k by simp
    then have "is_int (int (local_rank (tasks t) k))" using k tasks_int [of t] by simp
    moreover have "int (tasks t ! k) < 2 ^ 31" using assms(7) k by simp
    ultimately show ?thesis
      using pe_bytes_read [of "pe_of (tasks t) k"] by (simp add: file_pe_def P pe_of_def)
  qed
  moreover have "file_host (image h) k = (int k, take 63 (hostlist_nth hl hs k))"
    if k: "k < hostlist_count hl hs" and "NUL \<notin> set (hostlist_nth hl hs k)" for k
  proof -
    let ?n = "\<lparr>nid = int k, hostname = snprintf_to (replicate 64 NUL) 64 (hostlist_nth hl hs k)\<rparr>"
    have N: "bytes_at (read_size (bytes_at 96 8 (image h)) + 68 * k) 68 (image h) = node_bytes ?n"
      using S k by simp
    show ?thesis
      using node_bytes_read [of ?n] k assms(5) c_string_snprintf [OF that(2), of 64]
      by (simp add: file_host_def N length_snprintf_to)
  qed
  ultimately show ?thesis
    using S by (simp add: file_version_def file_size_def file_npes_def file_nnodes_def)
qed

lemma built_check:
  assumes "inv h" and "nodes_of h = fill_nodes hl hs (hostlist_count hl hs)" and "pes_in h = pes_of (tasks t)"
  shows "impl_check im h = Inr () \<longleftrightarrow> set (tasks t) = {..<hostlist_count hl hs}"
proof -
  let ?n = "hostlist_count hl hs"
  have "(\<forall>p \<in> set (pes_of (tasks t)). nodeidx p < int ?n) \<longleftrightarrow> (\<forall>i \<in> nodeidx ` set (pes_of (tasks t)). i < int ?n)"
    by simp
  then have 1: "(\<forall>p \<in> set (pes_of (tasks t)). nodeidx p < int ?n) \<longleftrightarrow> set (tasks t) \<subseteq> {..<?n}"
    unfolding nodeidx_pes_of_set by auto
  have "(\<forall>n \<in> set (fill_nodes hl hs ?n). \<exists>p \<in> set (pes_of (tasks t)). nodeidx p = nid n)
      \<longleftrightarrow> (\<forall>n \<in> nid ` set (fill_nodes hl hs ?n). n \<in> nodeidx ` set (pes_of (tasks t)))"
    by (simp add: image_iff eq_commute [of "nid _"])
  moreover have "nid ` set (fill_nodes hl hs ?n) = int ` {..<?n}"
    by (simp add: fill_nodes_def image_image atLeast0LessThan)
  ultimately have 2: "(\<forall>n \<in> set (fill_nodes hl hs ?n). \<exists>p \<in> set (pes_of (tasks t)). nodeidx p = nid n)
      \<longleftrightarrow> {..<?n} \<subseteq> set (tasks t)"
    unfolding nodeidx_pes_of_set by auto
  have "impl_check im h = Inr () \<longleftrightarrow>
      (\<forall>p \<in> set (pes_of (tasks t)). nodeidx p < int ?n)
      \<and> (\<forall>n \<in> set (fill_nodes hl hs ?n). \<exists>p \<in> set (pes_of (tasks t)). nodeidx p = nid n)"
    unfolding check_ok [OF assms(1)] assms(2,3) 
    using check_sections_ok [of _ "pes_of (tasks t)" _ "fill_nodes hl hs ?n"] by simp
  then show ?thesis unfolding 1 2 by blast
qed

end

text \<open>The libraries that both versions are used with.\<close>

locale apinfo_libs = taskmap_lib ia elems ta tasks
  for ia :: "'i idset_api" and elems and ta :: "('t, 'i) taskmap_api" and tasks +
  fixes hl :: "'hl hostlist_api"

end
