(* ===== verification/Apinfo1.thy ===== *)
theory Apinfo1
  imports ApinfoSections
begin

text \<open>
  Version 1 of the application file: \<^verbatim>\<open>src/common/libapinfo/apinfo1.h\<close> and \<^verbatim>\<open>apinfo1.c\<close>.
\<close>

section \<open>Structures\<close>

definition PALS_APINFO_VERSION_1 :: int where
  "PALS_APINFO_VERSION_1 = 1"

record comm_profile1 =
  tokenid :: "char list"
  vni1 :: int
  vlan :: int
  traffic_classes1 :: int

record pals_nic =
  nic_nodeidx :: int
  nic_address_type :: pals_address_type
  nic_address :: "char list"

definition comm_bytes1 :: "comm_profile1 \<Rightarrow> byte list" where
  "comm_bytes1 c = char_bytes (tokenid c) @ int_bytes (vni1 c) @ int_bytes (vlan c) @ int_bytes (traffic_classes1 c)"

definition nic_bytes1 :: "pals_nic \<Rightarrow> byte list" where
  "nic_bytes1 n = int_bytes (nic_nodeidx n) @ int_bytes (address_type_int (nic_address_type n))
     @ char_bytes (nic_address n)"

type_synonym ('hl, 't) apinfo1 = "(pals_header, comm_profile1, pals_nic, 'hl, 't) sections"

text \<open>The sizes that \<^verbatim>\<open>sizeof\<close> gives for these structures.\<close>

lemma sizeof_structs1:
  "length (tokenid c) = 40 \<Longrightarrow> length (comm_bytes1 c) = 52"
  "length (nic_address n) = 40 \<Longrightarrow> length (nic_bytes1 n) = 48"
  by (simp_all add: comm_bytes1_def nic_bytes1_def)

section \<open>Operations\<close>

definition set_offsets1 :: "('hl, 't) apinfo1 \<Rightarrow> ('hl, 't) apinfo1" where
  "set_offsets1 ap =
     (let (h, offset) = section_offsets 136 (hdr ap) in ap\<lparr>hdr := h\<lparr>total_size := offset\<rparr>\<rparr>)"

definition set_sizes1 :: "('hl, 't) apinfo1 \<Rightarrow> ('hl, 't) apinfo1" where
  "set_sizes1 ap = ap\<lparr>hdr := (hdr ap)\<lparr>comm_profile_size := 52, cmd_size := 12, pe_size := 12,
     node_size := 68, nic_size := 48\<rparr>\<rparr>"

definition op_write1 :: "('hl, 't) apinfo1 \<Rightarrow> stream \<Rightarrow> stream \<times> (errno + unit)" where
  "op_write1 ap = (let h = hdr ap in fwrite_all
     [(header_bytes h, 136, 1),
      (concat (map comm_bytes1 (comms ap)), unat (comm_profile_size h), unat (of_int (ncomm_profiles h) :: size_t)),
      (concat (map cmd_bytes (cmds ap)), unat (cmd_size h), unat (of_int (ncmds h) :: size_t)),
      (concat (map pe_bytes (pes ap)), unat (pe_size h), unat (of_int (npes h) :: size_t)),
      (concat (map node_bytes (nodes ap)), unat (node_size h), unat (of_int (nnodes h) :: size_t)),
      (concat (map nic_bytes1 (nics ap)), unat (nic_size h), unat (of_int (nnics h) :: size_t))])"

definition set_cmd1 :: "('t, 'i) taskmap_api \<Rightarrow> calloc_env \<Rightarrow> ('hl, 't) apinfo1 \<Rightarrow> 't \<Rightarrow> int \<Rightarrow>
    ('hl, 't) apinfo1 \<times> (errno + unit)" where
  "set_cmd1 = set_cmd set_offsets1"

definition set_pes1 :: "'i idset_api \<Rightarrow> ('t, 'i) taskmap_api \<Rightarrow> calloc_env \<Rightarrow> ('hl, 't) apinfo1 \<Rightarrow> 't \<Rightarrow>
    (('hl, 't) apinfo1 \<times> (errno + unit)) option" where
  "set_pes1 = set_pes set_offsets1"

definition op_set_taskmap1 :: "'i idset_api \<Rightarrow> ('t, 'i) taskmap_api \<Rightarrow> calloc_env \<Rightarrow> ('hl, 't) apinfo1 \<Rightarrow> 't \<Rightarrow>
    int \<Rightarrow> (('hl, 't) apinfo1 \<times> (errno + unit)) option" where
  "op_set_taskmap1 = set_taskmap set_offsets1"

definition op_set_hostlist1 :: "'hl hostlist_api \<Rightarrow> calloc_env \<Rightarrow> ('hl, 't) apinfo1 \<Rightarrow> 'hl \<Rightarrow>
    ('hl, 't) apinfo1 \<times> (errno + unit)" where
  "op_set_hostlist1 = set_hostlist set_offsets1"

definition op_check1 :: "('hl, 't) apinfo1 \<Rightarrow> (string \<times> errno) + unit" where
  "op_check1 = check_op"

definition op_get_size1 :: "('hl, 't) apinfo1 \<Rightarrow> size_t" where
  "op_get_size1 ap = total_size (hdr ap)"

definition op_get_nnodes1 :: "('hl, 't) apinfo1 \<Rightarrow> int" where
  "op_get_nnodes1 ap = nnodes (hdr ap)"

definition op_get_npes1 :: "('hl, 't) apinfo1 \<Rightarrow> int" where
  "op_get_npes1 ap = npes (hdr ap)"

definition op_get_hostlist1 :: "'hl hostlist_api \<Rightarrow> ('hl, 't) apinfo1 \<Rightarrow> ('hl, 't) apinfo1 \<times> 'hl option" where
  "op_get_hostlist1 = get_hostlist"

definition op_get_taskmap1 :: "('t, 'i) taskmap_api \<Rightarrow> ('hl, 't) apinfo1 \<Rightarrow> ('hl, 't) apinfo1 \<times> 't option" where
  "op_get_taskmap1 = get_taskmap"

text \<open>\<^verbatim>\<open>calloc\<close> clears the structure.\<close>

definition zero_header :: pals_header where
  "zero_header = \<lparr>version = 0, total_size = 0, comm_profile_size = 0, comm_profile_offset = 0,
     ncomm_profiles = 0, cmd_size = 0, cmd_offset = 0, ncmds = 0, pe_size = 0, pe_offset = 0, npes = 0,
     node_size = 0, node_offset = 0, nnodes = 0, nic_size = 0, nic_offset = 0, nnics = 0\<rparr>"

definition op_create1 :: "calloc_env \<Rightarrow> errno + ('hl, 't) apinfo1" where
  "op_create1 m =
     (if \<not> calloc_handle m then Inl ENOMEM
      else Inr (set_offsets1 (set_sizes1
        \<lparr>hdr = zero_header\<lparr>version := PALS_APINFO_VERSION_1\<rparr>, comms = [], cmds = [], pes = [],
         nodes = [], nics = [], cached_hosts = None, cached_map = None\<rparr>)))"

definition apinfo1 :: "'hl hostlist_api \<Rightarrow> 'i idset_api \<Rightarrow> ('t, 'i) taskmap_api \<Rightarrow>
    (('hl, 't) apinfo1, 'hl, 't) apinfo_impl" where
  "apinfo1 hl ia ta = \<lparr>impl_version = PALS_APINFO_VERSION_1, impl_create = op_create1,
     impl_write = op_write1, impl_set_taskmap = op_set_taskmap1 ia ta,
     impl_set_hostlist = op_set_hostlist1 hl, impl_check = op_check1, impl_get_size = op_get_size1,
     impl_get_nnodes = op_get_nnodes1, impl_get_npes = op_get_npes1,
     impl_get_hostlist = op_get_hostlist1 hl, impl_get_taskmap = op_get_taskmap1 ta\<rparr>"

section \<open>The invariant and the contract\<close>

definition apinfo1_ok :: "('hl, 't) apinfo1 \<Rightarrow> bool" where
  "apinfo1_ok ap \<longleftrightarrow> arrays_ok ap \<and> offsets_ok 136 ap \<and> version (hdr ap) = 1
     \<and> comm_profile_size (hdr ap) = 52 \<and> nic_size (hdr ap) = 48"

lemma set_offsets1_ok:
  assumes "arrays_ok ap" and "version (hdr ap) = 1" and "comm_profile_size (hdr ap) = 52"
    and "nic_size (hdr ap) = 48"
  shows "apinfo1_ok (set_offsets1 ap)"
proof -
  note S = section_offsets_values [OF assms(1), of 136]
  show ?thesis
    using assms S by (simp add: set_offsets1_def apinfo1_ok_def offsets_ok_def arrays_ok_def Let_def)
qed

interpretation layout1: section_layout set_offsets1 apinfo1_ok
proof
  fix ap :: "('a, 'b) apinfo1" and h m cs ps ns
  show "apinfo1_ok ap \<Longrightarrow> arrays_ok ap" by (simp add: apinfo1_ok_def)
  show "cmds (set_offsets1 ap) = cmds ap" "pes (set_offsets1 ap) = pes ap" "nodes (set_offsets1 ap) = nodes ap"
    by (simp_all add: set_offsets1_def split: prod.split)
  show "apinfo1_ok (set_offsets1 (ap\<lparr>cmds := cs, hdr := (hdr ap)\<lparr>ncmds := 1\<rparr>\<rparr>))"
    if "apinfo1_ok ap" "length cs = 1"
    by (rule set_offsets1_ok) (use that in \<open>simp_all add: apinfo1_ok_def arrays_ok_def\<close>)
  show "apinfo1_ok (set_offsets1 (ap\<lparr>pes := ps, hdr := (hdr ap)\<lparr>npes := int (length ps)\<rparr>\<rparr>))"
    if "apinfo1_ok ap" "int (length ps) < 2 ^ 31"
    by (rule set_offsets1_ok) (use that in \<open>simp_all add: apinfo1_ok_def arrays_ok_def\<close>)
  show "apinfo1_ok (set_offsets1 (ap\<lparr>nodes := ns, hdr := (hdr ap)\<lparr>nnodes := int (length ns)\<rparr>\<rparr>))"
    if "apinfo1_ok ap" "int (length ns) < 2 ^ 31" "\<forall>n \<in> set ns. length (hostname n) = 64"
    by (rule set_offsets1_ok) (use that in \<open>simp_all add: apinfo1_ok_def arrays_ok_def\<close>)
  show "apinfo1_ok (ap\<lparr>cached_hosts := h\<rparr>) = apinfo1_ok ap" "apinfo1_ok (ap\<lparr>cached_map := m\<rparr>) = apinfo1_ok ap"
    by (simp_all add: apinfo1_ok_def arrays_ok_def offsets_ok_def)
qed

definition image1 :: "('hl, 't) apinfo1 \<Rightarrow> byte list" where
  "image1 ap = file_image (header_bytes (hdr ap)) (cmds ap) (pes ap) (nodes ap)"

lemma op_write1_result:
  assumes "apinfo1_ok ap"
  shows "write_result (image1 ap) st (op_write1 ap st)"
proof -
  have A: "arrays_ok ap" and S: "comm_profile_size (hdr ap) = 52" "nic_size (hdr ap) = 48"
    using assms by (simp_all add: apinfo1_ok_def)
  note A = A [unfolded arrays_ok_def]
  have u: "unat (of_int (int (length (pes ap))) :: size_t) = length (pes ap)"
    "unat (of_int (int (length (nodes ap))) :: size_t) = length (nodes ap)"
    using A by (simp_all add: unsigned_of_nat take_bit_nat_eq_self)
  have c: "unat (of_int (int (length (cmds ap))) :: size_t) = length (cmds ap)"
    using A by (simp add: unsigned_of_nat take_bit_nat_eq_self)
  let ?ws = "[(header_bytes (hdr ap), 136 :: nat, 1 :: nat), ([], 52, 0),
      (concat (map cmd_bytes (cmds ap)), 12, length (cmds ap)),
      (concat (map pe_bytes (pes ap)), 12, length (pes ap)),
      (concat (map node_bytes (nodes ap)), 68, length (nodes ap)), ([], 48, 0)]"
  have "op_write1 ap st = fwrite_all ?ws st"
    using A S u c by (simp add: op_write1_def)
  moreover have "concat (map fst ?ws) = image1 ap"
    by (simp add: image1_def file_image_def)
  moreover have "\<forall>s \<in> set ?ws. section_ok s"
    using A by (auto simp: section_ok_def length_concat_map)
  ultimately show ?thesis using fwrite_all_write_result [of ?ws st] by simp
qed

lemma image1_spec:
  assumes "apinfo1_ok ap"
  shows "file_spec 1 (cmds ap) (pes ap) (nodes ap) (image1 ap)
    \<and> unat (op_get_size1 ap) = length (image1 ap)"
proof -
  have A: "arrays_ok ap" "offsets_ok 136 ap" "version (hdr ap) = 1"
    using assms by (simp_all add: apinfo1_ok_def)
  have F: "file_spec 1 (cmds ap) (pes ap) (nodes ap) (image1 ap)"
    using file_image_spec [OF A(1,2), of "[]"] A(3) by (simp add: image1_def)
  have "image1 ap = header_bytes (hdr ap) @ concat (map cmd_bytes (cmds ap)) @ concat (map pe_bytes (pes ap))
      @ concat (map node_bytes (nodes ap))"
    by (simp add: image1_def file_image_def)
  then have "read_size (bytes_at 8 8 (image1 ap)) = unat (op_get_size1 ap)"
    by (simp only: header_fields read_size_bytes op_get_size1_def)
  with F show ?thesis by (simp add: file_spec_def)
qed

lemma op_create1_ok:
  assumes "op_create1 m = Inr ap"
  shows "apinfo1_ok ap \<and> cmds ap = [] \<and> pes ap = [] \<and> nodes ap = []"
proof -
  let ?ap0 = "set_sizes1 \<lparr>hdr = zero_header\<lparr>version := PALS_APINFO_VERSION_1\<rparr>, comms = [], cmds = [],
    pes = [], nodes = [], nics = [], cached_hosts = None, cached_map = None\<rparr>"
  have "ap = set_offsets1 ?ap0"
    using assms by (simp add: op_create1_def split: if_splits)
  moreover have "apinfo1_ok (set_offsets1 ?ap0)"
    by (rule set_offsets1_ok)
      (simp_all add: arrays_ok_def set_sizes1_def zero_header_def PALS_APINFO_VERSION_1_def)
  ultimately show ?thesis by (simp add: layout1.offsets_arrays) (simp add: set_sizes1_def)
qed

sublocale apinfo_libs \<subseteq> v1: apinfo_backend ia elems ta tasks hl "apinfo1 hl ia ta" apinfo1_ok cmds pes nodes image1
proof
  fix m hs r t cpus st hr tr and h0 h h' :: "('hl, 't) apinfo1"
  show "impl_create (apinfo1 hl ia ta) m = Inr h0 \<Longrightarrow>
      apinfo1_ok h0 \<and> cmds h0 = [] \<and> pes h0 = [] \<and> nodes h0 = []"
    by (rule op_create1_ok) (simp add: apinfo1_def)
  show "is_ok (impl_create (apinfo1 hl ia ta) m) = calloc_handle m"
    by (simp add: apinfo1_def op_create1_def)
  assume h: "apinfo1_ok h"
  show "apinfo1_ok h' \<and> cmds h' = cmds h \<and> pes h' = pes h
      \<and> nodes h' = (if calloc_nodes m then fill_nodes hl hs (hostlist_count hl hs) else nodes h)
      \<and> r = (if calloc_nodes m then Inr () else Inl ENOMEM)"
    if "int (hostlist_count hl hs) < 2 ^ 31" "impl_set_hostlist (apinfo1 hl ia ta) m h hs = (h', r)"
    by (rule layout1.set_hostlist_ok [OF h that(1)]) (use that(2) in \<open>simp add: apinfo1_def op_set_hostlist1_def\<close>)
  show "\<exists>h' r. impl_set_taskmap (apinfo1 hl ia ta) m h t cpus = Some (h', r) \<and> apinfo1_ok h' \<and> nodes h' = nodes h
      \<and> r = (if calloc_pes m \<and> calloc_cmds m then Inr () else Inl ENOMEM)
      \<and> pes h' = (if calloc_pes m then pes_of (tasks t) else pes h)
      \<and> cmds h' = (if calloc_pes m \<and> calloc_cmds m
          then [\<lparr>cmd_npes = int (length (tasks t)), pes_per_node = max_ntasks ta t, cpus_per_pe = cpus\<rparr>]
          else cmds h)"
    using layout1.set_taskmap_ok [OF taskmap_lib_axioms h, of m t cpus]
    by (simp add: apinfo1_def op_set_taskmap1_def)
  show "impl_check (apinfo1 hl ia ta) h =
      check_sections (pes h) (int (length (pes h))) (nodes h) (int (length (nodes h)))"
    using layout1.check_op_ok [OF h] by (simp add: apinfo1_def op_check1_def)
  show "file_spec (impl_version (apinfo1 hl ia ta)) (cmds h) (pes h) (nodes h) (image1 h)"
    "unat (impl_get_size (apinfo1 hl ia ta) h) = length (image1 h)"
    using image1_spec [OF h] by (simp_all add: apinfo1_def PALS_APINFO_VERSION_1_def)
  show "impl_get_nnodes (apinfo1 hl ia ta) h = int (length (nodes h))
      \<and> impl_get_npes (apinfo1 hl ia ta) h = int (length (pes h))"
    using layout1.ok_arrays [OF h] by (simp add: apinfo1_def op_get_nnodes1_def op_get_npes1_def arrays_ok_def)
  show "write_result (image1 h) st (impl_write (apinfo1 hl ia ta) h st)"
    using op_write1_result [OF h] by (simp add: apinfo1_def)
  show "apinfo1_ok h' \<and> cmds h' = cmds h \<and> pes h' = pes h \<and> nodes h' = nodes h
      \<and> hr = (case hostlist_create hl of None \<Rightarrow> None | Some g \<Rightarrow> append_nodes hl g (nodes h))"
    if "impl_get_hostlist (apinfo1 hl ia ta) h = (h', hr)"
    using layout1.get_hostlist_ok [OF h] that by (simp add: apinfo1_def op_get_hostlist1_def)
  show "apinfo1_ok h' \<and> cmds h' = cmds h \<and> pes h' = pes h \<and> nodes h' = nodes h
      \<and> tr = (case taskmap_create ta of None \<Rightarrow> None | Some g \<Rightarrow> append_pes ta g (pes h))"
    if "impl_get_taskmap (apinfo1 hl ia ta) h = (h', tr)"
    using layout1.get_taskmap_ok [OF h] that by (simp add: apinfo1_def op_get_taskmap1_def)
qed

end
