(* ===== verification/Apinfo5.thy ===== *)
theory Apinfo5
  imports ApinfoSections
begin

text \<open>
  Version 5 of the application file, the default: \<^verbatim>\<open>src/common/libapinfo/apinfo5.h\<close> and \<^verbatim>\<open>apinfo5.c\<close>.
\<close>

section \<open>Structures\<close>

definition PALS_APINFO_VERSION_5 :: int where
  "PALS_APINFO_VERSION_5 = 5"

text \<open>The header goes on where the one of version 1 ends, without a count for the last two sections.\<close>

record pals_header5 = pals_header +
  status_offset :: size_t
  dist_size :: size_t
  dist_offset :: size_t

record comm_profile5 =
  svc_id :: int
  traffic_classes5 :: int
  profile_vnis :: "int list"
  nvnis :: byte
  comm_device_name :: "char list"

record pals_hsn_nic =
  hsn_nodeidx :: int
  hsn_address_type :: pals_address_type
  hsn_address :: "char list"
  numa_node :: int
  hsn_device_name :: "char list"

record pals_distance =
  num_nic_distances :: byte
  accelerator_distances :: byte

definition comm_bytes5 :: "comm_profile5 \<Rightarrow> byte list" where
  "comm_bytes5 c = int_bytes (svc_id c) @ int_bytes (traffic_classes5 c)
     @ concat (map short_bytes (profile_vnis c)) @ [nvnis c] @ char_bytes (comm_device_name c) @ padding 3"

definition nic_bytes5 :: "pals_hsn_nic \<Rightarrow> byte list" where
  "nic_bytes5 n = int_bytes (hsn_nodeidx n) @ int_bytes (address_type_int (hsn_address_type n))
     @ char_bytes (hsn_address n) @ short_bytes (numa_node n) @ char_bytes (hsn_device_name n)
     @ padding 6 @ padding 16"

definition distance_bytes :: "pals_distance \<Rightarrow> byte list" where
  "distance_bytes d = [num_nic_distances d, accelerator_distances d]"

definition header_bytes5 :: "pals_header5 \<Rightarrow> byte list" where
  "header_bytes5 h = header_bytes h @ size_bytes (status_offset h) @ size_bytes (dist_size h)
     @ size_bytes (dist_offset h)"

text \<open>\<^verbatim>\<open>struct apinfo5\<close>: the members that version 1 has not.\<close>

record ('h, 'comm, 'nic, 'hl, 't) sections5 = "('h, 'comm, 'nic, 'hl, 't) sections" +
  dist :: "pals_distance list"
  status :: "int list"
  ndist :: int
  nstatus :: int
  status_size :: size_t

type_synonym ('hl, 't) apinfo5 = "(pals_header5, comm_profile5, pals_hsn_nic, 'hl, 't) sections5"

text \<open>The sizes that \<^verbatim>\<open>sizeof\<close> gives for these structures.\<close>

lemma sizeof_structs5:
  "length (header_bytes5 h) = 160" "length (distance_bytes d) = 2"
  "length (profile_vnis c) = 4 \<Longrightarrow> length (comm_device_name c) = 16 \<Longrightarrow> length (comm_bytes5 c) = 36"
  "length (hsn_address n) = 64 \<Longrightarrow> length (hsn_device_name n) = 16 \<Longrightarrow> length (nic_bytes5 n) = 112"
  using length_concat_map [of "profile_vnis c" short_bytes 2]
  by (simp_all add: header_bytes5_def distance_bytes_def comm_bytes5_def nic_bytes5_def)

section \<open>Operations\<close>

definition set_offsets5 :: "('hl, 't) apinfo5 \<Rightarrow> ('hl, 't) apinfo5" where
  "set_offsets5 ap =
     (let (h, offset5) = section_offsets 160 (hdr ap);
          offset6 = offset5 + dist_size h * of_int (ndist ap);
          offset7 = offset6 + status_size ap * of_int (nstatus ap)
      in ap\<lparr>hdr := h\<lparr>dist_offset := if ndist ap > 0 then offset5 else 0,
           status_offset := if nstatus ap > 0 then offset6 else 0,
           total_size := offset7\<rparr>\<rparr>)"

definition set_sizes5 :: "('hl, 't) apinfo5 \<Rightarrow> ('hl, 't) apinfo5" where
  "set_sizes5 ap = ap\<lparr>hdr := (hdr ap)\<lparr>comm_profile_size := 36, cmd_size := 12, pe_size := 12,
     node_size := 68, nic_size := 112, dist_size := 2\<rparr>, status_size := 4\<rparr>"

definition op_write5 :: "('hl, 't) apinfo5 \<Rightarrow> stream \<Rightarrow> stream \<times> (errno + unit)" where
  "op_write5 ap = (let h = hdr ap in fwrite_all
     [(header_bytes5 h, 160, 1),
      (concat (map comm_bytes5 (comms ap)), unat (comm_profile_size h), unat (of_int (ncomm_profiles h) :: size_t)),
      (concat (map cmd_bytes (cmds ap)), unat (cmd_size h), unat (of_int (ncmds h) :: size_t)),
      (concat (map pe_bytes (pes ap)), unat (pe_size h), unat (of_int (npes h) :: size_t)),
      (concat (map node_bytes (nodes ap)), unat (node_size h), unat (of_int (nnodes h) :: size_t)),
      (concat (map nic_bytes5 (nics ap)), unat (nic_size h), unat (of_int (nnics h) :: size_t)),
      (concat (map distance_bytes (dist ap)), unat (dist_size h), unat (of_int (ndist ap) :: size_t)),
      (concat (map int_bytes (status ap)), unat (status_size ap), unat (of_int (nstatus ap) :: size_t))])"

definition set_cmd5 :: "('t, 'i) taskmap_api \<Rightarrow> calloc_env \<Rightarrow> ('hl, 't) apinfo5 \<Rightarrow> 't \<Rightarrow> int \<Rightarrow>
    ('hl, 't) apinfo5 \<times> (errno + unit)" where
  "set_cmd5 = set_cmd set_offsets5"

definition set_pes5 :: "'i idset_api \<Rightarrow> ('t, 'i) taskmap_api \<Rightarrow> calloc_env \<Rightarrow> ('hl, 't) apinfo5 \<Rightarrow> 't \<Rightarrow>
    (('hl, 't) apinfo5 \<times> (errno + unit)) option" where
  "set_pes5 = set_pes set_offsets5"

definition op_set_taskmap5 :: "'i idset_api \<Rightarrow> ('t, 'i) taskmap_api \<Rightarrow> calloc_env \<Rightarrow> ('hl, 't) apinfo5 \<Rightarrow> 't \<Rightarrow>
    int \<Rightarrow> (('hl, 't) apinfo5 \<times> (errno + unit)) option" where
  "op_set_taskmap5 = set_taskmap set_offsets5"

definition op_set_hostlist5 :: "'hl hostlist_api \<Rightarrow> calloc_env \<Rightarrow> ('hl, 't) apinfo5 \<Rightarrow> 'hl \<Rightarrow>
    ('hl, 't) apinfo5 \<times> (errno + unit)" where
  "op_set_hostlist5 = set_hostlist set_offsets5"

definition op_check5 :: "('hl, 't) apinfo5 \<Rightarrow> (string \<times> errno) + unit" where
  "op_check5 = check_op"

definition op_get_size5 :: "('hl, 't) apinfo5 \<Rightarrow> size_t" where
  "op_get_size5 ap = total_size (hdr ap)"

definition op_get_nnodes5 :: "('hl, 't) apinfo5 \<Rightarrow> int" where
  "op_get_nnodes5 ap = nnodes (hdr ap)"

definition op_get_npes5 :: "('hl, 't) apinfo5 \<Rightarrow> int" where
  "op_get_npes5 ap = npes (hdr ap)"

definition op_get_hostlist5 :: "'hl hostlist_api \<Rightarrow> ('hl, 't) apinfo5 \<Rightarrow> ('hl, 't) apinfo5 \<times> 'hl option" where
  "op_get_hostlist5 = get_hostlist"

definition op_get_taskmap5 :: "('t, 'i) taskmap_api \<Rightarrow> ('hl, 't) apinfo5 \<Rightarrow> ('hl, 't) apinfo5 \<times> 't option" where
  "op_get_taskmap5 = get_taskmap"

text \<open>\<^verbatim>\<open>calloc\<close> clears the structure.\<close>

definition zero_header5 :: pals_header5 where
  "zero_header5 = \<lparr>version = 0, total_size = 0, comm_profile_size = 0, comm_profile_offset = 0,
     ncomm_profiles = 0, cmd_size = 0, cmd_offset = 0, ncmds = 0, pe_size = 0, pe_offset = 0, npes = 0,
     node_size = 0, node_offset = 0, nnodes = 0, nic_size = 0, nic_offset = 0, nnics = 0,
     status_offset = 0, dist_size = 0, dist_offset = 0\<rparr>"

definition op_create5 :: "calloc_env \<Rightarrow> errno + ('hl, 't) apinfo5" where
  "op_create5 m =
     (if \<not> calloc_handle m then Inl ENOMEM
      else Inr (set_offsets5 (set_sizes5
        \<lparr>hdr = zero_header5\<lparr>version := PALS_APINFO_VERSION_5\<rparr>, comms = [], cmds = [], pes = [],
         nodes = [], nics = [], cached_hosts = None, cached_map = None,
         dist = [], status = [], ndist = 0, nstatus = 0, status_size = 0\<rparr>)))"

definition apinfo5 :: "'hl hostlist_api \<Rightarrow> 'i idset_api \<Rightarrow> ('t, 'i) taskmap_api \<Rightarrow>
    (('hl, 't) apinfo5, 'hl, 't) apinfo_impl" where
  "apinfo5 hl ia ta = \<lparr>impl_version = PALS_APINFO_VERSION_5, impl_create = op_create5,
     impl_write = op_write5, impl_set_taskmap = op_set_taskmap5 ia ta,
     impl_set_hostlist = op_set_hostlist5 hl, impl_check = op_check5, impl_get_size = op_get_size5,
     impl_get_nnodes = op_get_nnodes5, impl_get_npes = op_get_npes5,
     impl_get_hostlist = op_get_hostlist5 hl, impl_get_taskmap = op_get_taskmap5 ta\<rparr>"

section \<open>The invariant and the contract\<close>

definition apinfo5_ok :: "('hl, 't) apinfo5 \<Rightarrow> bool" where
  "apinfo5_ok ap \<longleftrightarrow> arrays_ok ap \<and> offsets_ok 160 ap \<and> version (hdr ap) = 5
     \<and> comm_profile_size (hdr ap) = 36 \<and> nic_size (hdr ap) = 112 \<and> dist_size (hdr ap) = 2
     \<and> status_size ap = 4 \<and> dist ap = [] \<and> status ap = [] \<and> ndist ap = 0 \<and> nstatus ap = 0"

lemma set_offsets5_ok:
  assumes "arrays_ok ap" and "version (hdr ap) = 5" and "comm_profile_size (hdr ap) = 36"
    and "nic_size (hdr ap) = 112" and "dist_size (hdr ap) = 2" and "status_size ap = 4"
    and "dist ap = []" and "status ap = []" and "ndist ap = 0" and "nstatus ap = 0"
  shows "apinfo5_ok (set_offsets5 ap)"
proof -
  note S = section_offsets_values [OF assms(1), of 160]
  show ?thesis
    using assms S by (simp add: set_offsets5_def apinfo5_ok_def offsets_ok_def arrays_ok_def Let_def)
qed

interpretation layout5: section_layout set_offsets5 apinfo5_ok
proof
  fix ap :: "('a, 'b) apinfo5" and h m cs ps ns
  show "apinfo5_ok ap \<Longrightarrow> arrays_ok ap" by (simp add: apinfo5_ok_def)
  show "cmds (set_offsets5 ap) = cmds ap" "pes (set_offsets5 ap) = pes ap" "nodes (set_offsets5 ap) = nodes ap"
    by (simp_all add: set_offsets5_def Let_def split: prod.split)
  show "apinfo5_ok (set_offsets5 (ap\<lparr>cmds := cs, hdr := (hdr ap)\<lparr>ncmds := 1\<rparr>\<rparr>))"
    if "apinfo5_ok ap" "length cs = 1"
    by (rule set_offsets5_ok) (use that in \<open>simp_all add: apinfo5_ok_def arrays_ok_def\<close>)
  show "apinfo5_ok (set_offsets5 (ap\<lparr>pes := ps, hdr := (hdr ap)\<lparr>npes := int (length ps)\<rparr>\<rparr>))"
    if "apinfo5_ok ap" "int (length ps) < 2 ^ 31"
    by (rule set_offsets5_ok) (use that in \<open>simp_all add: apinfo5_ok_def arrays_ok_def\<close>)
  show "apinfo5_ok (set_offsets5 (ap\<lparr>nodes := ns, hdr := (hdr ap)\<lparr>nnodes := int (length ns)\<rparr>\<rparr>))"
    if "apinfo5_ok ap" "int (length ns) < 2 ^ 31" "\<forall>n \<in> set ns. length (hostname n) = 64"
    by (rule set_offsets5_ok) (use that in \<open>simp_all add: apinfo5_ok_def arrays_ok_def\<close>)
  show "apinfo5_ok (ap\<lparr>cached_hosts := h\<rparr>) = apinfo5_ok ap" "apinfo5_ok (ap\<lparr>cached_map := m\<rparr>) = apinfo5_ok ap"
    by (simp_all add: apinfo5_ok_def arrays_ok_def offsets_ok_def)
qed

definition image5 :: "('hl, 't) apinfo5 \<Rightarrow> byte list" where
  "image5 ap = file_image (header_bytes5 (hdr ap)) (cmds ap) (pes ap) (nodes ap)"

lemma op_write5_result:
  assumes "apinfo5_ok ap"
  shows "write_result (image5 ap) st (op_write5 ap st)"
proof -
  have A: "arrays_ok ap" and S: "comm_profile_size (hdr ap) = 36" "nic_size (hdr ap) = 112"
      "dist_size (hdr ap) = 2" "status_size ap = 4" "dist ap = []" "status ap = []" "ndist ap = 0" "nstatus ap = 0"
    using assms by (simp_all add: apinfo5_ok_def)
  note A = A [unfolded arrays_ok_def]
  have u: "unat (of_int (int (length (pes ap))) :: size_t) = length (pes ap)"
    "unat (of_int (int (length (nodes ap))) :: size_t) = length (nodes ap)"
    using A by (simp_all add: unsigned_of_nat take_bit_nat_eq_self)
  have c: "unat (of_int (int (length (cmds ap))) :: size_t) = length (cmds ap)"
    using A by (simp add: unsigned_of_nat take_bit_nat_eq_self)
  let ?ws = "[(header_bytes5 (hdr ap), 160 :: nat, 1 :: nat), ([], 36, 0),
      (concat (map cmd_bytes (cmds ap)), 12, length (cmds ap)),
      (concat (map pe_bytes (pes ap)), 12, length (pes ap)),
      (concat (map node_bytes (nodes ap)), 68, length (nodes ap)), ([], 112, 0), ([], 2, 0), ([], 4, 0)]"
  have "op_write5 ap st = fwrite_all ?ws st"
    using A S u c by (simp add: op_write5_def)
  moreover have "concat (map fst ?ws) = image5 ap"
    by (simp add: image5_def file_image_def)
  moreover have "\<forall>s \<in> set ?ws. section_ok s"
    using A by (auto simp: section_ok_def length_concat_map header_bytes5_def)
  ultimately show ?thesis using fwrite_all_write_result [of ?ws st] by simp
qed

lemma image5_spec:
  assumes "apinfo5_ok ap"
  shows "file_spec 5 (cmds ap) (pes ap) (nodes ap) (image5 ap)
    \<and> unat (op_get_size5 ap) = length (image5 ap)"
proof -
  have A: "arrays_ok ap" "offsets_ok 160 ap" "version (hdr ap) = 5"
    using assms by (simp_all add: apinfo5_ok_def)
  let ?ext = "size_bytes (status_offset (hdr ap)) @ size_bytes (dist_size (hdr ap)) @ size_bytes (dist_offset (hdr ap))"
  have F: "file_spec 5 (cmds ap) (pes ap) (nodes ap) (image5 ap)"
    using file_image_spec [OF A(1,2), of ?ext] A(3) by (simp add: image5_def header_bytes5_def)
  have "image5 ap = header_bytes (hdr ap) @ (?ext @ concat (map cmd_bytes (cmds ap)) @ concat (map pe_bytes (pes ap))
      @ concat (map node_bytes (nodes ap)))"
    by (simp add: image5_def file_image_def header_bytes5_def)
  then have "read_size (bytes_at 8 8 (image5 ap)) = unat (op_get_size5 ap)"
    by (simp only: header_fields read_size_bytes op_get_size5_def)
  with F show ?thesis by (simp add: file_spec_def)
qed

lemma op_create5_ok:
  assumes "op_create5 m = Inr ap"
  shows "apinfo5_ok ap \<and> cmds ap = [] \<and> pes ap = [] \<and> nodes ap = []"
proof -
  let ?ap0 = "set_sizes5 \<lparr>hdr = zero_header5\<lparr>version := PALS_APINFO_VERSION_5\<rparr>, comms = [], cmds = [],
    pes = [], nodes = [], nics = [], cached_hosts = None, cached_map = None,
         dist = [], status = [], ndist = 0, nstatus = 0, status_size = 0\<rparr>"
  have "ap = set_offsets5 ?ap0"
    using assms by (simp add: op_create5_def split: if_splits)
  moreover have "apinfo5_ok (set_offsets5 ?ap0)"
    by (rule set_offsets5_ok)
      (simp_all add: arrays_ok_def set_sizes5_def zero_header5_def PALS_APINFO_VERSION_5_def)
  ultimately show ?thesis by (simp add: layout5.offsets_arrays) (simp add: set_sizes5_def)
qed

sublocale apinfo_libs \<subseteq> v5: apinfo_backend ia elems ta tasks hl "apinfo5 hl ia ta" apinfo5_ok cmds pes nodes image5
proof
  fix m hs r t cpus st hr tr and h0 h h' :: "('hl, 't) apinfo5"
  show "impl_create (apinfo5 hl ia ta) m = Inr h0 \<Longrightarrow>
      apinfo5_ok h0 \<and> cmds h0 = [] \<and> pes h0 = [] \<and> nodes h0 = []"
    by (rule op_create5_ok) (simp add: apinfo5_def)
  show "is_ok (impl_create (apinfo5 hl ia ta) m) = calloc_handle m"
    by (simp add: apinfo5_def op_create5_def)
  assume h: "apinfo5_ok h"
  show "apinfo5_ok h' \<and> cmds h' = cmds h \<and> pes h' = pes h
      \<and> nodes h' = (if calloc_nodes m then fill_nodes hl hs (hostlist_count hl hs) else nodes h)
      \<and> r = (if calloc_nodes m then Inr () else Inl ENOMEM)"
    if "int (hostlist_count hl hs) < 2 ^ 31" "impl_set_hostlist (apinfo5 hl ia ta) m h hs = (h', r)"
    by (rule layout5.set_hostlist_ok [OF h that(1)]) (use that(2) in \<open>simp add: apinfo5_def op_set_hostlist5_def\<close>)
  show "\<exists>h' r. impl_set_taskmap (apinfo5 hl ia ta) m h t cpus = Some (h', r) \<and> apinfo5_ok h' \<and> nodes h' = nodes h
      \<and> r = (if calloc_pes m \<and> calloc_cmds m then Inr () else Inl ENOMEM)
      \<and> pes h' = (if calloc_pes m then pes_of (tasks t) else pes h)
      \<and> cmds h' = (if calloc_pes m \<and> calloc_cmds m
          then [\<lparr>cmd_npes = int (length (tasks t)), pes_per_node = max_ntasks ta t, cpus_per_pe = cpus\<rparr>]
          else cmds h)"
    using layout5.set_taskmap_ok [OF taskmap_lib_axioms h, of m t cpus]
    by (simp add: apinfo5_def op_set_taskmap5_def)
  show "impl_check (apinfo5 hl ia ta) h =
      check_sections (pes h) (int (length (pes h))) (nodes h) (int (length (nodes h)))"
    using layout5.check_op_ok [OF h] by (simp add: apinfo5_def op_check5_def)
  show "file_spec (impl_version (apinfo5 hl ia ta)) (cmds h) (pes h) (nodes h) (image5 h)"
    "unat (impl_get_size (apinfo5 hl ia ta) h) = length (image5 h)"
    using image5_spec [OF h] by (simp_all add: apinfo5_def PALS_APINFO_VERSION_5_def)
  show "impl_get_nnodes (apinfo5 hl ia ta) h = int (length (nodes h))
      \<and> impl_get_npes (apinfo5 hl ia ta) h = int (length (pes h))"
    using layout5.ok_arrays [OF h] by (simp add: apinfo5_def op_get_nnodes5_def op_get_npes5_def arrays_ok_def)
  show "write_result (image5 h) st (impl_write (apinfo5 hl ia ta) h st)"
    using op_write5_result [OF h] by (simp add: apinfo5_def)
  show "apinfo5_ok h' \<and> cmds h' = cmds h \<and> pes h' = pes h \<and> nodes h' = nodes h
      \<and> hr = (case hostlist_create hl of None \<Rightarrow> None | Some g \<Rightarrow> append_nodes hl g (nodes h))"
    if "impl_get_hostlist (apinfo5 hl ia ta) h = (h', hr)"
    using layout5.get_hostlist_ok [OF h] that by (simp add: apinfo5_def op_get_hostlist5_def)
  show "apinfo5_ok h' \<and> cmds h' = cmds h \<and> pes h' = pes h \<and> nodes h' = nodes h
      \<and> tr = (case taskmap_create ta of None \<Rightarrow> None | Some g \<Rightarrow> append_pes ta g (pes h))"
    if "impl_get_taskmap (apinfo5 hl ia ta) h = (h', tr)"
    using layout5.get_taskmap_ok [OF h] that by (simp add: apinfo5_def op_get_taskmap5_def)
qed

end
