(* ===== verification/Apinfo.thy ===== *)
theory Apinfo
  imports Apinfo1 Apinfo5
begin

text \<open>
  The front end of the library, \<^verbatim>\<open>src/common/libapinfo/apinfo.c\<close>: an object is created for a
  version and every call is passed on to that version's table of operations. A \<^verbatim>\<open>NULL\<close> object is
  \<open>None\<close>.
\<close>

section \<open>The dispatcher\<close>

text \<open>
  The entries of \<^verbatim>\<open>itab\<close>, and \<^verbatim>\<open>struct apinfo\<close>: the constructor is the \<^verbatim>\<open>impl\<close> pointer, its
  argument the \<^verbatim>\<open>handle\<close>.
\<close>

datatype impl_tag = Impl1 | Impl5

datatype ('hl, 't) apinfo = ApinfoV1 "('hl, 't) apinfo1" | ApinfoV5 "('hl, 't) apinfo5"

definition itab :: "impl_tag list" where
  "itab = [Impl1, Impl5]"

definition tag_version :: "impl_tag \<Rightarrow> int" where
  "tag_version i = (case i of Impl1 \<Rightarrow> PALS_APINFO_VERSION_1 | Impl5 \<Rightarrow> PALS_APINFO_VERSION_5)"

definition lookup_impl :: "int \<Rightarrow> errno + impl_tag" where
  "lookup_impl ver = (case find (\<lambda>i. tag_version i = ver) itab of None \<Rightarrow> Inl ENOENT | Some i \<Rightarrow> Inr i)"

text \<open>The libraries that the tables of operations are built on.\<close>

record ('hl, 't, 'i) apinfo_env =
  env_hosts :: "'hl hostlist_api"
  env_idsets :: "'i idset_api"
  env_tasks :: "('t, 'i) taskmap_api"

abbreviation impl1 :: "('hl, 't, 'i) apinfo_env \<Rightarrow> (('hl, 't) apinfo1, 'hl, 't) apinfo_impl" where
  "impl1 E \<equiv> apinfo1 (env_hosts E) (env_idsets E) (env_tasks E)"

abbreviation impl5 :: "('hl, 't, 'i) apinfo_env \<Rightarrow> (('hl, 't) apinfo5, 'hl, 't) apinfo_impl" where
  "impl5 E \<equiv> apinfo5 (env_hosts E) (env_idsets E) (env_tasks E)"

text \<open>\<open>mem\<close> says whether the object itself can be allocated.\<close>

definition apinfo_create :: "('hl, 't, 'i) apinfo_env \<Rightarrow> bool \<Rightarrow> calloc_env \<Rightarrow> int \<Rightarrow> errno + ('hl, 't) apinfo" where
  "apinfo_create E mem m ver =
     (if \<not> mem then Inl ENOMEM
      else case lookup_impl ver of
        Inl e \<Rightarrow> Inl e
      | Inr Impl1 \<Rightarrow> map_sum id ApinfoV1 (impl_create (impl1 E) m)
      | Inr Impl5 \<Rightarrow> map_sum id ApinfoV5 (impl_create (impl5 E) m))"

definition apinfo_write ::
  "('hl, 't, 'i) apinfo_env \<Rightarrow> ('hl, 't) apinfo option \<Rightarrow> stream option \<Rightarrow> stream option \<times> (errno + unit)" where
  "apinfo_write E ap stream = (case (ap, stream) of
       (Some (ApinfoV1 h), Some st) \<Rightarrow> map_prod Some id (impl_write (impl1 E) h st)
     | (Some (ApinfoV5 h), Some st) \<Rightarrow> map_prod Some id (impl_write (impl5 E) h st)
     | _ \<Rightarrow> (stream, Inl EINVAL))"

text \<open>
  The file system for one \<^verbatim>\<open>apinfo_put\<close>: how much a file may hold, or that it cannot be opened, and
  whether closing it succeeds. The result has the contents of the file, when it was opened.
\<close>

record put_env =
  open_room :: "errno + nat"
  close_ok :: bool

definition apinfo_put ::
  "('hl, 't, 'i) apinfo_env \<Rightarrow> put_env \<Rightarrow> ('hl, 't) apinfo option \<Rightarrow> string option \<Rightarrow>
    byte list option \<times> (errno + unit)" where
  "apinfo_put E fs ap path = (case (ap, path) of
       (Some a, Some p) \<Rightarrow>
         (case open_room fs of
            Inl e \<Rightarrow> (None, Inl e)
          | Inr n \<Rightarrow> (case apinfo_write E (Some a) (Some \<lparr>written = [], room = n\<rparr>) of
              (st, Inl e) \<Rightarrow> (map_option written st, Inl e)
            | (st, Inr _) \<Rightarrow> (map_option written st, if close_ok fs then Inr () else Inl EOTHER)))
     | _ \<Rightarrow> (None, Inl EINVAL))"

definition apinfo_set_hostlist ::
  "('hl, 't, 'i) apinfo_env \<Rightarrow> calloc_env \<Rightarrow> ('hl, 't) apinfo option \<Rightarrow> 'hl option \<Rightarrow>
    ('hl, 't) apinfo option \<times> (errno + unit)" where
  "apinfo_set_hostlist E m ap hs = (case (ap, hs) of
       (Some (ApinfoV1 h), Some l) \<Rightarrow> map_prod (Some \<circ> ApinfoV1) id (impl_set_hostlist (impl1 E) m h l)
     | (Some (ApinfoV5 h), Some l) \<Rightarrow> map_prod (Some \<circ> ApinfoV5) id (impl_set_hostlist (impl5 E) m h l)
     | _ \<Rightarrow> (ap, Inl EINVAL))"

definition apinfo_set_taskmap ::
  "('hl, 't, 'i) apinfo_env \<Rightarrow> calloc_env \<Rightarrow> ('hl, 't) apinfo option \<Rightarrow> 't option \<Rightarrow> int \<Rightarrow>
    (('hl, 't) apinfo option \<times> (errno + unit)) option" where
  "apinfo_set_taskmap E m ap tm cpus = (case (ap, tm) of
       (Some (ApinfoV1 h), Some t) \<Rightarrow>
         map_option (map_prod (Some \<circ> ApinfoV1) id) (impl_set_taskmap (impl1 E) m h t cpus)
     | (Some (ApinfoV5 h), Some t) \<Rightarrow>
         map_option (map_prod (Some \<circ> ApinfoV5) id) (impl_set_taskmap (impl5 E) m h t cpus)
     | _ \<Rightarrow> Some (ap, Inl EINVAL))"

definition apinfo_check :: "('hl, 't, 'i) apinfo_env \<Rightarrow> ('hl, 't) apinfo option \<Rightarrow> (string \<times> errno) + unit" where
  "apinfo_check E ap = (case ap of
       None \<Rightarrow> Inl (error_msg ''invalid argument'', EINVAL)
     | Some (ApinfoV1 h) \<Rightarrow> impl_check (impl1 E) h
     | Some (ApinfoV5 h) \<Rightarrow> impl_check (impl5 E) h)"

definition apinfo_get_size :: "('hl, 't, 'i) apinfo_env \<Rightarrow> ('hl, 't) apinfo option \<Rightarrow> size_t" where
  "apinfo_get_size E ap = (case ap of
       None \<Rightarrow> 0 | Some (ApinfoV1 h) \<Rightarrow> impl_get_size (impl1 E) h | Some (ApinfoV5 h) \<Rightarrow> impl_get_size (impl5 E) h)"

definition apinfo_get_nnodes :: "('hl, 't, 'i) apinfo_env \<Rightarrow> ('hl, 't) apinfo option \<Rightarrow> int" where
  "apinfo_get_nnodes E ap = (case ap of
       None \<Rightarrow> 0 | Some (ApinfoV1 h) \<Rightarrow> impl_get_nnodes (impl1 E) h | Some (ApinfoV5 h) \<Rightarrow> impl_get_nnodes (impl5 E) h)"

definition apinfo_get_npes :: "('hl, 't, 'i) apinfo_env \<Rightarrow> ('hl, 't) apinfo option \<Rightarrow> int" where
  "apinfo_get_npes E ap = (case ap of
       None \<Rightarrow> 0 | Some (ApinfoV1 h) \<Rightarrow> impl_get_npes (impl1 E) h | Some (ApinfoV5 h) \<Rightarrow> impl_get_npes (impl5 E) h)"

text \<open>
  A getter that fails sets \<^verbatim>\<open>errno\<close>; when the version's operation fails it is the library below it
  that has set it, to a value that is not known here.
\<close>

definition of_pointer :: "'a option \<Rightarrow> errno + 'a" where
  "of_pointer r = (case r of None \<Rightarrow> Inl EOTHER | Some x \<Rightarrow> Inr x)"

definition pointer :: "errno + 'a \<Rightarrow> 'a option" where
  "pointer r = (case r of Inl _ \<Rightarrow> None | Inr x \<Rightarrow> Some x)"

definition apinfo_get_hostlist ::
  "('hl, 't, 'i) apinfo_env \<Rightarrow> ('hl, 't) apinfo option \<Rightarrow> ('hl, 't) apinfo option \<times> (errno + 'hl)" where
  "apinfo_get_hostlist E ap = (case ap of
       None \<Rightarrow> (None, Inl EINVAL)
     | Some (ApinfoV1 h) \<Rightarrow> map_prod (Some \<circ> ApinfoV1) of_pointer (impl_get_hostlist (impl1 E) h)
     | Some (ApinfoV5 h) \<Rightarrow> map_prod (Some \<circ> ApinfoV5) of_pointer (impl_get_hostlist (impl5 E) h))"

definition apinfo_get_taskmap ::
  "('hl, 't, 'i) apinfo_env \<Rightarrow> ('hl, 't) apinfo option \<Rightarrow> ('hl, 't) apinfo option \<times> (errno + 't)" where
  "apinfo_get_taskmap E ap = (case ap of
       None \<Rightarrow> (None, Inl EINVAL)
     | Some (ApinfoV1 h) \<Rightarrow> map_prod (Some \<circ> ApinfoV1) of_pointer (impl_get_taskmap (impl1 E) h)
     | Some (ApinfoV5 h) \<Rightarrow> map_prod (Some \<circ> ApinfoV5) of_pointer (impl_get_taskmap (impl5 E) h))"

text \<open>
  What destroying an object releases, in order: the blocks of its version, then the object itself.
  \<open>None\<close> would be the dereference of a null pointer.
\<close>

datatype block = MapBlock | HostsBlock | CommsBlock | CmdsBlock | PesBlock | NodesBlock | NicsBlock
  | StatusBlock | HandleBlock | ObjectBlock

definition op_destroy1 :: "('hl, 't) apinfo1 option \<Rightarrow> block list" where
  "op_destroy1 ap = (case ap of
       None \<Rightarrow> []
     | Some h \<Rightarrow> (if cached_map h = None then [] else [MapBlock]) @ (if cached_hosts h = None then [] else [HostsBlock])
         @ [CommsBlock, CmdsBlock, PesBlock, NodesBlock, NicsBlock, HandleBlock])"

definition op_destroy5 :: "('hl, 't) apinfo5 option \<Rightarrow> block list" where
  "op_destroy5 ap = (case ap of
       None \<Rightarrow> []
     | Some h \<Rightarrow> (if cached_map h = None then [] else [MapBlock]) @ (if cached_hosts h = None then [] else [HostsBlock])
         @ [CommsBlock, CmdsBlock, PesBlock, NodesBlock, NicsBlock, StatusBlock, HandleBlock])"

definition apinfo_destroy :: "('hl, 't) apinfo option \<Rightarrow> block list option" where
  "apinfo_destroy ap = (case ap of
       None \<Rightarrow> Some []
     | Some (ApinfoV1 h) \<Rightarrow> Some (op_destroy1 (Some h) @ [ObjectBlock])
     | Some (ApinfoV5 h) \<Rightarrow> Some (op_destroy5 (Some h) @ [ObjectBlock]))"

lemma pointer_of_pointer [simp]: "pointer (of_pointer r) = r" "of_pointer r = Inr x \<longleftrightarrow> r = Some x"
  by (simp_all add: pointer_def of_pointer_def split: option.split)

lemma pointer_comp [simp]: "pointer \<circ> of_pointer = id"
  by (simp add: fun_eq_iff)

section \<open>The contract of a version, seen through the dispatcher\<close>

text \<open>The table of operations that the dispatcher amounts to for the objects of one version.\<close>

definition front :: "('hl, 't, 'i) apinfo_env \<Rightarrow> int \<Rightarrow> (('hl, 't) apinfo, 'hl, 't) apinfo_impl" where
  "front E ver = \<lparr>impl_version = ver,
     impl_create = (\<lambda>m. apinfo_create E True m ver),
     impl_write = (\<lambda>a st. map_prod the id (apinfo_write E (Some a) (Some st))),
     impl_set_taskmap = (\<lambda>m a t cpus. map_option (map_prod the id) (apinfo_set_taskmap E m (Some a) (Some t) cpus)),
     impl_set_hostlist = (\<lambda>m a hs. map_prod the id (apinfo_set_hostlist E m (Some a) (Some hs))),
     impl_check = (\<lambda>a. apinfo_check E (Some a)),
     impl_get_size = (\<lambda>a. apinfo_get_size E (Some a)),
     impl_get_nnodes = (\<lambda>a. apinfo_get_nnodes E (Some a)),
     impl_get_npes = (\<lambda>a. apinfo_get_npes E (Some a)),
     impl_get_hostlist = (\<lambda>a. map_prod the pointer (apinfo_get_hostlist E (Some a))),
     impl_get_taskmap = (\<lambda>a. map_prod the pointer (apinfo_get_taskmap E (Some a)))\<rparr>"

definition ap_ok :: "int \<Rightarrow> ('hl, 't) apinfo \<Rightarrow> bool" where
  "ap_ok ver a = (case a of ApinfoV1 h \<Rightarrow> ver = 1 \<and> apinfo1_ok h | ApinfoV5 h \<Rightarrow> ver = 5 \<and> apinfo5_ok h)"

definition ap_cmds :: "('hl, 't) apinfo \<Rightarrow> pals_cmd list" where
  "ap_cmds a = (case a of ApinfoV1 h \<Rightarrow> cmds h | ApinfoV5 h \<Rightarrow> cmds h)"

definition ap_pes :: "('hl, 't) apinfo \<Rightarrow> pals_pe list" where
  "ap_pes a = (case a of ApinfoV1 h \<Rightarrow> pes h | ApinfoV5 h \<Rightarrow> pes h)"

definition ap_nodes :: "('hl, 't) apinfo \<Rightarrow> pals_node list" where
  "ap_nodes a = (case a of ApinfoV1 h \<Rightarrow> nodes h | ApinfoV5 h \<Rightarrow> nodes h)"

definition ap_image :: "('hl, 't) apinfo \<Rightarrow> byte list" where
  "ap_image a = (case a of ApinfoV1 h \<Rightarrow> image1 h | ApinfoV5 h \<Rightarrow> image5 h)"

lemmas ap_defs = ap_ok_def ap_cmds_def ap_pes_def ap_nodes_def ap_image_def

lemmas front_defs = front_def apinfo_write_def apinfo_set_taskmap_def apinfo_set_hostlist_def
  apinfo_check_def apinfo_get_size_def apinfo_get_nnodes_def apinfo_get_npes_def
  apinfo_get_hostlist_def apinfo_get_taskmap_def

lemma lookup_impl_simps [simp]:
  "lookup_impl 1 = Inr Impl1" "lookup_impl 5 = Inr Impl5"
  "ver \<noteq> 1 \<Longrightarrow> ver \<noteq> 5 \<Longrightarrow> lookup_impl ver = Inl ENOENT"
  by (simp_all add: lookup_impl_def itab_def tag_version_def PALS_APINFO_VERSION_1_def PALS_APINFO_VERSION_5_def)

lemma front_create:
  "impl_create (front E ver) m = (if ver = 1 then map_sum id ApinfoV1 (impl_create (impl1 E) m)
     else if ver = 5 then map_sum id ApinfoV5 (impl_create (impl5 E) m) else Inl ENOENT)"
  by (simp add: front_def apinfo_create_def)

lemma map_sum_Inr: "map_sum id f s = Inr y \<longleftrightarrow> (\<exists>x. s = Inr x \<and> y = f x)"
  by (cases s) auto

lemma is_ok_map_sum: "is_ok (map_sum id f s) = is_ok s"
  by (cases s) simp_all

text \<open>One law at a time, by the version of the object.\<close>

context apinfo_libs
begin

abbreviation env :: "('hl, 't, 'i) apinfo_env" where
  "env \<equiv> \<lparr>env_hosts = hl, env_idsets = ia, env_tasks = ta\<rparr>"

lemma front_taskmap:
  assumes "ap_ok ver h"
  shows "\<exists>h' r. impl_set_taskmap (front env ver) m h t cpus = Some (h', r) \<and> ap_ok ver h' \<and> ap_nodes h' = ap_nodes h
      \<and> r = (if calloc_pes m \<and> calloc_cmds m then Inr () else Inl ENOMEM)
      \<and> ap_pes h' = (if calloc_pes m then pes_of (tasks t) else ap_pes h)
      \<and> ap_cmds h' = (if calloc_pes m \<and> calloc_cmds m
          then [\<lparr>cmd_npes = int (length (tasks t)), pes_per_node = max_ntasks ta t, cpus_per_pe = cpus\<rparr>]
          else ap_cmds h)"
proof (cases h)
  case (ApinfoV1 g)
  with assms have g: "ver = 1" "apinfo1_ok g" by (simp_all add: ap_ok_def)
  obtain g' r where G: "impl_set_taskmap (apinfo1 hl ia ta) m g t cpus = Some (g', r)" "apinfo1_ok g'"
    "nodes g' = nodes g" "r = (if calloc_pes m \<and> calloc_cmds m then Inr () else Inl ENOMEM)"
    "pes g' = (if calloc_pes m then pes_of (tasks t) else pes g)"
    "cmds g' = (if calloc_pes m \<and> calloc_cmds m
          then [\<lparr>cmd_npes = int (length (tasks t)), pes_per_node = max_ntasks ta t, cpus_per_pe = cpus\<rparr>]
          else cmds g)"
    using v1.taskmap_ok [OF g(2), of m t cpus] by (elim exE conjE)
  show ?thesis
    by (rule exI [of _ "ApinfoV1 g'"], rule exI [of _ r])
      (use G g in \<open>simp add: front_defs ap_defs ApinfoV1\<close>)
next
  case (ApinfoV5 g)
  with assms have g: "ver = 5" "apinfo5_ok g" by (simp_all add: ap_ok_def)
  obtain g' r where G: "impl_set_taskmap (apinfo5 hl ia ta) m g t cpus = Some (g', r)" "apinfo5_ok g'"
    "nodes g' = nodes g" "r = (if calloc_pes m \<and> calloc_cmds m then Inr () else Inl ENOMEM)"
    "pes g' = (if calloc_pes m then pes_of (tasks t) else pes g)"
    "cmds g' = (if calloc_pes m \<and> calloc_cmds m
          then [\<lparr>cmd_npes = int (length (tasks t)), pes_per_node = max_ntasks ta t, cpus_per_pe = cpus\<rparr>]
          else cmds g)"
    using v5.taskmap_ok [OF g(2), of m t cpus] by (elim exE conjE)
  show ?thesis
    by (rule exI [of _ "ApinfoV5 g'"], rule exI [of _ r])
      (use G g in \<open>simp add: front_defs ap_defs ApinfoV5\<close>)
qed

lemma front_hostlist:
  assumes "ap_ok ver h" and "int (hostlist_count hl hs) < 2 ^ 31"
    and "impl_set_hostlist (front env ver) m h hs = (h', r)"
  shows "ap_ok ver h' \<and> ap_cmds h' = ap_cmds h \<and> ap_pes h' = ap_pes h
      \<and> ap_nodes h' = (if calloc_nodes m then fill_nodes hl hs (hostlist_count hl hs) else ap_nodes h)
      \<and> r = (if calloc_nodes m then Inr () else Inl ENOMEM)"
proof (cases h)
  case (ApinfoV1 g)
  with assms have g: "ver = 1" "apinfo1_ok g" by (simp_all add: ap_ok_def)
  obtain g' r' where G: "impl_set_hostlist (apinfo1 hl ia ta) m g hs = (g', r')"
    by (cases "impl_set_hostlist (apinfo1 hl ia ta) m g hs")
  with assms(3) ApinfoV1 have "h' = ApinfoV1 g'" "r = r'" by (simp_all add: front_defs)
  with v1.hostlist_ok [OF g(2) assms(2) G] g show ?thesis by (simp add: ap_defs ApinfoV1)
next
  case (ApinfoV5 g)
  with assms have g: "ver = 5" "apinfo5_ok g" by (simp_all add: ap_ok_def)
  obtain g' r' where G: "impl_set_hostlist (apinfo5 hl ia ta) m g hs = (g', r')"
    by (cases "impl_set_hostlist (apinfo5 hl ia ta) m g hs")
  with assms(3) ApinfoV5 have "h' = ApinfoV5 g'" "r = r'" by (simp_all add: front_defs)
  with v5.hostlist_ok [OF g(2) assms(2) G] g show ?thesis by (simp add: ap_defs ApinfoV5)
qed

lemma front_reads:
  assumes "ap_ok ver h"
  shows "impl_check (front env ver) h =
      check_sections (ap_pes h) (int (length (ap_pes h))) (ap_nodes h) (int (length (ap_nodes h)))"
    and "file_spec (impl_version (front env ver)) (ap_cmds h) (ap_pes h) (ap_nodes h) (ap_image h)"
    and "unat (impl_get_size (front env ver) h) = length (ap_image h)"
    and "impl_get_nnodes (front env ver) h = int (length (ap_nodes h))
      \<and> impl_get_npes (front env ver) h = int (length (ap_pes h))"
proof -
  have v: "impl_version (apinfo1 hl ia ta) = 1" "impl_version (apinfo5 hl ia ta) = 5"
    by (simp_all add: apinfo1_def apinfo5_def PALS_APINFO_VERSION_1_def PALS_APINFO_VERSION_5_def)
  show "impl_check (front env ver) h =
      check_sections (ap_pes h) (int (length (ap_pes h))) (ap_nodes h) (int (length (ap_nodes h)))"
    "file_spec (impl_version (front env ver)) (ap_cmds h) (ap_pes h) (ap_nodes h) (ap_image h)"
    "unat (impl_get_size (front env ver) h) = length (ap_image h)"
    "impl_get_nnodes (front env ver) h = int (length (ap_nodes h))
      \<and> impl_get_npes (front env ver) h = int (length (ap_pes h))"
    using assms v v1.check_ok v5.check_ok v1.image_spec v5.image_spec v1.size_ok v5.size_ok
      v1.counts_ok v5.counts_ok
    by (cases h; simp add: front_defs ap_defs)+
qed

lemma front_write:
  assumes "ap_ok ver h"
  shows "write_result (ap_image h) st (impl_write (front env ver) h st)"
  using assms v1.write_ok [of _ st] v5.write_ok [of _ st]
  by (cases h) (simp_all add: front_defs ap_defs prod.map_comp comp_def prod.map_id)

lemma front_get_hostlist:
  assumes "ap_ok ver h" and "impl_get_hostlist (front env ver) h = (h', hr)"
  shows "ap_ok ver h' \<and> ap_cmds h' = ap_cmds h \<and> ap_pes h' = ap_pes h \<and> ap_nodes h' = ap_nodes h
      \<and> hr = (case hostlist_create hl of None \<Rightarrow> None | Some g \<Rightarrow> append_nodes hl g (ap_nodes h))"
proof (cases h)
  case (ApinfoV1 g)
  obtain g' r' where G: "impl_get_hostlist (apinfo1 hl ia ta) g = (g', r')"
    by (cases "impl_get_hostlist (apinfo1 hl ia ta) g")
  with assms ApinfoV1 have "h' = ApinfoV1 g'" "hr = r'" by (simp_all add: front_defs)
  with v1.get_hostlist_law [OF _ G] assms(1) ApinfoV1 show ?thesis
    by (simp add: ap_defs cong: option.case_cong)
next
  case (ApinfoV5 g)
  obtain g' r' where G: "impl_get_hostlist (apinfo5 hl ia ta) g = (g', r')"
    by (cases "impl_get_hostlist (apinfo5 hl ia ta) g")
  with assms ApinfoV5 have "h' = ApinfoV5 g'" "hr = r'" by (simp_all add: front_defs)
  with v5.get_hostlist_law [OF _ G] assms(1) ApinfoV5 show ?thesis
    by (simp add: ap_defs cong: option.case_cong)
qed

lemma front_get_taskmap:
  assumes "ap_ok ver h" and "impl_get_taskmap (front env ver) h = (h', tr)"
  shows "ap_ok ver h' \<and> ap_cmds h' = ap_cmds h \<and> ap_pes h' = ap_pes h \<and> ap_nodes h' = ap_nodes h
      \<and> tr = (case taskmap_create ta of None \<Rightarrow> None | Some g \<Rightarrow> append_pes ta g (ap_pes h))"
proof (cases h)
  case (ApinfoV1 g)
  obtain g' r' where G: "impl_get_taskmap (apinfo1 hl ia ta) g = (g', r')"
    by (cases "impl_get_taskmap (apinfo1 hl ia ta) g")
  with assms ApinfoV1 have "h' = ApinfoV1 g'" "tr = r'" by (simp_all add: front_defs)
  with v1.get_taskmap_law [OF _ G] assms(1) ApinfoV1 show ?thesis
    by (simp add: ap_defs cong: option.case_cong)
next
  case (ApinfoV5 g)
  obtain g' r' where G: "impl_get_taskmap (apinfo5 hl ia ta) g = (g', r')"
    by (cases "impl_get_taskmap (apinfo5 hl ia ta) g")
  with assms ApinfoV5 have "h' = ApinfoV5 g'" "tr = r'" by (simp_all add: front_defs)
  with v5.get_taskmap_law [OF _ G] assms(1) ApinfoV5 show ?thesis
    by (simp add: ap_defs cong: option.case_cong)
qed

lemma front_backend:
  assumes "ver = 1 \<or> ver = 5"
  shows "apinfo_backend ia elems ta tasks hl (front env ver) (ap_ok ver) ap_cmds ap_pes ap_nodes ap_image"
proof (intro apinfo_backend.intro apinfo_backend_axioms.intro taskmap_lib_axioms)
  fix m h0
  show "impl_create (front env ver) m = Inr h0 \<Longrightarrow>
      ap_ok ver h0 \<and> ap_cmds h0 = [] \<and> ap_pes h0 = [] \<and> ap_nodes h0 = []"
    using assms v1.create_ok [of m] v5.create_ok [of m]
    by (auto simp: front_create map_sum_Inr ap_defs split: if_splits)
  show "is_ok (impl_create (front env ver) m) = calloc_handle m"
    using assms v1.create_total [of m] v5.create_total [of m]
    by (auto simp: front_create is_ok_map_sum)
qed (rule front_hostlist front_taskmap front_reads front_write front_get_hostlist front_get_taskmap; assumption)+

end

sublocale apinfo_libs \<subseteq> front1: apinfo_backend ia elems ta tasks hl
    "front \<lparr>env_hosts = hl, env_idsets = ia, env_tasks = ta\<rparr> 1" "ap_ok 1" ap_cmds ap_pes ap_nodes ap_image
  by (rule front_backend) simp

sublocale apinfo_libs \<subseteq> front5: apinfo_backend ia elems ta tasks hl
    "front \<lparr>env_hosts = hl, env_idsets = ia, env_tasks = ta\<rparr> 5" "ap_ok 5" ap_cmds ap_pes ap_nodes ap_image
  by (rule front_backend) simp

section \<open>Properties\<close>

abbreviation good_env :: "('hl, 't, 'i) apinfo_env \<Rightarrow> ('i \<Rightarrow> nat set) \<Rightarrow> ('t \<Rightarrow> nat list) \<Rightarrow> bool" where
  "good_env E elems tasks \<equiv> taskmap_lib (env_idsets E) elems (env_tasks E) tasks"

lemma backend:
  assumes "good_env E elems tasks" and "ver = 1 \<or> ver = 5"
  shows "apinfo_backend (env_idsets E) elems (env_tasks E) tasks (env_hosts E) (front E ver)
    (ap_ok ver) ap_cmds ap_pes ap_nodes ap_image"
proof -
  have e: "\<lparr>env_hosts = env_hosts E, env_idsets = env_idsets E, env_tasks = env_tasks E\<rparr> = E" by simp
  from apinfo_libs.front_backend [OF apinfo_libs.intro [OF assms(1)] assms(2), of "env_hosts E"]
  show ?thesis unfolding e .
qed

lemma create_version: "apinfo_create E mem m ver = Inr a \<Longrightarrow> mem \<and> (ver = 1 \<or> ver = 5)"
  by (cases "ver = 1"; cases "ver = 5") (auto simp: apinfo_create_def split: if_splits)

lemma map_prod_the [simp]:
  "map_prod the id (map_prod Some id p) = p"
  "map_prod the id (map_prod (Some \<circ> f) id q) = map_prod f id q"
  by (cases p, simp) (cases q, simp)

lemma map_prod_Some:
  "map_prod Some id p = (Some a, b) \<longleftrightarrow> p = (a, b)"
  "map_prod (Some \<circ> f) id q = (Some y, b) \<longleftrightarrow> map_prod f id q = (y, b)"
  by (cases p, simp) (cases q, simp)

lemma front_write_iff:
  "impl_write (front E ver) a st = (st', r) \<longleftrightarrow> apinfo_write E (Some a) (Some st) = (Some st', r)"
  by (cases a) (simp_all add: front_def apinfo_write_def map_prod_Some)

lemma put_of_write:
  assumes "open_room fs = Inr n" and "impl_write (front E ver) a \<lparr>written = [], room = n\<rparr> = (st, r)"
  shows "apinfo_put E fs (Some a) (Some path) =
    (Some (written st), case r of Inl e \<Rightarrow> Inl e | Inr _ \<Rightarrow> if close_ok fs then Inr () else Inl EOTHER)"
  using assms by (simp add: apinfo_put_def front_write_iff split: sum.split)

text \<open>An object built for version \<open>ver\<close>, the hosts \<open>hs\<close> and the task map \<open>t\<close>.\<close>

definition built_for ::
  "('hl, 't, 'i) apinfo_env \<Rightarrow> int \<Rightarrow> 'hl \<Rightarrow> 't \<Rightarrow> int \<Rightarrow> ('hl, 't) apinfo \<Rightarrow> bool" where
  "built_for E ver hs t cpus a \<longleftrightarrow> (\<exists>mem m a0 a1.
     apinfo_create E mem m ver = Inr a0 \<and> apinfo_set_hostlist E m (Some a0) (Some hs) = (Some a1, Inr ())
     \<and> apinfo_set_taskmap E m (Some a1) (Some t) cpus = Some (Some a, Inr ()))"

lemma built_state:
  assumes "good_env E elems tasks" and "built_for E ver hs t cpus a"
    and "int (hostlist_count (env_hosts E) hs) < 2 ^ 31"
  shows "(ver = 1 \<or> ver = 5) \<and> ap_ok ver a
    \<and> ap_nodes a = fill_nodes (env_hosts E) hs (hostlist_count (env_hosts E) hs) \<and> ap_pes a = pes_of (tasks t)
    \<and> ap_cmds a = [\<lparr>cmd_npes = int (length (tasks t)), pes_per_node = max_ntasks (env_tasks E) t,
        cpus_per_pe = cpus\<rparr>]"
proof -
  obtain mem m a0 a1 where c: "apinfo_create E mem m ver = Inr a0"
    "apinfo_set_hostlist E m (Some a0) (Some hs) = (Some a1, Inr ())"
    "apinfo_set_taskmap E m (Some a1) (Some t) cpus = Some (Some a, Inr ())"
    using assms(2) unfolding built_for_def by (elim exE conjE)
  note v = create_version [OF c(1)]
  then have ver: "ver = 1 \<or> ver = 5" by simp
  have "impl_create (front E ver) m = Inr a0" "impl_set_hostlist (front E ver) m a0 hs = (a1, Inr ())"
    "impl_set_taskmap (front E ver) m a1 t cpus = Some (a, Inr ())"
    using c v by (simp_all add: front_def)
  from apinfo_backend.built_object [OF backend [OF assms(1) ver] this assms(3)] ver show ?thesis by simp
qed


text \<open>Two tasks on host 0 and one on host 1.\<close>

definition sample_env :: "(string list, task_list, refset) apinfo_env" where
  "sample_env = \<lparr>env_hosts = list_hostlist, env_idsets = ref_api, env_tasks = tl_taskmap\<rparr>"

definition sample_hosts :: "string list" where
  "sample_hosts = [''n0'', ''n1'']"

definition sample_tasks :: task_list where
  "sample_tasks = tl_make [0, 0, 1]"

lemma sample_tasks_list [simp]: "tl_list sample_tasks = [0, 0, 1]"
  by (simp add: sample_tasks_def)

lemma sample_env_simps [simp]: "env_hosts sample_env = list_hostlist" "env_idsets sample_env = ref_api"
  "env_tasks sample_env = tl_taskmap"
  by (simp_all add: sample_env_def)

lemma sample_good: "good_env sample_env rs_elems tl_list"
  using tl_map.taskmap_lib_axioms by simp

lemma sample_count: "hostlist_count list_hostlist sample_hosts = 2"
  by (simp add: list_hostlist_def sample_hosts_def)

definition plenty :: calloc_env where
  "plenty = \<lparr>calloc_handle = True, calloc_cmds = True, calloc_pes = True, calloc_nodes = True\<rparr>"

lemma sample_steps:
  assumes "ver = 1 \<or> ver = 5"
  shows "\<exists>a0 a1 a. apinfo_create sample_env True plenty ver = Inr a0
    \<and> apinfo_set_hostlist sample_env plenty (Some a0) (Some sample_hosts) = (Some a1, Inr ())
    \<and> apinfo_set_taskmap sample_env plenty (Some a1) (Some sample_tasks) 1 = Some (Some a, Inr ())"
proof -
  note B = backend [OF sample_good assms]
  have m: "calloc_handle plenty" "calloc_nodes plenty" "calloc_pes plenty" "calloc_cmds plenty"
    by (simp_all add: plenty_def)
  have n: "int (hostlist_count (env_hosts sample_env) sample_hosts) < 2 ^ 31"
    by (simp only: sample_env_simps sample_count) simp
  obtain a0 where a0: "apinfo_create sample_env True plenty ver = Inr a0"
    using apinfo_backend.create_total [OF B, of plenty] m(1) by (auto simp: front_def is_ok_iff)
  then have ok0: "ap_ok ver a0"
    using apinfo_backend.create_ok [OF B, of plenty a0] by (simp add: front_def)
  obtain a1 r1 where s1: "impl_set_hostlist (front sample_env ver) plenty a0 sample_hosts = (a1, r1)"
    by (cases "impl_set_hostlist (front sample_env ver) plenty a0 sample_hosts")
  from apinfo_backend.hostlist_ok [OF B ok0 n s1] m have ok1: "ap_ok ver a1" "r1 = Inr ()" by simp_all
  have h1: "apinfo_set_hostlist sample_env plenty (Some a0) (Some sample_hosts) = (Some a1, Inr ())"
    using s1 ok1(2) by (cases a0) (simp_all add: front_def apinfo_set_hostlist_def map_prod_Some)
  obtain a2 where s2: "impl_set_taskmap (front sample_env ver) plenty a1 sample_tasks 1 = Some (a2, Inr ())"
    using apinfo_backend.taskmap_ok [OF B ok1(1), of plenty sample_tasks 1] m by auto
  have "apinfo_set_taskmap sample_env plenty (Some a1) (Some sample_tasks) 1 = Some (Some a2, Inr ())"
    using s2 by (cases a1) (auto simp: front_def apinfo_set_taskmap_def split: prod.splits)
  with a0 h1 show ?thesis by blast
qed

lemma sample_built:
  assumes "ver = 1 \<or> ver = 5"
  shows "\<exists>a. built_for sample_env ver sample_hosts sample_tasks 1 a"
  using sample_steps [OF assms] unfolding built_for_def by blast

lemma sample_size:
  assumes "built_for sample_env 5 sample_hosts sample_tasks 1 a"
  shows "unat (apinfo_get_size sample_env (Some a)) = 344"
proof -
  have n: "int (hostlist_count (env_hosts sample_env) sample_hosts) < 2 ^ 31"
    by (simp only: sample_env_simps sample_count) simp
  note S = built_state [OF sample_good assms n, unfolded sample_env_simps sample_count]
  have "ap_ok 5 a" using S by simp
  then have "unat (apinfo_get_size sample_env (Some a)) = length (ap_image a)"
    using apinfo_backend.size_ok [OF backend [OF sample_good, of 5]] by (simp add: front_def)
  moreover obtain h where h: "a = ApinfoV5 h" using S by (cases a) (auto simp: ap_ok_def)
  moreover have "length (ap_image a) = 160 + body_size (cmds h) (pes h) (nodes h)"
    using S length_file_image [of "nodes h" "header_bytes5 (hdr h)"]
    by (simp add: h ap_image_def image5_def sizeof_structs5 ap_ok_def apinfo5_ok_def arrays_ok_def)
  ultimately show ?thesis
    using S by (simp add: ap_cmds_def ap_pes_def ap_nodes_def body_size_def)
qed

text \<open>What a written file says, to a reader that follows the offsets of its header.\<close>

definition file_says ::
  "('hl, 't, 'i) apinfo_env \<Rightarrow> ('t \<Rightarrow> nat list) \<Rightarrow> int \<Rightarrow> 'hl \<Rightarrow> 't \<Rightarrow> int \<Rightarrow> byte list \<Rightarrow> bool" where
  "file_says E tasks ver hs t cpus img \<longleftrightarrow>
    file_version img = ver \<and> file_size img = length img
    \<and> file_npes img = int (length (tasks t)) \<and> file_nnodes img = int (hostlist_count (env_hosts E) hs)
    \<and> file_cmd img 0 = \<lparr>cmd_npes = int (length (tasks t)),
        pes_per_node = int (Max (insert 0 (count_list (tasks t) ` set (tasks t)))), cpus_per_pe = cpus\<rparr>
    \<and> (\<forall>k < length (tasks t). file_pe img k =
        \<lparr>pe_localidx = int (card {j. j < k \<and> tasks t ! j = tasks t ! k}), pe_cmdidx = 0,
         nodeidx = int (tasks t ! k)\<rparr>)
    \<and> (\<forall>k < hostlist_count (env_hosts E) hs. NUL \<notin> set (hostlist_nth (env_hosts E) hs k) \<longrightarrow>
        file_host img k = (int k, take 63 (hostlist_nth (env_hosts E) hs k)))"

lemma put_contents:
  assumes "good_env E elems tasks" and "built_for E ver hs t cpus a"
    and "int (hostlist_count (env_hosts E) hs) < 2 ^ 31" and "is_int cpus"
    and "apinfo_put E fs (Some a) (Some path) = (Some img, Inr ())"
  shows "file_says E tasks ver hs t cpus img"
proof -
  note S = built_state [OF assms(1-3)]
  note B = backend [OF assms(1) conjunct1 [OF S]]
  have ok: "ap_ok ver a" using S by simp
  obtain n where n: "open_room fs = Inr n"
    using assms(5) by (auto simp: apinfo_put_def split: sum.splits)
  obtain st r where w: "impl_write (front E ver) a \<lparr>written = [], room = n\<rparr> = (st, r)"
    by (cases "impl_write (front E ver) a \<lparr>written = [], room = n\<rparr>")
  from put_of_write [OF n w, of path] assms(5) have r: "r = Inr ()" "img = written st"
    by (auto split: sum.splits if_splits)
  from apinfo_backend.write_ok [OF B ok, of "\<lparr>written = [], room = n\<rparr>"] w r
  have img: "img = ap_image a" by (auto simp: write_result_def split: if_splits)
  have b: "\<forall>n \<in> set (tasks t). int n < 2 ^ 31"
    using taskmap_lib.nnodes_bound [OF assms(1), of _ t] taskmap_lib.nnodes_int [OF assms(1), of t] by fastforce
  have v: "impl_version (front E ver) = ver" by (simp add: front_def)
  from apinfo_backend.built_file [OF B ok _ _ _ assms(3,4) b] S v show ?thesis
    unfolding img file_says_def
    by (simp add: local_rank_card taskmap_lib.max_ntasks_Max [OF assms(1)])
qed

text \<open>
  C5. The file that is written for a list of hosts and a task map says exactly that, to a reader
  that follows the offsets of its header, in both versions: the version and the true length of the
  file; one command with the number of tasks, the largest number of tasks on a node and the CPUs per
  task; for every task its node and its rank among the tasks of that node; and for every node its
  index and the first 63 characters of its name.
\<close>

theorem apinfo_file_contents:
  assumes "good_env E elems tasks" and "built_for E ver hs t cpus a"
    and "int (hostlist_count (env_hosts E) hs) < 2 ^ 31" and "is_int cpus"
    and "apinfo_put E fs (Some a) (Some path) = (Some img, Inr ())"
  shows "file_version img = ver \<and> file_size img = length img
    \<and> file_npes img = int (length (tasks t)) \<and> file_nnodes img = int (hostlist_count (env_hosts E) hs)
    \<and> file_cmd img 0 = \<lparr>cmd_npes = int (length (tasks t)),
        pes_per_node = int (Max (insert 0 (count_list (tasks t) ` set (tasks t)))), cpus_per_pe = cpus\<rparr>
    \<and> (\<forall>k < length (tasks t). file_pe img k =
        \<lparr>pe_localidx = int (card {j. j < k \<and> tasks t ! j = tasks t ! k}), pe_cmdidx = 0,
         nodeidx = int (tasks t ! k)\<rparr>)
    \<and> (\<forall>k < hostlist_count (env_hosts E) hs. NUL \<notin> set (hostlist_nth (env_hosts E) hs k) \<longrightarrow>
        file_host img k = (int k, take 63 (hostlist_nth (env_hosts E) hs k)))"
  using put_contents [OF assms] unfolding file_says_def .

lemma built_check_iff:
  assumes "good_env E elems tasks" and "built_for E ver hs t cpus a"
    and "int (hostlist_count (env_hosts E) hs) < 2 ^ 31"
  shows "apinfo_check E (Some a) = Inr () \<longleftrightarrow> set (tasks t) = {..<hostlist_count (env_hosts E) hs}"
proof -
  note S = built_state [OF assms]
  note B = backend [OF assms(1) conjunct1 [OF S]]
  from apinfo_backend.built_check [OF B, of a hs t] S show ?thesis by (simp add: front_def)
qed

text \<open>
  C29. The consistency check of an object built for hosts and a task map passes exactly when the
  tasks run on all the hosts and only there.
\<close>

theorem apinfo_check_iff:
  assumes "good_env E elems tasks" and "built_for E ver hs t cpus a"
    and "int (hostlist_count (env_hosts E) hs) < 2 ^ 31"
  shows "apinfo_check E (Some a) = Inr () \<longleftrightarrow> set (tasks t) = {..<hostlist_count (env_hosts E) hs}"
  using assms by (rule built_check_iff)

theorem apinfo_check_iff_witness:
  "\<exists>a. built_for sample_env 5 sample_hosts sample_tasks 1 a \<and> apinfo_check sample_env (Some a) = Inr ()"
proof -
  obtain a where a: "built_for sample_env 5 sample_hosts sample_tasks 1 a"
    using sample_built [of 5] by auto
  have n: "int (hostlist_count (env_hosts sample_env) sample_hosts) < 2 ^ 31"
    by (simp only: sample_env_simps sample_count) simp
  have "set (tl_list sample_tasks) = {..<hostlist_count (env_hosts sample_env) sample_hosts}"
    unfolding sample_env_simps sample_count sample_tasks_list by auto
  with apinfo_check_iff [OF sample_good a n] a show ?thesis by blast
qed

lemma put_result:
  assumes "good_env E elems tasks" and "built_for E ver hs t cpus a"
    and "int (hostlist_count (env_hosts E) hs) < 2 ^ 31" and "open_room fs = Inr n" and "close_ok fs"
  shows "unat (apinfo_get_size E (Some a)) = length (ap_image a)
    \<and> (if length (ap_image a) \<le> n then apinfo_put E fs (Some a) (Some path) = (Some (ap_image a), Inr ())
       else \<exists>m. apinfo_put E fs (Some a) (Some path) = (Some (take m (ap_image a)), Inl ENOSPC))"
proof -
  note S = built_state [OF assms(1-3)]
  note B = backend [OF assms(1) conjunct1 [OF S]]
  have ok: "ap_ok ver a" using S by simp
  have sz: "unat (apinfo_get_size E (Some a)) = length (ap_image a)"
    using apinfo_backend.size_ok [OF B ok] by (simp add: front_def)
  obtain st r where w: "impl_write (front E ver) a \<lparr>written = [], room = n\<rparr> = (st, r)"
    by (cases "impl_write (front E ver) a \<lparr>written = [], room = n\<rparr>")
  note P = put_of_write [OF assms(4) w, of path]
  from apinfo_backend.write_ok [OF B ok, of "\<lparr>written = [], room = n\<rparr>"] w
  have "write_result (ap_image a) \<lparr>written = [], room = n\<rparr> (st, r)" by simp
  then show ?thesis
    using assms(5) P sz by (auto simp: write_result_def split: if_splits)
qed

text \<open>
  C31. Writing is all or nothing in its result: when the medium has room for \<^verbatim>\<open>apinfo_get_size\<close>
  bytes and closing works the call succeeds and the file has that many bytes; when it has not, the
  call fails with \<^verbatim>\<open>ENOSPC\<close> and the file holds an initial part of the image.
\<close>

theorem apinfo_put_result:
  assumes "good_env E elems tasks" and "built_for E ver hs t cpus a"
    and "int (hostlist_count (env_hosts E) hs) < 2 ^ 31" and "open_room fs = Inr n" and "close_ok fs"
  shows "if unat (apinfo_get_size E (Some a)) \<le> n
    then apinfo_put E fs (Some a) (Some path) = (Some (ap_image a), Inr ())
      \<and> length (ap_image a) = unat (apinfo_get_size E (Some a))
    else \<exists>m. apinfo_put E fs (Some a) (Some path) = (Some (take m (ap_image a)), Inl ENOSPC)"
  using put_result [OF assms, of path] by (simp split: if_splits)

theorem apinfo_put_result_witness:
  "\<exists>a. built_for sample_env 5 sample_hosts sample_tasks 1 a
    \<and> apinfo_put sample_env \<lparr>open_room = Inr 1000000, close_ok = True\<rparr> (Some a) (Some ''f'')
        = (Some (ap_image a), Inr ())"
proof -
  obtain a where a: "built_for sample_env 5 sample_hosts sample_tasks 1 a"
    using sample_built [of 5] by auto
  have n: "int (hostlist_count (env_hosts sample_env) sample_hosts) < 2 ^ 31"
    by (simp only: sample_env_simps sample_count) simp
  have sz: "unat (apinfo_get_size sample_env (Some a)) \<le> 1000000"
    using sample_size [OF a] by simp
  from apinfo_put_result [OF sample_good a n, of "\<lparr>open_room = Inr 1000000, close_ok = True\<rparr>" 1000000 "''f''"] sz a
  show ?thesis by auto
qed

lemma sample_put:
  assumes "built_for sample_env 5 sample_hosts sample_tasks 1 a"
  shows "\<exists>img. apinfo_put sample_env \<lparr>open_room = Inr 1000000, close_ok = True\<rparr> (Some a) (Some ''f'')
    = (Some img, Inr ())"
proof -
  have n: "int (hostlist_count (env_hosts sample_env) sample_hosts) < 2 ^ 31"
    by (simp only: sample_env_simps sample_count) simp
  from put_result [OF sample_good assms n, of "\<lparr>open_room = Inr 1000000, close_ok = True\<rparr>" 1000000 "''f''"]
    sample_size [OF assms] show ?thesis by auto
qed

theorem apinfo_file_contents_witness:
  "\<exists>a img. apinfo_put sample_env \<lparr>open_room = Inr 1000000, close_ok = True\<rparr> (Some a) (Some ''f'') = (Some img, Inr ())
    \<and> file_version img = 5 \<and> file_pe img 1 = \<lparr>pe_localidx = 1, pe_cmdidx = 0, nodeidx = 0\<rparr>
    \<and> file_host img 1 = (1, ''n1'')"
proof -
  obtain a where a: "built_for sample_env 5 sample_hosts sample_tasks 1 a"
    using sample_built [of 5] by auto
  then obtain img where p: "apinfo_put sample_env \<lparr>open_room = Inr 1000000, close_ok = True\<rparr> (Some a) (Some ''f'')
      = (Some img, Inr ())"
    using sample_put [OF a] by blast
  have n: "int (hostlist_count (env_hosts sample_env) sample_hosts) < 2 ^ 31"
    by (simp only: sample_env_simps sample_count) simp
  have c: "{j. j < (1 :: nat) \<and> [0 :: nat, 0, 1] ! j = 0} = {0}" by auto
  have h: "hostlist_nth list_hostlist sample_hosts 1 = ''n1''"
    by (simp add: list_hostlist_def sample_hosts_def)
  have i: "is_int 1" by simp
  note F = apinfo_file_contents [OF sample_good a n i p]
  have "file_pe img 1 = \<lparr>pe_localidx = 1, pe_cmdidx = 0, nodeidx = 0\<rparr>"
    using F c by simp
  moreover have "file_host img 1 = (1, ''n1'')"
    using F h sample_count by simp
  ultimately show ?thesis using F p by blast
qed

lemma append_nodes_plain:
  assumes "hostlist_lib hl hosts expand" and "append_nodes hl h ns = Some h'"
    and "list_all (\<lambda>n. expand (c_string (hostname n)) = Some [c_string (hostname n)]) ns"
  shows "hosts h' = hosts h @ map (c_string \<circ> hostname) ns"
  using assms(2,3)
proof (induction ns arbitrary: h)
  case (Cons n ns)
  then obtain h1 where h1: "hostlist_append hl h (c_string (hostname n)) = Some h1" "append_nodes hl h1 ns = Some h'"
    by (auto split: option.splits)
  have "hosts h1 = hosts h @ [c_string (hostname n)]"
    using hostlist_lib.append_hosts [OF assms(1) h1(1)] Cons.prems(2) by auto
  with Cons.IH [OF h1(2)] Cons.prems(2) show ?case by simp
qed simp

text \<open>The getters of the dispatcher and of the table that it amounts to.\<close>

lemma pointer_Inr [simp]: "pointer (Inr x) = Some x"
  by (simp add: pointer_def)

lemma front_gets:
  "impl_get_hostlist (front E ver) a = (a', Some h) \<longleftrightarrow> apinfo_get_hostlist E (Some a) = (Some a', Inr h)"
  "impl_get_taskmap (front E ver) a = (a', Some t) \<longleftrightarrow> apinfo_get_taskmap E (Some a) = (Some a', Inr t)"
  by (cases a; auto simp: front_def apinfo_get_hostlist_def apinfo_get_taskmap_def prod_eq_iff)+

lemma sample_gets:
  assumes "built_for sample_env 5 sample_hosts sample_tasks 1 a"
  shows "\<exists>a1 t' a2 hs'. apinfo_get_taskmap sample_env (Some a) = (Some a1, Inr t')
    \<and> apinfo_get_hostlist sample_env (Some a1) = (Some a2, Inr hs')"
proof -
  have n: "int (hostlist_count (env_hosts sample_env) sample_hosts) < 2 ^ 31"
    by (simp only: sample_env_simps sample_count) simp
  note S = built_state [OF sample_good assms n, unfolded sample_env_simps sample_count]
  note B = backend [OF sample_good, of 5]
  have ok: "ap_ok 5 a" using S by simp
  obtain a1 tr where t: "impl_get_taskmap (front sample_env 5) a = (a1, tr)"
    by (cases "impl_get_taskmap (front sample_env 5) a")
  note T = apinfo_backend.get_taskmap_law [OF B ok t]
  obtain a2 hr where h: "impl_get_hostlist (front sample_env 5) a1 = (a2, hr)"
    by (cases "impl_get_hostlist (front sample_env 5) a1")
  have "ap_ok 5 a1" using T by simp
  note H = apinfo_backend.get_hostlist_law [OF B this h]
  have "\<exists>m. append_pes tl_taskmap (tl_make []) (pes_of [0, 0, 1]) = Some m"
    by (simp add: pes_of_def pe_of_def tl_taskmap_def)
  then have "\<exists>t'. tr = Some t'" using T S by (simp add: tl_taskmap_def)
  moreover have "\<exists>m. append_nodes list_hostlist [] ns = Some m" for ns
  proof -
    have "\<exists>m. append_nodes list_hostlist g ns = Some m" for g
      by (induction ns arbitrary: g) (auto simp: list_hostlist_def)
    then show ?thesis .
  qed
  then have "\<exists>hs'. hr = Some hs'" using H by (simp add: list_hostlist_def)
  ultimately show ?thesis
    using t h by (auto simp: front_gets)
qed

text \<open>
  The library knows the versions 1 and 5 and no other: creation succeeds exactly for these
  when memory can be allocated, the object is empty and consistent, and any other version is
  reported as \<^verbatim>\<open>ENOENT\<close>.
\<close>

theorem apinfo_create_versions:
  fixes E :: "('hl, 't, 'i) apinfo_env"
  shows "(is_ok (apinfo_create E mem m ver) \<longleftrightarrow> mem \<and> calloc_handle m \<and> (ver = 1 \<or> ver = 5))
   \<and> (apinfo_create E True m ver = Inl ENOENT \<longleftrightarrow> ver \<noteq> 1 \<and> ver \<noteq> 5)
   \<and> (case apinfo_create E mem m ver of Inl e \<Rightarrow> True
      | Inr a \<Rightarrow> ap_ok ver a \<and> apinfo_get_npes E (Some a) = 0 \<and> apinfo_get_nnodes E (Some a) = 0
          \<and> apinfo_check E (Some a) = Inr ())"
proof -
  have c1: "apinfo1_ok ap \<and> cmds ap = [] \<and> pes ap = [] \<and> nodes ap = []" if "op_create1 m = Inr ap" for ap :: "('hl, 't) apinfo1"
    by (rule op_create1_ok [OF that])
  have c5: "apinfo5_ok ap \<and> cmds ap = [] \<and> pes ap = [] \<and> nodes ap = []" if "op_create5 m = Inr ap" for ap :: "('hl, 't) apinfo5"
    by (rule op_create5_ok [OF that])
  have k1: "impl_create (impl1 E) m = op_create1 m" and k5: "impl_create (impl5 E) m = op_create5 m"
    by (simp_all add: apinfo1_def apinfo5_def)
  have empty: "check_sections [] 0 [] 0 = Inr ()" using check_sections_ok [of 0 "[]" 0 "[]"] by simp
  have e1: "ap_ok 1 (ApinfoV1 ap) \<and> apinfo_get_npes E (Some (ApinfoV1 ap)) = 0
      \<and> apinfo_get_nnodes E (Some (ApinfoV1 ap)) = 0 \<and> apinfo_check E (Some (ApinfoV1 ap)) = Inr ()"
    if "op_create1 m = Inr ap" for ap
    using c1 [OF that] layout1.ok_arrays [of ap] empty
    by (simp add: ap_ok_def apinfo_get_npes_def apinfo_get_nnodes_def apinfo_check_def apinfo1_def
        op_get_npes1_def op_get_nnodes1_def op_check1_def check_op_def arrays_ok_def)
  have e5: "ap_ok 5 (ApinfoV5 ap) \<and> apinfo_get_npes E (Some (ApinfoV5 ap)) = 0
      \<and> apinfo_get_nnodes E (Some (ApinfoV5 ap)) = 0 \<and> apinfo_check E (Some (ApinfoV5 ap)) = Inr ()"
    if "op_create5 m = Inr ap" for ap
    using c5 [OF that] layout5.ok_arrays [of ap] empty
    by (simp add: ap_ok_def apinfo_get_npes_def apinfo_get_nnodes_def apinfo_check_def apinfo5_def
        op_get_npes5_def op_get_nnodes5_def op_check5_def check_op_def arrays_ok_def)
  let ?c1 = "op_create1 m :: errno + ('hl, 't) apinfo1" and ?c5 = "op_create5 m :: errno + ('hl, 't) apinfo5"
  have ok: "is_ok ?c1 = calloc_handle m" "is_ok ?c5 = calloc_handle m" "?c1 \<noteq> Inl ENOENT" "?c5 \<noteq> Inl ENOENT"
    by (simp_all add: op_create1_def op_create5_def)
  consider "ver = 1" | "ver = 5" | "ver \<noteq> 1" "ver \<noteq> 5" by blast
  then show ?thesis
  proof cases
    case 1
    then show ?thesis using ok e1 by (cases ?c1) (auto simp: apinfo_create_def k1)
  next
    case 2
    then show ?thesis using ok e5 by (cases ?c5) (auto simp: apinfo_create_def k5)
  next
    case 3
    then show ?thesis by (auto simp: apinfo_create_def)
  qed
qed

text \<open>The names in the node section are those of the hosts.\<close>

lemma names_of_nodes:
  assumes "hostlist_lib (env_hosts E) hosts expand" and "\<forall>s \<in> set (hosts hs). length s \<le> 63 \<and> NUL \<notin> set s"
  shows "map (c_string \<circ> hostname) (fill_nodes (env_hosts E) hs (length (hosts hs))) = hosts hs"
proof (rule nth_equalityI)
  fix k assume "k < length (map (c_string \<circ> hostname) (fill_nodes (env_hosts E) hs (length (hosts hs))))"
  then have k: "k < length (hosts hs)" by simp
  have "hostlist_nth (env_hosts E) hs k = hosts hs ! k"
    using hostlist_lib.nth_hosts [OF assms(1) k] .
  moreover have "length (hosts hs ! k) \<le> 63" "NUL \<notin> set (hosts hs ! k)"
    using assms(2) k by simp_all
  ultimately show "map (c_string \<circ> hostname) (fill_nodes (env_hosts E) hs (length (hosts hs))) ! k = hosts hs ! k"
    using k by (simp add: c_string_snprintf)
qed simp

text \<open>
  C30. The task map and the host list come back: when \<^verbatim>\<open>apinfo_get_taskmap\<close> returns a map, it
  places every task on the node it had in the map the object was built from; when
  \<^verbatim>\<open>apinfo_get_hostlist\<close> returns a list, its hosts are the original ones, given that every name is
  plain and at most 63 characters long. Neither call changes what would be written.
\<close>

theorem apinfo_roundtrip:
  assumes "good_env E elems tasks" and "hostlist_lib (env_hosts E) hosts expand"
    and "built_for E ver hs t cpus a" and "int (length (hosts hs)) < 2 ^ 31"
    and "\<forall>s \<in> set (hosts hs). length s \<le> 63 \<and> NUL \<notin> set s \<and> expand s = Some [s]"
    and "apinfo_get_taskmap E (Some a) = (Some a1, Inr t')"
    and "apinfo_get_hostlist E (Some a1) = (Some a2, Inr hs')"
  shows "tasks t' = tasks t \<and> hosts hs' = hosts hs \<and> ap_pes a2 = ap_pes a \<and> ap_nodes a2 = ap_nodes a"
proof -
  have cnt: "hostlist_count (env_hosts E) hs = length (hosts hs)"
    using hostlist_lib.count_hosts [OF assms(2)] by simp
  note S = built_state [OF assms(1,3) assms(4) [folded cnt]]
  note B = backend [OF assms(1) conjunct1 [OF S]]
  have ok: "ap_ok ver a" using S by simp
  have "impl_get_taskmap (front E ver) a = (a1, Some t')" using assms(6) by (simp add: front_def)
  note T = apinfo_backend.get_taskmap_law [OF B ok this]
  have "impl_get_hostlist (front E ver) a1 = (a2, Some hs')" using assms(7) by (simp add: front_def)
  note H = apinfo_backend.get_hostlist_law [OF B conjunct1 [OF T] this]
  obtain g where g: "taskmap_create (env_tasks E) = Some g" "append_pes (env_tasks E) g (pes_of (tasks t)) = Some t'"
    using T S by (auto split: option.splits)
  have "list_all (\<lambda>p. 0 \<le> nodeidx p) (pes_of (tasks t))"
    by (auto simp: list_all_iff pes_of_def pe_of_def)
  from taskmap_lib.append_pes_spec [OF assms(1) g(2) this]
  have 1: "tasks t' = tasks t"
    using taskmap_lib.create_tasks [OF assms(1) g(1)] by (simp add: nodeidx_pes_of)
  let ?ns = "fill_nodes (env_hosts E) hs (length (hosts hs))"
  obtain h0 where h0: "hostlist_create (env_hosts E) = Some h0" "append_nodes (env_hosts E) h0 ?ns = Some hs'"
    using H T S cnt by (auto split: option.splits)
  have names: "map (c_string \<circ> hostname) ?ns = hosts hs"
    by (rule names_of_nodes [OF assms(2)]) (use assms(5) in blast)
  have plain: "expand (c_string (hostname n)) = Some [c_string (hostname n)]" if "n \<in> set ?ns" for n
  proof -
    have "c_string (hostname n) \<in> set (map (c_string \<circ> hostname) ?ns)" using that by simp
    then show ?thesis unfolding names using assms(5) by simp
  qed
  have "hosts hs' = hosts h0 @ map (c_string \<circ> hostname) ?ns"
    by (rule append_nodes_plain [OF assms(2) h0(2)]) (simp add: list_all_iff plain)
  then have 2: "hosts hs' = hosts hs"
    using hostlist_lib.create_hosts [OF assms(2) h0(1)] names by simp
  from 1 2 T H show ?thesis by simp
qed

theorem apinfo_roundtrip_witness:
  "\<exists>a a1 a2 t' hs'. apinfo_get_taskmap sample_env (Some a) = (Some a1, Inr t')
    \<and> apinfo_get_hostlist sample_env (Some a1) = (Some a2, Inr hs')
    \<and> tl_list t' = [0, 0, 1] \<and> hs' = [''n0'', ''n1'']"
proof -
  obtain a where a: "built_for sample_env 5 sample_hosts sample_tasks 1 a"
    using sample_built [of 5] by auto
  obtain a1 t' a2 hs' where r: "apinfo_get_taskmap sample_env (Some a) = (Some a1, Inr t')"
    "apinfo_get_hostlist sample_env (Some a1) = (Some a2, Inr hs')"
    using sample_gets [OF a] by blast
  have h: "hostlist_lib (env_hosts sample_env) (\<lambda>h. h) (\<lambda>s. Some [s])"
    using plain_hosts.hostlist_lib_axioms by simp
  from apinfo_roundtrip [OF sample_good h a _ _ r] r show ?thesis
    by (simp add: sample_hosts_def) blast
qed

end
