(* ===== verification/CcanStr.thy ===== *)
theory CcanStr
  imports Prelude "HOL-Library.Monad_Syntax" "HOL-Library.Sublist"
begin

text \<open>
  Strings in \<^verbatim>\<open>src/common/libccan/ccan/str\<close>: counting a substring, the suffix test, and hexadecimal coding. A
  C string is the list of its characters without the terminating one; a call of \<^verbatim>\<open>abort\<close> is \<open>None\<close>.
\<close>

unbundle bit_operations_syntax

section \<open>Substrings\<close>

text \<open>\<^verbatim>\<open>strstr\<close> of the C library gives the rest of the string from the first occurrence.\<close>

fun strstr :: "string \<Rightarrow> string \<Rightarrow> string option" where
  "strstr haystack needle =
     (if prefix needle haystack then Some haystack
      else (case haystack of [] \<Rightarrow> None | _ # rest \<Rightarrow> strstr rest needle))"

declare strstr.simps [simp del]

partial_function (option) strcount_loop :: "string \<Rightarrow> string \<Rightarrow> nat \<Rightarrow> nat option" where
  "strcount_loop haystack needle i = (case strstr haystack needle of
       None \<Rightarrow> Some i
     | Some rest \<Rightarrow> strcount_loop (drop (length needle) rest) needle (i + 1))"

definition strcount :: "string \<Rightarrow> string \<Rightarrow> nat option" where
  "strcount haystack needle = strcount_loop haystack needle 0"

text \<open>\<^verbatim>\<open>streq\<close> and \<^verbatim>\<open>strstarts\<close>, where \<^verbatim>\<open>strncmp\<close> compares as many characters as the prefix has.\<close>

definition streq :: "string \<Rightarrow> string \<Rightarrow> bool" where
  "streq a b \<longleftrightarrow> a = b"

definition strstarts :: "string \<Rightarrow> string \<Rightarrow> bool" where
  "strstarts str pre \<longleftrightarrow> take (length pre) str = pre"

definition strends :: "string \<Rightarrow> string \<Rightarrow> bool" where
  "strends str postfix =
     (if length str < length postfix then False
      else streq (drop (length str - length postfix) str) postfix)"

text \<open>The size of the array for a number of the type, given the size of the type in bytes.\<close>

definition STR_MAX_CHARS :: "nat \<Rightarrow> nat" where
  "STR_MAX_CHARS sizeof = (sizeof * 8 + 8) div 9 * 3 + 2"

lemma strstarts_prefix: "strstarts str pre \<longleftrightarrow> prefix pre str"
  by (auto simp: strstarts_def prefix_def) (metis append_take_drop_id)

lemma strends_suffix: "strends str postfix \<longleftrightarrow> suffix postfix str"
  by (auto simp: strends_def streq_def suffix_def) (metis append_take_drop_id)

text \<open>Three digits hold nine bits, so the decimal digits of a number fit where the macro says.\<close>

lemma length_dec_bound: "n < 1000 ^ k \<Longrightarrow> 0 < k \<Longrightarrow> length (dec_of_nat n) \<le> 3 * k"
proof (induction k arbitrary: n)
  case (Suc k)
  have three: "length (dec_of_nat m) \<le> 3" if "m < 1000" for m
    using that by (simp add: dec_of_nat.simps [of m] dec_of_nat.simps [of "m div 10"] dec_of_nat.simps [of "m div 10 div 10"])
  have step: "length (dec_of_nat m) \<le> length (dec_of_nat (m div 10)) + 1" for m
    by (simp add: dec_of_nat.simps [of m])
  show ?case
  proof (cases k)
    case 0
    then show ?thesis using three [of n] Suc.prems by simp
  next
    case (Suc l)
    have "n div 10 div 10 div 10 < 1000 ^ k" using Suc.prems(1) by (simp add: div_mult2_eq [symmetric] div_less_iff_less_mult mult.commute)
    then have "length (dec_of_nat (n div 10 div 10 div 10)) \<le> 3 * k" using Suc.IH Suc by simp
    then show ?thesis using step [of n] step [of "n div 10"] step [of "n div 10 div 10"] by simp
  qed
qed simp

text \<open>
  \<^verbatim>\<open>STR_MAX_CHARS\<close> is large enough: the decimal text of every value of a signed or unsigned type of
  the given number of bytes fits into the array, with its sign and the terminating zero.
\<close>

theorem str_max_chars_fits:
  assumes "0 < sizeof" and "- (2 ^ (8 * sizeof - 1)) \<le> v" and "v < 2 ^ (8 * sizeof)"
  shows "length (dec_of_int v) + 1 \<le> STR_MAX_CHARS sizeof"
proof -
  let ?k = "(sizeof * 8 + 8) div 9"
  have k: "0 < ?k" "8 * sizeof \<le> 9 * ?k" using assms(1) by (simp_all add: div_greater_zero_iff)
  have "(2 :: int) ^ (8 * sizeof - 1) < 2 ^ (8 * sizeof)" using assms(1) by (intro power_strict_increasing) simp_all
  with assms(2) have "- v < 2 ^ (8 * sizeof)" by linarith
  with assms(3) have "nat v < 2 ^ (8 * sizeof)" "nat (- v) < 2 ^ (8 * sizeof)" by (simp_all add: nat_less_iff)
  moreover have "(2 :: nat) ^ (8 * sizeof) \<le> 1000 ^ ?k"
  proof -
    have "(2 :: nat) ^ (8 * sizeof) \<le> 2 ^ (9 * ?k)" using k(2) by (rule power_increasing) simp
    also have "\<dots> = 512 ^ ?k" by (simp add: power_mult)
    also have "\<dots> \<le> 1000 ^ ?k" by (rule power_mono) simp_all
    finally show ?thesis .
  qed
  ultimately have "length (dec_of_nat (nat v)) \<le> 3 * ?k" "length (dec_of_nat (nat (- v))) \<le> 3 * ?k"
    using length_dec_bound [OF _ k(1)] by (meson less_le_trans)+
  then show ?thesis by (simp add: dec_of_int_def STR_MAX_CHARS_def)
qed

theorem str_max_chars_fits_witness: "length (dec_of_int (- 128)) + 1 \<le> STR_MAX_CHARS 1 \<and> STR_MAX_CHARS 1 = 5"
  using str_max_chars_fits [of 1 "- 128"] by (simp add: STR_MAX_CHARS_def)

section \<open>Hexadecimal strings\<close>

definition char_to_hex :: "char \<Rightarrow> nat option" where
  "char_to_hex c = (let n = of_char c :: nat in
     if n \<ge> of_char (CHR ''0'') \<and> n \<le> of_char (CHR ''9'') then Some (n - of_char (CHR ''0''))
     else if n \<ge> of_char (CHR ''a'') \<and> n \<le> of_char (CHR ''f'') then Some (n - of_char (CHR ''a'') + 10)
     else if n \<ge> of_char (CHR ''A'') \<and> n \<le> of_char (CHR ''F'') then Some (n - of_char (CHR ''A'') + 10)
     else None)"

text \<open>The result, and the bytes written so far.\<close>

fun hex_decode :: "string \<Rightarrow> nat \<Rightarrow> bool \<times> 8 word list" where
  "hex_decode (c1 # c2 # str) bufsize = (case char_to_hex c1 of
       None \<Rightarrow> (False, [])
     | Some v1 \<Rightarrow> (case char_to_hex c2 of
          None \<Rightarrow> (False, [])
        | Some v2 \<Rightarrow>
            if bufsize = 0 then (False, [])
            else (case hex_decode str (bufsize - 1) of
               (ok, bytes) \<Rightarrow> (ok, (push_bit 4 (of_nat v1) OR of_nat v2) # bytes))))"
| "hex_decode str bufsize = (length str = 0 \<and> bufsize = 0, [])"

definition hexchar :: "nat \<Rightarrow> char option" where
  "hexchar val =
     (if val < 10 then Some (char_of (of_char (CHR ''0'') + val))
      else if val < 16 then Some (char_of (of_char (CHR ''a'') + val - 10))
      else None)"

definition hex_str_size :: "nat \<Rightarrow> nat" where
  "hex_str_size bytes = 2 * bytes + 1"

definition hex_data_size :: "nat \<Rightarrow> nat" where
  "hex_data_size strlen = strlen div 2"

fun hex_digits :: "8 word list \<Rightarrow> string option" where
  "hex_digits [] = Some []"
| "hex_digits (b # buf) =
     do { h \<leftarrow> hexchar (unat (drop_bit 4 b)); l \<leftarrow> hexchar (unat (b AND 0xF)); rest \<leftarrow> hex_digits buf;
          Some (h # l # rest) }"

text \<open>The result, and the characters written with the terminating one.\<close>

definition hex_encode :: "8 word list \<Rightarrow> nat \<Rightarrow> (bool \<times> string) option" where
  "hex_encode buf destsize =
     (if destsize < hex_str_size (length buf) then Some (False, [])
      else do { digits \<leftarrow> hex_digits buf; Some (True, digits @ [CHR 0x00]) })"

section \<open>Counting\<close>

definition occurs_at :: "string \<Rightarrow> string \<Rightarrow> nat \<Rightarrow> bool" where
  "occurs_at h needle p \<longleftrightarrow> p \<le> length h \<and> prefix needle (drop p h)"

text \<open>Occurrences that do not overlap.\<close>

definition separate :: "string \<Rightarrow> string \<Rightarrow> nat set \<Rightarrow> bool" where
  "separate h needle S \<longleftrightarrow> (\<forall>p \<in> S. occurs_at h needle p) \<and> (\<forall>p \<in> S. \<forall>q \<in> S. p < q \<longrightarrow> p + length needle \<le> q)"

lemma occurs_Cons: "\<not> prefix needle (c # h) \<Longrightarrow> occurs_at (c # h) needle p \<longleftrightarrow> (\<exists>q. p = Suc q \<and> occurs_at h needle q)"
  by (cases p) (auto simp: occurs_at_def)

lemma strstr_first:
  "strstr h needle = (if \<exists>p. occurs_at h needle p then Some (drop (LEAST p. occurs_at h needle p) h) else None)"
proof (induction h)
  case Nil
  have "occurs_at [] needle p \<longleftrightarrow> p = 0 \<and> needle = []" for p by (auto simp: occurs_at_def)
  then show ?case by (subst strstr.simps) auto
next
  case (Cons c h)
  show ?case
  proof (cases "prefix needle (c # h)")
    case True
    then have "occurs_at (c # h) needle 0" by (simp add: occurs_at_def)
    moreover from this have "(LEAST p. occurs_at (c # h) needle p) = 0" by (simp add: Least_eq_0)
    ultimately show ?thesis using True by (subst strstr.simps) auto
  next
    case False
    note O = occurs_Cons [OF False]
    show ?thesis
    proof (cases "\<exists>p. occurs_at h needle p")
      case True
      then obtain p where p: "occurs_at h needle p" by blast
      then have "occurs_at (c # h) needle (Suc p)" by (simp add: O)
      moreover have "\<not> occurs_at (c # h) needle 0" using False by (simp add: occurs_at_def)
      ultimately have "(LEAST q. occurs_at (c # h) needle q) = Suc (LEAST q. occurs_at (c # h) needle (Suc q))"
        by (rule Least_Suc)
      moreover have "occurs_at (c # h) needle (Suc q) = occurs_at h needle q" for q by (simp add: O)
      ultimately have L: "(LEAST q. occurs_at (c # h) needle q) = Suc (LEAST q. occurs_at h needle q)" by simp
      have "strstr (c # h) needle = strstr h needle" using False by (subst strstr.simps) simp
      also have "\<dots> = Some (drop (LEAST q. occurs_at h needle q) h)" using Cons True by simp
      also have "\<dots> = Some (drop (LEAST q. occurs_at (c # h) needle q) (c # h))" unfolding L by simp
      finally show ?thesis using \<open>occurs_at (c # h) needle (Suc p)\<close> by auto
    next
      case none: False
      with False Cons show ?thesis by (subst strstr.simps) (auto simp: O)
    qed
  qed
qed

lemma occurs_drop: "b \<le> length h \<Longrightarrow> occurs_at (drop b h) needle p \<longleftrightarrow> occurs_at h needle (b + p)"
  by (auto simp: occurs_at_def add.commute)

lemma separate_shift:
  assumes "b \<le> length h"
  shows "separate (drop b h) needle S \<longleftrightarrow> separate h needle ((+) b ` S)"
  using assms by (auto simp: separate_def occurs_drop)

lemma separate_finite: "separate h needle S \<Longrightarrow> finite S"
  by (rule finite_subset [of _ "{..length h}"]) (auto simp: separate_def occurs_at_def)

lemma separate_subset: "separate h needle S \<Longrightarrow> T \<subseteq> S \<Longrightarrow> separate h needle T"
  unfolding separate_def by blast

lemma occurs_length: "occurs_at h needle p \<Longrightarrow> p + length needle \<le> length h"
  by (auto simp: occurs_at_def dest: prefix_length_le)

text \<open>Taking the first occurrence is best.\<close>

lemma first_is_best:
  assumes "needle \<noteq> []" and "occurs_at h needle p" and "\<And>q. occurs_at h needle q \<Longrightarrow> p \<le> q"
    and "separate h needle S"
  shows "\<exists>T. separate (drop (p + length needle) h) needle T \<and> card S \<le> card T + 1"
proof (cases "S = {}")
  case True
  then show ?thesis by (intro exI [of _ "{}"]) (simp add: separate_def)
next
  case False
  note fin = separate_finite [OF assms(4)]
  let ?b = "p + length needle" and ?m = "Min S"
  have m: "?m \<in> S" "\<And>q. q \<in> S \<Longrightarrow> ?m \<le> q" using fin False by simp_all
  have "?b \<le> q" if "q \<in> S - {?m}" for q
  proof -
    have "?m < q" using that m(2) [of q] by auto
    then have "?m + length needle \<le> q" using assms(4) m(1) that by (auto simp: separate_def)
    moreover have "p \<le> ?m" using assms(3,4) m(1) by (simp add: separate_def)
    ultimately show ?thesis by simp
  qed
  then have i: "(+) ?b ` ((\<lambda>q. q - ?b) ` (S - {?m})) = S - {?m}" by (auto simp: image_image)
  let ?T = "(\<lambda>q. q - ?b) ` (S - {?m})"
  have "separate h needle ((+) ?b ` ?T)" unfolding i by (rule separate_subset [OF assms(4)]) blast
  then have "separate (drop ?b h) needle ?T" by (subst separate_shift) (use occurs_length [OF assms(2)] in simp_all)
  moreover have "card ?T = card ((+) ?b ` ?T)" by (rule card_image [symmetric]) simp
  then have "card S \<le> card ?T + 1" unfolding i using fin m(1) by simp
  ultimately show ?thesis by blast
qed

lemma strcount_loop_counts:
  assumes "needle \<noteq> []"
  shows "\<exists>k. strcount_loop h needle i = Some (i + k) \<and> (\<exists>S. separate h needle S \<and> card S = k)
    \<and> (\<forall>S. separate h needle S \<longrightarrow> card S \<le> k)"
proof (induction "length h" arbitrary: h i rule: less_induct)
  case less
  show ?case
  proof (cases "\<exists>p. occurs_at h needle p")
    case False
    then have "strcount_loop h needle i = Some i" by (subst strcount_loop.simps) (simp add: strstr_first)
    moreover have "card S \<le> 0" if "separate h needle S" for S
    proof -
      have "S = {}" using that False by (auto simp: separate_def)
      then show ?thesis by simp
    qed
    moreover have "separate h needle {} \<and> card ({} :: nat set) = 0" by (simp add: separate_def)
    ultimately show ?thesis by (intro exI [of _ 0]) auto
  next
    case True
    define p where "p = (LEAST p. occurs_at h needle p)"
    have p: "occurs_at h needle p" "\<And>q. occurs_at h needle q \<Longrightarrow> p \<le> q"
      unfolding p_def using True by (auto intro: LeastI Least_le)
    let ?b = "p + length needle"
    have b: "?b \<le> length h" by (rule occurs_length [OF p(1)])
    have "0 < length needle" using assms by simp
    with b have "length (drop ?b h) < length h" by (simp only: length_drop)
    from less.hyps [OF this, of "i + 1"] obtain k where k: "strcount_loop (drop ?b h) needle (i + 1) = Some (i + 1 + k)"
      "\<exists>S. separate (drop ?b h) needle S \<and> card S = k" "\<forall>S. separate (drop ?b h) needle S \<longrightarrow> card S \<le> k" by blast
    have "strcount_loop h needle i = Some (i + (k + 1))"
      using True k(1) by (subst strcount_loop.simps) (simp add: strstr_first p_def [symmetric] add.commute)
    moreover obtain S where S: "separate (drop ?b h) needle S" "card S = k" using k(2) by blast
    have sep: "separate h needle (insert p ((+) ?b ` S))"
    proof -
      have "separate h needle ((+) ?b ` S)" using S(1) by (simp add: separate_shift [OF b])
      then show ?thesis using p(1) unfolding separate_def by (auto simp del: image_iff)
    qed
    moreover have "card (insert p ((+) ?b ` S)) = k + 1"
    proof -
      have "p \<notin> (+) ?b ` S" using assms by auto
      then show ?thesis using separate_finite [OF S(1)] S(2) by (simp add: card_image)
    qed
    moreover have "card T \<le> k + 1" if "separate h needle T" for T
      using first_is_best [OF assms p that] k(3) by fastforce
    ultimately show ?thesis by blast
  qed
qed

text \<open>The empty substring is found again and again at the same place.\<close>

lemma strcount_loop_some: "strcount_loop h needle i = Some r \<Longrightarrow> needle \<noteq> []"
proof (rule strcount_loop.raw_induct [where P = "\<lambda>_ needle _ _. needle \<noteq> []"])
  fix loop :: "string \<Rightarrow> string \<Rightarrow> nat \<Rightarrow> nat option" and h needle i r
  assume loop: "\<And>h needle i r. loop h needle i = Some r \<Longrightarrow> needle \<noteq> []"
    and body: "(case strstr h needle of None \<Rightarrow> Some i | Some rest \<Rightarrow> loop (drop (length needle) rest) needle (i + 1)) = Some r"
  show "needle \<noteq> []"
  proof
    assume "needle = []"
    moreover have "strstr h [] = Some h" by (subst strstr.simps) simp
    ultimately have "loop h [] (i + 1) = Some r" using body by simp
    with loop show False by blast
  qed
qed

text \<open>
  Counting a substring is right and ends, but for the empty one. For a substring that is not empty the
  result is the largest number of occurrences that do not overlap; for the empty string the function does
  not return.
\<close>

theorem strcount_meaning:
  "strcount h needle =
    (if needle = [] then None else Some (Max {card S | S. separate h needle S}))"
proof (cases "needle = []")
  case True
  with strcount_loop_some [of h needle 0] show ?thesis by (cases "strcount h needle") (auto simp: strcount_def)
next
  case False
  from strcount_loop_counts [OF this, of h 0] obtain k where k: "strcount h needle = Some k"
    "\<exists>S. separate h needle S \<and> card S = k" "\<forall>S. separate h needle S \<longrightarrow> card S \<le> k" by (auto simp: strcount_def)
  have "finite {card S | S. separate h needle S}" by (rule finite_subset [of _ "{..k}"]) (use k(3) in auto)
  then have "Max {card S | S. separate h needle S} = k" using k(2,3) by (intro Max_eqI) auto
  with k(1) False show ?thesis by simp
qed

section \<open>Hexadecimal coding\<close>

lemma nibbles:
  fixes b :: "8 word"
  shows "unat (drop_bit 4 b) = unat b div 16" and "unat (b AND 0xF) = unat b mod 16"
proof -
  show "unat (drop_bit 4 b) = unat b div 16" by (simp add: drop_bit_eq_div unat_div_distrib)
  have "b AND 0xF = take_bit 4 b" by (simp add: take_bit_eq_mask mask_eq_exp_minus_1)
  then show "unat (b AND 0xF) = unat b mod 16" by (simp add: take_bit_eq_mod unat_mod_distrib)
qed

lemma hex_value: "v < 16 \<Longrightarrow> \<exists>c. hexchar v = Some c \<and> char_to_hex c = Some v"
proof -
  assume "v < 16"
  then consider "v < 10" | "10 \<le> v" "v < 16" by linarith
  then show ?thesis
  proof cases
    case 2
    then have "of_char (char_of (87 + v)) = 87 + v" by simp
    with 2 show ?thesis by (simp add: hexchar_def char_to_hex_def Let_def)
  qed (simp add: hexchar_def char_to_hex_def Let_def)
qed

lemma joined_nibbles: "push_bit 4 (of_nat (unat b div 16)) OR of_nat (unat b mod 16) = b" for b :: "8 word"
proof -
  have "of_nat (unat b div 16) = drop_bit 4 b" "of_nat (unat b mod 16) = b AND 0xF"
    by (simp_all add: nibbles [symmetric])
  moreover have "b AND 0xF = take_bit 4 b" by (simp add: take_bit_eq_mask mask_eq_exp_minus_1)
  moreover have "push_bit 4 (drop_bit 4 b) OR take_bit 4 b = b" by (rule bit_word_eqI) (auto simp: bit_simps)
  ultimately show ?thesis by simp
qed

lemma hex_digits_decode: "\<exists>t. hex_digits buf = Some t \<and> length t = 2 * length buf \<and> hex_decode t (length buf) = (True, buf)"
proof (induction buf)
  case (Cons b buf)
  have "unat b < 256" using unsigned_less [of b] by simp
  then have n: "unat b div 16 < 16" "unat b mod 16 < 16" by (simp_all add: div_less_iff_less_mult)
  obtain h l where c: "hexchar (unat b div 16) = Some h" "char_to_hex h = Some (unat b div 16)"
    "hexchar (unat b mod 16) = Some l" "char_to_hex l = Some (unat b mod 16)"
    using hex_value [OF n(1)] hex_value [OF n(2)] by blast
  with Cons show ?case by (auto simp: nibbles joined_nibbles)
qed simp

text \<open>A string is decoded when it has two digits for each byte; \<open>lower\<close> is what encoding would write.\<close>

definition lower :: "char \<Rightarrow> char" where
  "lower c = (let n = of_char c :: nat in if 65 \<le> n \<and> n \<le> 70 then char_of (n + 32) else c)"

lemma hex_lower: "char_to_hex c = Some v \<Longrightarrow> v < 16 \<and> hexchar v = Some (lower c)"
proof -
  assume c: "char_to_hex c = Some v"
  have "char_of (of_char c :: nat) = c" by simp
  with c show ?thesis by (auto simp: char_to_hex_def hexchar_def lower_def Let_def split: if_splits)
qed

lemma join_split:
  assumes "v1 < 16" and "v2 < 16"
  shows "unat (push_bit 4 (of_nat v1) OR of_nat v2 :: 8 word) = 16 * v1 + v2"
proof -
  have "push_bit 4 (of_nat v1 :: 8 word) OR of_nat v2 = of_nat (push_bit 4 v1 OR v2)"
    by (simp add: of_nat_or_eq of_nat_push_bit)
  also have "push_bit 4 v1 OR v2 = push_bit 4 v1 + v2"
  proof (rule disjunctive_add [symmetric])
    fix k
    have "\<not> bit v2 k" if "4 \<le> k"
    proof -
      have "take_bit 4 v2 = v2" using assms(2) by (simp add: take_bit_eq_mod)
      then have "bit v2 k \<longleftrightarrow> k < 4 \<and> bit v2 k" by (metis bit_take_bit_iff)
      with that show ?thesis by simp
    qed
    then show "\<not> bit (push_bit 4 v1) k \<or> \<not> bit v2 k" by (auto simp: bit_push_bit_iff)
  qed
  finally have "unat (push_bit 4 (of_nat v1) OR of_nat v2 :: 8 word) = (16 * v1 + v2) mod 256"
    by (simp only: unat_of_nat push_bit_eq_mult mult.commute) simp
  moreover have "16 * v1 + v2 < 256" using assms by simp
  ultimately show ?thesis by simp
qed

lemma hex_decode_encode:
  "hex_decode t n = (True, buf) \<Longrightarrow> length t = 2 * n \<and> length buf = n \<and> hex_digits buf = Some (map lower t)"
proof (induction t n arbitrary: buf rule: hex_decode.induct)
  case (1 c1 c2 t n)
  then obtain v1 v2 rest where v: "char_to_hex c1 = Some v1" "char_to_hex c2 = Some v2" "n \<noteq> 0"
    "hex_decode t (n - 1) = (True, rest)" "buf = (push_bit 4 (of_nat v1) OR of_nat v2) # rest"
    by (auto split: option.splits if_splits prod.splits)
  note IH = "1.IH" [OF v(1,2,3,4)]
  note l = hex_lower [OF v(1)] hex_lower [OF v(2)]
  have "unat (push_bit 4 (of_nat v1) OR of_nat v2 :: 8 word) = 16 * v1 + v2" by (rule join_split) (use l in simp_all)
  then have "unat (drop_bit 4 (push_bit 4 (of_nat v1) OR of_nat v2 :: 8 word)) = v1"
    "unat ((push_bit 4 (of_nat v1) OR of_nat v2 :: 8 word) AND 0xF) = v2"
    unfolding nibbles using l by simp_all
  with IH l v(3,5) show ?case by simp
qed auto

text \<open>
  Hexadecimal coding is exact. A buffer is encoded whenever the destination is large enough, as two
  digits for each byte and a terminating zero, and no call aborts; decoding the digits gives the buffer
  back. And whenever a string is decoded successfully, it has exactly two digits for each byte of the
  buffer, and encoding the buffer gives the string with its letters in lower case.
\<close>

theorem hex_roundtrip:
  "(\<exists>t. hex_encode buf (hex_str_size (length buf)) = Some (True, t @ [CHR 0x00]) \<and> length t = 2 * length buf
     \<and> hex_data_size (length t) = length buf \<and> hex_decode t (length buf) = (True, buf))
   \<and> (fst (hex_decode str n) \<longrightarrow> length str = 2 * n
     \<and> hex_encode (snd (hex_decode str n)) (hex_str_size n) = Some (True, map lower str @ [CHR 0x00]))"
proof (rule conjI)
  obtain t where "hex_digits buf = Some t" "length t = 2 * length buf" "hex_decode t (length buf) = (True, buf)"
    using hex_digits_decode by blast
  then show "\<exists>t. hex_encode buf (hex_str_size (length buf)) = Some (True, t @ [CHR 0x00]) \<and> length t = 2 * length buf
     \<and> hex_data_size (length t) = length buf \<and> hex_decode t (length buf) = (True, buf)"
    by (simp add: hex_encode_def hex_data_size_def)
  show "fst (hex_decode str n) \<longrightarrow> length str = 2 * n
     \<and> hex_encode (snd (hex_decode str n)) (hex_str_size n) = Some (True, map lower str @ [CHR 0x00])"
  proof
    assume "fst (hex_decode str n)"
    then have "hex_decode str n = (True, snd (hex_decode str n))" by (simp add: prod_eq_iff)
    from hex_decode_encode [OF this] show "length str = 2 * n
     \<and> hex_encode (snd (hex_decode str n)) (hex_str_size n) = Some (True, map lower str @ [CHR 0x00])"
      by (simp add: hex_encode_def)
  qed
qed

theorem hex_roundtrip_witness:
  "hex_decode ''0A'' 1 = (True, [10]) \<and> hex_encode [10] 3 = Some (True, ''0a'' @ [CHR 0x00])"
proof -
  have d: "hex_decode ''0A'' 1 = (True, [10])" by code_simp
  have l: "map lower ''0A'' = ''0a''" by code_simp
  have z: "hex_str_size 1 = 3" by (simp add: hex_str_size_def)
  from hex_roundtrip [of "[]" "''0A''" 1] show ?thesis unfolding d l z by simp
qed

end
