(* ===== verification/Libtap.thy ===== *)
theory Libtap
  imports CcanStr "HOL-Library.Signed_Division"
begin

text \<open>
  The test library \<^verbatim>\<open>src/common/libtap/tap.c\<close>, with which the unit tests of the repository are written. The
  static variables are a record with the text written to the standard output; a call that ends the process gives
  \<open>Inl\<close> of the exit status, and a computation that C leaves undefined gives \<open>None\<close>. A format with its arguments
  is the text that \<^verbatim>\<open>vsprintf\<close> makes of it, or \<open>None\<close> for a null pointer. Exhaustion of memory, which ends
  the process, is left out.
\<close>

section \<open>State and text\<close>

definition NO_PLAN :: int where "NO_PLAN = - 1"

definition SKIP_ALL :: int where "SKIP_ALL = - 2"

record tap =
  expected_tests :: int
  failed_tests :: nat
  current_test :: nat
  todo_mesg :: "string option"
  test_died :: "int option"
  stdout :: string

definition tap_start :: tap where
  "tap_start = \<lparr>expected_tests = NO_PLAN, failed_tests = 0, current_test = 0, todo_mesg = None, test_died = None, stdout = ''''\<rparr>"

definition line_feed :: char where "line_feed = CHR 0x0A"

definition printf :: "string \<Rightarrow> tap \<Rightarrow> tap" where
  "printf text s = s\<lparr>stdout := stdout s @ text\<rparr>"

definition vstrdupf :: "string option \<Rightarrow> string" where
  "vstrdupf fmt = (case fmt of None \<Rightarrow> '''' | Some text \<Rightarrow> text)"

text \<open>
  The loop of \<^verbatim>\<open>diag\<close>: \<open>line\<close> holds the characters from \<^verbatim>\<open>line\<close> to \<^verbatim>\<open>mesg + i\<close>, and \<open>rest\<close> those from there
  on. The loop stops when the text from \<^verbatim>\<open>line\<close> on is empty.
\<close>

fun diag_loop :: "string \<Rightarrow> string \<Rightarrow> string" where
  "diag_loop line [] = (if line = [] then [] else ''# '' @ line @ [line_feed])"
| "diag_loop line (c # rest) =
     (if c = line_feed then ''# '' @ line @ [line_feed] @ diag_loop [] rest else diag_loop (line @ [c]) rest)"

definition diag :: "string option \<Rightarrow> tap \<Rightarrow> int \<times> tap" where
  "diag fmt s = (case fmt of None \<Rightarrow> (0, s) | Some mesg \<Rightarrow> (0, printf (diag_loop [] mesg) s))"

text \<open>A text printed with \<^verbatim>\<open>%s\<close>; the C library shows a null pointer as here.\<close>

definition shown :: "string option \<Rightarrow> string" where
  "shown p = (case p of None \<Rightarrow> ''(null)'' | Some text \<Rightarrow> text)"

section \<open>Plan and end\<close>

definition tap_plan :: "int \<Rightarrow> string option \<Rightarrow> tap \<Rightarrow> (int + unit) \<times> tap" where
  "tap_plan tests fmt s =
     (let s = s\<lparr>expected_tests := tests\<rparr> in
      if tests = SKIP_ALL
      then (Inl 0, snd (diag (Some (''SKIP '' @ vstrdupf fmt @ [line_feed])) (printf ''1..0 '' s)))
      else if tests \<noteq> NO_PLAN then (Inr (), printf (''1..'' @ dec_of_int tests @ [line_feed]) s)
      else (Inr (), s))"

definition exit_status :: "tap \<Rightarrow> int \<times> tap" where
  "exit_status s =
     (let (retval, s) =
        if expected_tests s = NO_PLAN then (0, printf (''1..'' @ dec_of_nat (current_test s) @ [line_feed]) s)
        else if int (current_test s) \<noteq> expected_tests s
        then (2, snd (diag (Some (''Looks like you planned '' @ dec_of_int (expected_tests s) @ '' test''
           @ (if expected_tests s > 1 then ''s'' else '''') @ '' but ran '' @ dec_of_nat (current_test s) @ ''.'')) s))
        else (0, s)
      in if failed_tests s \<noteq> 0
      then (1, snd (diag (Some (''Looks like you failed '' @ dec_of_nat (failed_tests s) @ '' test''
           @ (if failed_tests s > 1 then ''s'' else '''') @ '' of '' @ dec_of_nat (current_test s) @ '' run.'')) s))
      else (retval, s))"

definition bail_out :: "string \<Rightarrow> tap \<Rightarrow> (int + unit) \<times> tap" where
  "bail_out text s = (Inl 255, printf (''Bail out!  '' @ text @ [line_feed]) s)"

section \<open>Tests\<close>

definition vok_at_loc :: "string \<Rightarrow> int \<Rightarrow> int \<Rightarrow> string option \<Rightarrow> tap \<Rightarrow> int \<times> tap" where
  "vok_at_loc file line test fmt s =
     (let name = vstrdupf fmt;
          s = (if test = 0 then printf ''not '' s else s);
          s = s\<lparr>current_test := current_test s + 1\<rparr>;
          s = printf (''ok '' @ dec_of_nat (current_test s)) s;
          s = (if name \<noteq> '''' then printf ('' - '' @ name) s else s);
          s = (case todo_mesg s of None \<Rightarrow> s
               | Some mesg \<Rightarrow> let s = printf '' # TODO'' s in if mesg \<noteq> '''' then printf ('' '' @ mesg) s else s);
          s = printf [line_feed] s;
          s = (if test = 0
               then let s = printf ''#   Failed '' s;
                        s = (if todo_mesg s \<noteq> None then printf ''(TODO) '' s else s);
                        s = printf ''test '' s;
                        s = (if name \<noteq> '''' then printf (CHR 0x27 # name @ CHR 0x27 # line_feed # ''#   '') s else s);
                        s = printf (''at '' @ file @ '' line '' @ dec_of_int line @ ''.'' @ [line_feed]) s
                    in if todo_mesg s = None then s\<lparr>failed_tests := failed_tests s + 1\<rparr> else s
               else s)
      in (test, s))"

definition ok_at_loc :: "string \<Rightarrow> int \<Rightarrow> int \<Rightarrow> string option \<Rightarrow> tap \<Rightarrow> int \<times> tap" where
  "ok_at_loc file line test fmt s = (let (_, s) = vok_at_loc file line test fmt s in (test, s))"

text \<open>Only the sign of the result of \<^verbatim>\<open>strcmp\<close> is specified.\<close>

fun strcmp :: "string \<Rightarrow> string \<Rightarrow> int" where
  "strcmp [] [] = 0"
| "strcmp [] (b # bs) = - 1"
| "strcmp (a # as) [] = 1"
| "strcmp (a # as) (b # bs) =
     (if a = b then strcmp as bs else if (of_char a :: nat) < of_char b then - 1 else 1)"

definition mystrcmp :: "string option \<Rightarrow> string option \<Rightarrow> int" where
  "mystrcmp a b = (case (a, b) of
       (None, None) \<Rightarrow> 0
     | (None, Some _) \<Rightarrow> - 1
     | (Some _, None) \<Rightarrow> 1
     | (Some x, Some y) \<Rightarrow> strcmp x y)"

definition is_at_loc :: "string \<Rightarrow> int \<Rightarrow> string option \<Rightarrow> string option \<Rightarrow> string option \<Rightarrow> tap \<Rightarrow> int \<times> tap" where
  "is_at_loc file line got expected fmt s =
     (let test = of_bool (mystrcmp got expected = 0);
          (_, s) = vok_at_loc file line test fmt s
      in if test = 0
      then (test, snd (diag (Some (''    expected: '' @ CHR 0x27 # shown expected @ [CHR 0x27]))
         (snd (diag (Some (''         got: '' @ CHR 0x27 # shown got @ [CHR 0x27])) s))))
      else (test, s))"

definition isnt_at_loc :: "string \<Rightarrow> int \<Rightarrow> string option \<Rightarrow> string option \<Rightarrow> string option \<Rightarrow> tap \<Rightarrow> int \<times> tap" where
  "isnt_at_loc file line got expected fmt s =
     (let test = mystrcmp got expected;
          (_, s) = vok_at_loc file line test fmt s
      in if test = 0
      then (test, snd (diag (Some ''    expected: anything else'')
         (snd (diag (Some (''         got: '' @ CHR 0x27 # shown got @ [CHR 0x27])) s))))
      else (test, s))"

text \<open>The operators on \<^verbatim>\<open>int\<close>; the outer \<open>None\<close> is undefined behaviour, the inner one an unknown operator.\<close>

definition checked :: "int \<Rightarrow> int option option" where
  "checked r = (if - (2 ^ 31) \<le> r \<and> r < 2 ^ 31 then Some (Some r) else None)"

definition int_op :: "string \<Rightarrow> int \<Rightarrow> int \<Rightarrow> int option option" where
  "int_op opr a b =
     (if opr = ''||'' then Some (Some (of_bool (a \<noteq> 0 \<or> b \<noteq> 0)))
      else if opr = ''&&'' then Some (Some (of_bool (a \<noteq> 0 \<and> b \<noteq> 0)))
      else if opr = ''|'' then Some (Some (or a b))
      else if opr = ''^'' then Some (Some (xor a b))
      else if opr = ''&'' then Some (Some (and a b))
      else if opr = ''=='' then Some (Some (of_bool (a = b)))
      else if opr = ''!='' then Some (Some (of_bool (a \<noteq> b)))
      else if opr = ''<'' then Some (Some (of_bool (a < b)))
      else if opr = ''>'' then Some (Some (of_bool (a > b)))
      else if opr = ''<='' then Some (Some (of_bool (a \<le> b)))
      else if opr = ''>='' then Some (Some (of_bool (a \<ge> b)))
      else if opr = ''<<'' then (if 0 \<le> b \<and> b < 32 \<and> 0 \<le> a then checked (a * 2 ^ nat b) else None)
      else if opr = ''>>'' then (if 0 \<le> b \<and> b < 32 then Some (Some (a div 2 ^ nat b)) else None)
      else if opr = ''+'' then checked (a + b)
      else if opr = ''-'' then checked (a - b)
      else if opr = ''*'' then checked (a * b)
      else if opr = ''/'' then (if b = 0 then None else checked (a sdiv b))
      else if opr = ''%'' then (if b = 0 \<or> checked (a sdiv b) = None then None else Some (Some (a smod b)))
      else Some None)"

definition cmp_ok_at_loc ::
  "string \<Rightarrow> int \<Rightarrow> int \<Rightarrow> string \<Rightarrow> int \<Rightarrow> string option \<Rightarrow> tap \<Rightarrow> (int \<times> tap) option" where
  "cmp_ok_at_loc file line a opr b fmt s = (case int_op opr a b of
       None \<Rightarrow> None
     | Some r \<Rightarrow>
         (let (test, s) = (case r of Some test \<Rightarrow> (test, s)
                | None \<Rightarrow> diag (Some (''unrecognized operator '' @ CHR 0x27 # opr @ [CHR 0x27])) s);
              (_, s) = vok_at_loc file line test fmt s
          in Some (if test = 0
          then (test, snd (diag (Some (''    '' @ dec_of_int b)) (snd (diag (Some (''        '' @ opr))
             (snd (diag (Some (''    '' @ dec_of_int a)) s))))))
          else (test, s))))"

text \<open>A pointer is an address with the bytes that can be read there. An access beyond them is \<open>None\<close>.\<close>

type_synonym memory = "(nat \<times> 8 word list) option"

primrec mem_diff_loop :: "8 word list \<Rightarrow> 8 word list \<Rightarrow> nat \<Rightarrow> nat \<Rightarrow> (int \<times> nat option) option" where
  "mem_diff_loop a b i 0 = Some (0, None)"
| "mem_diff_loop a b i (Suc k) =
     (if i < length a \<and> i < length b
      then if a ! i \<noteq> b ! i then Some (1, Some i) else mem_diff_loop a b (i + 1) k
      else None)"

definition find_mem_diff :: "memory \<Rightarrow> memory \<Rightarrow> nat \<Rightarrow> (int \<times> nat option) option" where
  "find_mem_diff a b n =
     (if map_option fst a = map_option fst b then Some (0, None)
      else (case (a, b) of
         (Some (_, as), Some (_, bs)) \<Rightarrow> mem_diff_loop as bs 0 n
       | _ \<Rightarrow> Some (2, None)))"

definition byte_text :: "memory \<Rightarrow> nat \<Rightarrow> string" where
  "byte_text p i = (case p of None \<Rightarrow> '''' | Some (_, bs) \<Rightarrow> ''0x'' @ (case hex_digits [bs ! i] of None \<Rightarrow> '''' | Some t \<Rightarrow> t))"

definition null_text :: "memory \<Rightarrow> string" where
  "null_text p = (case p of None \<Rightarrow> ''NULL'' | Some _ \<Rightarrow> ''not NULL'')"

definition cmp_mem_at_loc ::
  "string \<Rightarrow> int \<Rightarrow> memory \<Rightarrow> memory \<Rightarrow> nat \<Rightarrow> string option \<Rightarrow> tap \<Rightarrow> (int \<times> tap) option" where
  "cmp_mem_at_loc file line got expected n fmt s = (case find_mem_diff got expected n of
       None \<Rightarrow> None
     | Some (diff, at) \<Rightarrow>
         (let (_, s) = vok_at_loc file line (of_bool (diff = 0)) fmt s in
          Some (of_bool (diff = 0), case at of
             Some i \<Rightarrow> snd (diag (Some (''    expected: '' @ byte_text expected i))
               (snd (diag (Some (''         got: '' @ byte_text got i))
               (snd (diag (Some (''    Difference starts at offset '' @ dec_of_nat i)) s)))))
           | None \<Rightarrow>
               (if diff = 2
                then snd (diag (Some (''    expected: '' @ null_text expected))
                  (snd (diag (Some (''         got: '' @ null_text got)) s)))
                else s))))"

section \<open>Skipped tests, tests to do, and tests of processes\<close>

primrec skip_loop :: "nat \<Rightarrow> string \<Rightarrow> tap \<Rightarrow> tap" where
  "skip_loop 0 why s = s"
| "skip_loop (Suc n) why s =
     (let s = s\<lparr>current_test := current_test s + 1\<rparr>;
          s = printf (''ok '' @ dec_of_nat (current_test s) @ '' '') s;
          s = snd (diag (Some (''skip '' @ why @ [line_feed])) s)
      in skip_loop n why s)"

definition tap_skip :: "int \<Rightarrow> string option \<Rightarrow> tap \<Rightarrow> tap" where
  "tap_skip n fmt s = skip_loop (nat n) (vstrdupf fmt) s"

definition tap_todo :: "string option \<Rightarrow> tap \<Rightarrow> tap" where
  "tap_todo fmt s = s\<lparr>todo_mesg := Some (vstrdupf fmt)\<rparr>"

definition tap_end_todo :: "tap \<Rightarrow> tap" where
  "tap_end_todo s = s\<lparr>todo_mesg := None\<rparr>"

definition tap_test_died :: "int \<Rightarrow> tap \<Rightarrow> int \<times> tap" where
  "tap_test_died status s =
     (let s = (if test_died s = None then s\<lparr>test_died := Some 0\<rparr> else s);
          prev = (case test_died s of None \<Rightarrow> 0 | Some v \<Rightarrow> v)
      in (prev, s\<lparr>test_died := Some status\<rparr>))"

text \<open>
  The regular expressions of the C library are arguments: whether an expression can be compiled, and what
  \<^verbatim>\<open>regexec\<close> returns, 0 for a match.
\<close>

definition like_at_loc ::
  "(string \<Rightarrow> bool) \<Rightarrow> (string \<Rightarrow> string \<Rightarrow> int) \<Rightarrow> bool \<Rightarrow> string \<Rightarrow> int \<Rightarrow> string \<Rightarrow> string \<Rightarrow> string option
     \<Rightarrow> tap \<Rightarrow> (int + int) \<times> tap" where
  "like_at_loc regcomp regexec for_match file line got expected fmt s =
     (if \<not> regcomp expected then (Inl 255, s)
      else let err = regexec expected got;
               test = (if for_match then of_bool (err = 0) else err);
               (_, s) = vok_at_loc file line test fmt s
        in if test = 0
        then (Inr test, if for_match
          then snd (diag (Some (''    doesn'' @ CHR 0x27 # ''t match: '' @ CHR 0x27 # expected @ [CHR 0x27]))
            (snd (diag (Some (''                   '' @ CHR 0x27 # got @ [CHR 0x27])) s)))
          else snd (diag (Some (''          matches: '' @ CHR 0x27 # expected @ [CHR 0x27]))
            (snd (diag (Some (''                   '' @ CHR 0x27 # got @ [CHR 0x27])) s))))
        else (Inr test, s))"

text \<open>
  \<open>dies_ok\<close> and \<open>lives_ok\<close> run a piece of code in a child process first, and in the process itself when it
  survived there. The memory of \<open>test_died\<close> is shared with the child, which closed its output.
\<close>

definition dies_ok_common ::
  "bool \<Rightarrow> bool \<Rightarrow> bool \<Rightarrow> bool \<Rightarrow> (tap \<Rightarrow> (int + unit) \<times> tap) \<Rightarrow> string \<Rightarrow> int \<Rightarrow> string option
     \<Rightarrow> tap \<Rightarrow> (int + int) \<times> tap" where
  "dies_ok_common for_death fork_fails child_dies wait_fails code file line fmt s =
     (let (_, s) = tap_test_died 1 s in
      if fork_fails then (Inl 1, s)
      else let s = (if child_dies then s else snd (tap_test_died 0 s)) in
        if wait_fails then (Inl 1, s)
        else let (it_died, s) = tap_test_died 0 s in
          (case (if it_died = 0 then code s else (Inr (), s)) of
             (Inl status, s) \<Rightarrow> (Inl status, s)
           | (Inr _, s) \<Rightarrow>
               (let (test, s) = ok_at_loc file line (if for_death then it_died else of_bool (it_died = 0)) fmt s
                in (Inr test, s))))"

section \<open>Test programs\<close>

text \<open>
  A test program is a sequence of calls; it ends early when one of them ends the process. \<open>Dies\<close> is
  \<open>dies_ok\<close> or \<open>lives_ok\<close> with code that makes no calls of the library.
\<close>

datatype tap_call =
    Plan int "string option"
  | Ok string int int "string option"
  | Is string int "string option" "string option" "string option"
  | Isnt string int "string option" "string option" "string option"
  | CmpOk string int int string int "string option"
  | CmpMem string int memory memory nat "string option"
  | Like "string \<Rightarrow> bool" "string \<Rightarrow> string \<Rightarrow> int" bool string int string string "string option"
  | Dies bool bool string int "string option"
  | Diag "string option"
  | Skip int "string option"
  | Todo "string option"
  | EndTodo
  | BailOut string

definition returns :: "int \<times> tap \<Rightarrow> ((int + int) \<times> tap) option" where
  "returns r = Some (Inr (fst r), snd r)"

definition no_value :: "(int + unit) \<times> tap \<Rightarrow> ((int + int) \<times> tap) option" where
  "no_value r = Some (map_sum id (\<lambda>_. 0) (fst r), snd r)"

fun run_call :: "tap_call \<Rightarrow> tap \<Rightarrow> ((int + int) \<times> tap) option" where
  "run_call (Plan n fmt) s = no_value (tap_plan n fmt s)"
| "run_call (Ok file line test fmt) s = returns (ok_at_loc file line test fmt s)"
| "run_call (Is file line got expected fmt) s = returns (is_at_loc file line got expected fmt s)"
| "run_call (Isnt file line got expected fmt) s = returns (isnt_at_loc file line got expected fmt s)"
| "run_call (CmpOk file line a opr b fmt) s = (case cmp_ok_at_loc file line a opr b fmt s of None \<Rightarrow> None | Some r \<Rightarrow> returns r)"
| "run_call (CmpMem file line got expected n fmt) s =
     (case cmp_mem_at_loc file line got expected n fmt s of None \<Rightarrow> None | Some r \<Rightarrow> returns r)"
| "run_call (Like rc re for_match file line got expected fmt) s = Some (like_at_loc rc re for_match file line got expected fmt s)"
| "run_call (Dies for_death child_dies file line fmt) s =
     Some (dies_ok_common for_death False child_dies False (\<lambda>s. (Inr (), s)) file line fmt s)"
| "run_call (Diag fmt) s = returns (diag fmt s)"
| "run_call (Skip n fmt) s = returns (0, tap_skip n fmt s)"
| "run_call (Todo fmt) s = returns (0, tap_todo fmt s)"
| "run_call EndTodo s = returns (0, tap_end_todo s)"
| "run_call (BailOut text) s = no_value (bail_out text s)"

text \<open>The status of the process and its output; \<^verbatim>\<open>done_testing\<close> returns the exit status.\<close>

fun run_program :: "tap_call list \<Rightarrow> tap \<Rightarrow> (int \<times> tap) option" where
  "run_program [] s = Some (exit_status s)"
| "run_program (c # cs) s = (case run_call c s of
       None \<Rightarrow> None
     | Some (Inl status, s) \<Rightarrow> Some (status, s)
     | Some (Inr _, s) \<Rightarrow> run_program cs s)"

section \<open>Reading the output\<close>

text \<open>The lines of a text, the last one also when it does not end in a line feed.\<close>

fun text_lines :: "string \<Rightarrow> string list" where
  "text_lines [] = []"
| "text_lines (c # cs) =
     (if c = line_feed then [] # text_lines cs
      else (case text_lines cs of [] \<Rightarrow> [[c]] | l # ls \<Rightarrow> (c # l) # ls))"

text \<open>A reader of the output takes the lines that report a test: passed or not, its number, and the directive to do it.\<close>

definition reported_number :: "string \<Rightarrow> nat" where
  "reported_number l = (case nat_of_dec (takeWhile (\<lambda>c. char_digit c \<noteq> None) l) of None \<Rightarrow> 0 | Some n \<Rightarrow> n)"

definition todo_directive :: "string \<Rightarrow> bool" where
  "todo_directive l \<longleftrightarrow> strstarts (dropWhile (\<lambda>c. c \<noteq> CHR ''#'') l) ''# TODO''"

definition read_line :: "string \<Rightarrow> (bool \<times> nat \<times> bool) option" where
  "read_line l =
     (if strstarts l ''ok '' then Some (True, reported_number (drop 3 l), todo_directive l)
      else if strstarts l ''not ok '' then Some (False, reported_number (drop 7 l), todo_directive l)
      else None)"

definition read_report :: "string \<Rightarrow> (bool \<times> nat \<times> bool) list" where
  "read_report text = List.map_filter read_line (text_lines text)"

section \<open>Lines and comments\<close>

definition complete :: "string \<Rightarrow> bool" where
  "complete t \<longleftrightarrow> t = [] \<or> last t = line_feed"

lemma complete_append [simp]: "complete (t @ u) \<longleftrightarrow> (if u = [] then complete t else complete u)"
  by (simp add: complete_def)

lemma complete_line [simp]: "complete [line_feed]" "complete []"
  by (simp_all add: complete_def)

lemma text_lines_Nil [simp]: "text_lines t = [] \<longleftrightarrow> t = []"
  by (cases t) (simp_all split: list.split)

lemma text_lines_append: "complete t \<Longrightarrow> text_lines (t @ u) = text_lines t @ text_lines u"
proof (induction t)
  case (Cons c cs)
  show ?case
  proof (cases "cs = []")
    case True
    with Cons.prems show ?thesis by (simp add: complete_def)
  next
    case False
    then obtain l ls where "text_lines cs = l # ls" by (meson neq_Nil_conv text_lines_Nil)
    with Cons False show ?thesis by (simp add: complete_def)
  qed
qed simp

lemma text_lines_one: "line_feed \<notin> set l \<Longrightarrow> text_lines (l @ line_feed # t) = l # text_lines t"
  by (induction l) auto

lemma text_lines_last: "line_feed \<notin> set l \<Longrightarrow> text_lines l = (if l = [] then [] else [l])"
  by (induction l) auto

lemma diag_loop_lines:
  "line_feed \<notin> set line \<Longrightarrow> diag_loop line rest = concat (map (\<lambda>l. ''# '' @ l @ [line_feed]) (text_lines (line @ rest)))"
  by (induction line rest rule: diag_loop.induct) (auto simp: text_lines_one text_lines_last)

text \<open>Comments are whole lines that start with a number sign; a reader skips them.\<close>

definition comment :: "string \<Rightarrow> bool" where
  "comment t \<longleftrightarrow> complete t \<and> (\<forall>l \<in> set (text_lines t). strstarts l ''#'')"

named_theorems comments \<open>texts that are comments\<close>

lemma hash_space [simp]: "CHR ''#'' \<noteq> line_feed" "line_feed \<noteq> CHR ''#''" "CHR '' '' \<noteq> line_feed" "line_feed \<noteq> CHR '' ''"
  by (simp_all add: line_feed_def)

lemma comment_Nil [comments]: "comment []"
  by (simp add: comment_def)

lemma comment_append [comments]: "comment t \<Longrightarrow> comment u \<Longrightarrow> comment (t @ u)"
  by (auto simp: comment_def text_lines_append)

lemma comment_line [comments]: "line_feed \<notin> set l \<Longrightarrow> comment (CHR ''#'' # l @ [line_feed])"
  by (simp add: comment_def complete_def text_lines_one strstarts_def)

lemma lines_no_feed: "l \<in> set (text_lines t) \<Longrightarrow> line_feed \<notin> set l"
  by (induction t arbitrary: l) (auto split: if_splits list.splits)

lemma comment_lines: "\<forall>l \<in> set ls. line_feed \<notin> set l \<Longrightarrow> comment (concat (map (\<lambda>l. ''# '' @ l @ [line_feed]) ls))"
proof (induction ls)
  case (Cons l ls)
  then have "comment (CHR ''#'' # (CHR '' '' # l) @ [line_feed])" by (intro comment_line) simp
  from comment_append [OF this Cons.IH] Cons.prems show ?case by simp
qed (simp add: comment_Nil)

lemma comment_diag [comments]: "comment (diag_loop [] mesg)"
  using lines_no_feed comment_lines by (simp add: diag_loop_lines)

lemma read_comment: "comment t \<Longrightarrow> read_report t = []"
proof -
  have "read_line l = None" if "strstarts l ''#''" for l
    using that by (cases l) (auto simp: read_line_def strstarts_def)
  moreover assume "comment t"
  ultimately show ?thesis by (auto simp: comment_def read_report_def map_filter_def)
qed

lemma read_report_append: "complete t \<Longrightarrow> read_report (t @ u) = read_report t @ read_report u"
  by (simp add: read_report_def text_lines_append map_filter_def)

lemma read_report_line: "line_feed \<notin> set l \<Longrightarrow>
  read_report (l @ line_feed # t) = (case read_line l of None \<Rightarrow> [] | Some r \<Rightarrow> [r]) @ read_report t"
  by (simp add: read_report_def text_lines_one map_filter_def split: option.split)

section \<open>What is recorded\<close>

text \<open>The results of tests, each with whether it passed and whether it was to do, as a numbered report.\<close>

primrec report_from :: "nat \<Rightarrow> (bool \<times> bool) list \<Rightarrow> (bool \<times> nat \<times> bool) list" where
  "report_from n [] = []"
| "report_from n (r # rs) = (fst r, n, snd r) # report_from (n + 1) rs"

lemma report_from_append: "report_from n (rs @ rs') = report_from n rs @ report_from (n + length rs) rs'"
  by (induction rs arbitrary: n) simp_all

definition failures :: "(bool \<times> bool) list \<Rightarrow> nat" where
  "failures rs = length (filter (\<lambda>(passed, to_do). \<not> passed \<and> \<not> to_do) rs)"

definition recorded :: "tap \<Rightarrow> (bool \<times> bool) list \<Rightarrow> bool" where
  "recorded s rs \<longleftrightarrow> complete (stdout s) \<and> read_report (stdout s) = report_from 1 rs
     \<and> current_test s = length rs \<and> failed_tests s = failures rs
     \<and> (case todo_mesg s of None \<Rightarrow> True | Some mesg \<Rightarrow> line_feed \<notin> set mesg)"

definition plain :: "string option \<Rightarrow> bool" where
  "plain fmt \<longleftrightarrow> line_feed \<notin> set (vstrdupf fmt) \<and> CHR ''#'' \<notin> set (vstrdupf fmt)"

lemma digit_no_mark: "c \<in> set (dec_of_nat n) \<Longrightarrow> c \<noteq> CHR ''#'' \<and> c \<noteq> line_feed"
  using dec_of_nat_digits [of c n] by (auto simp: char_digit_def line_feed_def)

lemma take_digits: "(case t of [] \<Rightarrow> True | c # _ \<Rightarrow> char_digit c = None) \<Longrightarrow> takeWhile (\<lambda>c. char_digit c \<noteq> None) (dec_of_nat n @ t) = dec_of_nat n"
  using dec_of_nat_digits by (subst takeWhile_append2) (auto split: list.splits)

lemma reported_number_dec:
  "(case t of [] \<Rightarrow> True | c # _ \<Rightarrow> char_digit c = None) \<Longrightarrow> reported_number (dec_of_nat n @ t) = n"
  unfolding reported_number_def by (subst take_digits) simp_all

lemma dropWhile_before: "x \<notin> set pre \<Longrightarrow> dropWhile (\<lambda>c. c \<noteq> x) (pre @ u) = dropWhile (\<lambda>c. c \<noteq> x) u"
  by (rule dropWhile_append2) auto

text \<open>The line of a test.\<close>

definition point_line :: "bool \<Rightarrow> nat \<Rightarrow> string \<Rightarrow> string option \<Rightarrow> string" where
  "point_line passed n name to_do = (if passed then '''' else ''not '') @ ''ok '' @ dec_of_nat n
     @ (if name \<noteq> '''' then '' - '' @ name else '''')
     @ (case to_do of None \<Rightarrow> '''' | Some mesg \<Rightarrow> '' # TODO'' @ (if mesg \<noteq> '''' then '' '' @ mesg else ''''))"

lemma read_point_line:
  assumes "CHR ''#'' \<notin> set name"
  shows "read_line (point_line passed n name to_do) = Some (passed, n, to_do \<noteq> None)"
proof -
  let ?t = "(if name \<noteq> '''' then '' - '' @ name else '''')
     @ (case to_do of None \<Rightarrow> '''' | Some mesg \<Rightarrow> '' # TODO'' @ (if mesg \<noteq> '''' then '' '' @ mesg else ''''))"
  have "case ?t of [] \<Rightarrow> True | c # _ \<Rightarrow> char_digit c = None"
    by (cases to_do; cases "name = ''''") (simp_all add: char_digit_def)
  then have number: "reported_number (dec_of_nat n @ ?t) = n" by (rule reported_number_dec)
  have mark: "dropWhile (\<lambda>c. c \<noteq> CHR ''#'') (pre @ dec_of_nat n @ u) = dropWhile (\<lambda>c. c \<noteq> CHR ''#'') u"
    if "CHR ''#'' \<notin> set pre" for pre u
    using that digit_no_mark [of _ n] by (auto simp: dropWhile_before)
  have rest: "dropWhile (\<lambda>c. c \<noteq> CHR ''#'') ?t
      = (case to_do of None \<Rightarrow> '''' | Some mesg \<Rightarrow> ''# TODO'' @ (if mesg \<noteq> '''' then '' '' @ mesg else ''''))"
    using assms by (simp add: dropWhile_before split: option.split)
  have "todo_directive (point_line passed n name to_do) \<longleftrightarrow> to_do \<noteq> None"
    using mark [of "(if passed then '''' else ''not '') @ ''ok ''" ?t]
    unfolding todo_directive_def point_line_def strstarts_def append.assoc rest by (auto split: option.splits)
  moreover have "point_line True n name to_do = ''ok '' @ (dec_of_nat n @ ?t)" "point_line False n name to_do = ''not ok '' @ (dec_of_nat n @ ?t)"
    by (simp_all add: point_line_def)
  ultimately show ?thesis using number by (cases passed) (simp_all add: read_line_def strstarts_def)
qed

lemma point_line_feed:
  "line_feed \<notin> set name \<Longrightarrow> (case to_do of None \<Rightarrow> True | Some mesg \<Rightarrow> line_feed \<notin> set mesg) \<Longrightarrow> line_feed \<notin> set (point_line passed n name to_do)"
  using digit_no_mark [of line_feed n] by (auto simp: point_line_def line_feed_def split: option.splits if_splits)

text \<open>Whole lines that report no test.\<close>

definition comment_like :: "string \<Rightarrow> bool" where
  "comment_like t \<longleftrightarrow> complete t \<and> read_report t = []"

lemma comment_comment_like: "comment t \<Longrightarrow> comment_like t"
  by (simp add: comment_like_def read_comment comment_def)

lemma recorded_printf: "recorded s rs \<Longrightarrow> comment_like t \<Longrightarrow> recorded (printf t s) rs"
  by (auto simp: recorded_def printf_def read_report_append comment_like_def)

lemma recorded_diag [intro]: "recorded s rs \<Longrightarrow> recorded (snd (diag fmt s)) rs"
  by (simp add: diag_def recorded_printf comment_comment_like comment_diag split: option.split)

text \<open>A test adds a line and comments to the output, and one to the counters.\<close>

lemma recorded_point:
  assumes "recorded s rs" and "line_feed \<notin> set l" and "read_line l = Some (passed, length rs + 1, to_do)" and "comment c"
  shows "recorded (s\<lparr>current_test := current_test s + 1, failed_tests := failed_tests s + of_bool (\<not> passed \<and> \<not> to_do),
    stdout := stdout s @ l @ line_feed # c\<rparr>) (rs @ [(passed, to_do)])"
proof -
  have "complete (line_feed # c)" using assms(4) by (auto simp: comment_def complete_def)
  then show ?thesis
    using assms by (simp add: recorded_def read_report_append read_report_line read_comment report_from_append failures_def)
qed

text \<open>What is written about a test that failed.\<close>

definition failure_text :: "string \<Rightarrow> bool \<Rightarrow> string \<Rightarrow> int \<Rightarrow> string" where
  "failure_text name to_do file line = CHR ''#'' # (''   Failed '' @ (if to_do then ''(TODO) '' else '''') @ ''test '')
     @ (if name \<noteq> '''' then CHR 0x27 # name @ CHR 0x27 # line_feed # ''#   '' else '''')
     @ (''at '' @ file @ '' line '' @ dec_of_int line @ ''.'') @ [line_feed]"

lemma printf_simps: "printf t (printf u s) = printf (u @ t) s" "todo_mesg (printf t s) = todo_mesg s"
    "current_test (printf t s) = current_test s" "failed_tests (printf t s) = failed_tests s"
    "expected_tests (printf t s) = expected_tests s"
    "(printf t s)\<lparr>current_test := n\<rparr> = printf t (s\<lparr>current_test := n\<rparr>)"
    "(printf t s)\<lparr>failed_tests := n\<rparr> = printf t (s\<lparr>failed_tests := n\<rparr>)"
  by (simp_all add: printf_def)

lemma vok_at_loc_result:
  "vok_at_loc file line test fmt s = (test, s\<lparr>current_test := current_test s + 1,
      failed_tests := failed_tests s + of_bool (test = 0 \<and> todo_mesg s = None),
      stdout := stdout s @ point_line (test \<noteq> 0) (current_test s + 1) (vstrdupf fmt) (todo_mesg s) @ line_feed #
        (if test = 0 then failure_text (vstrdupf fmt) (todo_mesg s \<noteq> None) file line else '''')\<rparr>)"
  unfolding vok_at_loc_def Let_def
  by (cases "test = 0"; cases "todo_mesg s"; cases "vstrdupf fmt = ''''")
    (simp_all add: printf_simps, simp_all add: printf_def point_line_def failure_text_def)

lemma comment_two:
  assumes "line_feed \<notin> set head" and "line_feed \<notin> set at" and "line_feed \<notin> set name"
  shows "comment (CHR ''#'' # head @ (if name \<noteq> '''' then CHR 0x27 # name @ CHR 0x27 # line_feed # ''#   '' else '''') @ at @ [line_feed])"
proof -
  have quote: "CHR 0x27 \<noteq> line_feed" by (simp add: line_feed_def)
  have "comment (CHR ''#'' # (head @ CHR 0x27 # name @ [CHR 0x27]) @ [line_feed])"
    using assms quote by (intro comment_line) auto
  moreover have "comment (CHR ''#'' # (''   '' @ at) @ [line_feed])" using assms(2) by (intro comment_line) simp
  ultimately have "comment ((CHR ''#'' # (head @ CHR 0x27 # name @ [CHR 0x27]) @ [line_feed]) @ (CHR ''#'' # (''   '' @ at) @ [line_feed]))"
    by (rule comment_append)
  moreover have "comment (CHR ''#'' # (head @ at) @ [line_feed])" using assms by (intro comment_line) auto
  ultimately show ?thesis by (cases "name = ''''") simp_all
qed

lemma comment_failure:
  assumes "line_feed \<notin> set name" and "line_feed \<notin> set file"
  shows "comment (failure_text name to_do file line)"
  unfolding failure_text_def
proof (rule comment_two [OF _ _ assms(1)])
  show "line_feed \<notin> set (''at '' @ file @ '' line '' @ dec_of_int line @ ''.'')"
    using assms(2) digit_no_mark [of line_feed] by (auto simp: dec_of_int_def line_feed_def)
  show "line_feed \<notin> set (''   Failed '' @ (if to_do then ''(TODO) '' else '''') @ ''test '')"
    by (simp add: line_feed_def)
qed

lemma recorded_vok:
  assumes "recorded s rs" and "plain fmt" and "line_feed \<notin> set file"
  shows "recorded (snd (vok_at_loc file line test fmt s)) (rs @ [(test \<noteq> 0, todo_mesg s \<noteq> None)])"
proof -
  let ?l = "point_line (test \<noteq> 0) (current_test s + 1) (vstrdupf fmt) (todo_mesg s)"
  have l: "line_feed \<notin> set ?l"
    by (rule point_line_feed) (use assms in \<open>auto simp: plain_def recorded_def\<close>)
  have r: "read_line ?l = Some (test \<noteq> 0, length rs + 1, todo_mesg s \<noteq> None)"
    using assms by (simp add: read_point_line plain_def recorded_def)
  have "comment (if test = 0 then failure_text (vstrdupf fmt) (todo_mesg s \<noteq> None) file line else '''')"
    using assms(2,3) by (simp add: comment_failure comment_Nil plain_def)
  from recorded_point [OF assms(1) l r this] show ?thesis by (simp add: vok_at_loc_result)
qed

lemma todo_simps [simp]: "fst (diag fmt s) = 0" "current_test (snd (diag fmt s)) = current_test s" "failed_tests (snd (diag fmt s)) = failed_tests s"
    "todo_mesg (snd (diag fmt s)) = todo_mesg s" "expected_tests (snd (diag fmt s)) = expected_tests s"
    "todo_mesg (snd (vok_at_loc file line test fmt' s)) = todo_mesg s"
    "expected_tests (snd (vok_at_loc file line test fmt' s)) = expected_tests s"
  by (simp_all add: diag_def printf_def vok_at_loc_result split: option.split)

lemma empty_feed: "line_feed \<notin> set []"
  by simp

text \<open>A skipped test counts as passed, also within tests to do.\<close>

lemma recorded_skip_one:
  assumes "recorded s rs"
  shows "recorded (snd (diag (Some (''skip '' @ why @ [line_feed])) (printf (''ok '' @ dec_of_nat (current_test s + 1) @ '' '')
    (s\<lparr>current_test := current_test s + 1\<rparr>)))) (rs @ [(True, False)])"
proof -
  obtain l ls where t: "text_lines (why @ [line_feed]) = l # ls" by (cases "text_lines (why @ [line_feed])") auto
  have "text_lines (pre @ u) = (pre @ l) # ls" if "text_lines u = l # ls" "line_feed \<notin> set pre" for pre u
    using that by (induction pre) auto
  from this [OF t, of "''skip ''"] have sk: "text_lines (''skip '' @ why @ [line_feed]) = (''skip '' @ l) # ls"
    by (simp add: line_feed_def)
  have d: "diag_loop [] (''skip '' @ why @ [line_feed]) = ''# skip '' @ l @ line_feed # concat (map (\<lambda>l. ''# '' @ l @ [line_feed]) ls)"
    unfolding diag_loop_lines [OF empty_feed] append.left_neutral sk by simp
  let ?l = "''ok '' @ dec_of_nat (current_test s + 1) @ '' # skip '' @ l"
  have feed: "line_feed \<notin> set l" "\<forall>l \<in> set ls. line_feed \<notin> set l" using lines_no_feed [of _ "why @ [line_feed]"] t by auto
  then have l: "line_feed \<notin> set ?l" using digit_no_mark [of line_feed] by (auto simp: line_feed_def)
  have "reported_number (dec_of_nat (current_test s + 1) @ '' # skip '' @ l) = current_test s + 1"
    by (rule reported_number_dec) (simp add: char_digit_def)
  moreover have "dropWhile (\<lambda>c. c \<noteq> CHR ''#'') ?l = ''# skip '' @ l"
    using dropWhile_before [of "CHR ''#''" "''ok '' @ dec_of_nat (current_test s + 1)" "'' # skip '' @ l"] digit_no_mark by auto
  ultimately have r: "read_line ?l = Some (True, length rs + 1, False)"
    using assms by (simp add: read_line_def strstarts_def todo_directive_def recorded_def)
  from recorded_point [OF assms l r comment_lines [OF feed(2)]] show ?thesis
    by (simp only: diag_def option.case d snd_conv) (simp add: printf_def)
qed

lemma recorded_skip: "recorded s rs \<Longrightarrow> recorded (skip_loop n why s) (rs @ replicate n (True, False))"
proof (induction n arbitrary: s rs)
  case (Suc n)
  from Suc.IH [OF recorded_skip_one [OF Suc.prems]] show ?case by (simp add: Let_def)
qed simp

lemma skip_simps [simp]: "todo_mesg (skip_loop n why s) = todo_mesg s" "expected_tests (skip_loop n why s) = expected_tests s"
  by (induction n arbitrary: s) (simp_all add: printf_def Let_def)

section \<open>What a test program reports\<close>

lemma strcmp_zero [simp]: "strcmp a b = 0 \<longleftrightarrow> a = b"
  by (induction a b rule: strcmp.induct) auto

lemma mystrcmp_zero [simp]: "mystrcmp a b = 0 \<longleftrightarrow> a = b"
  by (auto simp: mystrcmp_def split: option.splits)

definition same_memory :: "memory \<Rightarrow> memory \<Rightarrow> nat \<Rightarrow> bool" where
  "same_memory a b n \<longleftrightarrow> map_option fst a = map_option fst b
     \<or> (case (a, b) of (Some (_, as), Some (_, bs)) \<Rightarrow> \<forall>i < n. as ! i = bs ! i | _ \<Rightarrow> False)"

lemma mem_diff_loop_result:
  "mem_diff_loop as bs i k = Some (d, at) \<Longrightarrow> (d = 0 \<longleftrightarrow> (\<forall>j. i \<le> j \<and> j < i + k \<longrightarrow> as ! j = bs ! j)) \<and> (d = 0 \<or> d = 1)"
proof (induction k arbitrary: i)
  case (Suc k)
  then show ?case
    by (auto split: if_splits) (metis Suc_leI add_Suc_right add_Suc_shift le_neq_implies_less)+
qed auto

lemma find_mem_diff_result: "find_mem_diff a b n = Some (d, at) \<Longrightarrow> d = 0 \<longleftrightarrow> same_memory a b n"
  using mem_diff_loop_result [of _ _ 0 n d at]
  by (auto simp: find_mem_diff_def same_memory_def split: if_splits option.splits)

text \<open>The results of the tests in a call, the directive and the plan after it.\<close>

fun call_points :: "tap_call \<Rightarrow> bool \<Rightarrow> (bool \<times> bool) list" where
  "call_points (Ok file line test fmt) to_do = [(test \<noteq> 0, to_do)]"
| "call_points (Is file line got expected fmt) to_do = [(got = expected, to_do)]"
| "call_points (Isnt file line got expected fmt) to_do = [(got \<noteq> expected, to_do)]"
| "call_points (CmpOk file line a opr b fmt) to_do =
     [(case int_op opr a b of Some (Some r) \<Rightarrow> r \<noteq> 0 | _ \<Rightarrow> False, to_do)]"
| "call_points (CmpMem file line got expected n fmt) to_do = [(same_memory got expected n, to_do)]"
| "call_points (Like rc re for_match file line got expected fmt) to_do = [((re expected got = 0) = for_match, to_do)]"
| "call_points (Dies for_death child_dies file line fmt) to_do = [(child_dies = for_death, to_do)]"
| "call_points (Skip n fmt) to_do = replicate (nat n) (True, False)"
| "call_points _ to_do = []"

fun todo_after :: "tap_call \<Rightarrow> bool \<Rightarrow> bool" where
  "todo_after (Todo fmt) to_do = True"
| "todo_after EndTodo to_do = False"
| "todo_after _ to_do = to_do"

fun plan_after :: "tap_call \<Rightarrow> int \<Rightarrow> int" where
  "plan_after (Plan n fmt) plan = n"
| "plan_after _ plan = plan"

text \<open>Calls that are defined, go on, and whose names and messages stay within their line.\<close>

fun proper_call :: "tap_call \<Rightarrow> bool" where
  "proper_call (Plan n fmt) \<longleftrightarrow> n \<noteq> SKIP_ALL"
| "proper_call (Ok file line test fmt) \<longleftrightarrow> plain fmt \<and> line_feed \<notin> set file"
| "proper_call (Is file line got expected fmt) \<longleftrightarrow> plain fmt \<and> line_feed \<notin> set file"
| "proper_call (Isnt file line got expected fmt) \<longleftrightarrow> plain fmt \<and> line_feed \<notin> set file"
| "proper_call (CmpOk file line a opr b fmt) \<longleftrightarrow> plain fmt \<and> line_feed \<notin> set file \<and> int_op opr a b \<noteq> None"
| "proper_call (CmpMem file line got expected n fmt) \<longleftrightarrow>
     plain fmt \<and> line_feed \<notin> set file \<and> find_mem_diff got expected n \<noteq> None"
| "proper_call (Like rc re for_match file line got expected fmt) \<longleftrightarrow> plain fmt \<and> line_feed \<notin> set file \<and> rc expected"
| "proper_call (Dies for_death child_dies file line fmt) \<longleftrightarrow> plain fmt \<and> line_feed \<notin> set file"
| "proper_call (Todo fmt) \<longleftrightarrow> line_feed \<notin> set (vstrdupf fmt)"
| "proper_call (BailOut text) \<longleftrightarrow> False"
| "proper_call _ \<longleftrightarrow> True"

lemma no_feed [simp]: "line_feed \<notin> set (dec_of_nat n)" "line_feed \<notin> set (dec_of_int i)"
  using digit_no_mark [of line_feed] by (auto simp: dec_of_int_def line_feed_def)

lemma plan_line: "line_feed \<notin> set l \<Longrightarrow> comment_like (CHR ''1'' # CHR ''.'' # CHR ''.'' # l @ [line_feed])"
proof -
  assume "line_feed \<notin> set l"
  then have "line_feed \<notin> set (''1..'' @ l)" by (simp add: line_feed_def)
  then have "read_report ((''1..'' @ l) @ line_feed # '''') = []"
    unfolding read_report_line [OF \<open>line_feed \<notin> set (''1..'' @ l)\<close>]
    by (simp add: read_line_def strstarts_def read_report_def map_filter_def)
  then show ?thesis by (simp add: comment_like_def complete_def)
qed

text \<open>Every call keeps the record, with its results added.\<close>

lemmas at_loc_defs = ok_at_loc_def is_at_loc_def isnt_at_loc_def cmp_ok_at_loc_def cmp_mem_at_loc_def like_at_loc_def Let_def
  case_prod_beta returns_def no_value_def

lemma call_recorded:
  assumes "recorded s rs" and "proper_call c"
  shows "\<exists>v s'. run_call c s = Some (Inr v, s') \<and> recorded s' (rs @ call_points c (todo_mesg s \<noteq> None))
    \<and> (todo_mesg s' \<noteq> None) = todo_after c (todo_mesg s \<noteq> None) \<and> expected_tests s' = plan_after c (expected_tests s)"
proof (cases c)
  case (Plan n fmt)
  have "recorded (s\<lparr>expected_tests := n\<rparr>) rs" using assms(1) by (simp add: recorded_def)
  then show ?thesis using Plan assms(2) by (auto simp: tap_plan_def no_value_def Let_def printf_simps intro!: recorded_printf plan_line)
next
  case (Ok path line test fmt)
  with assms recorded_vok [OF assms(1), of fmt path line test] show ?thesis by (auto simp: at_loc_defs intro!: recorded_diag)
next
  case (Is path line got expected fmt)
  then show ?thesis using assms recorded_vok [OF assms(1), of fmt path line "of_bool (got = expected)"] by (auto simp: at_loc_defs intro!: recorded_diag)
next
  case (Isnt path line got expected fmt)
  then show ?thesis using assms recorded_vok [OF assms(1), of fmt path line "mystrcmp got expected"] by (auto simp: at_loc_defs intro!: recorded_diag)
next
  case (CmpOk path line a opr b fmt)
  then obtain r where r: "int_op opr a b = Some r" using assms(2) by auto
  have diag: "recorded (snd (diag (Some t) s)) rs" for t using assms(1) by blast
  show ?thesis
  proof (cases r)
    case None
    with r CmpOk assms(2) recorded_vok [OF diag, of fmt path line 0] show ?thesis by (auto simp: at_loc_defs intro!: recorded_diag)
  next
    case (Some test)
    with r CmpOk assms recorded_vok [OF assms(1), of fmt path line test] show ?thesis by (auto simp: at_loc_defs intro!: recorded_diag)
  qed
next
  case (CmpMem path line got expected n fmt)
  then obtain d at where r: "find_mem_diff got expected n = Some (d, at)" using assms(2) by auto
  with CmpMem assms recorded_vok [OF assms(1), of fmt path line "of_bool (d = 0)"] find_mem_diff_result [OF r]
  show ?thesis by (auto simp: at_loc_defs intro!: recorded_diag split: option.split)
next
  case (Like rc re for_match path line got expected fmt)
  with assms recorded_vok [OF assms(1), of fmt path line "if for_match then of_bool (re expected got = 0) else re expected got"]
  show ?thesis by (auto simp: at_loc_defs intro!: recorded_diag)
next
  case (Dies for_death child_dies path line fmt)
  have d: "recorded (s\<lparr>test_died := Some 0\<rparr>) rs" using assms(1) by (simp add: recorded_def)
  from recorded_vok [OF d, of fmt path line "of_bool (child_dies = for_death)"] Dies assms(2) show ?thesis
    by (cases child_dies; cases for_death) (auto simp: dies_ok_common_def tap_test_died_def at_loc_defs split: if_splits)
next
  case (Diag fmt)
  with assms show ?thesis by (auto simp: returns_def)
next
  case (Skip n fmt)
  with recorded_skip [OF assms(1)] show ?thesis by (auto simp: returns_def tap_skip_def)
next
  case (Todo fmt)
  with assms show ?thesis by (simp add: returns_def tap_todo_def recorded_def)
next
  case EndTodo
  with assms show ?thesis by (simp add: returns_def tap_end_todo_def recorded_def)
next
  case (BailOut msg)
  with assms show ?thesis by simp
qed

primrec program_points :: "tap_call list \<Rightarrow> bool \<Rightarrow> (bool \<times> bool) list" where
  "program_points [] to_do = []"
| "program_points (c # cs) to_do = call_points c to_do @ program_points cs (todo_after c to_do)"

text \<open>The exit status that a test program should have: failed tests come before a wrong number of them.\<close>

definition verdict :: "int \<Rightarrow> (bool \<times> bool) list \<Rightarrow> int" where
  "verdict plan rs = (if failures rs \<noteq> 0 then 1 else if plan \<noteq> NO_PLAN \<and> int (length rs) \<noteq> plan then 2 else 0)"

lemma exit_status_result:
  assumes "recorded s rs"
  shows "fst (exit_status s) = verdict (expected_tests s) rs \<and> recorded (snd (exit_status s)) rs"
proof -
  have "recorded (printf (''1..'' @ dec_of_nat n @ [line_feed]) s) rs" for n
    using recorded_printf [OF assms plan_line, of "dec_of_nat n"] by simp
  moreover have "current_test s = length rs" "failed_tests s = failures rs" using assms by (simp_all add: recorded_def)
  ultimately show ?thesis
    using assms by (auto simp: exit_status_def verdict_def Let_def case_prod_beta printf_simps intro!: recorded_diag)
qed

lemma program_recorded:
  "recorded s rs \<Longrightarrow> \<forall>c \<in> set cs. proper_call c \<Longrightarrow> \<exists>s'. run_program cs s = Some (exit_status s')
    \<and> recorded s' (rs @ program_points cs (todo_mesg s \<noteq> None)) \<and> expected_tests s' = fold plan_after cs (expected_tests s)"
proof (induction cs arbitrary: s rs)
  case (Cons c cs)
  obtain v s1 where c: "run_call c s = Some (Inr v, s1)" "recorded s1 (rs @ call_points c (todo_mesg s \<noteq> None))"
    "(todo_mesg s1 \<noteq> None) = todo_after c (todo_mesg s \<noteq> None)" "expected_tests s1 = plan_after c (expected_tests s)"
    using call_recorded [OF Cons.prems(1), of c] Cons.prems(2) by auto
  from Cons.IH [OF c(2)] Cons.prems(2) show ?case unfolding c(3) by (simp add: c(1,4))
qed (auto intro: exI [of _ s for s])

text \<open>
  C21. A test program reports what its tests did. For every sequence of calls that are defined, do not end the
  process and use names within a line, the program ends, a reader of its output finds each test once,
  numbered from 1 in order, with its result and whether it was to do, and the exit status is 1 when a test
  failed that was not to do, else 2 when another number of tests was planned, else 0.
\<close>

theorem tap_program_report:
  assumes "\<forall>c \<in> set cs. proper_call c" and "rs = program_points cs False"
  shows "\<exists>s. run_program cs tap_start = Some (verdict (fold plan_after cs NO_PLAN) rs, s)
    \<and> read_report (stdout s) = report_from 1 rs"
proof -
  have "recorded tap_start []"
    by (simp add: recorded_def tap_start_def read_report_def map_filter_def failures_def)
  from program_recorded [OF this assms(1)] obtain s where s: "run_program cs tap_start = Some (exit_status s)"
    "recorded s rs" "expected_tests s = fold plan_after cs NO_PLAN"
    by (auto simp: assms(2) tap_start_def)
  with exit_status_result [OF s(2)] have "exit_status s = (verdict (fold plan_after cs NO_PLAN) rs, snd (exit_status s))"
    "recorded (snd (exit_status s)) rs" by (simp_all add: prod_eq_iff)
  with s(1) show ?thesis by (auto simp: recorded_def)
qed

theorem tap_program_report_witness:
  "\<exists>s. run_program [Plan 3 None, Ok ''t.c'' 1 1 (Some ''first''), Todo (Some ''later''), Ok ''t.c'' 2 0 None, EndTodo, Skip 1 None] tap_start = Some (0, s)
    \<and> read_report (stdout s) = [(True, 1, False), (False, 2, True), (True, 3, False)]"
proof -
  let ?cs = "[Plan 3 None, Ok ''t.c'' 1 1 (Some ''first''), Todo (Some ''later''), Ok ''t.c'' 2 0 None, EndTodo, Skip 1 None]"
  have h: "\<forall>c \<in> set ?cs. proper_call c" by (simp add: plain_def vstrdupf_def SKIP_ALL_def line_feed_def)
  have p: "program_points ?cs False = [(True, False), (False, True), (True, False)]" by simp
  have v: "verdict (fold plan_after ?cs NO_PLAN) [(True, False), (False, True), (True, False)] = 0"
    "report_from 1 [(True, False), (False, True), (True, False)] = [(True, 1, False), (False, 2, True), (True, 3, False)]"
    by (simp_all add: verdict_def failures_def)
  from tap_program_report [OF h refl] show ?thesis unfolding p v .
qed

text \<open>A test of a process passes when the process did what was expected.\<close>

lemma dies_ok_common_result:
  assumes "\<And>t. \<exists>t'. code t = (Inr (), t')"
  shows "\<exists>test s'. dies_ok_common for_death False child_dies False code loc line fmt s = (Inr test, s')
    \<and> (test \<noteq> 0 \<longleftrightarrow> child_dies = for_death)"
proof -
  define t where "t = snd (tap_test_died 0 (if child_dies then snd (tap_test_died 1 s) else snd (tap_test_died 0 (snd (tap_test_died 1 s)))))"
  obtain t' where "code t = (Inr (), t')" using assms by blast
  then show ?thesis
    unfolding t_def by (cases child_dies; cases for_death) (auto simp: dies_ok_common_def tap_test_died_def ok_at_loc_def Let_def case_prod_beta split: if_splits)
qed

end
