(* ===== verification/ApinfoTests.thy ===== *)
theory ApinfoTests
  imports Apinfo Libtap "HOL-Library.Monad_Syntax"
begin

text \<open>
  The unit test of libapinfo, \<^verbatim>\<open>src/common/libapinfo/test/apinfo.c\<close>, as a program that makes calls of libtap
  with the results of the model of libapinfo. Each function of the test gives the list of its calls, with the
  object it leaves; \<open>None\<close> is a call of libapinfo that does not return. The functions of flux-core with which the
  test makes its inputs and compares its outputs, the memory and the file system are a record. Each test that looks at
  \<^verbatim>\<open>errno\<close> does so here too; the child process of \<^verbatim>\<open>lives_ok\<close> dies if the model of the call dereferences a null pointer.
  Releasing the objects at the end of a function and removing the file are left out.
\<close>

section \<open>Inputs\<close>

record ('hl, 't, 'i) unit_world =
  uw_env :: "('hl, 't, 'i) apinfo_env"
  uw_mem :: bool
  uw_calloc :: calloc_env
  uw_fs :: put_env
  uw_mkstemp :: bool
  uw_hosts :: "string \<Rightarrow> 'hl option"
  uw_map :: "string \<Rightarrow> 't option"
  uw_names :: "'hl \<Rightarrow> string list"
  uw_encode :: "'t \<Rightarrow> string option"

record unit_input =
  cpus_in :: int
  hosts_in :: string
  taskmap_in :: string
  nnodes_out :: int
  npes_out :: int

definition good_inputs :: "unit_input list" where
  "good_inputs = map (\<lambda>(c, h, m, n, p). \<lparr>cpus_in = c, hosts_in = h, taskmap_in = m, nnodes_out = n, npes_out = p\<rparr>)
    [(1, ''test0'', ''[[0,1,1,1]]'', 1, 1),
     (1, ''test[0-1]'', ''[[0,2,1,1]]'', 2, 2),
     (1, ''test0'', ''[[0,1,2,1]]'', 1, 2),
     (1, ''test[0-1]'', ''[[0,2,2,1]]'', 2, 4),
     (1, ''test[0-1]'', ''[[0,2,1,2]]'', 2, 4),
     (1, ''test[0-1]'', ''[[1,1,1,1],[0,1,1,1]]'', 2, 2),
     (1, ''test[0-3]'', ''[[0,4,4,1]]'', 4, 16),
     (1, ''test[0-3]'', ''[[0,4,1,4]]'', 4, 16),
     (1, ''test[0-3]'', ''[[0,4,2,2]]'', 4, 16),
     (1, ''test[0-5]'', ''[[0,4,2,1],[4,2,4,1]]'', 6, 16),
     (1, ''test[0-5]'', ''[[0,6,1,2],[4,2,1,2]]'', 6, 16),
     (1, ''test[0-5]'', ''[[5,1,4,1],[4,1,4,1],[3,1,2,1],[2,1,2,1],[1,1,2,1],[0,1,2,1]]'', 6, 16),
     (1, ''test[0-7]'', ''[[0,5,2,1],[6,1,2,1],[5,1,2,1],[7,1,2,1]]'', 8, 16),
     (1, ''test[0-3]'', ''[[3,1,4,1],[2,1,4,1],[1,1,4,1],[0,1,4,1]]'', 4, 16)]"

section \<open>The tests\<close>

text \<open>\<open>uw_names\<close> is what \<^verbatim>\<open>hostlist_first\<close> and \<^verbatim>\<open>hostlist_next\<close> run through, nothing for a null pointer.\<close>

fun equal_hostlists :: "string list \<Rightarrow> string list \<Rightarrow> bool" where
  "equal_hostlists [] [] = True"
| "equal_hostlists (host1 # hosts1) (host2 # hosts2) = (if strcmp host1 host2 \<noteq> 0 then False else equal_hostlists hosts1 hosts2)"
| "equal_hostlists _ _ = False"

definition names_of :: "('hl, 't, 'i) unit_world \<Rightarrow> 'hl option \<Rightarrow> string list" where
  "names_of W h = (case h of None \<Rightarrow> [] | Some l \<Rightarrow> uw_names W l)"

definition equal_taskmaps :: "('hl, 't, 'i) unit_world \<Rightarrow> 't option \<Rightarrow> 't option \<Rightarrow> bool" where
  "equal_taskmaps W t1 t2 =
     (case (Option.bind t1 (uw_encode W), Option.bind t2 (uw_encode W)) of
        (Some m1, Some m2) \<Rightarrow> strcmp m1 m2 = 0
      | _ \<Rightarrow> False)"

text \<open>\<^verbatim>\<open>ok\<close> at a line of the test.\<close>

definition ok_call :: "int \<Rightarrow> bool \<Rightarrow> string \<Rightarrow> tap_call" where
  "ok_call line test name = Ok ''test/apinfo.c'' line (of_bool test) (Some name)"

definition is_error :: "errno + 'a \<Rightarrow> errno \<Rightarrow> bool" where
  "is_error r e = (case r of Inl e' \<Rightarrow> e' = e | Inr _ \<Rightarrow> False)"

definition check_text :: "(string \<times> errno) + unit \<Rightarrow> string" where
  "check_text r = (case r of Inl (t, _) \<Rightarrow> t | Inr _ \<Rightarrow> '''')"

definition check_errno :: "(string \<times> errno) + unit \<Rightarrow> errno + unit" where
  "check_errno r = (case r of Inl (_, e) \<Rightarrow> Inl e | Inr _ \<Rightarrow> Inr ())"

definition unit_check ::
  "('hl, 't, 'i) unit_world \<Rightarrow> string \<Rightarrow> ('hl, 't) apinfo option \<Rightarrow> unit_input
     \<Rightarrow> (tap_call list \<times> int \<times> ('hl, 't) apinfo option) option" where
  "unit_check W path ap inp = (case (uw_hosts W (hosts_in inp), uw_map W (taskmap_in inp)) of
       (Some hosts, Some tm) \<Rightarrow>
         (let (ap, r) = apinfo_set_hostlist (uw_env W) (uw_calloc W) ap (Some hosts) in
          if \<not> is_ok r then Some ([], -1, ap)
          else do {
            (ap, r) \<leftarrow> apinfo_set_taskmap (uw_env W) (uw_calloc W) ap (Some tm) (cpus_in inp);
            if \<not> is_ok r then Some ([], -1, ap)
            else if apinfo_get_nnodes (uw_env W) ap \<noteq> nnodes_out inp then Some ([], -1, ap)
            else if apinfo_get_npes (uw_env W) ap \<noteq> npes_out inp then Some ([], -1, ap)
            else let (ap, h) = apinfo_get_hostlist (uw_env W) ap in
              if \<not> equal_hostlists (names_of W (pointer h)) (names_of W (Some hosts)) then Some ([], -1, ap)
              else let (ap, t) = apinfo_get_taskmap (uw_env W) ap in
                if \<not> equal_taskmaps W (pointer t) (Some tm) then Some ([], -1, ap)
                else (case apinfo_check (uw_env W) ap of
                    Inl (text, _) \<Rightarrow> Some ([Diag (Some text)], -1, ap)
                  | Inr _ \<Rightarrow>
                      if \<not> is_ok (snd (apinfo_put (uw_env W) (uw_fs W) ap (Some path))) then Some ([], -1, ap)
                      else Some ([], 0, ap))
          })
     | _ \<Rightarrow> Some ([BailOut ''error decoding test input''], -1, ap))"

fun good_loop ::
  "('hl, 't, 'i) unit_world \<Rightarrow> string \<Rightarrow> unit_input list \<Rightarrow> ('hl, 't) apinfo option \<Rightarrow> tap_call list option" where
  "good_loop W path [] ap = Some []"
| "good_loop W path (inp # inps) ap = do {
     (calls, rc, ap) \<leftarrow> unit_check W path ap inp;
     rest \<leftarrow> good_loop W path inps ap;
     Some (calls @ [ok_call 117 (rc = 0) (''checked '' @ hosts_in inp @ '' '' @ taskmap_in inp @ '' '' @ dec_of_int (cpus_in inp))] @ rest)
   }"

definition test_good :: "('hl, 't, 'i) unit_world \<Rightarrow> string \<Rightarrow> int \<Rightarrow> tap_call list option" where
  "test_good W path ver = (case apinfo_create (uw_env W) (uw_mem W) (uw_calloc W) ver of
       Inl _ \<Rightarrow> Some [BailOut ''apinfo_create failed'']
     | Inr ap \<Rightarrow> good_loop W path good_inputs (Some ap))"

definition test_empty :: "('hl, 't, 'i) unit_world \<Rightarrow> string \<Rightarrow> int \<Rightarrow> tap_call list" where
  "test_empty W path ver =
     (let r = apinfo_create (uw_env W) (uw_mem W) (uw_calloc W) ver;
          ap = (case r of Inl _ \<Rightarrow> None | Inr a \<Rightarrow> Some a);
          (contents, put) = apinfo_put (uw_env W) (uw_fs W) ap (Some path);
          st_size = (case contents of None \<Rightarrow> 0 | Some bytes \<Rightarrow> length bytes)
      in [ok_call 127 (is_ok r) (''apinfo_create version='' @ dec_of_int ver @ '' works''),
          ok_call 129 (is_ok (apinfo_check (uw_env W) ap)) ''apinfo_check says good!'',
          ok_call 131 (is_ok put) ''apinfo_put works'',
          ok_call 133 (st_size = unat (apinfo_get_size (uw_env W) ap)) ''file size matches apinfo_get_size''])"

definition test_check :: "('hl, 't, 'i) unit_world \<Rightarrow> int \<Rightarrow> tap_call list option" where
  "test_check W ver = (case apinfo_create (uw_env W) (uw_mem W) (uw_calloc W) ver of
       Inl _ \<Rightarrow> Some [BailOut ''apinfo_create failed'']
     | Inr ap \<Rightarrow> (case uw_map W ''[[0,2,1,1]]'' of
         None \<Rightarrow> Some [BailOut ''taskmap_decode failed'']
       | Some tm \<Rightarrow> (case uw_hosts W ''test[0-3]'' of
           None \<Rightarrow> Some [BailOut ''taskmap_decode failed'']
         | Some hosts \<Rightarrow> do {
             (ap, r) \<leftarrow> apinfo_set_taskmap (uw_env W) (uw_calloc W) (Some ap) (Some tm) 1;
             if \<not> is_ok r then Some [BailOut ''apinfo_set_taskmap failed'']
             else let c1 = apinfo_check (uw_env W) ap;
                      calls = [ok_call 157 (is_error (check_errno c1) EINVAL) ''apinfo_check finds pe referencing invalid nodeid'',
                        Diag (Some (check_text c1))];
                      (ap, r) = apinfo_set_hostlist (uw_env W) (uw_calloc W) ap (Some hosts)
               in if \<not> is_ok r then Some (calls @ [BailOut ''apinfo_set_hostlist failed''])
               else let c2 = apinfo_check (uw_env W) ap in
                 Some (calls @ [ok_call 166 (is_error (check_errno c2) EINVAL) ''apinfo_check finds unreferenced nodeid'',
                   Diag (Some (check_text c2))])
           })))"

definition test_inval :: "('hl, 't, 'i) unit_world \<Rightarrow> int \<Rightarrow> tap_call list option" where
  "test_inval W ver = (case apinfo_create (uw_env W) (uw_mem W) (uw_calloc W) ver of
       Inl _ \<Rightarrow> Some [BailOut ''apinfo_create failed'']
     | Inr ap \<Rightarrow> (case uw_hosts W ''test[0-1]'' of
         None \<Rightarrow> Some [BailOut ''hostlist_decode failed'']
       | Some hosts \<Rightarrow> (case uw_map W ''[[0,2,1,1]]'' of
           None \<Rightarrow> Some [BailOut ''taskmap_decode failed'']
         | Some tm \<Rightarrow>
             (let E = uw_env W; m = uw_calloc W; c = apinfo_check E None in do {
               (_, set_null_map) \<leftarrow> apinfo_set_taskmap E m None (Some tm) 1;
               (_, set_no_map) \<leftarrow> apinfo_set_taskmap E m (Some ap) None 1;
               Some [
                 ok_call 189 (is_error (apinfo_create E (uw_mem W) m 42) ENOENT) ''apinfo_create version=42 fails with ENOENT'',
                 ok_call 193 (is_error (check_errno c) EINVAL) ''apinfo_check ap=NULL fails with EINVAL'',
                 Diag (Some (check_text c)),
                 ok_call 197 (is_error (snd (apinfo_write E None (Some \<lparr>written = [], room = 0\<rparr>))) EINVAL)
                   ''apinfo_write ap=NULL fails with EINVAL'',
                 ok_call 200 (is_error (snd (apinfo_write E (Some ap) None)) EINVAL) ''apinfo_write stream=NULL fails with EINVAL'',
                 ok_call 203 (is_error (snd (apinfo_put E (uw_fs W) None (Some ''foo''))) EINVAL) ''apinfo_put ap=NULL fails with EINVAL'',
                 ok_call 205 (is_error (snd (apinfo_put E (uw_fs W) (Some ap) None)) EINVAL) ''apinfo_put path=NULL fails with EINVAL'',
                 ok_call 207 (is_error (snd (apinfo_set_hostlist E m (Some ap) None)) EINVAL)
                   ''apinfo_set_hostlist hosts=NULL fails with EINVAL'',
                 ok_call 210 (is_error (snd (apinfo_set_hostlist E m None (Some hosts))) EINVAL)
                   ''apinfo_set_hostlist ap=NULL fails with EINVAL'',
                 ok_call 213 (is_error (snd (apinfo_get_hostlist E None)) EINVAL) ''apinfo_get_hostlist ap=NULL fails with EINVAL'',
                 ok_call 216 (is_error set_null_map EINVAL) ''apinfo_set_taskmap ap=NULL fails with EINVAL'',
                 ok_call 219 (is_error set_no_map EINVAL) ''apinfo_set_taskmap map=NULL fails with EINVAL'',
                 ok_call 222 (is_error (snd (apinfo_get_taskmap E None)) EINVAL) ''apinfo_get_taskmap map=NULL fails with EINVAL'',
                 Dies False (apinfo_destroy (None :: ('hl, 't) apinfo option) = None) ''test/apinfo.c'' 225 (Some (''apinfo_destroy NULL doesn'' @ CHR 0x27 # ''t crash''))]
             }))))"

definition test_version :: "('hl, 't, 'i) unit_world \<Rightarrow> string \<Rightarrow> int \<Rightarrow> tap_call list option" where
  "test_version W path ver = do {
     calls1 \<leftarrow> test_good W path ver;
     calls2 \<leftarrow> test_check W ver;
     calls3 \<leftarrow> test_inval W ver;
     Some (test_empty W path ver @ calls1 @ calls2 @ calls3)
   }"

definition unit_main :: "('hl, 't, 'i) unit_world \<Rightarrow> string \<Rightarrow> tap_call list option" where
  "unit_main W path =
     (if \<not> uw_mkstemp W then Some [Plan NO_PLAN None, BailOut ''mkstemp failed'']
      else do {
        calls1 \<leftarrow> test_version W path 1;
        calls5 \<leftarrow> test_version W path 5;
        Some (Plan NO_PLAN None # Diag (Some ''testing APINFO v1'') # calls1 @ Diag (Some ''testing APINFO v5'') # calls5)
      })"

section \<open>Programs whose tests pass\<close>

definition passing :: "tap_call \<Rightarrow> bool" where
  "passing c \<longleftrightarrow> proper_call c \<and> \<not> todo_after c False \<and> plan_after c NO_PLAN = NO_PLAN
     \<and> (\<forall>r \<in> set (call_points c False). r = (True, False))"

definition passes :: "nat \<Rightarrow> tap_call list \<Rightarrow> bool" where
  "passes n calls \<longleftrightarrow> list_all passing calls \<and> length (concat (map (\<lambda>c. call_points c False) calls)) = n"

lemma passes_simps [simp]: "passes 0 []" "passes n (Diag fmt # calls) \<longleftrightarrow> passes n calls"
  "passes n (Plan NO_PLAN fmt # calls) \<longleftrightarrow> passes n calls"
  by (simp_all add: passes_def passing_def NO_PLAN_def SKIP_ALL_def)

lemma passes_append: "passes n calls \<Longrightarrow> passes n' calls' \<Longrightarrow> passes (n + n') (calls @ calls')"
  by (simp add: passes_def)

lemma plain_Some: "plain (Some name) \<longleftrightarrow> line_feed \<notin> set name \<and> CHR ''#'' \<notin> set name"
  by (simp add: plain_def vstrdupf_def)

lemma no_marks [simp]: "CHR ''#'' \<notin> set (dec_of_int i)" "CHR 0x0A \<notin> set (dec_of_int i)"
  using digit_no_mark [of "CHR ''#''"] digit_no_mark [of "CHR 0x0A"] by (auto simp: dec_of_int_def line_feed_def)

lemma passes_ok: "plain (Some name) \<Longrightarrow> passes (Suc n) (ok_call line True name # calls) \<longleftrightarrow> passes n calls"
  by (simp add: passes_def passing_def ok_call_def line_feed_def)

lemma passes_points: "passes n calls \<Longrightarrow> program_points calls False = replicate n (True, False)
    \<and> fold plan_after calls NO_PLAN = NO_PLAN \<and> (\<forall>c \<in> set calls. proper_call c)"
proof (induction calls arbitrary: n)
  case (Cons c calls)
  from Cons.prems have c: "proper_call c" "todo_after c False = False" "plan_after c NO_PLAN = NO_PLAN"
    "call_points c False = replicate (length (call_points c False)) (True, False)"
    and n: "n = length (call_points c False) + length (concat (map (\<lambda>c. call_points c False) calls))" "list_all passing calls"
    by (auto simp: passes_def passing_def intro!: replicate_eqI)
  from Cons.IH [of "length (concat (map (\<lambda>c. call_points c False) calls))"] n(2)
  have "program_points calls False = replicate (length (concat (map (\<lambda>c. call_points c False) calls))) (True, False)"
    "fold plan_after calls NO_PLAN = NO_PLAN" "\<forall>c \<in> set calls. proper_call c" by (simp_all add: passes_def)
  with c n(1) show ?case by (simp add: replicate_add) 
qed (simp add: passes_def)

text \<open>A program whose tests pass exits with 0, and its output has a passed test for each of them.\<close>

lemma passing_program:
  assumes "passes n calls"
  shows "\<exists>s. run_program calls tap_start = Some (0, s) \<and> read_report (stdout s) = map (\<lambda>k. (True, k, False)) [1..<Suc n]"
proof -
  note P = passes_points [OF assms]
  have start: "recorded tap_start []"
    by (simp add: recorded_def tap_start_def read_report_def map_filter_def failures_def)
  obtain s where s: "run_program calls tap_start = Some (exit_status s)" "recorded s (replicate n (True, False))"
    "expected_tests s = NO_PLAN"
    using program_recorded [OF start, of calls] P by (auto simp: tap_start_def)
  have "failures (replicate n (True, False)) = 0" by (simp add: failures_def)
  with exit_status_result [OF s(2)] s(3) have "exit_status s = (0, snd (exit_status s))"
    "recorded (snd (exit_status s)) (replicate n (True, False))" by (simp_all add: prod_eq_iff verdict_def)
  moreover have "report_from m (replicate n (True, False)) = map (\<lambda>k. (True, k, False)) [m..<m + n]" for m
    by (induction n arbitrary: m) (simp_all add: upt_rec)
  ultimately show ?thesis using s(1) by (auto simp: recorded_def)
qed

section \<open>The functions that the test relies on\<close>

text \<open>
  What the texts in the test mean: the hosts \<open>test0\<close> to \<open>test\<close>\<open>n-1\<close>, and the blocks of RFC 34, each a first node, a
  number of nodes, of tasks on each node, and of repetitions.
\<close>

definition numbered_hosts :: "nat \<Rightarrow> string list" where
  "numbered_hosts n = map (\<lambda>k. ''test'' @ dec_of_nat k) [0..<n]"

definition blocks :: "(nat \<times> nat \<times> nat \<times> nat) list \<Rightarrow> nat list" where
  "blocks bs = concat (map (\<lambda>(first, nodes, ppn, repeat).
     concat (replicate repeat (concat (map (replicate ppn) [first..<first + nodes])))) bs)"

definition host_texts :: "(string \<times> nat) list" where
  "host_texts = [(''test0'', 1), (''test[0-1]'', 2), (''test[0-3]'', 4), (''test[0-5]'', 6), (''test[0-7]'', 8)]"

definition map_texts :: "(string \<times> (nat \<times> nat \<times> nat \<times> nat) list) list" where
  "map_texts =
    [(''[[0,1,1,1]]'', [(0,1,1,1)]),
     (''[[0,2,1,1]]'', [(0,2,1,1)]),
     (''[[0,1,2,1]]'', [(0,1,2,1)]),
     (''[[0,2,2,1]]'', [(0,2,2,1)]),
     (''[[0,2,1,2]]'', [(0,2,1,2)]),
     (''[[1,1,1,1],[0,1,1,1]]'', [(1,1,1,1), (0,1,1,1)]),
     (''[[0,4,4,1]]'', [(0,4,4,1)]),
     (''[[0,4,1,4]]'', [(0,4,1,4)]),
     (''[[0,4,2,2]]'', [(0,4,2,2)]),
     (''[[0,4,2,1],[4,2,4,1]]'', [(0,4,2,1), (4,2,4,1)]),
     (''[[0,6,1,2],[4,2,1,2]]'', [(0,6,1,2), (4,2,1,2)]),
     (''[[5,1,4,1],[4,1,4,1],[3,1,2,1],[2,1,2,1],[1,1,2,1],[0,1,2,1]]'',
        [(5,1,4,1), (4,1,4,1), (3,1,2,1), (2,1,2,1), (1,1,2,1), (0,1,2,1)]),
     (''[[0,5,2,1],[6,1,2,1],[5,1,2,1],[7,1,2,1]]'', [(0,5,2,1), (6,1,2,1), (5,1,2,1), (7,1,2,1)]),
     (''[[3,1,4,1],[2,1,4,1],[1,1,4,1],[0,1,4,1]]'', [(3,1,4,1), (2,1,4,1), (1,1,4,1), (0,1,4,1)])]"

lemma equal_hostlists_eq [simp]: "equal_hostlists xs ys \<longleftrightarrow> xs = ys"
  by (induction xs ys rule: equal_hostlists.induct) auto

lemma passes_dies: "plain (Some name) \<Longrightarrow> passes (Suc n) (Dies b b ''test/apinfo.c'' line (Some name) # calls) \<longleftrightarrow> passes n calls"
  by (simp add: passes_def passing_def line_feed_def)

text \<open>A check that finds something wrong says \<^verbatim>\<open>EINVAL\<close>.\<close>

lemma check_error: "is_error (check_errno (check_sections ps np ns nn)) EINVAL \<longleftrightarrow> check_sections ps np ns nn \<noteq> Inr ()"
  by (simp add: check_sections_def check_errno_def is_error_def split: option.split)

text \<open>An input whose tasks run on all its hosts and only there, with the counts that it should give.\<close>

definition sound_input :: "unit_input \<Rightarrow> bool" where
  "sound_input inp \<longleftrightarrow> (case (map_of host_texts (hosts_in inp), map_of map_texts (taskmap_in inp)) of
       (Some n, Some bs) \<Rightarrow> n \<le> 8 \<and> length (blocks bs) \<le> 16
         \<and> list_all (\<lambda>k. k < n) (blocks bs) \<and> list_all (\<lambda>k. k \<in> set (blocks bs)) [0..<n]
         \<and> nnodes_out inp = int n \<and> npes_out inp = int (length (blocks bs))
         \<and> plain (Some (hosts_in inp)) \<and> plain (Some (taskmap_in inp))
     | _ \<Rightarrow> False)"

lemma good_inputs_sound: "list_all sound_input good_inputs"
  by (simp add: good_inputs_def sound_input_def host_texts_def map_texts_def blocks_def plain_Some line_feed_def upt_rec
      eval_nat_numeral)

text \<open>The libraries as documented, with enough memory and a file system that holds the file.\<close>

locale unit_test_libs =
  fixes W :: "('hl, 't, 'i) unit_world" and elems :: "'i \<Rightarrow> nat set" and tasks :: "'t \<Rightarrow> nat list"
    and hosts :: "'hl \<Rightarrow> string list" and expand :: "string \<Rightarrow> string list option"
  assumes good: "good_env (uw_env W) elems tasks"
    and host_lib: "hostlist_lib (env_hosts (uw_env W)) hosts expand"
    and memory: "uw_mem W" "calloc_handle (uw_calloc W)" "calloc_cmds (uw_calloc W)" "calloc_pes (uw_calloc W)"
      "calloc_nodes (uw_calloc W)"
    and files: "uw_mkstemp W" "\<exists>n. open_room (uw_fs W) = Inr n \<and> 2 ^ 64 \<le> n" "close_ok (uw_fs W)"
    and hosts_room: "hostlist_create (env_hosts (uw_env W)) \<noteq> None"
      "expand s \<noteq> None \<Longrightarrow> hostlist_append (env_hosts (uw_env W)) h s \<noteq> None"
    and tasks_room: "taskmap_create (env_tasks (uw_env W)) \<noteq> None"
      "length (tasks t) < 2 ^ 30 \<Longrightarrow> n < 2 ^ 30 \<Longrightarrow> taskmap_append (env_tasks (uw_env W)) t (int n) 1 1 \<noteq> None"
    and names: "uw_names W = hosts"
    and encode: "uw_encode W t \<noteq> None" "tasks t = tasks t' \<Longrightarrow> uw_encode W t = uw_encode W t'"
    and decode_hosts: "(text, n) \<in> set host_texts \<Longrightarrow> \<exists>h. uw_hosts W text = Some h \<and> hosts h = numbered_hosts n"
    and decode_map: "(text, bs) \<in> set map_texts \<Longrightarrow> \<exists>t. uw_map W text = Some t \<and> tasks t = blocks bs"
    and plain_name: "k < 8 \<Longrightarrow> expand (''test'' @ dec_of_nat k) = Some [''test'' @ dec_of_nat k]"
begin

abbreviation E :: "('hl, 't, 'i) apinfo_env" where "E \<equiv> uw_env W"

lemma created:
  assumes "ver = 1 \<or> ver = 5"
  shows "\<exists>a. apinfo_create E (uw_mem W) (uw_calloc W) ver = Inr a \<and> ap_ok ver a \<and> ap_pes a = [] \<and> ap_nodes a = []"
proof -
  note B = backend [OF good assms]
  obtain a where a: "apinfo_create E True (uw_calloc W) ver = Inr a"
    using apinfo_backend.create_total [OF B, of "uw_calloc W"] memory by (auto simp: front_def is_ok_iff)
  then show ?thesis using apinfo_backend.create_ok [OF B, of "uw_calloc W" a] memory(1) by (simp add: front_def)
qed

lemma hostlist_set:
  assumes "ver = 1 \<or> ver = 5" and "ap_ok ver a" and "length (hosts h) < 2 ^ 31"
  shows "\<exists>a'. apinfo_set_hostlist E (uw_calloc W) (Some a) (Some h) = (Some a', Inr ()) \<and> ap_ok ver a'
    \<and> ap_pes a' = ap_pes a \<and> ap_nodes a' = fill_nodes (env_hosts E) h (length (hosts h))"
proof -
  note B = backend [OF good assms(1)]
  have n: "hostlist_count (env_hosts E) h = length (hosts h)" using hostlist_lib.count_hosts [OF host_lib] .
  obtain a' r where s: "impl_set_hostlist (front E ver) (uw_calloc W) a h = (a', r)"
    by (cases "impl_set_hostlist (front E ver) (uw_calloc W) a h")
  have i: "int (hostlist_count (env_hosts E) h) < 2 ^ 31" unfolding n using assms(3) by simp
  from apinfo_backend.hostlist_ok [OF B assms(2) i s] memory n
  have r: "r = Inr ()" "ap_ok ver a'" "ap_pes a' = ap_pes a" "ap_nodes a' = fill_nodes (env_hosts E) h (length (hosts h))"
    by simp_all
  have "apinfo_set_hostlist E (uw_calloc W) (Some a) (Some h) = (Some a', Inr ())"
    using s r(1) by (cases a) (simp_all add: front_def apinfo_set_hostlist_def map_prod_Some)
  with r show ?thesis by blast
qed

lemma taskmap_set:
  assumes "ver = 1 \<or> ver = 5" and "ap_ok ver a"
  shows "\<exists>a'. apinfo_set_taskmap E (uw_calloc W) (Some a) (Some t) cpus = Some (Some a', Inr ()) \<and> ap_ok ver a'
    \<and> ap_pes a' = pes_of (tasks t) \<and> ap_nodes a' = ap_nodes a"
proof -
  obtain a' where s: "impl_set_taskmap (front E ver) (uw_calloc W) a t cpus = Some (a', Inr ())" "ap_ok ver a'"
    "ap_pes a' = pes_of (tasks t)" "ap_nodes a' = ap_nodes a"
    using apinfo_backend.taskmap_ok [OF backend [OF good assms(1)] assms(2), of "uw_calloc W" t cpus] memory by auto
  have "apinfo_set_taskmap E (uw_calloc W) (Some a) (Some t) cpus = Some (Some a', Inr ())"
    using s(1) by (cases a) (auto simp: front_def apinfo_set_taskmap_def split: prod.splits)
  with s show ?thesis by blast
qed

lemma checked:
  assumes "ver = 1 \<or> ver = 5" and "ap_ok ver a"
  shows "apinfo_check E (Some a) = check_sections (ap_pes a) (int (length (ap_pes a))) (ap_nodes a) (int (length (ap_nodes a)))"
    and "apinfo_get_nnodes E (Some a) = int (length (ap_nodes a))" and "apinfo_get_npes E (Some a) = int (length (ap_pes a))"
    and "\<exists>bytes. apinfo_put E (uw_fs W) (Some a) (Some path) = (Some bytes, Inr ()) \<and> length bytes = unat (apinfo_get_size E (Some a))"
proof -
  note B = backend [OF good assms(1)]
  show "apinfo_check E (Some a) = check_sections (ap_pes a) (int (length (ap_pes a))) (ap_nodes a) (int (length (ap_nodes a)))"
    using apinfo_backend.check_ok [OF B assms(2)] by (simp add: front_def)
  show "apinfo_get_nnodes E (Some a) = int (length (ap_nodes a))" "apinfo_get_npes E (Some a) = int (length (ap_pes a))"
    using apinfo_backend.counts_ok [OF B assms(2)] by (simp_all add: front_def)
  have sz: "unat (apinfo_get_size E (Some a)) = length (ap_image a)"
    using apinfo_backend.size_ok [OF B assms(2)] by (simp add: front_def)
  obtain n where n: "open_room (uw_fs W) = Inr n" "2 ^ 64 \<le> n" using files(2) by blast
  have "length (ap_image a) < 2 ^ 64" using unsigned_less [where 'a = nat, of "apinfo_get_size E (Some a)"] by (simp add: sz)
  with n(2) have room: "length (ap_image a) \<le> n" by simp
  obtain st r where w: "impl_write (front E ver) a \<lparr>written = [], room = n\<rparr> = (st, r)"
    by (cases "impl_write (front E ver) a \<lparr>written = [], room = n\<rparr>")
  from apinfo_backend.write_ok [OF B assms(2), of "\<lparr>written = [], room = n\<rparr>"] w room
  have "r = Inr ()" "written st = ap_image a" by (auto simp: write_result_def)
  with put_of_write [OF n(1) w, of path] files(3) sz
  show "\<exists>bytes. apinfo_put E (uw_fs W) (Some a) (Some path) = (Some bytes, Inr ()) \<and> length bytes = unat (apinfo_get_size E (Some a))"
    by simp
qed

lemma hosts_append:
  "list_all (\<lambda>n. expand (c_string (hostname n)) \<noteq> None) ns \<Longrightarrow> \<exists>h'. append_nodes (env_hosts E) h ns = Some h'"
proof (induction ns arbitrary: h)
  case (Cons n ns)
  then obtain h1 where "hostlist_append (env_hosts E) h (c_string (hostname n)) = Some h1"
    using hosts_room(2) [of "c_string (hostname n)" h] by auto
  with Cons show ?case by simp
qed simp

lemma tasks_append:
  "list_all (\<lambda>p. 0 \<le> nodeidx p \<and> nodeidx p < 2 ^ 30) ps \<Longrightarrow> length (tasks t) + length ps \<le> 2 ^ 30
    \<Longrightarrow> \<exists>t'. append_pes (env_tasks E) t ps = Some t'"
proof (induction ps arbitrary: t)
  case (Cons p ps)
  define n where "n = nat (nodeidx p)"
  with Cons.prems(1) have n: "nodeidx p = int n" "n < 2 ^ 30" by auto
  then obtain t1 where t1: "taskmap_append (env_tasks E) t (int n) 1 1 = Some t1"
    using tasks_room(2) [of t n] Cons.prems(2) by auto
  have "tasks t1 = tasks t @ [n]" using taskmap_lib.append_tasks [OF good t1] .
  with Cons.IH [of t1] Cons.prems n t1 show ?case by simp
qed simp

text \<open>The names of the hosts of the test are plain, and fit in a node entry.\<close>

lemma numbered_names:
  assumes "hosts h = numbered_hosts n" and "n \<le> 8"
  shows "\<forall>s \<in> set (hosts h). length s \<le> 63 \<and> NUL \<notin> set s \<and> expand s = Some [s]"
proof
  fix s assume "s \<in> set (hosts h)"
  then obtain k where "k < n" and s: "s = ''test'' @ dec_of_nat k" unfolding assms(1) numbered_hosts_def by auto
  with assms(2) have k: "k < 8" by simp
  then have "length (dec_of_nat k) = 1" by (subst dec_of_nat.simps) simp
  moreover have "NUL \<notin> set (dec_of_nat k)" using dec_of_nat_digits [of NUL k] by (auto simp: char_digit_def)
  ultimately show "length s \<le> 63 \<and> NUL \<notin> set s \<and> expand s = Some [s]"
    using plain_name [OF k(1)] by (simp add: s)
qed

text \<open>The host list and the task map come back from an object that has their nodes and tasks.\<close>

lemma hostlist_back:
  assumes "ver = 1 \<or> ver = 5" and "ap_ok ver a" and "ap_nodes a = fill_nodes (env_hosts E) h (length (hosts h))"
    and "hosts h = numbered_hosts n" and "n \<le> 8"
  shows "\<exists>a' h'. apinfo_get_hostlist E (Some a) = (Some a', Inr h') \<and> hosts h' = hosts h
    \<and> ap_ok ver a' \<and> ap_pes a' = ap_pes a \<and> ap_nodes a' = ap_nodes a"
proof -
  note B = backend [OF good assms(1)] and N = numbered_names [OF assms(4,5)]
  let ?ns = "fill_nodes (env_hosts E) h (length (hosts h))"
  have names: "map (c_string \<circ> hostname) ?ns = hosts h"
    by (rule names_of_nodes [OF host_lib]) (use N in blast)
  have plain: "list_all (\<lambda>n. expand (c_string (hostname n)) = Some [c_string (hostname n)]) ?ns"
    unfolding list_all_iff
  proof
    fix x assume "x \<in> set ?ns"
    then have "c_string (hostname x) \<in> set (map (c_string \<circ> hostname) ?ns)" by simp
    then show "expand (c_string (hostname x)) = Some [c_string (hostname x)]" unfolding names using N by simp
  qed
  obtain h0 where h0: "hostlist_create (env_hosts E) = Some h0" using hosts_room(1) by blast
  have "list_all (\<lambda>n. expand (c_string (hostname n)) \<noteq> None) ?ns" using plain by (simp add: list_all_iff)
  then obtain h' where h': "append_nodes (env_hosts E) h0 ?ns = Some h'" using hosts_append by blast
  have same: "hosts h' = hosts h"
    using append_nodes_plain [OF host_lib h' plain] hostlist_lib.create_hosts [OF host_lib h0] names by simp
  obtain a' hr where g: "impl_get_hostlist (front E ver) a = (a', hr)" by (cases "impl_get_hostlist (front E ver) a")
  note H = apinfo_backend.get_hostlist_law [OF B assms(2) g]
  have hr: "hr = Some h'" using H assms(3) h0 h' by simp
  have "apinfo_get_hostlist E (Some a) = (Some a', Inr h')"
    using g hr by (simp add: front_gets)
  with H same show ?thesis by blast
qed

lemma taskmap_back:
  assumes "ver = 1 \<or> ver = 5" and "ap_ok ver a" and "ap_pes a = pes_of (tasks t)"
    and "length (tasks t) \<le> 2 ^ 30" and "\<forall>k \<in> set (tasks t). k < 2 ^ 30"
  shows "\<exists>a' t'. apinfo_get_taskmap E (Some a) = (Some a', Inr t') \<and> tasks t' = tasks t
    \<and> ap_ok ver a' \<and> ap_pes a' = ap_pes a \<and> ap_nodes a' = ap_nodes a"
proof -
  note B = backend [OF good assms(1)]
  obtain t0 where t0: "taskmap_create (env_tasks E) = Some t0" using tasks_room(1) by blast
  note e = taskmap_lib.create_tasks [OF good t0]
  have r: "list_all (\<lambda>p. 0 \<le> nodeidx p \<and> nodeidx p < 2 ^ 30) (pes_of (tasks t))"
    using assms(5) by (auto simp: list_all_iff pes_of_def pe_of_def)
  obtain t' where t': "append_pes (env_tasks E) t0 (pes_of (tasks t)) = Some t'"
    using tasks_append [OF r, of t0] assms(4) e by auto
  have p: "list_all (\<lambda>p. 0 \<le> nodeidx p) (pes_of (tasks t))" using r by (simp add: list_all_iff)
  have same: "tasks t' = tasks t"
    using taskmap_lib.append_pes_spec [OF good t' p] e by (simp add: nodeidx_pes_of)
  obtain a' tr where g: "impl_get_taskmap (front E ver) a = (a', tr)" by (cases "impl_get_taskmap (front E ver) a")
  note T = apinfo_backend.get_taskmap_law [OF B assms(2) g]
  have tr: "tr = Some t'" using T assms(3) t0 t' by simp
  have "apinfo_get_taskmap E (Some a) = (Some a', Inr t')"
    using g tr by (simp add: front_gets)
  with T same show ?thesis by blast
qed

text \<open>A sound input is decoded, and its tasks run on all the hosts.\<close>

lemma input_decoded:
  assumes "sound_input inp"
  obtains n h t where "uw_hosts W (hosts_in inp) = Some h" "hosts h = numbered_hosts n" "n \<le> 8" "length (hosts h) = n"
    "hostlist_count (env_hosts E) h = n" "uw_map W (taskmap_in inp) = Some t" "length (tasks t) \<le> 16" "set (tasks t) = {..<n}"
    "nnodes_out inp = int n" "npes_out inp = int (length (tasks t))"
proof -
  obtain n bs where nb: "(hosts_in inp, n) \<in> set host_texts" "(taskmap_in inp, bs) \<in> set map_texts"
    and b: "n \<le> 8" "length (blocks bs) \<le> 16" "\<forall>k \<in> set (blocks bs). k < n" "\<forall>k < n. k \<in> set (blocks bs)"
    "nnodes_out inp = int n" "npes_out inp = int (length (blocks bs))"
    using assms by (auto simp: sound_input_def list_all_iff split: option.splits dest!: map_of_SomeD)
  obtain h where h: "uw_hosts W (hosts_in inp) = Some h" "hosts h = numbered_hosts n" using decode_hosts [OF nb(1)] by blast
  obtain t where t: "uw_map W (taskmap_in inp) = Some t" "tasks t = blocks bs" using decode_map [OF nb(2)] by blast
  have hn: "length (hosts h) = n" by (simp add: h(2) numbered_hosts_def)
  then have "hostlist_count (env_hosts E) h = n" using hostlist_lib.count_hosts [OF host_lib, of h] by simp
  moreover have "set (tasks t) = {..<n}" using b(3,4) by (auto simp: t(2))
  ultimately show ?thesis using that h t hn b by simp
qed

lemma unit_check_passes:
  assumes "ver = 1 \<or> ver = 5" and "ap_ok ver a" and "sound_input inp"
  shows "\<exists>a'. unit_check W path (Some a) inp = Some ([], 0, Some a') \<and> ap_ok ver a'"
proof -
  obtain n h t where h: "uw_hosts W (hosts_in inp) = Some h" "hosts h = numbered_hosts n" and n8: "n \<le> 8"
    and hn: "length (hosts h) = n" and cnt: "hostlist_count (env_hosts E) h = n" and t: "uw_map W (taskmap_in inp) = Some t"
    and b16: "length (tasks t) \<le> 16" and set_t: "set (tasks t) = {..<n}"
    and out: "nnodes_out inp = int n" "npes_out inp = int (length (tasks t))"
    using input_decoded [OF assms(3)] .
  obtain a1 where a1: "apinfo_set_hostlist E (uw_calloc W) (Some a) (Some h) = (Some a1, Inr ())" "ap_ok ver a1"
    "ap_nodes a1 = fill_nodes (env_hosts E) h (length (hosts h))"
    using hostlist_set [OF assms(1,2), of h] hn n8 by auto
  obtain a2 where a2: "apinfo_set_taskmap E (uw_calloc W) (Some a1) (Some t) (cpus_in inp) = Some (Some a2, Inr ())"
    "ap_ok ver a2" "ap_pes a2 = pes_of (tasks t)" "ap_nodes a2 = ap_nodes a1"
    using taskmap_set [OF assms(1) a1(2)] by blast
  have nodes2: "ap_nodes a2 = fill_nodes (env_hosts E) h (length (hosts h))" using a1(3) a2(4) by simp
  obtain a3 h' where a3: "apinfo_get_hostlist E (Some a2) = (Some a3, Inr h')" "hosts h' = hosts h" "ap_ok ver a3"
    "ap_pes a3 = ap_pes a2" "ap_nodes a3 = ap_nodes a2"
    using hostlist_back [OF assms(1) a2(2) nodes2 h(2) n8] by blast
  have pes3: "ap_pes a3 = pes_of (tasks t)" using a2(3) a3(4) by simp
  have small: "length (tasks t) \<le> 2 ^ 30" "\<forall>k \<in> set (tasks t). k < 2 ^ 30"
    using b16 n8 unfolding set_t by auto
  obtain a4 t' where a4: "apinfo_get_taskmap E (Some a3) = (Some a4, Inr t')" "tasks t' = tasks t" "ap_ok ver a4"
    "ap_pes a4 = ap_pes a3" "ap_nodes a4 = ap_nodes a3"
    using taskmap_back [OF assms(1) a3(3) pes3 small] by blast
  have maps: "equal_taskmaps W (Some t') (Some t)"
    using encode(1) [of t] encode(2) [OF a4(2)] by (auto simp: equal_taskmaps_def)
  have counts: "apinfo_get_nnodes E (Some a2) = nnodes_out inp" "apinfo_get_npes E (Some a2) = npes_out inp"
    using checked(2,3) [OF assms(1) a2(2)] nodes2 a2(3) out hn by simp_all
  have names_eq: "names_of W (Some h') = names_of W (Some h)" by (simp add: names_of_def names a3(2))
  note B = backend [OF good assms(1)]
  have "ap_nodes a4 = fill_nodes (env_hosts E) h (hostlist_count (env_hosts E) h)"
    using a4(5) a3(5) nodes2 hn cnt by simp
  then have chk: "apinfo_check E (Some a4) = Inr ()"
    using apinfo_backend.built_check [OF B a4(3), of h t] a4(4) pes3 cnt set_t by (simp add: front_def)
  obtain bytes where p: "apinfo_put E (uw_fs W) (Some a4) (Some path) = (Some bytes, Inr ())"
    using checked(4) [OF assms(1) a4(3)] by blast
  have "unit_check W path (Some a) inp = Some ([], 0, Some a4)"
    by (simp add: unit_check_def h(1) t a1(1) a2(1) a3(1) a4(1) counts names_eq maps chk p)
  with a4(3) show ?thesis by blast
qed

lemma good_loop_passes:
  "list_all sound_input inps \<Longrightarrow> ver = 1 \<or> ver = 5 \<Longrightarrow> ap_ok ver a
    \<Longrightarrow> \<exists>calls. good_loop W path inps (Some a) = Some calls \<and> passes (length inps) calls"
proof (induction inps arbitrary: a)
  case (Cons inp inps)
  obtain a' where a': "unit_check W path (Some a) inp = Some ([], 0, Some a')" "ap_ok ver a'"
    using unit_check_passes [OF Cons.prems(2,3)] Cons.prems(1) by auto
  obtain calls where c: "good_loop W path inps (Some a') = Some calls" "passes (length inps) calls"
    using Cons.IH [OF _ Cons.prems(2) a'(2)] Cons.prems(1) by auto
  have "plain (Some (hosts_in inp))" "plain (Some (taskmap_in inp))"
    using Cons.prems(1) by (auto simp: sound_input_def split: option.splits)
  then have "plain (Some (''checked '' @ hosts_in inp @ '' '' @ taskmap_in inp @ '' '' @ dec_of_int (cpus_in inp)))"
    by (simp add: plain_Some line_feed_def)
  with a' c show ?case by (simp add: passes_ok)
qed simp

lemma test_good_passes:
  assumes "ver = 1 \<or> ver = 5"
  shows "\<exists>calls. test_good W path ver = Some calls \<and> passes 14 calls"
proof -
  obtain a where a: "apinfo_create E (uw_mem W) (uw_calloc W) ver = Inr a" "ap_ok ver a" using created [OF assms] by blast
  have "length good_inputs = 14" by (simp add: good_inputs_def)
  with good_loop_passes [OF good_inputs_sound assms a(2), of path] show ?thesis by (simp add: test_good_def a(1))
qed

lemma test_empty_passes:
  assumes "ver = 1 \<or> ver = 5"
  shows "passes 4 (test_empty W path ver)"
proof -
  obtain a where a: "apinfo_create E (uw_mem W) (uw_calloc W) ver = Inr a" "ap_ok ver a" "ap_pes a = []" "ap_nodes a = []"
    using created [OF assms] by blast
  have "check_sections [] 0 [] 0 = Inr ()" using check_sections_ok [of 0 "[]" 0 "[]"] by simp
  then have c: "apinfo_check E (Some a) = Inr ()" using checked(1) [OF assms a(2)] a(3,4) by simp
  obtain bytes where p: "apinfo_put E (uw_fs W) (Some a) (Some path) = (Some bytes, Inr ())"
    "length bytes = unat (apinfo_get_size E (Some a))" using checked(4) [OF assms a(2)] by blast
  show ?thesis
    by (simp add: test_empty_def a(1) c p passes_ok plain_Some line_feed_def eval_nat_numeral)
qed

lemma test_check_passes:
  assumes "ver = 1 \<or> ver = 5"
  shows "\<exists>calls. test_check W ver = Some calls \<and> passes 2 calls"
proof -
  obtain a where a: "apinfo_create E (uw_mem W) (uw_calloc W) ver = Inr a" "ap_ok ver a" "ap_nodes a = []"
    using created [OF assms] by blast
  obtain t where t: "uw_map W ''[[0,2,1,1]]'' = Some t" "tasks t = blocks [(0,2,1,1)]"
    using decode_map [of "''[[0,2,1,1]]''" "[(0,2,1,1)]"] by (auto simp: map_texts_def)
  have t01: "tasks t = [0, 1]" by (simp add: t(2) blocks_def upt_rec)
  obtain h where h: "uw_hosts W ''test[0-3]'' = Some h" "hosts h = numbered_hosts 4"
    using decode_hosts [of "''test[0-3]''" 4] by (auto simp: host_texts_def)
  have h4: "length (hosts h) = 4" by (simp add: h(2) numbered_hosts_def)
  obtain a1 where a1: "apinfo_set_taskmap E (uw_calloc W) (Some a) (Some t) 1 = Some (Some a1, Inr ())"
    "ap_ok ver a1" "ap_pes a1 = pes_of (tasks t)" "ap_nodes a1 = []"
    using taskmap_set [OF assms a(2), of t 1] a(3) by auto
  obtain a2 where a2: "apinfo_set_hostlist E (uw_calloc W) (Some a1) (Some h) = (Some a2, Inr ())" "ap_ok ver a2"
    "ap_pes a2 = pes_of (tasks t)" "ap_nodes a2 = fill_nodes (env_hosts E) h (length (hosts h))"
    using hostlist_set [OF assms a1(2), of h] a1(3) h4 by auto
  have "check_sections (ap_pes a1) (int (length (ap_pes a1))) (ap_nodes a1) (int (length (ap_nodes a1))) \<noteq> Inr ()"
    using check_sections_ok [of "int (length (ap_pes a1))" "ap_pes a1" 0 "[]"] a1(3,4) t01
    by (simp add: pes_of_def pe_of_def)
  then have c1: "is_error (check_errno (apinfo_check E (Some a1))) EINVAL"
    unfolding checked(1) [OF assms a1(2)] check_error .
  have cnt: "hostlist_count (env_hosts E) h = 4" using hostlist_lib.count_hosts [OF host_lib, of h] h4 by simp
  have "3 \<notin> set (tasks t)" "(3 :: nat) \<in> {..<4}" by (simp_all add: t01)
  then have "set (tasks t) \<noteq> {..<4}" by metis
  then have "apinfo_check E (Some a2) \<noteq> Inr ()"
    using apinfo_backend.built_check [OF backend [OF good assms] a2(2), of h t] a2(3,4) cnt h4 by (simp add: front_def)
  then have c2: "is_error (check_errno (apinfo_check E (Some a2))) EINVAL"
    unfolding checked(1) [OF assms a2(2)] check_error .
  show ?thesis
    by (simp add: test_check_def a(1) t(1) h(1) a1(1) a2(1) c1 c2 passes_ok plain_Some line_feed_def eval_nat_numeral)
qed

lemma test_inval_passes:
  assumes "ver = 1 \<or> ver = 5"
  shows "\<exists>calls. test_inval W ver = Some calls \<and> passes 13 calls"
proof -
  obtain a where a: "apinfo_create E (uw_mem W) (uw_calloc W) ver = Inr a" using created [OF assms] by blast
  then have a: "apinfo_create E True (uw_calloc W) ver = Inr a" using memory(1) by simp
  obtain t where t: "uw_map W ''[[0,2,1,1]]'' = Some t"
    using decode_map [of "''[[0,2,1,1]]''" "[(0,2,1,1)]"] by (auto simp: map_texts_def)
  obtain h where h: "uw_hosts W ''test[0-1]'' = Some h"
    using decode_hosts [of "''test[0-1]''" 2] by (auto simp: host_texts_def)
  have bad: "apinfo_create E True (uw_calloc W) 42 = Inl ENOENT" by (simp add: apinfo_create_def)
  show ?thesis
    by (cases a) (simp_all add: test_inval_def a t h bad memory(1) apinfo_check_def apinfo_write_def apinfo_put_def apinfo_set_hostlist_def
        apinfo_set_taskmap_def apinfo_get_hostlist_def apinfo_get_taskmap_def check_errno_def is_error_def apinfo_destroy_def passes_ok passes_dies
        plain_Some line_feed_def eval_nat_numeral)
qed

lemma test_version_passes:
  assumes "ver = 1 \<or> ver = 5"
  shows "\<exists>calls. test_version W path ver = Some calls \<and> passes 33 calls"
proof -
  obtain c1 c2 c3 where c: "test_good W path ver = Some c1" "test_check W ver = Some c2" "test_inval W ver = Some c3"
    "passes 14 c1" "passes 2 c2" "passes 13 c3"
    using test_good_passes [OF assms] test_check_passes [OF assms] test_inval_passes [OF assms] by blast
  from passes_append [OF test_empty_passes [OF assms] passes_append [OF c(4) passes_append [OF c(5,6)]]] c(1-3)
  show ?thesis by (simp add: test_version_def)
qed

lemma unit_main_passes: "\<exists>calls. unit_main W path = Some calls \<and> passes 66 calls"
proof -
  obtain c1 c5 where c: "test_version W path 1 = Some c1" "test_version W path 5 = Some c5" "passes 33 c1" "passes 33 c5"
    using test_version_passes [of 1 path] test_version_passes [of 5 path] by auto
  have "passes 66 (c1 @ Diag (Some ''testing APINFO v5'') # c5)" using passes_append [OF c(3), of 33] c(4) by simp
  with c(1,2) files(1) show ?thesis by (simp add: unit_main_def)
qed

end

section \<open>Properties\<close>

text \<open>A world in which the libraries of flux-core are lists of names and of tasks.\<close>

definition sample_unit_world :: "(string list, task_list, refset) unit_world" where
  "sample_unit_world = \<lparr>uw_env = sample_env, uw_mem = True, uw_calloc = plenty,
     uw_fs = \<lparr>open_room = Inr (2 ^ 64), close_ok = True\<rparr>, uw_mkstemp = True,
     uw_hosts = (\<lambda>s. map_option numbered_hosts (map_of host_texts s)),
     uw_map = (\<lambda>s. map_option (tl_make \<circ> blocks) (map_of map_texts s)),
     uw_names = (\<lambda>h. h), uw_encode = (\<lambda>t. Some (concat (map (\<lambda>n. dec_of_nat n @ '','') (tl_list t))))\<rparr>"

lemma texts_distinct: "distinct (map fst host_texts)" "distinct (map fst map_texts)"
  by (simp_all add: host_texts_def map_texts_def)

lemma blocks_bounds: "list_all (\<lambda>(s, bs). length (blocks bs) \<le> 16 \<and> list_all (\<lambda>n. n < 8) (blocks bs)) map_texts"
  by (simp add: map_texts_def blocks_def upt_rec eval_nat_numeral)

lemma blocks_small:
  assumes "(s, bs) \<in> set map_texts"
  shows "length (blocks bs) < 2 ^ 31 \<and> (\<forall>n \<in> set (blocks bs). n < 2 ^ 31 - 1)"
proof -
  have "length (blocks bs) \<le> 16" "\<forall>n \<in> set (blocks bs). n < 8"
    using blocks_bounds assms by (auto simp: list_all_iff)
  then show ?thesis by fastforce
qed

interpretation sample_units: unit_test_libs sample_unit_world rs_elems tl_list "\<lambda>h. h" "\<lambda>s. Some [s]"
proof (rule unit_test_libs.intro)
  show "good_env (uw_env sample_unit_world) rs_elems tl_list" using sample_good by (simp add: sample_unit_world_def)
  show "hostlist_lib (env_hosts (uw_env sample_unit_world)) (\<lambda>h. h) (\<lambda>s. Some [s])"
    using plain_hosts.hostlist_lib_axioms by (simp add: sample_unit_world_def)
  show "\<exists>n. open_room (uw_fs sample_unit_world) = Inr n \<and> 2 ^ 64 \<le> n" by (simp add: sample_unit_world_def)
  fix s s' bs n k and t t' :: task_list
  show "length (tl_list t) < 2 ^ 30 \<Longrightarrow> n < 2 ^ 30
      \<Longrightarrow> taskmap_append (env_tasks (uw_env sample_unit_world)) t (int n) 1 1 \<noteq> None"
    by (simp add: sample_unit_world_def tl_taskmap_def)
  show "(s, n) \<in> set host_texts \<Longrightarrow> \<exists>h. uw_hosts sample_unit_world s = Some h \<and> h = numbered_hosts n"
    using texts_distinct(1) by (simp add: sample_unit_world_def)
  assume "(s', bs) \<in> set map_texts"
  with texts_distinct(2) blocks_small [of s' bs]
  show "\<exists>t. uw_map sample_unit_world s' = Some t \<and> tl_list t = blocks bs" by (simp add: sample_unit_world_def)
qed (simp_all add: sample_unit_world_def plenty_def list_hostlist_def tl_taskmap_def)

text \<open>
  C22. The unit test of the library passes, with libapinfo and libtap as they are: given the libraries of flux-core as
  documented, memory and a file system, the program ends with status 0 and a reader of its output finds 66 tests, all
  passed, 33 for each version of the file format.
\<close>

theorem unit_tests_pass:
  assumes "unit_test_libs W elems tasks hosts expand"
  shows "\<exists>calls s. unit_main W path = Some calls \<and> run_program calls tap_start = Some (0, s)
    \<and> read_report (stdout s) = map (\<lambda>k. (True, k, False)) [1..<67]"
proof -
  obtain calls where c: "unit_main W path = Some calls" "passes 66 calls"
    using unit_test_libs.unit_main_passes [OF assms] by blast
  with passing_program [OF c(2)] show ?thesis by simp
qed

theorem unit_tests_pass_witness:
  "\<exists>calls s. unit_main sample_unit_world ''f'' = Some calls \<and> run_program calls tap_start = Some (0, s)
    \<and> read_report (stdout s) = map (\<lambda>k. (True, k, False)) [1..<67]"
  by (rule unit_tests_pass [OF sample_units.unit_test_libs_axioms])

end
