(* ===== verification/Json.thy ===== *)
theory Json
  imports Prelude Complex_Main
begin

text \<open>
  JSON values, the data that the sources read and build through jansson (which is not part of this
  repository: parsing a string is a parameter of the definitions that do it). An object keeps its
  members in insertion order; \<^verbatim>\<open>json_object_get\<close> finds a member by its key. The
  \<^verbatim>\<open>json_is_*\<close> tests and the accessors are false or \<open>None\<close> on a value of another type, as for
  \<^verbatim>\<open>NULL\<close>.
\<close>

datatype json =
    JNull
  | JBool bool
  | JInt int
  | JReal real
  | JString string
  | JArray "json list"
  | JObject "(string \<times> json) list"

fun json_object_get :: "json \<Rightarrow> string \<Rightarrow> json option" where
  "json_object_get (JObject kvs) k = map_of kvs k"
| "json_object_get _ k = None"

fun json_is_object :: "json \<Rightarrow> bool" where
  "json_is_object (JObject _) = True"
| "json_is_object _ = False"

fun json_string_value :: "json \<Rightarrow> string option" where
  "json_string_value (JString s) = Some s"
| "json_string_value _ = None"

fun json_number_value :: "json \<Rightarrow> real option" where
  "json_number_value (JInt i) = Some (of_int i)"
| "json_number_value (JReal r) = Some r"
| "json_number_value _ = None"

fun json_integer_value :: "json \<Rightarrow> int option" where
  "json_integer_value (JInt i) = Some i"
| "json_integer_value _ = None"

fun json_array_value :: "json \<Rightarrow> json list option" where
  "json_array_value (JArray vs) = Some vs"
| "json_array_value _ = None"

fun json_bool_value :: "json \<Rightarrow> bool option" where
  "json_bool_value (JBool b) = Some b"
| "json_bool_value _ = None"

text \<open>A member of a certain type, the \<^verbatim>\<open>{s:x}\<close> of \<^verbatim>\<open>json_unpack\<close>.\<close>

definition unpack_member :: "(json \<Rightarrow> 'a option) \<Rightarrow> json \<Rightarrow> string \<Rightarrow> 'a option" where
  "unpack_member val j k = (case json_object_get j k of None \<Rightarrow> None | Some v \<Rightarrow> val v)"

lemma json_is_object_iff: "json_is_object j \<longleftrightarrow> (\<exists>kvs. j = JObject kvs)"
  by (cases j) simp_all

lemma unpack_member_Some:
  "unpack_member val j k = Some a \<longleftrightarrow> (\<exists>v. json_object_get j k = Some v \<and> val v = Some a)"
  by (auto simp: unpack_member_def split: option.splits)

text \<open>Setting a member keeps its place when it is there and appends it otherwise.\<close>

fun set_member :: "(string \<times> json) list \<Rightarrow> string \<Rightarrow> json \<Rightarrow> (string \<times> json) list" where
  "set_member [] k v = [(k, v)]"
| "set_member ((k', v') # kvs) k v = (if k' = k then (k, v) # kvs else (k', v') # set_member kvs k v)"

lemma map_of_set_member [simp]: "map_of (set_member kvs k v) = (map_of kvs)(k \<mapsto> v)"
  by (induction kvs k v rule: set_member.induct) auto

end
