(* ===== verification/PmiBootstrap.thy ===== *)
theory PmiBootstrap
  imports Hostlist Json "HOL-Library.Multiset"
begin

text \<open>
  The jobtap plugin \<^verbatim>\<open>src/job-manager/plugins/cray-pmi-bootstrap.c\<close>, which gives every job on
  several nodes a pair of port numbers for Cray's libpmi and takes them back when the job ends.
\<close>

section \<open>The port stack\<close>

text \<open>
  \<^verbatim>\<open>struct port_range\<close>: the first \<open>fill\<close> entries of the array are the free ports. The array has
  \<open>maxsize\<close> entries.
\<close>

record port_range =
  available_ports :: "int list"
  fill :: int
  maxsize :: int

definition get_port :: "port_range \<Rightarrow> port_range \<times> (errno + int)" where
  "get_port r =
     (if fill r \<le> 0 then (r, Inl ENOENT)
      else (let f = fill r - 1 in (r\<lparr>fill := f\<rparr>, Inr (available_ports r ! nat f))))"

definition set_port :: "port_range \<Rightarrow> int \<Rightarrow> port_range \<times> (errno + unit)" where
  "set_port r p =
     (if fill r \<ge> maxsize r then (r, Inl ERANGE)
      else (r\<lparr>available_ports := (available_ports r)[nat (fill r) := p], fill := fill r + 1\<rparr>, Inr ()))"

section \<open>The callbacks\<close>

text \<open>
  What the host keeps: the posted \<^verbatim>\<open>cray-pmi-bootstrap\<close> events (job, ports, secret) and the value
  stored with each job under \<^verbatim>\<open>cray::libpmi::ports\<close>.
\<close>

datatype aux_value = PortArray "int list" | OtherJson

record pmi_host =
  pmi_events :: "(jobid \<times> int list \<times> int) list"
  ports_aux :: "jobid \<Rightarrow> aux_value option"

text \<open>
  The outcomes of the host and library calls of one \<^verbatim>\<open>run_cb\<close>: the handle and the unpacked
  arguments (job id and node list), the random number, and whether packing, posting and storing
  succeed.
\<close>

record pmi_run_env =
  pmi_handle_ok :: bool
  pmi_unpacked :: "(jobid \<times> json_names) option"
  random_value :: int
  pmi_pack_ok :: bool
  pmi_post_ok :: bool
  pmi_aux_ok :: bool

definition pmi_run_cb ::
  "'h hostlist_api \<Rightarrow> pmi_run_env \<Rightarrow> port_range \<Rightarrow> pmi_host \<Rightarrow> port_range \<times> pmi_host \<times> int" where
  "pmi_run_cb hl E r w =
     (if \<not> pmi_handle_ok E then (r, w, -1)
      else case pmi_unpacked E of
        None \<Rightarrow> (r, w, -1)
      | Some (jobid, nodelist) \<Rightarrow> (case hostlist_from_array hl nodelist of
          None \<Rightarrow> (r, w, -1)
        | Some hlist \<Rightarrow>
            if hostlist_count hl hlist = 1 then (r, w, 0)
            else (case get_port r of
                (r1, Inl _) \<Rightarrow> (r1, w, -1)
              | (r1, Inr port1) \<Rightarrow> (case get_port r1 of
                  (r2, Inl _) \<Rightarrow> (r2, w, -1)
                | (r2, Inr port2) \<Rightarrow>
                    if \<not> pmi_pack_ok E then (r2, w, -1)
                    else if \<not> pmi_post_ok E then (r2, w, -1)
                    else (let w1 = w\<lparr>pmi_events := pmi_events w @ [(jobid, [port1, port2], random_value E)]\<rparr> in
                      if \<not> pmi_aux_ok E then (r2, w1, -1)
                      else (r2, w1\<lparr>ports_aux := (ports_aux w1)(jobid \<mapsto> PortArray [port1, port2])\<rparr>, 0))))))"

text \<open>The context of the event as a JSON object.\<close>

definition pmi_event_context :: "int list \<Rightarrow> int \<Rightarrow> json" where
  "pmi_event_context ports random =
     JObject [(''ports'', JArray (map JInt ports)), (''random_integer'', JInt random)]"

text \<open>The loop of \<^verbatim>\<open>cleanup_cb\<close>.\<close>

fun return_ports :: "port_range \<Rightarrow> int list \<Rightarrow> port_range \<times> int" where
  "return_ports r [] = (r, 0)"
| "return_ports r (p # ps) =
     (if p = 0 then (r, -1)
      else (case set_port r p of
          (r', Inl _) \<Rightarrow> (r', -1)
        | (r', Inr _) \<Rightarrow> return_ports r' ps))"

definition pmi_cleanup_cb :: "bool \<Rightarrow> port_range \<Rightarrow> pmi_host \<Rightarrow> jobid \<Rightarrow> port_range \<times> int" where
  "pmi_cleanup_cb handle r w current =
     (if \<not> handle then (r, -1)
      else case ports_aux w current of
        None \<Rightarrow> (r, 0)
      | Some OtherJson \<Rightarrow> (r, -1)
      | Some (PortArray ps) \<Rightarrow> return_ports r ps)"

record init_env =
  i_handle :: bool
  i_conf :: "(int \<times> int) option"
  i_sodium :: bool
  i_malloc :: bool
  i_malloc_ports :: bool
  i_register :: bool

definition pmi_plugin_init :: "init_env \<Rightarrow> port_range option" where
  "pmi_plugin_init E =
     (if \<not> i_handle E then None
      else (let (port_min, port_max) = (case i_conf E of None \<Rightarrow> (11000, 12000) | Some c \<Rightarrow> c) in
        if \<not> i_sodium E then None
        else if port_min < 1024 \<or> port_max < 1024 \<or> port_max > 65536 then None
        else (let size = port_max - port_min in
          if size < 50 then None
          else if \<not> i_malloc E \<or> \<not> i_malloc_ports E then None
          else if \<not> i_register E then None
          else Some \<lparr>available_ports = map (\<lambda>i. port_min + int i) [0..<nat size],
                     fill = size, maxsize = size\<rparr>)))"

section \<open>The stack as a pool of ports\<close>

definition free_ports :: "port_range \<Rightarrow> int list" where
  "free_ports r = take (nat (fill r)) (available_ports r)"

definition range_wf :: "port_range \<Rightarrow> bool" where
  "range_wf r \<longleftrightarrow> 0 \<le> fill r \<and> fill r \<le> maxsize r \<and> int (length (available_ports r)) = maxsize r"

lemma length_free_ports: "range_wf r \<Longrightarrow> int (length (free_ports r)) = fill r"
  by (auto simp: range_wf_def free_ports_def)

lemma get_port_ok:
  assumes "range_wf r" and "get_port r = (r', Inr p)"
  shows "range_wf r'" and "free_ports r = free_ports r' @ [p]" and "maxsize r' = maxsize r"
proof -
  have f: "0 < fill r" and r': "r' = r\<lparr>fill := fill r - 1\<rparr>" and p: "p = available_ports r ! nat (fill r - 1)"
    using assms(2) by (auto simp: get_port_def Let_def split: if_splits)
  show "range_wf r'" "maxsize r' = maxsize r"
    using assms(1) f by (auto simp: r' range_wf_def)
  have "nat (fill r) = Suc (nat (fill r - 1))" using f by simp
  moreover have "nat (fill r - 1) < length (available_ports r)"
    using assms(1) f by (auto simp: range_wf_def)
  ultimately show "free_ports r = free_ports r' @ [p]"
    by (simp add: free_ports_def r' p take_Suc_conv_app_nth)
qed

lemma get_port_fail: "get_port r = (r', Inl e) \<Longrightarrow> r' = r \<and> e = ENOENT \<and> fill r \<le> 0"
  by (auto simp: get_port_def Let_def split: if_splits)

lemma set_port_ok:
  assumes "range_wf r" and "fill r < maxsize r"
  obtains r' where "set_port r p = (r', Inr ())" and "range_wf r'"
    and "free_ports r' = free_ports r @ [p]" and "maxsize r' = maxsize r"
proof -
  let ?r = "r\<lparr>available_ports := (available_ports r)[nat (fill r) := p], fill := fill r + 1\<rparr>"
  have lt: "nat (fill r) < length (available_ports r)"
    using assms by (auto simp: range_wf_def)
  have "nat (fill r + 1) = Suc (nat (fill r))"
    using assms(1) by (auto simp: range_wf_def)
  then have "free_ports ?r = free_ports r @ [p]"
    using lt by (simp add: free_ports_def take_Suc_conv_app_nth)
  moreover have "range_wf ?r" "set_port r p = (?r, Inr ())"
    using assms by (auto simp: range_wf_def set_port_def)
  ultimately show ?thesis using that by simp
qed

section \<open>The contract of a resource pool\<close>

text \<open>
  What the callbacks need of the stack: getting removes one resource from the free ones and fails
  only when there is none, putting adds one as long as the pool is not full.
\<close>

locale resource_pool =
  fixes get :: "'s \<Rightarrow> 's \<times> (errno + 'r)"
    and put :: "'s \<Rightarrow> 'r \<Rightarrow> 's \<times> (errno + unit)"
    and free :: "'s \<Rightarrow> 'r list"
    and cap :: "'s \<Rightarrow> nat"
    and wf :: "'s \<Rightarrow> bool"
  assumes get_some: "wf s \<Longrightarrow> get s = (s', Inr x) \<Longrightarrow>
      wf s' \<and> mset (free s) = add_mset x (mset (free s')) \<and> cap s' = cap s"
    and get_none: "wf s \<Longrightarrow> get s = (s', Inl e) \<Longrightarrow> s' = s \<and> free s = []"
    and put_some: "wf s \<Longrightarrow> length (free s) < cap s \<Longrightarrow>
      \<exists>s'. put s x = (s', Inr ()) \<and> wf s' \<and> mset (free s') = add_mset x (mset (free s)) \<and> cap s' = cap s"
    and free_le_cap: "wf s \<Longrightarrow> length (free s) \<le> cap s"
begin

lemma get_distinct:
  assumes "wf s" and "get s = (s', Inr x)" and "distinct (free s)"
  shows "distinct (free s')" and "x \<notin> set (free s')" and "set (free s) = insert x (set (free s'))"
proof -
  have m: "mset (free s) = mset (x # free s')" using get_some [OF assms(1,2)] by simp
  then have "distinct (x # free s')" using assms(3) mset_eq_imp_distinct_iff by blast
  then show "distinct (free s')" "x \<notin> set (free s')" by simp_all
  show "set (free s) = insert x (set (free s'))" using mset_eq_setD [OF m] by simp
qed

lemma get_put:
  assumes "wf s" and "get s = (s1, Inr x)"
  obtains s2 where "put s1 x = (s2, Inr ())" and "wf s2" and "mset (free s2) = mset (free s)"
    and "cap s2 = cap s"
proof -
  note G = get_some [OF assms]
  have "length (free s) = Suc (length (free s1))"
    using arg_cong [OF conjunct1 [OF conjunct2 [OF G]], of size] by simp
  then have "length (free s1) < cap s1" using G free_le_cap [OF assms(1)] by simp
  from put_some [OF conjunct1 [OF G] this, of x] G that show ?thesis by auto
qed

text \<open>Putting a list of resources back, one after the other.\<close>

fun put_all :: "'s \<Rightarrow> 'r list \<Rightarrow> 's \<times> (errno + unit)" where
  "put_all s [] = (s, Inr ())"
| "put_all s (x # xs) = (case put s x of (s', Inl e) \<Rightarrow> (s', Inl e) | (s', Inr _) \<Rightarrow> put_all s' xs)"

lemma put_all_some:
  "wf s \<Longrightarrow> length (free s) + length xs \<le> cap s \<Longrightarrow>
     \<exists>s'. put_all s xs = (s', Inr ()) \<and> wf s' \<and> mset (free s') = mset (free s) + mset xs \<and> cap s' = cap s"
proof (induction xs arbitrary: s)
  case Nil
  then show ?case by simp
next
  case (Cons x xs)
  then obtain s1 where s1: "put s x = (s1, Inr ())" "wf s1" "mset (free s1) = add_mset x (mset (free s))"
      "cap s1 = cap s"
    using put_some [of s x] by auto
  have "length (free s1) = Suc (length (free s))"
    using arg_cong [OF s1(3), of size] by simp
  then obtain s' where "put_all s1 xs = (s', Inr ())" "wf s'"
      "mset (free s') = mset (free s1) + mset xs" "cap s' = cap s1"
    using Cons.IH [of s1] Cons.prems(2) s1 by auto
  with s1 show ?case by simp
qed

end

interpretation ports: resource_pool get_port set_port free_ports "\<lambda>r. nat (maxsize r)" range_wf
proof
  fix r r' :: port_range and p e
  assume wf: "range_wf r"
  show "length (free_ports r) \<le> nat (maxsize r)"
    using wf length_free_ports [OF wf] by (auto simp: range_wf_def)
  show "range_wf r' \<and> mset (free_ports r) = add_mset p (mset (free_ports r')) \<and> nat (maxsize r') = nat (maxsize r)"
    if "get_port r = (r', Inr p)"
    using get_port_ok [OF wf that] by simp
  show "r' = r \<and> free_ports r = []" if "get_port r = (r', Inl e)"
    using get_port_fail [OF that] by (simp add: free_ports_def)
  show "\<exists>r'. set_port r p = (r', Inr ()) \<and> range_wf r' \<and> mset (free_ports r') = add_mset p (mset (free_ports r))
      \<and> nat (maxsize r') = nat (maxsize r)" if "length (free_ports r) < nat (maxsize r)"
  proof -
    have "fill r < maxsize r" using that length_free_ports [OF wf] by linarith
    from set_port_ok [OF wf this, of p] show ?thesis by (metis add_mset_add_single mset_append mset_single_iff_right)
  qed
qed

lemma return_ports_put_all:
  "0 \<notin> set ps \<Longrightarrow> return_ports r ps = (case ports.put_all r ps of (r', Inl _) \<Rightarrow> (r', -1) | (r', Inr _) \<Rightarrow> (r', 0))"
  by (induction r ps rule: return_ports.induct) (auto split: prod.splits sum.splits)

section \<open>The plugin over time\<close>

text \<open>
  The host enters the run callback once when a job starts and the cleanup callback once when it
  ends, and drops the job's data afterwards.
\<close>

datatype phase = Waiting | Running | Finished

record pmi_sys =
  ports_left :: port_range
  pmi_host :: pmi_host
  phase_of :: "jobid \<Rightarrow> phase"

definition pmi_start :: "port_range \<Rightarrow> pmi_sys" where
  "pmi_start r = \<lparr>ports_left = r, pmi_host = \<lparr>pmi_events = [], ports_aux = Map.empty\<rparr>,
     phase_of = (\<lambda>_. Waiting)\<rparr>"

inductive pmi_step :: "'h hostlist_api \<Rightarrow> pmi_sys \<Rightarrow> pmi_sys \<Rightarrow> bool" for hl where
  pmi_run: "phase_of s i = Waiting \<Longrightarrow> pmi_unpacked E = None \<or> pmi_unpacked E = Some (i, nodelist) \<Longrightarrow>
     pmi_run_cb hl E (ports_left s) (pmi_host s) = (r, w, rc) \<Longrightarrow>
     pmi_step hl s \<lparr>ports_left = r, pmi_host = w, phase_of = (phase_of s)(i := Running)\<rparr>"
| pmi_cleanup: "phase_of s i = Running \<Longrightarrow>
     pmi_cleanup_cb handle (ports_left s) (pmi_host s) i = (r, rc) \<Longrightarrow>
     pmi_step hl s \<lparr>ports_left = r,
       pmi_host = (pmi_host s)\<lparr>ports_aux := (ports_aux (pmi_host s))(i := None)\<rparr>,
       phase_of = (phase_of s)(i := Finished)\<rparr>"

inductive pmi_reachable :: "'h hostlist_api \<Rightarrow> init_env \<Rightarrow> pmi_sys \<Rightarrow> bool" for hl E where
  pmi_init: "pmi_plugin_init E = Some r \<Longrightarrow> pmi_reachable hl E (pmi_start r)"
| pmi_next: "pmi_reachable hl E s \<Longrightarrow> pmi_step hl s s' \<Longrightarrow> pmi_reachable hl E s'"

text \<open>The ports of a job, and the invariant over a range \<open>lo \<le> p < hi\<close>.\<close>

definition job_ports :: "pmi_sys \<Rightarrow> jobid \<Rightarrow> int list" where
  "job_ports s i = (case ports_aux (pmi_host s) i of Some (PortArray ps) \<Rightarrow> ps | _ \<Rightarrow> [])"

definition pmi_inv :: "int \<Rightarrow> int \<Rightarrow> pmi_sys \<Rightarrow> bool" where
  "pmi_inv lo hi s \<longleftrightarrow>
     1024 \<le> lo \<and> hi \<le> 65536 \<and> range_wf (ports_left s) \<and> maxsize (ports_left s) = hi - lo
     \<and> distinct (free_ports (ports_left s)) \<and> set (free_ports (ports_left s)) \<subseteq> {lo..<hi}
     \<and> (\<forall>i. ports_aux (pmi_host s) i \<noteq> Some OtherJson)
     \<and> (\<forall>i. ports_aux (pmi_host s) i \<noteq> None \<longrightarrow> phase_of s i = Running)
     \<and> (\<forall>i. distinct (job_ports s i) \<and> set (job_ports s i) \<subseteq> {lo..<hi}
           \<and> (job_ports s i = [] \<or> length (job_ports s i) = 2)
           \<and> set (job_ports s i) \<inter> set (free_ports (ports_left s)) = {})
     \<and> (\<forall>i j. i \<noteq> j \<longrightarrow> set (job_ports s i) \<inter> set (job_ports s j) = {})"

text \<open>What a run of the callback does to the stack and to the stored ports.\<close>

lemma pmi_run_cb_cases:
  assumes "range_wf r" and "distinct (free_ports r)" and "pmi_run_cb hl E r w = (r', w', rc)"
  shows "range_wf r' \<and> maxsize r' = maxsize r \<and> distinct (free_ports r')
    \<and> set (free_ports r') \<subseteq> set (free_ports r)
    \<and> (ports_aux w' = ports_aux w \<or>
       (\<exists>i nl p q. pmi_unpacked E = Some (i, nl) \<and> rc = 0 \<and> ports_aux w' = (ports_aux w)(i \<mapsto> PortArray [p, q])
          \<and> p \<noteq> q \<and> {p, q} \<subseteq> set (free_ports r) \<and> {p, q} \<inter> set (free_ports r') = {}))"
proof -
  obtain r1 x1 where g1: "get_port r = (r1, x1)" by (cases "get_port r")
  obtain r2 x2 where g2: "get_port r1 = (r2, x2)" by (cases "get_port r1")
  consider "r' = r \<and> w' = w" | "x1 = Inl ENOENT" "r' = r1" "w' = w" | p where "x1 = Inr p" "r' = r2" "ports_aux w' = ports_aux w"
    | i nl p q where "x1 = Inr p" "x2 = Inr q" "r' = r2" "pmi_unpacked E = Some (i, nl)" "rc = 0"
        "ports_aux w' = (ports_aux w)(i \<mapsto> PortArray [p, q])"
    using assms(3) g1 g2 get_port_fail [of r r1]
    by (cases x1; cases x2)
      (auto simp: pmi_run_cb_def Let_def split: if_splits option.splits prod.splits)
  then show ?thesis
  proof cases
    case 1
    with assms(1,2) show ?thesis by simp
  next
    case 2
    with g1 get_port_fail [of r r1] assms(1,2) show ?thesis by simp
  next
    case (3 p)
    note A = ports.get_some [OF assms(1)] ports.get_distinct [OF assms(1) _ assms(2)]
    have r1: "range_wf r1" "distinct (free_ports r1)" "set (free_ports r1) \<subseteq> set (free_ports r)" "maxsize r1 = maxsize r"
      using A(2-4) [of r1 p] get_port_ok [OF assms(1), of r1 p] g1 3 by auto
    show ?thesis
    proof (cases x2)
      case (Inl e)
      with g2 get_port_fail [of r1 r2] r1 3 show ?thesis by simp
    next
      case (Inr q)
      with g2 ports.get_distinct [OF r1(1) _ r1(2)] get_port_ok [OF r1(1), of r2 q] r1 3
      show ?thesis by auto
    qed
  next
    case (4 i nl p q)
    have r1: "range_wf r1" "maxsize r1 = maxsize r" and d1: "distinct (free_ports r1)" "p \<notin> set (free_ports r1)"
      "set (free_ports r) = insert p (set (free_ports r1))"
      using ports.get_distinct [OF assms(1) _ assms(2), of r1 p] get_port_ok [OF assms(1), of r1 p] g1 4 by auto
    have r2: "range_wf r2" "maxsize r2 = maxsize r1" and d2: "distinct (free_ports r2)" "q \<notin> set (free_ports r2)"
      "set (free_ports r1) = insert q (set (free_ports r2))"
      using ports.get_distinct [OF r1(1) _ d1(1), of r2 q] get_port_ok [OF r1(1), of r2 q] g2 4 by auto
    show ?thesis using 4 r1(2) r2 d1 d2 by auto
  qed
qed

lemma pmi_start_inv:
  assumes "pmi_plugin_init E = Some r"
  shows "\<exists>lo hi. pmi_inv lo hi (pmi_start r) \<and> 50 \<le> hi - lo"
proof -
  obtain lo hi where E: "(case i_conf E of None \<Rightarrow> (11000, 12000) | Some c \<Rightarrow> c) = (lo, hi)"
    by (cases "case i_conf E of None \<Rightarrow> (11000, 12000) | Some c \<Rightarrow> c")
  have b: "1024 \<le> lo" "hi \<le> 65536" "50 \<le> hi - lo"
    and r: "r = \<lparr>available_ports = map (\<lambda>i. lo + int i) [0..<nat (hi - lo)], fill = hi - lo, maxsize = hi - lo\<rparr>"
    using assms E by (auto simp: pmi_plugin_init_def Let_def split: if_splits)
  have "free_ports r = map (\<lambda>i. lo + int i) [0..<nat (hi - lo)]"
    by (simp add: r free_ports_def)
  then have "distinct (free_ports r)" "set (free_ports r) \<subseteq> {lo..<hi}"
    by (auto simp: distinct_map inj_on_def)
  moreover have "range_wf r" "maxsize r = hi - lo"
    using b by (simp_all add: r range_wf_def)
  ultimately have "pmi_inv lo hi (pmi_start r)"
    using b by (simp add: pmi_inv_def pmi_start_def job_ports_def)
  with b show ?thesis by blast
qed

lemma job_ports_upd:
  "job_ports (s\<lparr>ports_left := r, pmi_host := w\<rparr>) i =
     (case ports_aux w i of Some (PortArray ps) \<Rightarrow> ps | _ \<Rightarrow> [])"
  by (simp add: job_ports_def)

text \<open>What the run callback of job \<open>i\<close> does to the ports: it may take some, and two of them may go to the job.\<close>

lemma pmi_run_takes:
  assumes "pmi_inv lo hi s" and "pmi_unpacked E = None \<or> pmi_unpacked E = Some (i, nodelist)"
    and "pmi_run_cb hl E (ports_left s) (pmi_host s) = (r, w, rc)"
  shows "range_wf r \<and> maxsize r = maxsize (ports_left s) \<and> distinct (free_ports r)
      \<and> set (free_ports r) \<subseteq> set (free_ports (ports_left s))
      \<and> (ports_aux w = ports_aux (pmi_host s) \<or>
         (\<exists>p q. ports_aux w = (ports_aux (pmi_host s))(i \<mapsto> PortArray [p, q]) \<and> p \<noteq> q
            \<and> {p, q} \<subseteq> set (free_ports (ports_left s)) \<and> {p, q} \<inter> set (free_ports r) = {}))"
proof -
  have R: "range_wf r \<and> maxsize r = maxsize (ports_left s) \<and> distinct (free_ports r)
    \<and> set (free_ports r) \<subseteq> set (free_ports (ports_left s))
    \<and> (ports_aux w = ports_aux (pmi_host s) \<or>
     (\<exists>i nl p q. pmi_unpacked E = Some (i, nl) \<and> rc = 0
        \<and> ports_aux w = (ports_aux (pmi_host s))(i \<mapsto> PortArray [p, q])
        \<and> p \<noteq> q \<and> {p, q} \<subseteq> set (free_ports (ports_left s)) \<and> {p, q} \<inter> set (free_ports r) = {}))"
    by (rule pmi_run_cb_cases [OF _ _ assms(3)]) (use assms(1) in \<open>auto simp: pmi_inv_def\<close>)
  show ?thesis
  proof (cases "ports_aux w = ports_aux (pmi_host s)")
    case True
    with R show ?thesis by blast
  next
    case False
    from conjunct2 [OF conjunct2 [OF conjunct2 [OF conjunct2 [OF R]]]] False
    have "\<exists>j nl p q. pmi_unpacked E = Some (j, nl) \<and> rc = 0
        \<and> ports_aux w = (ports_aux (pmi_host s))(j \<mapsto> PortArray [p, q])
        \<and> p \<noteq> q \<and> {p, q} \<subseteq> set (free_ports (ports_left s)) \<and> {p, q} \<inter> set (free_ports r) = {}"
      by - (erule disjE, erule (1) notE, assumption)
    then obtain j nl p q where j: "pmi_unpacked E = Some (j, nl)"
      and w: "ports_aux w = (ports_aux (pmi_host s))(j \<mapsto> PortArray [p, q])" "p \<noteq> q"
      "{p, q} \<subseteq> set (free_ports (ports_left s))" "{p, q} \<inter> set (free_ports r) = {}"
      by (elim exE conjE) (rule that)
    have "j = i" using assms(2) j by auto
    note W = w [unfolded this]
    have "\<exists>p q. ports_aux w = (ports_aux (pmi_host s))(i \<mapsto> PortArray [p, q]) \<and> p \<noteq> q
          \<and> {p, q} \<subseteq> set (free_ports (ports_left s)) \<and> {p, q} \<inter> set (free_ports r) = {}"
      by (intro exI conjI) (rule W)+
    then show ?thesis using R by (intro conjI disjI2) (elim conjE, assumption)+
  qed
qed

lemma pmi_run_inv:
  assumes "pmi_inv lo hi s" and "phase_of s i = Waiting"
    and "pmi_unpacked E = None \<or> pmi_unpacked E = Some (i, nodelist)"
    and "pmi_run_cb hl E (ports_left s) (pmi_host s) = (r, w, rc)"
  shows "pmi_inv lo hi \<lparr>ports_left = r, pmi_host = w, phase_of = (phase_of s)(i := Running)\<rparr>"
proof -
  let ?s = "\<lparr>ports_left = r, pmi_host = w, phase_of = (phase_of s)(i := Running)\<rparr>"
  note inv = assms(1) [unfolded pmi_inv_def]
  have i: "ports_aux (pmi_host s) i = None" using inv assms(2) by force
  note C = pmi_run_takes [OF assms(1,3,4)]
  have free: "set (free_ports (ports_left s)) \<subseteq> {lo..<hi}"
    and aux: "\<forall>i. ports_aux (pmi_host s) i \<noteq> Some OtherJson"
      "\<forall>i. ports_aux (pmi_host s) i \<noteq> None \<longrightarrow> phase_of s i = Running"
    and jobs: "\<forall>i. distinct (job_ports s i) \<and> set (job_ports s i) \<subseteq> {lo..<hi}
           \<and> (job_ports s i = [] \<or> length (job_ports s i) = 2)
           \<and> set (job_ports s i) \<inter> set (free_ports (ports_left s)) = {}"
    and excl: "\<forall>i j. i \<noteq> j \<longrightarrow> set (job_ports s i) \<inter> set (job_ports s j) = {}"
    using inv by simp_all
  have sub: "set (free_ports r) \<subseteq> set (free_ports (ports_left s))" using C by simp
  have apart: "\<forall>j. set (job_ports s j) \<inter> set (free_ports r) = {}"
    using jobs sub by blast
  have J: "job_ports ?s = (if ports_aux w = ports_aux (pmi_host s) then job_ports s
      else (job_ports s)(i := job_ports ?s i))"
    using C by (auto simp: job_ports_def fun_eq_iff)
  show ?thesis
  proof (cases "ports_aux w = ports_aux (pmi_host s)")
    case True
    then have "job_ports ?s = job_ports s" using J by simp
    moreover have "set (free_ports r) \<subseteq> {lo..<hi}" using sub free by blast
    ultimately show ?thesis
      unfolding pmi_inv_def using C inv True i apart by simp
  next
    case False
    with C obtain p q where w: "ports_aux w = (ports_aux (pmi_host s))(i \<mapsto> PortArray [p, q])" "p \<noteq> q"
        "{p, q} \<subseteq> set (free_ports (ports_left s))" "{p, q} \<inter> set (free_ports r) = {}"
      by blast
    have J': "job_ports ?s = (job_ports s)(i := [p, q])"
      using J False w(1) by (simp add: job_ports_def)
    have lim: "set (free_ports r) \<subseteq> {lo..<hi}" "{p, q} \<subseteq> {lo..<hi}"
      using sub w(3) free by blast+
    have 1: "\<forall>j. distinct (job_ports ?s j) \<and> set (job_ports ?s j) \<subseteq> {lo..<hi}
        \<and> (job_ports ?s j = [] \<or> length (job_ports ?s j) = 2)
        \<and> set (job_ports ?s j) \<inter> set (free_ports r) = {}"
      using jobs lim(2) w(2,4) apart by (simp add: J')
    have pq: "\<forall>j. set (job_ports s j) \<inter> {p, q} = {}"
      using jobs w(3) by blast
    then have 2: "\<forall>j k. j \<noteq> k \<longrightarrow> set (job_ports ?s j) \<inter> set (job_ports ?s k) = {}"
      using excl by (simp add: J' Int_commute)
    have 3: "\<forall>j. ports_aux w j \<noteq> Some OtherJson"
        "\<forall>j. ports_aux w j \<noteq> None \<longrightarrow> ((phase_of s)(i := Running)) j = Running"
      using aux by (simp_all add: w(1))
    show ?thesis
      unfolding pmi_inv_def using 1 2 3 lim(1) C inv by simp
  qed
qed

lemma pmi_cleanup_ok:
  assumes "pmi_inv lo hi s" and "phase_of s i = Running"
  obtains r where "pmi_cleanup_cb True (ports_left s) (pmi_host s) i = (r, 0)" and "range_wf r"
    and "mset (free_ports r) = mset (free_ports (ports_left s)) + mset (job_ports s i)"
    and "maxsize r = maxsize (ports_left s)"
proof (cases "ports_aux (pmi_host s) i")
  case None
  with assms that show ?thesis by (simp add: pmi_cleanup_cb_def pmi_inv_def job_ports_def)
next
  case (Some v)
  note inv = assms(1) [unfolded pmi_inv_def]
  let ?fs = "free_ports (ports_left s)" and ?ps = "job_ports s i"
  from Some inv have v: "v = PortArray ?ps" by (cases v) (auto simp: job_ports_def)
  have d: "distinct (?fs @ ?ps)" "set (?fs @ ?ps) \<subseteq> {lo..<hi}"
    using inv by auto
  then have "length (?fs @ ?ps) \<le> nat (hi - lo)"
    using card_mono [OF _ d(2)] distinct_card [OF d(1)] by simp
  then have le: "length ?fs + length ?ps \<le> nat (maxsize (ports_left s))"
    using inv by simp
  have wf: "range_wf (ports_left s)" using inv by simp
  obtain r where r: "ports.put_all (ports_left s) ?ps = (r, Inr ())" "range_wf r"
      "mset (free_ports r) = mset ?fs + mset ?ps" "nat (maxsize r) = nat (maxsize (ports_left s))"
    using ports.put_all_some [OF wf le] by blast
  have "0 \<notin> set ?ps" using inv by force
  then have "pmi_cleanup_cb True (ports_left s) (pmi_host s) i = (r, 0)"
    using Some v r(1) by (simp add: pmi_cleanup_cb_def return_ports_put_all)
  moreover have "maxsize r = maxsize (ports_left s)"
    using r(2,4) wf by (auto simp: range_wf_def)
  ultimately show ?thesis using that r(2,3) by blast
qed

lemma pmi_cleanup_inv:
  assumes "pmi_inv lo hi s" and "phase_of s i = Running"
    and "pmi_cleanup_cb handle (ports_left s) (pmi_host s) i = (r, rc)"
  shows "pmi_inv lo hi \<lparr>ports_left = r,
      pmi_host = (pmi_host s)\<lparr>ports_aux := (ports_aux (pmi_host s))(i := None)\<rparr>,
      phase_of = (phase_of s)(i := Finished)\<rparr>"
proof -
  let ?s = "\<lparr>ports_left = r, pmi_host = (pmi_host s)\<lparr>ports_aux := (ports_aux (pmi_host s))(i := None)\<rparr>,
      phase_of = (phase_of s)(i := Finished)\<rparr>"
  note inv = assms(1) [unfolded pmi_inv_def]
  have J: "job_ports ?s = (job_ports s)(i := [])"
    by (auto simp: job_ports_def fun_eq_iff)
  have r: "range_wf r \<and> maxsize r = maxsize (ports_left s) \<and> distinct (free_ports r)
      \<and> set (free_ports r) \<subseteq> set (free_ports (ports_left s)) \<union> set (job_ports s i)"
  proof (cases handle)
    case False
    with assms(3) inv show ?thesis by (simp add: pmi_cleanup_cb_def)
  next
    case True
    obtain r' where r': "pmi_cleanup_cb True (ports_left s) (pmi_host s) i = (r', 0)" "range_wf r'"
        "mset (free_ports r') = mset (free_ports (ports_left s) @ job_ports s i)"
        "maxsize r' = maxsize (ports_left s)"
      by (rule pmi_cleanup_ok [OF assms(1,2)]) simp
    have "distinct (free_ports (ports_left s) @ job_ports s i)" using inv by auto
    with r' assms(3) True mset_eq_setD [OF r'(3)] mset_eq_imp_distinct_iff [OF r'(3)]
    show ?thesis by simp
  qed
  have "\<forall>j. j \<noteq> i \<longrightarrow> set (job_ports s j) \<inter> set (free_ports r) = {}"
    using r inv by blast
  moreover have "set (free_ports r) \<subseteq> {lo..<hi}"
    using r inv by blast
  ultimately show ?thesis
    using r inv unfolding pmi_inv_def J by auto
qed

lemma pmi_reachable_inv: "pmi_reachable hl E s \<Longrightarrow> \<exists>lo hi. pmi_inv lo hi s \<and> 50 \<le> hi - lo"
proof (induction rule: pmi_reachable.induct)
  case (pmi_init r)
  then show ?case by (rule pmi_start_inv)
next
  case (pmi_next s s')
  then obtain lo hi where inv: "pmi_inv lo hi s" and b: "50 \<le> hi - lo" by blast
  from pmi_next.hyps(2) have "pmi_inv lo hi s'"
    by cases (auto intro: pmi_run_inv [OF inv] pmi_cleanup_inv [OF inv])
  with b show ?case by blast
qed

section \<open>Properties\<close>

text \<open>A concrete run for the witnesses: ports 2000 to 2049, job 1 on two hosts.\<close>

definition sample_init :: init_env where
  "sample_init = \<lparr>i_handle = True, i_conf = Some (2000, 2050), i_sodium = True, i_malloc = True,
     i_malloc_ports = True, i_register = True\<rparr>"

definition sample_range :: port_range where
  "sample_range = \<lparr>available_ports = map (\<lambda>i. 2000 + int i) [0..<50], fill = 50, maxsize = 50\<rparr>"

definition sample_run :: "bool \<Rightarrow> pmi_run_env" where
  "sample_run post = \<lparr>pmi_handle_ok = True, pmi_unpacked = Some (1, Some [Some ''a'', Some ''b'']),
     random_value = 7, pmi_pack_ok = True, pmi_post_ok = post, pmi_aux_ok = True\<rparr>"

definition sample_sys :: pmi_sys where
  "sample_sys = \<lparr>ports_left = sample_range\<lparr>fill := 48\<rparr>,
     pmi_host = \<lparr>pmi_events = [(1, [2049, 2048], 7)], ports_aux = [1 \<mapsto> PortArray [2049, 2048]]\<rparr>,
     phase_of = (\<lambda>_. Waiting)(1 := Running)\<rparr>"

lemma sample_init_range: "pmi_plugin_init sample_init = Some sample_range"
  by (simp add: pmi_plugin_init_def sample_init_def sample_range_def)

lemma sample_run_cb:
  "pmi_run_cb list_hostlist (sample_run True) sample_range \<lparr>pmi_events = [], ports_aux = Map.empty\<rparr> =
     (ports_left sample_sys, pmi_host sample_sys, 0)"
  by (simp add: pmi_run_cb_def sample_run_def sample_range_def sample_sys_def hostlist_from_array_def
      list_hostlist_def get_port_def Let_def del: upt_rec_numeral)

lemma sample_reachable: "pmi_reachable list_hostlist sample_init (pmi_start sample_range)"
  "pmi_reachable list_hostlist sample_init sample_sys"
proof -
  show 1: "pmi_reachable list_hostlist sample_init (pmi_start sample_range)"
    by (rule pmi_init) (rule sample_init_range)
  have "pmi_step list_hostlist (pmi_start sample_range) sample_sys"
    using pmi_run [of "pmi_start sample_range" 1 "sample_run True" "Some [Some ''a'', Some ''b'']" list_hostlist]
      sample_run_cb by (simp add: pmi_start_def sample_sys_def sample_run_def)
  with 1 show "pmi_reachable list_hostlist sample_init sample_sys"
    by (rule pmi_next)
qed

text \<open>
  C7. In every state that the plugin can reach, whatever calls fail on the way, a job holds either
  no ports or two different ones, all between 1024 and 65535; no port is held by two jobs; and a
  port that a job holds is not on the stack, so no other job can get it.
\<close>

theorem pmi_ports_exclusive:
  assumes "pmi_reachable hl E s"
  shows "(job_ports s i = [] \<or> (\<exists>p q. job_ports s i = [p, q] \<and> p \<noteq> q \<and> {p, q} \<subseteq> {1024..65535}))
    \<and> set (job_ports s i) \<inter> set (free_ports (ports_left s)) = {}
    \<and> distinct (free_ports (ports_left s))
    \<and> (i = j \<or> set (job_ports s i) \<inter> set (job_ports s j) = {})"
proof -
  obtain lo hi where inv: "pmi_inv lo hi s" using pmi_reachable_inv [OF assms] by (elim exE conjE)
  note I = inv [unfolded pmi_inv_def]
  have d: "distinct (job_ports s i)" and l: "set (job_ports s i) \<subseteq> {lo..<hi}"
    and n: "job_ports s i = [] \<or> length (job_ports s i) = 2" and b: "1024 \<le> lo" "hi \<le> 65536"
    using I by simp_all
  have "job_ports s i = [] \<or> (\<exists>p q. job_ports s i = [p, q] \<and> p \<noteq> q \<and> {p, q} \<subseteq> {1024..65535})"
  proof (cases "job_ports s i = []")
    case False
    then obtain p q where pq: "job_ports s i = [p, q]"
      using n by (cases "job_ports s i"; cases "tl (job_ports s i)") auto
    with d l b show ?thesis by auto
  qed simp
  moreover have "i = j \<or> set (job_ports s i) \<inter> set (job_ports s j) = {}"
    using I by (cases "i = j") simp_all
  ultimately show ?thesis using I by simp
qed

theorem pmi_ports_exclusive_witness:
  "job_ports sample_sys 1 = [2049, 2048] \<and> 2049 \<notin> set (free_ports (ports_left sample_sys))"
  using pmi_ports_exclusive [OF sample_reachable(2), of 1 2]
  by (simp add: job_ports_def sample_sys_def)

text \<open>
  C27. When a running job is cleaned up its ports always go back: the callback succeeds, the stack
  has room for them (the \<open>Port overflow\<close> and \<open>Malformed\<close> errors cannot occur) and afterwards holds
  exactly the free ports of before and those of the job.
\<close>

theorem pmi_cleanup_returns_ports:
  assumes "pmi_reachable hl E s" and "phase_of s i = Running"
  shows "\<exists>r. pmi_cleanup_cb True (ports_left s) (pmi_host s) i = (r, 0)
    \<and> mset (free_ports r) = mset (free_ports (ports_left s)) + mset (job_ports s i)"
proof -
  obtain lo hi where inv: "pmi_inv lo hi s" using pmi_reachable_inv [OF assms(1)] by (elim exE conjE)
  obtain r where "pmi_cleanup_cb True (ports_left s) (pmi_host s) i = (r, 0)"
    "mset (free_ports r) = mset (free_ports (ports_left s)) + mset (job_ports s i)"
    by (rule pmi_cleanup_ok [OF inv assms(2)])
  then show ?thesis by (intro exI conjI)
qed

theorem pmi_cleanup_returns_ports_witness:
  "\<exists>r. pmi_cleanup_cb True (ports_left sample_sys) (pmi_host sample_sys) 1 = (r, 0)
    \<and> length (free_ports r) = 50"
proof -
  have "phase_of sample_sys 1 = Running" by (simp add: sample_sys_def)
  from pmi_cleanup_returns_ports [OF sample_reachable(2) this] obtain r where
    r: "pmi_cleanup_cb True (ports_left sample_sys) (pmi_host sample_sys) 1 = (r, 0)"
    "mset (free_ports r) = mset (free_ports (ports_left sample_sys)) + mset (job_ports sample_sys 1)"
    by (elim exE conjE)
  from arg_cong [OF r(2), of size] have "length (free_ports r) = 50"
    by (simp add: free_ports_def sample_sys_def sample_range_def job_ports_def)
  with r(1) show ?thesis by (intro exI conjI)
qed

text \<open>
  A successful run callback for a job that does not have exactly one host takes the two top
  ports off the stack, posts them with the random number, and stores the same two ports with the
  job.
\<close>

theorem pmi_run_cb_effect:
  assumes "range_wf r" and "pmi_run_cb hl E r w = (r', w', 0)"
    and "pmi_unpacked E = Some (i, nodelist)" and "hostlist_from_array hl nodelist = Some h"
    and "hostlist_count hl h \<noteq> 1"
  shows "\<exists>p q. free_ports r = free_ports r' @ [q, p]
    \<and> pmi_events w' = pmi_events w @ [(i, [p, q], random_value E)]
    \<and> ports_aux w' = (ports_aux w)(i \<mapsto> PortArray [p, q])"
proof -
  obtain r1 x1 where g1: "get_port r = (r1, x1)" by (cases "get_port r")
  obtain r2 x2 where g2: "get_port r1 = (r2, x2)" by (cases "get_port r1")
  obtain p q where x: "x1 = Inr p" "x2 = Inr q" "r' = r2"
    and w': "w' = w\<lparr>pmi_events := pmi_events w @ [(i, [p, q], random_value E)],
        ports_aux := (ports_aux w)(i \<mapsto> PortArray [p, q])\<rparr>"
    using assms(2-5) g1 g2
    by (cases x1; cases x2) (auto simp: pmi_run_cb_def Let_def split: if_splits)
  note G1 = get_port_ok [OF assms(1) g1 [unfolded x]]
  note G2 = get_port_ok [OF G1(1) g2 [unfolded x]]
  have "free_ports r = free_ports r' @ [q, p]" using G1(2) G2(2) x by simp
  then show ?thesis using w' by (intro exI [of _ p] exI [of _ q]) simp
qed

theorem pmi_run_cb_effect_witness:
  "\<exists>p q. free_ports sample_range = free_ports (ports_left sample_sys) @ [q, p]
    \<and> pmi_events (pmi_host sample_sys) = [(1, [p, q], 7)]"
proof -
  have "\<exists>p q. free_ports sample_range = free_ports (ports_left sample_sys) @ [q, p]
    \<and> pmi_events (pmi_host sample_sys) =
        pmi_events \<lparr>pmi_events = [], ports_aux = Map.empty\<rparr> @ [(1, [p, q], random_value (sample_run True))]
    \<and> ports_aux (pmi_host sample_sys) =
        (ports_aux \<lparr>pmi_events = [], ports_aux = Map.empty\<rparr>)(1 \<mapsto> PortArray [p, q])"
    by (rule pmi_run_cb_effect [OF _ sample_run_cb, where nodelist = "Some [Some ''a'', Some ''b'']"
          and h = "[''a'', ''b'']"])
      (simp_all add: range_wf_def sample_range_def sample_run_def hostlist_from_array_def list_hostlist_def)
  then show ?thesis by (elim exE conjE, intro exI conjI) (simp_all add: sample_run_def)
qed

text \<open>
  C28. Ports leak when the callback fails after it took them: if the event cannot be posted, the
  callback returns an error with nothing stored for the job, yet the two ports are gone from the
  stack. No later cleanup of the job returns them.
\<close>

theorem pmi_run_cb_leaks_ports:
  assumes "range_wf r" and "2 \<le> fill r" and "pmi_handle_ok E" and "pmi_unpacked E = Some (i, nodelist)"
    and "hostlist_from_array hl nodelist = Some h" and "hostlist_count hl h \<noteq> 1"
    and "\<not> pmi_post_ok E" and "ports_aux w i = None"
  shows "\<exists>r' p q. pmi_run_cb hl E r w = (r', w, -1) \<and> free_ports r = free_ports r' @ [q, p]
    \<and> pmi_cleanup_cb True r' w i = (r', 0)"
proof -
  let ?r1 = "r\<lparr>fill := fill r - 1\<rparr>"
  obtain p where g1: "get_port r = (?r1, Inr p)" using assms(2) by (simp add: get_port_def Let_def)
  obtain r2 q where g2: "get_port ?r1 = (r2, Inr q)" using assms(2) by (simp add: get_port_def Let_def)
  note G1 = get_port_ok [OF assms(1) g1]
  note G2 = get_port_ok [OF G1(1) g2]
  have "free_ports r = free_ports r2 @ [q, p]" using G1(2) G2(2) by simp
  moreover have "pmi_run_cb hl E r w = (r2, w, -1)"
    using assms(3-7) g1 g2 by (simp add: pmi_run_cb_def)
  moreover have "pmi_cleanup_cb True r2 w i = (r2, 0)"
    using assms(8) by (simp add: pmi_cleanup_cb_def)
  ultimately show ?thesis by (intro exI conjI)
qed

theorem pmi_run_cb_leaks_ports_witness:
  "\<exists>r'. pmi_run_cb list_hostlist (sample_run False) sample_range \<lparr>pmi_events = [], ports_aux = Map.empty\<rparr>
      = (r', \<lparr>pmi_events = [], ports_aux = Map.empty\<rparr>, -1) \<and> length (free_ports r') = 48"
proof -
  have "\<exists>r' p q. pmi_run_cb list_hostlist (sample_run False) sample_range
        \<lparr>pmi_events = [], ports_aux = Map.empty\<rparr> = (r', \<lparr>pmi_events = [], ports_aux = Map.empty\<rparr>, -1)
      \<and> free_ports sample_range = free_ports r' @ [q, p]
      \<and> pmi_cleanup_cb True r' \<lparr>pmi_events = [], ports_aux = Map.empty\<rparr> 1 = (r', 0)"
    by (rule pmi_run_cb_leaks_ports [where nodelist = "Some [Some ''a'', Some ''b'']" and h = "[''a'', ''b'']"])
      (simp_all add: range_wf_def sample_range_def sample_run_def hostlist_from_array_def list_hostlist_def)
  then obtain r' p q where r: "pmi_run_cb list_hostlist (sample_run False) sample_range
        \<lparr>pmi_events = [], ports_aux = Map.empty\<rparr> = (r', \<lparr>pmi_events = [], ports_aux = Map.empty\<rparr>, -1)"
      "free_ports sample_range = free_ports r' @ [q, p]"
    by (elim exE conjE)
  from arg_cong [OF r(2), of length] have "length (free_ports r') = 48"
    by (simp add: free_ports_def sample_range_def)
  with r(1) show ?thesis by (intro exI conjI)
qed

end
