(* ===== verification/DwsJobtap.thy ===== *)
theory DwsJobtap
  imports Json "HOL-Library.State_Monad"
begin

text \<open>
  The jobtap plugin \<^verbatim>\<open>src/job-manager/plugins/dws-jobtap.c\<close>: it holds a job with \<^verbatim>\<open>#DW\<close>
  directives in the DEPEND state until the coral2-dws service has created its storage workflow,
  keeps a prolog active until the file systems are mounted and an epilog until the data has been
  moved out. The callbacks are written in the state monad: the state has the calls that the plugin
  has made into its host, in order, and the auxiliary items it stored with jobs.
\<close>

section \<open>The host\<close>

definition PLUGIN_NAME :: string where
  "PLUGIN_NAME = ''dws''"

definition CREATE_DEP_NAME :: string where
  "CREATE_DEP_NAME = ''dws-create''"

definition SETUP_PROLOG_NAME :: string where
  "SETUP_PROLOG_NAME = ''dws-setup''"

definition DWS_EPILOG_NAME :: string where
  "DWS_EPILOG_NAME = ''dws-epilog''"

definition EPILOG_ABORT_EXCEPTION :: string where
  "EPILOG_ABORT_EXCEPTION = ''dws-epilog-timeout''"

text \<open>
  The calls that can fail or that others observe. Exceptions are of severity 0; the flag of a
  finished prolog or epilog is its status (true for failure).
\<close>

datatype dws_call =
    RaiseException jobid string string
  | DependencyAdd jobid string
  | DependencyRemove jobid string
  | JobSubscribe jobid
  | RpcCreate json jobid json int int
  | RpcSetup jobid json
  | RpcPostRun jobid bool
  | RpcTeardown jobid
  | RpcAbort jobid
  | GetReactor
  | Calloc
  | JobAuxSet jobid string
  | FutureAuxSet string
  | FutureThen string
  | KvsKey jobid
  | KvsLookup jobid
  | TimerCreate real
  | TimerStart
  | PackJson
  | PrologStart jobid string
  | PrologFinish jobid string bool
  | EpilogStart jobid string
  | EpilogFinish jobid string bool
  | UpdateJobspec jobid json "json option"
  | PostEnvironment jobid json
  | Respond
  | RespondError string

text \<open>
  \<open>answer n\<close> says whether the \<open>n\<close>-th call succeeds. \<open>prolog_active\<close> is the item
  \<^verbatim>\<open>dws_prolog_active\<close> (a pointer to a flag, \<open>None\<close> when it was not stored), \<open>epilog_active\<close> the
  item \<^verbatim>\<open>dws_epilog_active\<close>.
\<close>

record dws_state =
  trace :: "dws_call list"
  answer :: "nat \<Rightarrow> bool"
  prolog_active :: "jobid \<Rightarrow> bool option"
  epilog_active :: "jobid \<Rightarrow> bool"
  epilog_timeout :: real

type_synonym 'a dws = "(dws_state, 'a) state"

definition host_call :: "dws_call \<Rightarrow> bool dws" where
  "host_call c = do {
     s \<leftarrow> State_Monad.get;
     State_Monad.set (s\<lparr>trace := trace s @ [c]\<rparr>);
     State_Monad.return (answer s (length (trace s)))
   }"

definition set_prolog_active :: "jobid \<Rightarrow> bool \<Rightarrow> unit dws" where
  "set_prolog_active i b = do {
     s \<leftarrow> State_Monad.get;
     State_Monad.set (s\<lparr>prolog_active := (prolog_active s)(i \<mapsto> b)\<rparr>)
   }"

definition set_epilog_active :: "jobid \<Rightarrow> unit dws" where
  "set_epilog_active i = do {
     s \<leftarrow> State_Monad.get;
     State_Monad.set (s\<lparr>epilog_active := (epilog_active s)(i := True)\<rparr>)
   }"

text \<open>A chain of calls that stops at the first failure, as \<^verbatim>\<open>a < 0 || b < 0 || c < 0\<close>.\<close>

fun host_calls :: "dws_call list \<Rightarrow> bool dws" where
  "host_calls [] = State_Monad.return True"
| "host_calls (c # cs) = do { ok \<leftarrow> host_call c; if ok then host_calls cs else State_Monad.return False }"

section \<open>Helpers\<close>

definition current_job_exception :: "jobid \<Rightarrow> string \<Rightarrow> bool dws" where
  "current_job_exception cur reason = host_call (RaiseException cur PLUGIN_NAME reason)"

definition raise_job_exception :: "jobid \<Rightarrow> string \<Rightarrow> string option \<Rightarrow> int dws" where
  "raise_job_exception i exn errstr = do {
     ok \<leftarrow> host_call (RaiseException i exn (''DWS workflow interactions failed: '' @
       (case errstr of None \<Rightarrow> ''<no error string provided>'' | Some e \<Rightarrow> e)));
     State_Monad.return (if ok then 0 else -1)
   }"

text \<open>The result has the return value and the new value of the flag.\<close>

definition dws_prolog_finish :: "jobid \<Rightarrow> bool \<Rightarrow> string option \<Rightarrow> bool \<Rightarrow> (int \<times> bool) dws" where
  "dws_prolog_finish i success errstr active =
     (if active then
        if \<not> success then do {
          rc \<leftarrow> raise_job_exception i SETUP_PROLOG_NAME errstr;
          State_Monad.return (rc, active)
        }
        else do {
          ok \<leftarrow> host_call (PrologFinish i SETUP_PROLOG_NAME (\<not> success));
          State_Monad.return (if ok then (0, False) else (-1, active))
        }
      else State_Monad.return (0, active))"

definition dws_epilog_finish :: "jobid \<Rightarrow> bool \<Rightarrow> string option \<Rightarrow> int dws" where
  "dws_epilog_finish i success errstr = do {
     ret \<leftarrow> (if \<not> success then raise_job_exception i DWS_EPILOG_NAME errstr else State_Monad.return 0);
     ok \<leftarrow> host_call (EpilogFinish i DWS_EPILOG_NAME (\<not> success));
     State_Monad.return (if ok then ret else -1)
   }"

section \<open>DEPEND: creating the workflow\<close>

text \<open>A response to an RPC: it could not be unpacked (with \<^verbatim>\<open>ENOSYS\<close> or not), or its members.\<close>

datatype rpc_reply = ReplyFailed bool | Reply bool "string option"

definition create_cb :: "jobid option \<Rightarrow> rpc_reply \<Rightarrow> unit dws" where
  "create_cb args reply = (case args of
       None \<Rightarrow> State_Monad.return ()
     | Some i \<Rightarrow> (case reply of
          ReplyFailed enosys \<Rightarrow> do {
            raise_job_exception i CREATE_DEP_NAME (Some (if enosys
              then ''dws.create RPC could not be sent. Admins: is the flux-coral2-dws service loaded?''
              else ''Failed to unpack dws.create RPC''));
            State_Monad.return ()
          }
        | Reply success errstr \<Rightarrow>
            if success then State_Monad.return ()
            else do {
              raise_job_exception i CREATE_DEP_NAME (Some (case errstr of
                Some e \<Rightarrow> e | None \<Rightarrow> ''dws.create RPC returned failure''));
              State_Monad.return ()
            }))"

record depend_args =
  d_id :: jobid
  d_dw :: "json option"
  d_failure_tolerance :: "int option"
  d_resources :: json
  d_userid :: int

definition depend_cb :: "jobid \<Rightarrow> depend_args option \<Rightarrow> int dws" where
  "depend_cb cur unpacked = (case unpacked of
       None \<Rightarrow> do { current_job_exception cur ''jobtap plugin failed to unpack args''; State_Monad.return (-1) }
     | Some a \<Rightarrow> (case d_dw a of
          None \<Rightarrow> State_Monad.return 0
        | Some dw \<Rightarrow> do {
            added \<leftarrow> host_call (DependencyAdd (d_id a) CREATE_DEP_NAME);
            if \<not> added then do {
              current_job_exception cur ''Failed to add dws jobtap dependency'';
              State_Monad.return (-1)
            } else do {
            subscribed \<leftarrow> host_call (JobSubscribe cur);
            if \<not> subscribed then do {
              current_job_exception cur ''dws-jobtap: error initializing exception-monitoring'';
              State_Monad.return (-1)
            } else do {
            sent \<leftarrow> host_call (RpcCreate dw (d_id a) (d_resources a) (d_userid a)
              (case d_failure_tolerance a of None \<Rightarrow> 0 | Some n \<Rightarrow> n));
            if \<not> sent then do {
              current_job_exception cur ''Failed to send dws.create RPC'';
              State_Monad.return (-1)
            } else do {
            mem \<leftarrow> host_call Calloc;
            if \<not> mem then do {
              current_job_exception cur ''Failed to allocate memory'';
              State_Monad.return (-1)
            } else do {
            set_up \<leftarrow> host_calls [FutureAuxSet ''flux::create_args'', FutureThen ''create_cb'', JobAuxSet cur []];
            if \<not> set_up then do {
              current_job_exception cur ''Failed to set aux on future'';
              State_Monad.return (-1)
            } else State_Monad.return 0
            }}}}}))"

section \<open>RUN: the prolog\<close>

text \<open>
  \<open>args\<close> is the argument struct in the future's aux hash; the flag is the one of the job that the
  pointer in the same hash refers to.
\<close>

definition setup_rpc_cb :: "jobid option \<Rightarrow> rpc_reply \<Rightarrow> unit dws" where
  "setup_rpc_cb args reply = do {
     s \<leftarrow> State_Monad.get;
     case args of
       None \<Rightarrow> State_Monad.return ()
     | Some i \<Rightarrow> (case prolog_active s i of
          None \<Rightarrow> State_Monad.return ()
        | Some active \<Rightarrow> (case reply of
            ReplyFailed enosys \<Rightarrow> do {
              (rc, b) \<leftarrow> dws_prolog_finish i False (Some ''Failed to unpack dws.setup RPC'') active;
              set_prolog_active i b
            }
          | Reply success errstr \<Rightarrow>
              if success then State_Monad.return ()
              else do {
                (rc, b) \<leftarrow> dws_prolog_finish i False (Some (case errstr of
                  Some e \<Rightarrow> e | None \<Rightarrow> ''dws.setup RPC returned failure'')) active;
                set_prolog_active i b
              }))
   }"

text \<open>\<open>R\<close> is the resource set, or \<open>None\<close> when the lookup failed.\<close>

definition fetch_R_callback :: "jobid option \<Rightarrow> json option \<Rightarrow> unit dws" where
  "fetch_R_callback args R = do {
     s \<leftarrow> State_Monad.get;
     case args of
       None \<Rightarrow> State_Monad.return ()
     | Some i \<Rightarrow> (case prolog_active s i of
          None \<Rightarrow> State_Monad.return ()
        | Some active \<Rightarrow> (case R of
            None \<Rightarrow> do {
              (rc, b) \<leftarrow> dws_prolog_finish i False (Some ''Failed to unpack R'') active;
              set_prolog_active i b
            }
          | Some r \<Rightarrow> do {
              mem \<leftarrow> host_call Calloc;
              if \<not> mem then do {
                (rc, b) \<leftarrow> dws_prolog_finish i False (Some ''Failed to create aux struct'') active;
                set_prolog_active i b
              } else do {
              sent \<leftarrow> host_calls [RpcSetup i r, FutureAuxSet ''flux::setup_args'', FutureAuxSet ''flux::prolog_active'',
                FutureThen ''setup_rpc_cb'', JobAuxSet i []];
              if sent then State_Monad.return ()
              else do {
                (rc, b) \<leftarrow> dws_prolog_finish i False (Some ''Failed to send dws.setup RPC'') active;
                set_prolog_active i b
              }
              }
            }))
   }"

record job_args =
  j_id :: jobid
  j_dw :: "json option"

definition run_cb :: "jobid \<Rightarrow> job_args option \<Rightarrow> int dws" where
  "run_cb cur unpacked = (case unpacked of
       None \<Rightarrow> do { current_job_exception cur ''jobtap plugin failed to unpack args''; State_Monad.return (-1) }
     | Some a \<Rightarrow> (case j_dw a of
          None \<Rightarrow> State_Monad.return 0
        | Some dw \<Rightarrow> do {
            subscribed \<leftarrow> host_call (JobSubscribe cur);
            if \<not> subscribed then do {
              current_job_exception cur ''dws-jobtap: error initializing exception-monitoring'';
              State_Monad.return (-1)
            } else do {
            stored \<leftarrow> host_calls [Calloc, JobAuxSet cur ''dws_prolog_active''];
            if \<not> stored then do {
              current_job_exception cur ''error creating prolog_active aux'';
              State_Monad.return (-1)
            } else do {
            set_prolog_active cur True;
            started \<leftarrow> host_call (PrologStart cur SETUP_PROLOG_NAME);
            if \<not> started then do {
              current_job_exception cur ''Failed to start dws jobtap prolog'';
              State_Monad.return (-1)
            } else do {
            mem \<leftarrow> host_call Calloc;
            if \<not> mem then do {
              (rc, b) \<leftarrow> dws_prolog_finish (j_id a) False (Some ''OOM'') True;
              set_prolog_active cur b;
              State_Monad.return (-1)
            } else do {
            fetching \<leftarrow> host_calls [KvsKey (j_id a), KvsLookup (j_id a), FutureAuxSet ''flux::fetch_R'',
              FutureAuxSet ''flux::prolog_active'', FutureThen ''fetch_R_callback''];
            if \<not> fetching then do {
              (rc, b) \<leftarrow> dws_prolog_finish (j_id a) False (Some '''') True;
              set_prolog_active cur b;
              State_Monad.return (-1)
            } else State_Monad.return 0
            }}}}}))"

section \<open>CLEANUP: the epilog\<close>

definition post_run_rpc_callback :: "jobid option \<Rightarrow> rpc_reply \<Rightarrow> unit dws" where
  "post_run_rpc_callback args reply = (case args of
       None \<Rightarrow> State_Monad.return ()
     | Some i \<Rightarrow> (case reply of
          ReplyFailed enosys \<Rightarrow> do {
            dws_epilog_finish i False (Some ''Failed to send dws.post_run RPC'');
            State_Monad.return ()
          }
        | Reply success errstr \<Rightarrow>
            if success then State_Monad.return ()
            else do { dws_epilog_finish i False errstr; State_Monad.return () }))"

text \<open>The states of a job; looking up an unknown job gives \<open>None\<close>.\<close>

datatype job_state = NEW | DEPEND | PRIORITY | SCHED | RUN | CLEANUP | INACTIVE

definition epilog_timeout_cb :: "job_state option \<Rightarrow> jobid \<Rightarrow> unit dws" where
  "epilog_timeout_cb job i =
     (if job \<noteq> Some CLEANUP then State_Monad.return ()
      else do { host_call (RaiseException i EPILOG_ABORT_EXCEPTION ''DWS epilog timed out''); State_Monad.return () })"

definition start_dws_epilog_for_job :: "jobid \<Rightarrow> jobid \<Rightarrow> bool \<Rightarrow> int dws" where
  "start_dws_epilog_for_job cur i dws_run_started = do {
     reactor \<leftarrow> host_call GetReactor;
     if \<not> reactor then do {
       current_job_exception cur ''Failed to fetch reactor from handle'';
       State_Monad.return (-1)
     } else do {
     mem \<leftarrow> host_calls [Calloc, JobAuxSet cur []];
     if \<not> mem then do {
       current_job_exception cur ''error allocating arg struct'';
       State_Monad.return (-1)
     } else do {
     marked \<leftarrow> host_call (JobAuxSet i ''dws_epilog_active'');
     (if marked then set_epilog_active i else State_Monad.return ());
     started \<leftarrow> (if marked then host_call (EpilogStart cur DWS_EPILOG_NAME) else State_Monad.return False);
     if \<not> started then do {
       current_job_exception cur ''Failed to start jobtap epilog'';
       State_Monad.return (-1)
     } else do {
     s \<leftarrow> State_Monad.get;
     timer \<leftarrow> (if epilog_timeout s > 0 then host_calls [TimerCreate (epilog_timeout s), JobAuxSet cur []]
       else State_Monad.return True);
     if \<not> timer then do {
       dws_epilog_finish i False (Some ''Failed to init dws-epilog timeout'');
       State_Monad.return (-1)
     } else do {
     (if epilog_timeout s > 0 then do { host_call TimerStart; State_Monad.return () } else State_Monad.return ());
     sent \<leftarrow> host_calls [RpcPostRun i dws_run_started, FutureThen ''post_run_rpc_callback'', JobAuxSet cur []];
     if \<not> sent then do {
       dws_epilog_finish i False (Some ''Failed to send dws.post_run RPC'');
       State_Monad.return (-1)
     } else State_Monad.return 0
     }}}}}"

text \<open>\<open>start_posted\<close>: whether the eventlog of the job has a \<^verbatim>\<open>start\<close> event.\<close>

definition cleanup_cb :: "jobid \<Rightarrow> bool \<Rightarrow> job_args option \<Rightarrow> int dws" where
  "cleanup_cb cur start_posted unpacked = (case unpacked of
       None \<Rightarrow> do { current_job_exception cur ''Failed to unpack args''; State_Monad.return (-1) }
     | Some a \<Rightarrow>
         if j_dw a \<noteq> None \<and> \<not> start_posted then start_dws_epilog_for_job cur (j_id a) False
         else State_Monad.return 0)"

definition finish_cb :: "jobid \<Rightarrow> job_args option \<Rightarrow> int dws" where
  "finish_cb cur unpacked = (case unpacked of
       None \<Rightarrow> do { current_job_exception cur ''Failed to unpack args''; State_Monad.return (-1) }
     | Some a \<Rightarrow>
         if j_dw a \<noteq> None then do {
           s \<leftarrow> State_Monad.get;
           if epilog_active s cur then State_Monad.return 0
           else start_dws_epilog_for_job cur (j_id a) True
         } else State_Monad.return 0)"

section \<open>Exceptions\<close>

record exception_args =
  e_id :: jobid
  e_severity :: int
  e_type :: "string option"

definition exception_cb :: "jobid \<Rightarrow> exception_args option \<Rightarrow> int dws" where
  "exception_cb cur unpacked = (case unpacked of
       None \<Rightarrow> State_Monad.return (-1)
     | Some a \<Rightarrow>
         if e_severity a \<noteq> 0 then State_Monad.return 0
         else do {
           s \<leftarrow> State_Monad.get;
           if prolog_active s cur = Some True then do {
             ok \<leftarrow> host_call (PrologFinish (e_id a) SETUP_PROLOG_NAME True);
             if \<not> ok then State_Monad.return (-1)
             else do { set_prolog_active cur False; State_Monad.return 0 }
           } else if epilog_active s cur then
             if e_type a = Some EPILOG_ABORT_EXCEPTION then do {
               sent \<leftarrow> host_call (RpcAbort (e_id a));
               if \<not> sent then State_Monad.return (-1)
               else do {
                 ok \<leftarrow> host_call (EpilogFinish (e_id a) DWS_EPILOG_NAME True);
                 State_Monad.return (if ok then 0 else -1)
               }
             } else do {
               sent \<leftarrow> host_call (RpcTeardown (e_id a));
               State_Monad.return (if sent then 0 else -1)
             }
           else State_Monad.return 0
         })"

section \<open>Messages from the service\<close>

text \<open>
  The jobspec attributes that \<^verbatim>\<open>generate_constraints\<close> unpacks; \<open>None\<close> when the job is not found or
  the unpacking fails.
\<close>

record spec_args =
  s_constraints :: "json option"
  s_allow_rabbits :: bool

definition generate_constraints :: "spec_args option \<Rightarrow> json \<Rightarrow> json option dws" where
  "generate_constraints spec constraint_to_add = (case spec of
       None \<Rightarrow> State_Monad.return None
     | Some sp \<Rightarrow> do {
         combined \<leftarrow> (case s_constraints sp of
             None \<Rightarrow> State_Monad.return (Some constraint_to_add)
           | Some old \<Rightarrow> do {
               ok \<leftarrow> host_call PackJson;
               State_Monad.return (if ok then Some (JObject [(''and'', JArray [old, constraint_to_add])]) else None)
             });
         case combined of
           None \<Rightarrow> State_Monad.return None
         | Some c \<Rightarrow>
             if s_allow_rabbits sp then do {
               ok \<leftarrow> host_call PackJson;
               State_Monad.return (if ok then Some (JObject [(''or'', JArray
                 [JObject [(''properties'', JArray [JString ''rabbit''])], c])]) else None)
             } else State_Monad.return (Some c)
       })"

text \<open>
  A message: malformed (with the job id if that member can be read) or its members. \<open>job\<close> is the
  state of the job and \<open>spec\<close> its attributes.
\<close>

datatype 'a message = Malformed "jobid option" | Message 'a

record update_msg =
  u_id :: jobid
  u_resources :: json
  u_errmsg :: "string option"
  u_exclude :: json

definition malformed_message :: "jobid option \<Rightarrow> string \<Rightarrow> unit dws" where
  "malformed_message i errmsg = do {
     (case i of None \<Rightarrow> State_Monad.return ()
      | Some j \<Rightarrow> do { raise_job_exception j ''exception'' (Some errmsg); State_Monad.return () });
     host_call (RespondError errmsg);
     State_Monad.return ()
   }"

definition resource_update_msg_cb :: "update_msg message \<Rightarrow> job_state option \<Rightarrow> spec_args option \<Rightarrow> unit dws" where
  "resource_update_msg_cb msg job spec = (case msg of
       Malformed i \<Rightarrow> malformed_message i ''received malformed dws.resource-update RPC''
     | Message m \<Rightarrow> (case u_errmsg m of
          Some errmsg \<Rightarrow> do {
            raise_job_exception (u_id m) PLUGIN_NAME (Some errmsg);
            host_call Respond;
            State_Monad.return ()
          }
        | None \<Rightarrow>
            if job \<noteq> Some DEPEND then do {
              host_call (RespondError ''job not found in depend state'');
              State_Monad.return ()
            } else do {
            constraints \<leftarrow> (if u_exclude m = JNull then State_Monad.return None
              else generate_constraints spec (u_exclude m));
            if u_exclude m \<noteq> JNull \<and> constraints = None then do {
              raise_job_exception (u_id m) PLUGIN_NAME (Some ''Could not generate new constraints'');
              host_call (RespondError ''Could not generate new constraints'');
              State_Monad.return ()
            } else do {
            updated \<leftarrow> host_call (UpdateJobspec (u_id m) (u_resources m) constraints);
            if \<not> updated then do {
              raise_job_exception (u_id m) PLUGIN_NAME (Some ''Internal error: failed to update jobspec'');
              host_call (RespondError ''could not update jobspec with new constraints and resources'');
              State_Monad.return ()
            } else do {
            removed \<leftarrow> host_call (DependencyRemove (u_id m) CREATE_DEP_NAME);
            if \<not> removed then do {
              host_call (RespondError ''Failed to remove dependency for job'');
              State_Monad.return ()
            } else do { host_call Respond; State_Monad.return () }
            }}}))"

record prolog_msg =
  p_id :: jobid
  p_variables :: json

text \<open>
  When the job has no flag the code works on a local one that is set; its final value is dropped.
\<close>

definition prolog_remove_msg_cb :: "prolog_msg message \<Rightarrow> unit dws" where
  "prolog_remove_msg_cb msg = (case msg of
       Malformed i \<Rightarrow> malformed_message i ''received malformed dws.prolog-remove RPC''
     | Message m \<Rightarrow> do {
         s \<leftarrow> State_Monad.get;
         let active = (case prolog_active s (p_id m) of None \<Rightarrow> True | Some b \<Rightarrow> b);
         let store = (\<lambda>b. if prolog_active s (p_id m) = None then State_Monad.return () else set_prolog_active (p_id m) b);
         posted \<leftarrow> host_call (PostEnvironment (p_id m) (p_variables m));
         if \<not> posted then do {
           (rc, b) \<leftarrow> dws_prolog_finish (p_id m) False (Some ''failed to post dws_environment event'') active;
           store b;
           host_call (RespondError ''failed to post dws_environment event'');
           State_Monad.return ()
         } else do {
         (rc, b) \<leftarrow> dws_prolog_finish (p_id m) True (Some ''success!'') active;
         store b;
         if rc < 0 then do {
           host_call (RespondError ''failed to finish prolog'');
           State_Monad.return ()
         } else do { host_call Respond; State_Monad.return () }
         }
       })"

definition epilog_remove_msg_cb :: "jobid message \<Rightarrow> job_state option \<Rightarrow> unit dws" where
  "epilog_remove_msg_cb msg job = (case msg of
       Malformed i \<Rightarrow> do {
         host_call (RespondError ''received malformed dws.epilog-remove RPC'');
         State_Monad.return ()
       }
     | Message i \<Rightarrow>
         if job \<noteq> Some CLEANUP then do {
           host_call (RespondError ''job not found in CLEANUP state'');
           State_Monad.return ()
         } else do {
         rc \<leftarrow> dws_epilog_finish i True (Some ''success!'');
         if rc < 0 then do {
           host_call (RespondError ''could not finish epilog'');
           State_Monad.return ()
         } else do { host_call Respond; State_Monad.return () }
         })"

text \<open>
  \<^verbatim>\<open>tab\<close> and \<^verbatim>\<open>flux_plugin_init\<close>: the registered topics and services, and the initial state.
  \<open>conf\<close> is the configured timeout, \<open>registered k\<close> the outcome of the \<open>k\<close>-th registration.
\<close>

definition dws_tab :: "string list" where
  "dws_tab = [''job.state.depend'', ''job.state.run'', ''job.state.cleanup'', ''job.event.finish'', ''job.event.exception'']"

definition dws_plugin_init :: "real option \<Rightarrow> (nat \<Rightarrow> bool) \<Rightarrow> (nat \<Rightarrow> bool) \<Rightarrow> (dws_state \<times> string list) option" where
  "dws_plugin_init conf registered answers =
     (if registered 0 \<and> registered 1 \<and> registered 2 \<and> registered 3
      then Some (\<lparr>trace = [], answer = answers, prolog_active = Map.empty, epilog_active = (\<lambda>_. False),
          epilog_timeout = (case conf of None \<Rightarrow> 0 | Some t \<Rightarrow> t)\<rparr>,
        dws_tab @ [''resource-update'', ''prolog-remove'', ''epilog-remove''])
      else None)"

section \<open>Running the callbacks\<close>

lemma run_host_call [simp]:
  "run_state (host_call c) s = (answer s (length (trace s)), s\<lparr>trace := trace s @ [c]\<rparr>)"
  by (simp add: host_call_def)

lemma run_set_prolog [simp]:
  "run_state (set_prolog_active i b) s = ((), s\<lparr>prolog_active := (prolog_active s)(i \<mapsto> b)\<rparr>)"
  by (simp add: set_prolog_active_def)

lemma run_set_epilog [simp]:
  "run_state (set_epilog_active i) s = ((), s\<lparr>epilog_active := (epilog_active s)(i := True)\<rparr>)"
  by (simp add: set_epilog_active_def)

lemma run_if [simp]: "run_state (if b then m else n) s = (if b then run_state m s else run_state n s)"
  by simp

lemmas dws_helpers = current_job_exception_def raise_job_exception_def dws_prolog_finish_def
  dws_epilog_finish_def malformed_message_def

text \<open>The calls that a callback adds, and whether the \<open>n\<close>-th call from the start state succeeds.\<close>

definition new_calls :: "dws_state \<Rightarrow> dws_state \<Rightarrow> dws_call list" where
  "new_calls s s' = drop (length (trace s)) (trace s')"

definition ok_at :: "dws_state \<Rightarrow> nat \<Rightarrow> bool" where
  "ok_at s n = answer s (length (trace s) + n)"

lemma ok_at_simps:
  "ok_at s 0 = answer s (length (trace s))"
  "ok_at s 1 = answer s (Suc (length (trace s)))"
  "ok_at s (Suc (0)) = answer s (Suc (length (trace s)))"
  "ok_at s 2 = answer s (Suc (Suc (length (trace s))))"
  "ok_at s (Suc (Suc (0))) = answer s (Suc (Suc (length (trace s))))"
  "ok_at s 3 = answer s (Suc (Suc (Suc (length (trace s)))))"
  "ok_at s (Suc (Suc (Suc (0)))) = answer s (Suc (Suc (Suc (length (trace s)))))"
  "ok_at s 4 = answer s (Suc (Suc (Suc (Suc (length (trace s))))))"
  "ok_at s (Suc (Suc (Suc (Suc (0))))) = answer s (Suc (Suc (Suc (Suc (length (trace s))))))"
  "ok_at s 5 = answer s (Suc (Suc (Suc (Suc (Suc (length (trace s)))))))"
  "ok_at s (Suc (Suc (Suc (Suc (Suc (0)))))) = answer s (Suc (Suc (Suc (Suc (Suc (length (trace s)))))))"
  "ok_at s 6 = answer s (Suc (Suc (Suc (Suc (Suc (Suc (length (trace s))))))))"
  "ok_at s (Suc (Suc (Suc (Suc (Suc (Suc (0))))))) = answer s (Suc (Suc (Suc (Suc (Suc (Suc (length (trace s))))))))"
  "ok_at s 7 = answer s (Suc (Suc (Suc (Suc (Suc (Suc (Suc (length (trace s)))))))))"
  "ok_at s (Suc (Suc (Suc (Suc (Suc (Suc (Suc (0)))))))) = answer s (Suc (Suc (Suc (Suc (Suc (Suc (Suc (length (trace s)))))))))"
  "ok_at s 8 = answer s (Suc (Suc (Suc (Suc (Suc (Suc (Suc (Suc (length (trace s))))))))))"
  "ok_at s (Suc (Suc (Suc (Suc (Suc (Suc (Suc (Suc (0))))))))) = answer s (Suc (Suc (Suc (Suc (Suc (Suc (Suc (Suc (length (trace s))))))))))"
  "ok_at s 9 = answer s (Suc (Suc (Suc (Suc (Suc (Suc (Suc (Suc (Suc (length (trace s)))))))))))"
  "ok_at s (Suc (Suc (Suc (Suc (Suc (Suc (Suc (Suc (Suc (0)))))))))) = answer s (Suc (Suc (Suc (Suc (Suc (Suc (Suc (Suc (Suc (length (trace s)))))))))))"
  "ok_at s 10 = answer s (Suc (Suc (Suc (Suc (Suc (Suc (Suc (Suc (Suc (Suc (length (trace s))))))))))))"
  "ok_at s (Suc (Suc (Suc (Suc (Suc (Suc (Suc (Suc (Suc (Suc (0))))))))))) = answer s (Suc (Suc (Suc (Suc (Suc (Suc (Suc (Suc (Suc (Suc (length (trace s))))))))))))"
  by (simp_all add: ok_at_def numeral_eq_Suc)

lemma new_calls_append [simp]: "trace s' = trace s @ cs \<Longrightarrow> new_calls s s' = cs"
  by (simp add: new_calls_def)

fun raises :: "dws_call \<Rightarrow> bool" where
  "raises (RaiseException i t m) = True"
| "raises _ = False"

text \<open>
  A job with directives is never let through unnoticed: \<^verbatim>\<open>depend_cb\<close> either adds the dependency,
  subscribes to the job's exceptions, asks the service to create the workflow with the data of the
  job, sets up the response handler and returns 0; or it stops at the first of these calls that
  fails, returns -1 and, as its last call, raises an exception on the job.
\<close>

theorem depend_cb_outcome:
  assumes "run_state (depend_cb cur (Some a)) s = (rc, s')" and "d_dw a = Some dw"
  shows "prolog_active s' = prolog_active s \<and> epilog_active s' = epilog_active s \<and>
    (let steps = [DependencyAdd (d_id a) ''dws-create'', JobSubscribe cur,
        RpcCreate dw (d_id a) (d_resources a) (d_userid a)
          (case d_failure_tolerance a of None \<Rightarrow> 0 | Some n \<Rightarrow> n), Calloc,
        FutureAuxSet ''flux::create_args'', FutureThen ''create_cb'', JobAuxSet cur []]
     in if list_all (ok_at s) [0..<7] then rc = 0 \<and> new_calls s s' = steps
        else rc = -1 \<and> (\<exists>n < 7. \<exists>text. \<not> ok_at s n \<and> list_all (ok_at s) [0..<n]
          \<and> new_calls s s' = take (Suc n) steps @ [RaiseException cur ''dws'' text]))"
proof -
  let ?steps = "[DependencyAdd (d_id a) ''dws-create'', JobSubscribe cur,
        RpcCreate dw (d_id a) (d_resources a) (d_userid a)
          (case d_failure_tolerance a of None \<Rightarrow> 0 | Some n \<Rightarrow> n), Calloc,
        FutureAuxSet ''flux::create_args'', FutureThen ''create_cb'', JobAuxSet cur []]"
  note D = depend_cb_def dws_helpers CREATE_DEP_NAME_def PLUGIN_NAME_def new_calls_def
  have aux: "prolog_active s' = prolog_active s \<and> epilog_active s' = epilog_active s"
    using assms by (auto simp: D split: if_splits)
  show ?thesis
  proof (cases "list_all (ok_at s) [0..<7]")
    case True
    then have ok: "ok_at s 0" "ok_at s 1" "ok_at s 2" "ok_at s 3" "ok_at s 4" "ok_at s 5" "ok_at s 6"
      by (simp_all add: list_all_iff)
    with assms have "rc = 0 \<and> new_calls s s' = ?steps"
      by (auto simp: D ok_at_simps)
    with aux True show ?thesis by (simp only: Let_def if_True simp_thms)
  next
    case False
    then have "\<exists>n. n < 7 \<and> \<not> ok_at s n" by (auto simp: list_all_iff)
    then obtain n where n: "n < 7 \<and> \<not> ok_at s n" and least: "\<forall>m < n. \<not> (m < 7 \<and> \<not> ok_at s m)"
      using exists_least_iff [of "\<lambda>n. n < 7 \<and> \<not> ok_at s n"] by blast
    then have before: "list_all (ok_at s) [0..<n]" by (auto simp: list_all_iff)
    have "n \<in> {0, 1, 2, 3, 4, 5, 6}" using n by auto
    then have "rc = -1 \<and> (\<exists>text. new_calls s s' = take (Suc n) ?steps @ [RaiseException cur ''dws'' text])"
      using before conjunct2 [OF n] assms
      by (elim insertE emptyE; hypsubst; auto simp: D ok_at_simps upt_rec)
    with n before aux False show ?thesis unfolding Let_def if_not_P [OF False] by blast
  qed
qed

lemma depend_cb_outcome_witness:
  "\<exists>s'. run_state (depend_cb 3 (Some \<lparr>d_id = 3, d_dw = Some (JArray []), d_failure_tolerance = None,
       d_resources = JObject [], d_userid = 1000\<rparr>))
     \<lparr>trace = [], answer = (\<lambda>_. True), prolog_active = Map.empty, epilog_active = (\<lambda>_. False), epilog_timeout = 0\<rparr>
     = (0, s') \<and> epilog_active s' = (\<lambda>_. False)"
proof -
  let ?a = "\<lparr>d_id = 3, d_dw = Some (JArray []), d_failure_tolerance = None, d_resources = JObject [],
    d_userid = 1000\<rparr>"
  let ?s = "\<lparr>trace = [], answer = (\<lambda>_. True), prolog_active = Map.empty, epilog_active = (\<lambda>_. False),
    epilog_timeout = 0\<rparr>"
  obtain rc s' where r: "run_state (depend_cb 3 (Some ?a)) ?s = (rc, s')"
    by (cases "run_state (depend_cb 3 (Some ?a)) ?s")
  have "list_all (ok_at ?s) [0..<7]" by (simp add: list_all_iff ok_at_def)
  with depend_cb_outcome [OF r, of "JArray []"] have "rc = 0" "epilog_active s' = (\<lambda>_. False)"
    by (simp_all add: Let_def)
  with r show ?thesis by blast
qed

section \<open>What a callback leaves alone\<close>

text \<open>The calls that a chain makes, starting with the \<open>n\<close>-th call.\<close>

fun chain_made :: "(nat \<Rightarrow> bool) \<Rightarrow> nat \<Rightarrow> dws_call list \<Rightarrow> dws_call list" where
  "chain_made ans n [] = []"
| "chain_made ans n (c # cs) = c # (if ans n then chain_made ans (Suc n) cs else [])"

fun chain_ok :: "(nat \<Rightarrow> bool) \<Rightarrow> nat \<Rightarrow> dws_call list \<Rightarrow> bool" where
  "chain_ok ans n [] \<longleftrightarrow> True"
| "chain_ok ans n (c # cs) \<longleftrightarrow> ans n \<and> chain_ok ans (Suc n) cs"

lemma run_host_calls:
  "run_state (host_calls cs) s =
     (chain_ok (answer s) (length (trace s)) cs,
      s\<lparr>trace := trace s @ chain_made (answer s) (length (trace s)) cs\<rparr>)"
  by (induction cs arbitrary: s) simp_all

lemma set_chain_made: "set (chain_made ans n cs) \<subseteq> set cs"
  by (induction cs arbitrary: n) auto

lemma chain_made_ok: "chain_ok ans n cs \<Longrightarrow> chain_made ans n cs = cs"
  by (induction cs arbitrary: n) auto

fun finishes_prolog :: "jobid \<Rightarrow> dws_call \<Rightarrow> bool" where
  "finishes_prolog i (PrologFinish j nm st) \<longleftrightarrow> i = j"
| "finishes_prolog i _ \<longleftrightarrow> False"

definition count_ok :: "(dws_call \<Rightarrow> bool) \<Rightarrow> (nat \<Rightarrow> bool) \<Rightarrow> dws_call list \<Rightarrow> nat" where
  "count_ok P ans cs = length (filter (\<lambda>(n, c). P c \<and> ans n) (enumerate 0 cs))"

definition prolog_finishes :: "dws_state \<Rightarrow> jobid \<Rightarrow> nat" where
  "prolog_finishes s i = count_ok (finishes_prolog i) (answer s) (trace s)"

lemma count_ok_snoc: "count_ok P ans (cs @ [c]) = count_ok P ans cs + (if P c \<and> ans (length cs) then 1 else 0)"
  by (simp add: count_ok_def enumerate_append_eq)

lemma count_ok_none:
  assumes "\<forall>c \<in> set ds. \<not> P c"
  shows "count_ok P ans (cs @ ds) = count_ok P ans cs"
proof -
  have "filter (\<lambda>(n, c). P c \<and> ans n) (enumerate k ds) = []" for k
    using assms by (auto simp: filter_empty_conv in_set_enumerate_eq)
  then show ?thesis by (simp add: count_ok_def enumerate_append_eq)
qed

definition quiet :: "dws_state \<Rightarrow> dws_state \<Rightarrow> bool" where
  "quiet s s' \<longleftrightarrow> (\<exists>cs. trace s' = trace s @ cs \<and> (\<forall>c \<in> set cs. \<forall>i. \<not> finishes_prolog i c))
     \<and> answer s' = answer s \<and> prolog_active s' = prolog_active s"

lemma quiet_refl: "quiet s s"
  by (simp add: quiet_def)

lemma quiet_trans: "quiet s t \<Longrightarrow> quiet t u \<Longrightarrow> quiet s u"
  by (fastforce simp: quiet_def)

lemma quiet_finishes: "quiet s s' \<Longrightarrow> prolog_finishes s' i = prolog_finishes s i"
  by (auto simp: quiet_def prolog_finishes_def count_ok_none)

abbreviation quiet_op :: "'a dws \<Rightarrow> bool" where
  "quiet_op m \<equiv> state_io_rel quiet m"

lemma quiet_return: "quiet_op (State_Monad.return x)"
  by (auto simp: state_io_rel_def quiet_refl)

lemma quiet_get: "quiet_op State_Monad.get"
  by (auto simp: state_io_rel_def quiet_refl)

lemma quiet_call: "\<forall>i. \<not> finishes_prolog i c \<Longrightarrow> quiet_op (host_call c)"
  by (auto simp: state_io_rel_def quiet_def)

lemma quiet_calls: "\<forall>c \<in> set cs. \<forall>i. \<not> finishes_prolog i c \<Longrightarrow> quiet_op (host_calls cs)"
  using set_chain_made by (auto simp: state_io_rel_def quiet_def run_host_calls) (metis subsetD)

lemma quiet_epilog: "quiet_op (set_epilog_active i)"
  by (auto simp: state_io_rel_def quiet_def)

lemma quiet_bind:
  assumes "quiet_op m" and "\<And>x. quiet_op (f x)"
  shows "quiet_op (m \<bind> f)"
proof -
  have "quiet s (snd (run_state (m \<bind> f) s))" for s
  proof -
    obtain x s1 where 1: "run_state m s = (x, s1)" by (cases "run_state m s")
    have "quiet s s1" using assms(1) 1 unfolding state_io_rel_def by (metis snd_conv)
    moreover have "quiet s1 (snd (run_state (f x) s1))" using assms(2) unfolding state_io_rel_def by blast
    ultimately show ?thesis using 1 quiet_trans by simp
  qed
  then show ?thesis by (simp add: state_io_rel_def)
qed

lemma quiet_if: "(b \<Longrightarrow> quiet_op m) \<Longrightarrow> (\<not> b \<Longrightarrow> quiet_op n) \<Longrightarrow> quiet_op (if b then m else n)"
  by simp

lemma quiet_raise: "quiet_op (raise_job_exception i t e)" "quiet_op (current_job_exception i r)"
  unfolding raise_job_exception_def current_job_exception_def
  by (intro quiet_bind quiet_call quiet_return; simp)+

lemma quiet_epilog_finish: "quiet_op (dws_epilog_finish i b e)"
  unfolding dws_epilog_finish_def
  by (intro quiet_bind quiet_if quiet_call quiet_return quiet_raise; simp)

lemmas quiet_rules = quiet_bind quiet_if quiet_call quiet_calls quiet_return quiet_get quiet_epilog
  quiet_raise quiet_epilog_finish

lemma quiet_start_epilog: "quiet_op (start_dws_epilog_for_job cur i b)"
  unfolding start_dws_epilog_for_job_def by (intro quiet_rules; simp)

lemma quiet_callbacks:
  "quiet_op (depend_cb cur a)" "quiet_op (create_cb j r)" "quiet_op (post_run_rpc_callback j r)"
  "quiet_op (epilog_timeout_cb js i)" "quiet_op (cleanup_cb cur b u)" "quiet_op (finish_cb cur u)"
  "quiet_op (epilog_remove_msg_cb m js)"
  unfolding depend_cb_def create_cb_def post_run_rpc_callback_def epilog_timeout_cb_def cleanup_cb_def
    finish_cb_def epilog_remove_msg_cb_def
  by (auto intro!: quiet_rules quiet_start_epilog split: option.split rpc_reply.split message.split)

lemma quiet_malformed: "quiet_op (malformed_message i e)"
  unfolding malformed_message_def by (auto intro!: quiet_rules split: option.split)

lemma quiet_generate: "quiet_op (generate_constraints sp c)"
  unfolding generate_constraints_def by (auto intro!: quiet_rules split: option.split)

lemma quiet_update: "quiet_op (resource_update_msg_cb m js sp)"
  unfolding resource_update_msg_cb_def
  by (auto intro!: quiet_rules quiet_malformed quiet_generate split: option.split message.split)

lemma run_prolog_fail:
  "\<exists>rc cs. run_state (dws_prolog_finish i False e active) s = ((rc, active), s\<lparr>trace := trace s @ cs\<rparr>)
     \<and> (\<forall>c \<in> set cs. \<forall>j. \<not> finishes_prolog j c)"
  by (cases active)
    (auto simp: dws_prolog_finish_def raise_job_exception_def intro: exI [of _ "[]"])

text \<open>Giving up: the exception is raised and the flag stays as it was.\<close>

lemma quiet_give_up:
  assumes "prolog_active s i = Some active" and "quiet s0 s"
  shows "quiet s0 (snd (run_state (do { (rc, b) \<leftarrow> dws_prolog_finish i False e active; set_prolog_active i b }) s))"
proof -
  obtain rc cs where r: "run_state (dws_prolog_finish i False e active) s = ((rc, active), s\<lparr>trace := trace s @ cs\<rparr>)"
    and cs: "\<forall>c \<in> set cs. \<forall>j. \<not> finishes_prolog j c"
    using run_prolog_fail [of i e active s] by (elim exE conjE)
  have "quiet s (snd (run_state (do { (rc, b) \<leftarrow> dws_prolog_finish i False e active; set_prolog_active i b }) s))"
    using assms(1) cs by (auto simp: r quiet_def fun_upd_idem)
  with assms(2) show ?thesis by (rule quiet_trans)
qed

lemma quiet_setup: "quiet s (snd (run_state (setup_rpc_cb args r) s))"
proof (cases args)
  case (Some i)
  show ?thesis
  proof (cases "prolog_active s i")
    case (Some active)
    note G = quiet_give_up [OF Some quiet_refl]
    show ?thesis
      using G \<open>args = Some i\<close> Some by (cases r) (auto simp: setup_rpc_cb_def quiet_refl)
  qed (simp add: setup_rpc_cb_def Some quiet_refl)
qed (simp add: setup_rpc_cb_def quiet_refl)

lemma quiet_fetch_R: "quiet s (snd (run_state (fetch_R_callback args R) s))"
proof (cases args)
  case (Some i)
  show ?thesis
  proof (cases "prolog_active s i")
    case (Some active)
    show ?thesis
    proof (cases R)
      case None
      then show ?thesis
        using quiet_give_up [OF Some quiet_refl] \<open>args = Some i\<close> Some by (simp add: fetch_R_callback_def)
    next
      case (Some r)
      let ?s1 = "s\<lparr>trace := trace s @ [Calloc]\<rparr>"
      let ?cs = "[RpcSetup i r, FutureAuxSet ''flux::setup_args'', FutureAuxSet ''flux::prolog_active'',
        FutureThen ''setup_rpc_cb'', JobAuxSet i []]"
      let ?s2 = "snd (run_state (host_calls ?cs) ?s1)"
      have q1: "quiet s ?s1" by (auto simp: quiet_def)
      have "quiet_op (host_calls ?cs)" by (rule quiet_calls) simp
      then have q2: "quiet s ?s2" using q1 quiet_trans unfolding state_io_rel_def by blast
      then have a: "prolog_active ?s2 i = Some active" using \<open>prolog_active s i = Some active\<close> by (simp add: quiet_def)
      note G1 = quiet_give_up [OF _ q1, of i active] and G2 = quiet_give_up [OF a q2]
      obtain b s2 where r: "run_state (host_calls ?cs) ?s1 = (b, s2)" by (cases "run_state (host_calls ?cs) ?s1")
      show ?thesis
        using G1 G2 q2 \<open>args = Some i\<close> \<open>prolog_active s i = Some active\<close> Some r
        by (cases b) (auto simp: fetch_R_callback_def simp del: host_calls.simps)
    qed
  qed (simp add: fetch_R_callback_def Some quiet_refl)
qed (simp add: fetch_R_callback_def quiet_refl)

text \<open>The same for the operations on a job whose flag is known.\<close>

definition quiet_when :: "jobid \<Rightarrow> bool \<Rightarrow> 'a dws \<Rightarrow> bool" where
  "quiet_when i b m \<longleftrightarrow> (\<forall>s. prolog_active s i = Some b \<longrightarrow> quiet s (snd (run_state m s)))"

lemma quiet_when_op: "quiet_op m \<Longrightarrow> quiet_when i b m"
  by (simp add: quiet_when_def state_io_rel_def)

lemma quiet_when_bind:
  assumes "quiet_op m" and "\<And>x. quiet_when i b (f x)"
  shows "quiet_when i b (m \<bind> f)"
  unfolding quiet_when_def
proof (intro allI impI)
  fix s :: dws_state
  assume s: "prolog_active s i = Some b"
  obtain x s1 where 1: "run_state m s = (x, s1)" by (cases "run_state m s")
  have q: "quiet s s1" using assms(1) 1 unfolding state_io_rel_def by (metis snd_conv)
  then have "prolog_active s1 i = Some b" using s by (simp add: quiet_def)
  then have "quiet s1 (snd (run_state (f x) s1))" using assms(2) [of x] by (simp add: quiet_when_def)
  with q have "quiet s (snd (run_state (f x) s1))" by (rule quiet_trans)
  then show "quiet s (snd (run_state (m \<bind> f) s))" by (simp add: 1)
qed

lemma quiet_when_if: "quiet_when i b m \<Longrightarrow> quiet_when i b n \<Longrightarrow> quiet_when i b (if c then m else n)"
  by simp

lemma quiet_when_give_up:
  "quiet_when i b (do { (rc, b') \<leftarrow> dws_prolog_finish i False e b; set_prolog_active i b'; State_Monad.return x })"
  unfolding quiet_when_def
proof (intro allI impI)
  fix s :: dws_state
  assume s: "prolog_active s i = Some b"
  obtain rc cs where r: "run_state (dws_prolog_finish i False e b) s = ((rc, b), s\<lparr>trace := trace s @ cs\<rparr>)"
    and cs: "\<forall>c \<in> set cs. \<forall>j. \<not> finishes_prolog j c"
    using run_prolog_fail [of i e b s] by (elim exE conjE)
  show "quiet s (snd (run_state (do { (rc, b') \<leftarrow> dws_prolog_finish i False e b; set_prolog_active i b';
      State_Monad.return x }) s))"
    using s cs by (auto simp: r quiet_def fun_upd_idem)
qed

definition start_prolog :: "jobid \<Rightarrow> int dws" where
  "start_prolog cur = do {
     started \<leftarrow> host_call (PrologStart cur SETUP_PROLOG_NAME);
     if \<not> started then do {
       current_job_exception cur ''Failed to start dws jobtap prolog'';
       State_Monad.return (-1)
     } else do {
     mem \<leftarrow> host_call Calloc;
     if \<not> mem then do {
       (rc, b) \<leftarrow> dws_prolog_finish cur False (Some ''OOM'') True;
       set_prolog_active cur b;
       State_Monad.return (-1)
     } else do {
     fetching \<leftarrow> host_calls [KvsKey cur, KvsLookup cur, FutureAuxSet ''flux::fetch_R'',
       FutureAuxSet ''flux::prolog_active'', FutureThen ''fetch_R_callback''];
     if \<not> fetching then do {
       (rc, b) \<leftarrow> dws_prolog_finish cur False (Some []) True;
       set_prolog_active cur b;
       State_Monad.return (-1)
     } else State_Monad.return 0
     }}}"

lemma quiet_run_rest: "quiet_when cur True (start_prolog cur)"
  unfolding start_prolog_def
  by (intro quiet_when_bind quiet_when_if quiet_when_give_up quiet_call quiet_calls
      quiet_when_op [OF quiet_return] quiet_when_op [OF quiet_bind] quiet_raise quiet_return; simp)

lemma quiet_run:
  assumes "u = None \<or> (\<exists>a. u = Some a \<and> j_id a = cur)"
  shows "quiet s (snd (run_state (run_cb cur u) s))
    \<or> quiet (s\<lparr>prolog_active := (prolog_active s)(cur \<mapsto> True)\<rparr>) (snd (run_state (run_cb cur u) s))"
proof (cases u)
  case None
  have "quiet_op (run_cb cur None)"
    unfolding run_cb_def option.case by (intro quiet_rules)
  then show ?thesis using None by (auto simp: state_io_rel_def)
next
  case (Some a)
  then have id: "j_id a = cur" using assms by auto
  show ?thesis
  proof (cases "j_dw a")
    case None
    with Some show ?thesis by (simp add: run_cb_def quiet_refl)
  next
    case dw: (Some dw)
    show ?thesis
    proof (cases "answer s (length (trace s))
        \<and> chain_ok (answer s) (Suc (length (trace s))) [Calloc, JobAuxSet cur ''dws_prolog_active'']")
      case False
      then have "quiet s (snd (run_state (run_cb cur u) s))"
        using Some dw by (auto simp: run_cb_def current_job_exception_def quiet_def)
      then show ?thesis by blast
    next
      case True
      let ?s1 = "s\<lparr>trace := trace s @ [JobSubscribe cur, Calloc, JobAuxSet cur ''dws_prolog_active''],
        prolog_active := (prolog_active s)(cur \<mapsto> True)\<rparr>"
      have q1: "quiet (s\<lparr>prolog_active := (prolog_active s)(cur \<mapsto> True)\<rparr>) ?s1"
        by (auto simp: quiet_def)
      have r: "run_state (run_cb cur u) s = run_state (start_prolog cur) ?s1"
        using True Some dw id by (simp add: run_cb_def start_prolog_def)
      have "quiet ?s1 (snd (run_state (run_cb cur u) s))"
        using quiet_run_rest [of cur] unfolding r quiet_when_def by simp
      with q1 show ?thesis by (blast intro: quiet_trans)
    qed
  qed
qed

text \<open>Either nothing happens to the prolog of any job, or that of job \<open>i\<close> is finished.\<close>

definition prolog_effect :: "jobid \<Rightarrow> dws_state \<Rightarrow> dws_state \<Rightarrow> bool" where
  "prolog_effect i s s' \<longleftrightarrow>
     (prolog_active s' = prolog_active s \<and> prolog_finishes s' = prolog_finishes s)
     \<or> (prolog_active s i = Some True \<and> prolog_active s' = (prolog_active s)(i \<mapsto> False)
        \<and> prolog_finishes s' = (prolog_finishes s)(i := Suc (prolog_finishes s i)))"

lemma quiet_effect: "quiet s s' \<Longrightarrow> prolog_effect i s s'"
  using quiet_finishes by (auto simp: prolog_effect_def quiet_def fun_eq_iff)

lemma prolog_finishes_call:
  "prolog_finishes (s\<lparr>trace := trace s @ [c]\<rparr>) i =
     prolog_finishes s i + (if finishes_prolog i c \<and> answer s (length (trace s)) then 1 else 0)"
  by (simp add: prolog_finishes_def count_ok_snoc)

lemma prolog_finishes_frame [simp]:
  "prolog_finishes (s\<lparr>prolog_active := x\<rparr>) = prolog_finishes s"
  "prolog_finishes (s\<lparr>trace := t, prolog_active := x\<rparr>) = prolog_finishes (s\<lparr>trace := t\<rparr>)"
  "prolog_finishes (s\<lparr>prolog_active := x, trace := t\<rparr>) = prolog_finishes (s\<lparr>trace := t\<rparr>)"
  by (simp_all add: prolog_finishes_def fun_eq_iff)

lemma exception_effect:
  assumes "u = None \<or> (\<exists>a. u = Some a \<and> e_id a = cur)"
  shows "prolog_effect cur s (snd (run_state (exception_cb cur u) s))"
proof (cases "\<exists>a. u = Some a \<and> e_severity a = 0 \<and> prolog_active s cur = Some True")
  case True
  then obtain a where a: "u = Some a" "e_severity a = 0" "prolog_active s cur = Some True" "e_id a = cur"
    using assms by auto
  have "prolog_finishes (s\<lparr>trace := trace s @ [PrologFinish cur SETUP_PROLOG_NAME True]\<rparr>) j =
      prolog_finishes s j + (if j = cur \<and> answer s (length (trace s)) then 1 else 0)" for j
    by (simp add: prolog_finishes_call)
  then show ?thesis
    using a by (auto simp: exception_cb_def prolog_effect_def fun_eq_iff)
next
  case False
  then have "quiet s (snd (run_state (exception_cb cur u) s))"
    by (auto simp: exception_cb_def quiet_def split: option.splits)
  then show ?thesis by (rule quiet_effect)
qed

lemma prolog_remove_effect:
  assumes "case m of Malformed j \<Rightarrow> True | Message p \<Rightarrow> p_id p = i \<and> prolog_active s i \<noteq> None"
  shows "prolog_effect i s (snd (run_state (prolog_remove_msg_cb m) s))"
proof (cases m)
  case (Malformed j)
  have "quiet s (snd (run_state (prolog_remove_msg_cb m) s))"
    using quiet_malformed Malformed by (simp add: prolog_remove_msg_cb_def state_io_rel_def)
  then show ?thesis by (rule quiet_effect)
next
  case (Message p)
  with assms obtain active where p: "p_id p = i" "prolog_active s i = Some active" by auto
  let ?s1 = "s\<lparr>trace := trace s @ [PostEnvironment i (p_variables p)]\<rparr>"
  have q1: "quiet s ?s1" by (auto simp: quiet_def)
  show ?thesis
  proof (cases "answer s (length (trace s)) \<and> active")
    case False
    then have "quiet s (snd (run_state (prolog_remove_msg_cb m) s))"
      using Message p by (auto simp: prolog_remove_msg_cb_def quiet_def dws_prolog_finish_def
          raise_job_exception_def fun_upd_idem)
    then show ?thesis by (rule quiet_effect)
  next
    case True
    let ?s2 = "?s1\<lparr>trace := trace ?s1 @ [PrologFinish i SETUP_PROLOG_NAME False]\<rparr>"
    have "prolog_finishes ?s2 j = prolog_finishes s j + (if j = i \<and> answer s (Suc (length (trace s))) then 1 else 0)" for j
      using quiet_finishes [OF q1, of j] prolog_finishes_call [of ?s1 "PrologFinish i SETUP_PROLOG_NAME False" j] by simp
    then have f: "prolog_finishes ?s2 = (if answer s (Suc (length (trace s)))
        then (prolog_finishes s)(i := Suc (prolog_finishes s i)) else prolog_finishes s)"
      by (auto simp: fun_eq_iff)
    have g: "prolog_finishes (s\<lparr>trace := trace s @ [PostEnvironment i (p_variables p), PrologFinish i SETUP_PROLOG_NAME False, c]\<rparr>)
        = prolog_finishes ?s2" if "\<forall>j. \<not> finishes_prolog j c" for c
      using prolog_finishes_call [of ?s2 c] that by (auto simp: fun_eq_iff)
    show ?thesis
      using True Message p f g [of Respond] g [of "RespondError ''failed to finish prolog''"]
      by (cases "answer s (Suc (length (trace s)))")
        (simp_all add: prolog_remove_msg_cb_def dws_prolog_finish_def prolog_effect_def fun_upd_idem)
  qed
qed

text \<open>For a job without the flag the message finishes the prolog if the calls succeed, and no flag changes.\<close>

lemma prolog_remove_unflagged:
  assumes "prolog_active s (p_id p) = None"
  shows "let s' = snd (run_state (prolog_remove_msg_cb (Message p)) s) in
    prolog_active s' = prolog_active s \<and>
    prolog_finishes s' = (if answer s (length (trace s)) \<and> answer s (Suc (length (trace s)))
      then (prolog_finishes s)(p_id p := Suc (prolog_finishes s (p_id p))) else prolog_finishes s)"
proof -
  have f: "prolog_finishes (s\<lparr>trace := trace s @ [a, b, c]\<rparr>) j = prolog_finishes s j
      + (if finishes_prolog j a \<and> answer s (length (trace s)) then 1 else 0)
      + (if finishes_prolog j b \<and> answer s (Suc (length (trace s))) then 1 else 0)
      + (if finishes_prolog j c \<and> answer s (Suc (Suc (length (trace s)))) then 1 else 0)" for a b c j
    using prolog_finishes_call [of s a j] prolog_finishes_call [of "s\<lparr>trace := trace s @ [a]\<rparr>" b j]
      prolog_finishes_call [of "s\<lparr>trace := trace s @ [a, b]\<rparr>" c j] by simp
  show ?thesis
    using assms by (simp add: prolog_remove_msg_cb_def dws_prolog_finish_def raise_job_exception_def
        f fun_eq_iff)
qed

section \<open>The epilog is started only by its own operation\<close>

fun starts_epilog :: "jobid \<Rightarrow> dws_call \<Rightarrow> bool" where
  "starts_epilog i (EpilogStart j nm) \<longleftrightarrow> i = j"
| "starts_epilog i _ \<longleftrightarrow> False"

definition epilog_starts :: "dws_state \<Rightarrow> jobid \<Rightarrow> nat" where
  "epilog_starts s i = length (filter (starts_epilog i) (trace s))"

definition calm :: "dws_state \<Rightarrow> dws_state \<Rightarrow> bool" where
  "calm s s' \<longleftrightarrow> epilog_starts s' = epilog_starts s \<and> epilog_active s' = epilog_active s"

lemma calm_refl: "calm s s"
  by (simp add: calm_def)

abbreviation calm_op :: "'a dws \<Rightarrow> bool" where
  "calm_op m \<equiv> state_io_rel calm m"

lemma calm_bind: "calm_op m \<Longrightarrow> (\<And>x. calm_op (f x)) \<Longrightarrow> calm_op (m \<bind> f)"
  by (auto simp: state_io_rel_def calm_def split: prod.split) (metis snd_conv)+

lemma calm_basic:
  "calm_op (State_Monad.return x)" "calm_op State_Monad.get" "calm_op (set_prolog_active i b)"
  by (auto simp: state_io_rel_def calm_def epilog_starts_def)

lemma calm_call: "\<forall>i. \<not> starts_epilog i c \<Longrightarrow> calm_op (host_call c)"
  by (auto simp: state_io_rel_def calm_def epilog_starts_def fun_eq_iff)

lemma calm_if: "calm_op m \<Longrightarrow> calm_op n \<Longrightarrow> calm_op (if b then m else n)"
  by simp

lemma calm_calls: "\<forall>c \<in> set cs. \<forall>i. \<not> starts_epilog i c \<Longrightarrow> calm_op (host_calls cs)"
  by (induction cs) (auto intro!: calm_bind calm_basic calm_call calm_if)

lemma calm_prod: "(\<And>x y. calm_op (f x y)) \<Longrightarrow> calm_op (case p of (x, y) \<Rightarrow> f x y)"
  by (cases p) simp

lemma calm_helpers:
  "calm_op (raise_job_exception i t e)" "calm_op (current_job_exception i r)"
  "calm_op (dws_prolog_finish i b e a)" "calm_op (dws_epilog_finish i b e)"
  "calm_op (malformed_message j m)"
  unfolding dws_helpers
  by (auto intro!: calm_bind calm_basic calm_call split: option.split)

lemmas calm_rules = calm_bind calm_basic calm_call calm_calls calm_if calm_prod calm_helpers

lemma calm_generate: "calm_op (generate_constraints sp c)"
  unfolding generate_constraints_def by (auto intro!: calm_rules split: option.split)

lemma calm_depend: "calm_op (depend_cb cur d)"
  unfolding depend_cb_def by (auto intro!: calm_rules split: option.split)

lemma calm_run: "calm_op (run_cb cur u)"
  unfolding run_cb_def by (auto intro!: calm_rules split: option.split)

lemma calm_responses:
  "calm_op (create_cb j r)" "calm_op (setup_rpc_cb j r)" "calm_op (fetch_R_callback j R)"
  "calm_op (post_run_rpc_callback j r)" "calm_op (epilog_timeout_cb js i)"
  unfolding create_cb_def setup_rpc_cb_def fetch_R_callback_def post_run_rpc_callback_def epilog_timeout_cb_def
  by (auto intro!: calm_rules split: option.split rpc_reply.split simp del: host_calls.simps)

lemma calm_exception: "calm_op (exception_cb cur x)"
  unfolding exception_cb_def by (auto intro!: calm_rules split: option.split)

lemma calm_messages:
  "calm_op (resource_update_msg_cb m js sp)" "calm_op (prolog_remove_msg_cb p)" "calm_op (epilog_remove_msg_cb q js)"
  unfolding resource_update_msg_cb_def prolog_remove_msg_cb_def epilog_remove_msg_cb_def Let_def
  by (auto intro!: calm_rules calm_generate split: option.split message.split)

text \<open>Either no epilog is started, or the item is stored and at most the one of \<open>i\<close> is.\<close>

definition epilog_effect :: "jobid \<Rightarrow> dws_state \<Rightarrow> dws_state \<Rightarrow> bool" where
  "epilog_effect i s s' \<longleftrightarrow> calm s s' \<or>
     (epilog_active s' = (epilog_active s)(i := True)
      \<and> epilog_starts s' = (epilog_starts s)(i := Suc (epilog_starts s i)))"

lemma calm_before: "calm s t \<Longrightarrow> epilog_effect i t u \<Longrightarrow> epilog_effect i s u"
  by (auto simp: epilog_effect_def calm_def)

lemma calm_after: "epilog_effect i s t \<Longrightarrow> calm t u \<Longrightarrow> epilog_effect i s u"
  by (auto simp: epilog_effect_def calm_def)

lemma effect_bind_calm:
  assumes "calm_op m" and "\<And>x. state_io_rel (epilog_effect i) (f x)"
  shows "state_io_rel (epilog_effect i) (m \<bind> f)"
proof -
  have "epilog_effect i s (snd (run_state (m \<bind> f) s))" for s
  proof -
    obtain x t where t: "run_state m s = (x, t)" by (cases "run_state m s")
    have "calm s t" using assms(1) t unfolding state_io_rel_def by (metis snd_conv)
    moreover have "epilog_effect i t (snd (run_state (f x) t))" using assms(2) unfolding state_io_rel_def by blast
    ultimately show ?thesis using calm_before t by simp
  qed
  then show ?thesis by (simp add: state_io_rel_def)
qed

lemma effect_calm: "calm_op m \<Longrightarrow> state_io_rel (epilog_effect i) m"
  by (simp add: state_io_rel_def epilog_effect_def)

lemma effect_if:
  "state_io_rel (epilog_effect i) m \<Longrightarrow> state_io_rel (epilog_effect i) n
    \<Longrightarrow> state_io_rel (epilog_effect i) (if b then m else n)"
  by simp

lemma effect_mark:
  assumes "\<And>b. calm_op (k b)"
  shows "state_io_rel (epilog_effect i) (do {
     (if marked then set_epilog_active i else State_Monad.return ());
     started \<leftarrow> (if marked then host_call (EpilogStart i nm) else State_Monad.return False);
     k started
   })"
proof -
  have "epilog_effect i s (snd (run_state (do {
     set_epilog_active i;
     started \<leftarrow> host_call (EpilogStart i nm);
     k started
   }) s))" for s
  proof -
    let ?t = "s\<lparr>epilog_active := (epilog_active s)(i := True), trace := trace s @ [EpilogStart i nm]\<rparr>"
    have "epilog_effect i s ?t"
      by (simp add: epilog_effect_def epilog_starts_def fun_eq_iff)
    moreover have "calm ?t (snd (run_state (k (answer s (length (trace s)))) ?t))"
      using assms unfolding state_io_rel_def by blast
    ultimately have "epilog_effect i s (snd (run_state (k (answer s (length (trace s)))) ?t))"
      by (rule calm_after)
    then show ?thesis by simp
  qed
  moreover have "state_io_rel (epilog_effect i) (k False)"
    using assms by (rule effect_calm)
  ultimately show ?thesis by (cases marked) (simp_all add: state_io_rel_def)
qed

lemma effect_start: "state_io_rel (epilog_effect i) (start_dws_epilog_for_job i i b)"
  unfolding start_dws_epilog_for_job_def
  by (intro effect_bind_calm effect_if effect_mark effect_calm calm_rules; simp)

lemma effect_cleanup:
  assumes "\<forall>a. u = Some a \<longrightarrow> j_id a = i"
  shows "epilog_effect i s (snd (run_state (cleanup_cb i started u) s))
    \<and> (started \<longrightarrow> calm s (snd (run_state (cleanup_cb i started u) s)))"
proof (cases u)
  case None
  have "calm_op (cleanup_cb i started None)"
    unfolding cleanup_cb_def option.case by (intro calm_rules)
  then have "calm s (snd (run_state (cleanup_cb i started None) s))" by (simp add: state_io_rel_def)
  then show ?thesis unfolding None epilog_effect_def by blast
next
  case (Some a)
  then show ?thesis
    using assms effect_start [of i False] by (auto simp: cleanup_cb_def state_io_rel_def epilog_effect_def calm_refl)
qed

lemma effect_finish:
  assumes "\<forall>a. u = Some a \<longrightarrow> j_id a = i"
  shows "epilog_effect i s (snd (run_state (finish_cb i u) s))
    \<and> (epilog_active s i \<longrightarrow> calm s (snd (run_state (finish_cb i u) s)))"
proof (cases u)
  case None
  have "calm_op (finish_cb i None)"
    unfolding finish_cb_def option.case by (intro calm_rules)
  then show ?thesis using None by (simp add: state_io_rel_def epilog_effect_def)
next
  case (Some a)
  then show ?thesis
    using assms effect_start [of i True] by (auto simp: finish_cb_def state_io_rel_def epilog_effect_def calm_refl)
qed

section \<open>Runs of the plugin\<close>

text \<open>
  What the host knows of the jobs: those that entered RUN, posted \<^verbatim>\<open>start\<close>, entered CLEANUP. Each
  state is entered once, a job starts in RUN only, and finishes only if it started. Messages, replies
  and exceptions come in any order; \<open>unflagged\<close> counts for a job the \<^verbatim>\<open>dws.prolog-remove\<close> messages
  that came for it while it had no flag.
\<close>

record job_history =
  entered_run :: "jobid set"
  started :: "jobid set"
  entered_cleanup :: "jobid set"
  unflagged :: "jobid \<Rightarrow> nat"

definition no_jobs :: job_history where
  "no_jobs = \<lparr>entered_run = {}, started = {}, entered_cleanup = {}, unflagged = (\<lambda>_. 0)\<rparr>"

fun note_remove :: "dws_state \<Rightarrow> prolog_msg message \<Rightarrow> job_history \<Rightarrow> job_history" where
  "note_remove s (Malformed j) h = h"
| "note_remove s (Message p) h =
     (if prolog_active s (p_id p) = None
      then h\<lparr>unflagged := (unflagged h)(p_id p := Suc (unflagged h (p_id p)))\<rparr> else h)"

inductive dws_reachable :: "job_history \<Rightarrow> dws_state \<Rightarrow> bool" where
  init: "dws_plugin_init conf registered answers = Some (s, handlers) \<Longrightarrow> dws_reachable no_jobs s"
| depend: "dws_reachable h s \<Longrightarrow> dws_reachable h (snd (run_state (depend_cb i d) s))"
| create_reply: "dws_reachable h s \<Longrightarrow> dws_reachable h (snd (run_state (create_cb j r) s))"
| resource_update: "dws_reachable h s \<Longrightarrow> dws_reachable h (snd (run_state (resource_update_msg_cb m js sp) s))"
| run: "dws_reachable h s \<Longrightarrow> i \<notin> entered_run h \<Longrightarrow> (\<forall>a. u = Some a \<longrightarrow> j_id a = i) \<Longrightarrow>
    dws_reachable (h\<lparr>entered_run := insert i (entered_run h)\<rparr>) (snd (run_state (run_cb i u) s))"
| fetch_reply: "dws_reachable h s \<Longrightarrow> dws_reachable h (snd (run_state (fetch_R_callback j R) s))"
| setup_reply: "dws_reachable h s \<Longrightarrow> dws_reachable h (snd (run_state (setup_rpc_cb j r) s))"
| prolog_remove: "dws_reachable h s \<Longrightarrow> dws_reachable (note_remove s pm h) (snd (run_state (prolog_remove_msg_cb pm) s))"
| job_start: "dws_reachable h s \<Longrightarrow> i \<in> entered_run h \<Longrightarrow> i \<notin> entered_cleanup h \<Longrightarrow>
    dws_reachable (h\<lparr>started := insert i (started h)\<rparr>) s"
| finish: "dws_reachable h s \<Longrightarrow> i \<in> started h \<Longrightarrow> (\<forall>a. u = Some a \<longrightarrow> j_id a = i) \<Longrightarrow>
    dws_reachable h (snd (run_state (finish_cb i u) s))"
| cleanup: "dws_reachable h s \<Longrightarrow> i \<notin> entered_cleanup h \<Longrightarrow> (\<forall>a. u = Some a \<longrightarrow> j_id a = i) \<Longrightarrow>
    dws_reachable (h\<lparr>entered_cleanup := insert i (entered_cleanup h)\<rparr>)
      (snd (run_state (cleanup_cb i (i \<in> started h) u) s))"
| post_run_reply: "dws_reachable h s \<Longrightarrow> dws_reachable h (snd (run_state (post_run_rpc_callback j r) s))"
| timeout: "dws_reachable h s \<Longrightarrow> dws_reachable h (snd (run_state (epilog_timeout_cb js i) s))"
| epilog_remove: "dws_reachable h s \<Longrightarrow> dws_reachable h (snd (run_state (epilog_remove_msg_cb em js) s))"
| exception: "dws_reachable h s \<Longrightarrow> (\<forall>a. x = Some a \<longrightarrow> e_id a = i) \<Longrightarrow>
    dws_reachable h (snd (run_state (exception_cb i x) s))"

text \<open>
  The prolog of a job counts as finished once when its flag was cleared, and at most once more for
  every message that came while it had no flag.
\<close>

definition cleared :: "dws_state \<Rightarrow> jobid \<Rightarrow> nat" where
  "cleared s i = (if prolog_active s i = Some False then 1 else 0)"

definition prolog_inv :: "job_history \<Rightarrow> dws_state \<Rightarrow> bool" where
  "prolog_inv h s \<longleftrightarrow> (\<forall>i. cleared s i \<le> prolog_finishes s i \<and> prolog_finishes s i \<le> cleared s i + unflagged h i
     \<and> (i \<notin> entered_run h \<longrightarrow> prolog_active s i = None))"

lemma prolog_inv_quiet: "prolog_inv h s \<Longrightarrow> quiet s s' \<Longrightarrow> prolog_inv h s'"
  by (simp add: prolog_inv_def cleared_def quiet_finishes) (auto simp: quiet_def split: if_splits)

lemma prolog_inv_op: "prolog_inv h s \<Longrightarrow> quiet_op m \<Longrightarrow> prolog_inv h (snd (run_state m s))"
  using prolog_inv_quiet by (simp add: state_io_rel_def)

lemma prolog_invD:
  assumes "prolog_inv h s"
  shows "cleared s i \<le> prolog_finishes s i" "prolog_finishes s i \<le> cleared s i + unflagged h i"
    "i \<notin> entered_run h \<Longrightarrow> prolog_active s i = None"
  using assms unfolding prolog_inv_def by blast+

lemma prolog_inv_effect:
  assumes "prolog_inv h s" and "prolog_effect i s s'"
  shows "prolog_inv h s'"
  unfolding prolog_inv_def
proof
  fix j
  note I = prolog_invD [OF assms(1), of j]
  consider "prolog_active s' j = prolog_active s j" "prolog_finishes s' j = prolog_finishes s j"
    | "prolog_active s j = Some True" "prolog_active s' j = Some False" "prolog_finishes s' j = Suc (prolog_finishes s j)"
    using assms(2) by (cases "j = i") (auto simp: prolog_effect_def)
  then show "cleared s' j \<le> prolog_finishes s' j \<and> prolog_finishes s' j \<le> cleared s' j + unflagged h j
      \<and> (j \<notin> entered_run h \<longrightarrow> prolog_active s' j = None)"
  proof cases
    case 1
    with I show ?thesis by (simp add: cleared_def)
  next
    case 2
    with I show ?thesis by (auto simp: cleared_def)
  qed
qed

lemma prolog_inv_remove:
  assumes "prolog_inv h s"
  shows "prolog_inv (note_remove s pm h) (snd (run_state (prolog_remove_msg_cb pm) s))"
proof (cases "\<exists>p. pm = Message p \<and> prolog_active s (p_id p) = None")
  case True
  then obtain p where p: "pm = Message p" "prolog_active s (p_id p) = None" by blast
  note U = prolog_remove_unflagged [OF p(2), unfolded Let_def]
  show ?thesis unfolding prolog_inv_def
  proof
    fix i
    let ?s' = "snd (run_state (prolog_remove_msg_cb pm) s)"
    have "prolog_finishes ?s' i = prolog_finishes s i \<or>
        i = p_id p \<and> prolog_finishes ?s' i = Suc (prolog_finishes s i)"
      using U p(1) by simp
    moreover have "cleared ?s' i = cleared s i" using U p(1) by (simp add: cleared_def)
    ultimately show "cleared ?s' i \<le> prolog_finishes ?s' i \<and>
        prolog_finishes ?s' i \<le> cleared ?s' i + unflagged (note_remove s pm h) i \<and>
        (i \<notin> entered_run (note_remove s pm h) \<longrightarrow> prolog_active ?s' i = None)"
      using assms [unfolded prolog_inv_def, THEN spec, of i] U p by auto
  qed
next
  case False
  then have n: "note_remove s pm h = h" by (cases pm) auto
  from False have "prolog_effect (case pm of Malformed j \<Rightarrow> 0 | Message p \<Rightarrow> p_id p) s
      (snd (run_state (prolog_remove_msg_cb pm) s))"
    by (intro prolog_remove_effect) (auto split: message.split)
  with assms show ?thesis unfolding n by (rule prolog_inv_effect)
qed

lemma prolog_inv_run:
  assumes "prolog_inv h s" and "i \<notin> entered_run h" and "\<forall>a. u = Some a \<longrightarrow> j_id a = i"
  shows "prolog_inv (h\<lparr>entered_run := insert i (entered_run h)\<rparr>) (snd (run_state (run_cb i u) s))"
proof -
  let ?h = "h\<lparr>entered_run := insert i (entered_run h)\<rparr>"
  have "prolog_inv ?h s" using assms(1) by (auto simp: prolog_inv_def)
  moreover have "prolog_inv ?h (s\<lparr>prolog_active := (prolog_active s)(i \<mapsto> True)\<rparr>)"
    unfolding prolog_inv_def
  proof
    fix j
    show "cleared (s\<lparr>prolog_active := (prolog_active s)(i \<mapsto> True)\<rparr>) j
        \<le> prolog_finishes (s\<lparr>prolog_active := (prolog_active s)(i \<mapsto> True)\<rparr>) j \<and>
      prolog_finishes (s\<lparr>prolog_active := (prolog_active s)(i \<mapsto> True)\<rparr>) j
        \<le> cleared (s\<lparr>prolog_active := (prolog_active s)(i \<mapsto> True)\<rparr>) j + unflagged ?h j \<and>
      (j \<notin> entered_run ?h \<longrightarrow> (prolog_active (s\<lparr>prolog_active := (prolog_active s)(i \<mapsto> True)\<rparr>)) j = None)"
      using prolog_invD [OF assms(1), of j] assms(2) by (cases "j = i") (auto simp: cleared_def)
  qed
  moreover have "u = None \<or> (\<exists>a. u = Some a \<and> j_id a = i)" using assms(3) by (cases u) auto
  ultimately show ?thesis using quiet_run prolog_inv_quiet by blast
qed

lemma prolog_inv_reachable: "dws_reachable h s \<Longrightarrow> prolog_inv h s"
proof (induction rule: dws_reachable.induct)
  case (init conf registered answers s handlers)
  then show ?case
    by (auto simp: prolog_inv_def cleared_def dws_plugin_init_def prolog_finishes_def count_ok_def split: if_splits)
next
  case (run h s i u)
  then show ?case using prolog_inv_run by blast
next
  case (fetch_reply h s j R)
  then show ?case using prolog_inv_quiet quiet_fetch_R by blast
next
  case (setup_reply h s j r)
  then show ?case using prolog_inv_quiet quiet_setup by blast
next
  case (prolog_remove h s pm)
  from prolog_remove.IH show ?case by (rule prolog_inv_remove)
next
  case (exception h s x i)
  have "prolog_effect i s (snd (run_state (exception_cb i x) s))"
    using exception.hyps by (intro exception_effect) (cases x; auto)
  with exception.IH show ?case by (rule prolog_inv_effect)
next
  case (job_start h s i)
  then show ?case by (simp add: prolog_inv_def cleared_def)
next
  case (cleanup h s i u)
  then have "prolog_inv h (snd (run_state (cleanup_cb i (i \<in> started h) u) s))"
    using prolog_inv_op quiet_callbacks(5) by blast
  then show ?case by (simp add: prolog_inv_def)
qed (simp_all add: prolog_inv_op quiet_callbacks quiet_update)

text \<open>At most one epilog is started for a job.\<close>

definition epilog_inv :: "job_history \<Rightarrow> dws_state \<Rightarrow> bool" where
  "epilog_inv h s \<longleftrightarrow> (\<forall>i. epilog_starts s i \<le> (if epilog_active s i then 1 else 0)
     \<and> (epilog_active s i \<longrightarrow> i \<in> started h \<or> i \<in> entered_cleanup h))"

lemma epilog_inv_op: "epilog_inv h s \<Longrightarrow> calm_op m \<Longrightarrow> epilog_inv h (snd (run_state m s))"
  by (simp add: epilog_inv_def state_io_rel_def calm_def)

lemma epilog_inv_effect:
  assumes "epilog_inv h s" and "epilog_effect i s s'" and "epilog_active s i \<longrightarrow> calm s s'"
    and "i \<in> started h \<or> i \<in> entered_cleanup h"
  shows "epilog_inv h s'"
proof (cases "calm s s'")
  case True
  with assms(1) show ?thesis by (simp add: epilog_inv_def calm_def)
next
  case False
  then have n: "\<not> epilog_active s i" and e: "epilog_active s' = (epilog_active s)(i := True)"
    "epilog_starts s' = (epilog_starts s)(i := Suc (epilog_starts s i))"
    using assms(2,3) by (auto simp: epilog_effect_def)
  have "epilog_starts s i \<le> (if epilog_active s i then 1 else 0)"
    using assms(1) unfolding epilog_inv_def by blast
  with n have "epilog_starts s i = 0" by simp
  with e assms(1,4) show ?thesis by (simp add: epilog_inv_def)
qed

lemma note_remove_epilog [simp]:
  "started (note_remove s pm h) = started h" "entered_cleanup (note_remove s pm h) = entered_cleanup h"
  by (cases pm; simp)+

lemma epilog_inv_reachable: "dws_reachable h s \<Longrightarrow> epilog_inv h s"
proof (induction rule: dws_reachable.induct)
  case (init conf registered answers s handlers)
  then show ?case by (auto simp: epilog_inv_def dws_plugin_init_def epilog_starts_def split: if_splits)
next
  case (run h s i u)
  then have "epilog_inv h (snd (run_state (run_cb i u) s))" using epilog_inv_op calm_run by blast
  then show ?case by (simp add: epilog_inv_def)
next
  case (job_start h s i)
  then show ?case by (auto simp: epilog_inv_def)
next
  case (finish h s i u)
  then show ?case using epilog_inv_effect effect_finish by blast
next
  case (cleanup h s i u)
  let ?s' = "snd (run_state (cleanup_cb i (i \<in> started h) u) s)"
  let ?h = "h\<lparr>entered_cleanup := insert i (entered_cleanup h)\<rparr>"
  have inv: "epilog_inv ?h s" using cleanup.IH by (auto simp: epilog_inv_def)
  have e: "epilog_effect i s ?s'" "i \<in> started h \<longrightarrow> calm s ?s'"
    using effect_cleanup [of u i s "i \<in> started h"] cleanup.hyps by blast+
  have "epilog_active s i \<longrightarrow> i \<in> started h" using cleanup.IH cleanup.hyps by (auto simp: epilog_inv_def)
  then have c: "epilog_active s i \<longrightarrow> calm s ?s'" using e(2) by blast
  have "i \<in> started ?h \<or> i \<in> entered_cleanup ?h" by simp
  then show ?case by (rule epilog_inv_effect [OF inv e(1) c])
next
  case (depend h s i d)
  then show ?case using epilog_inv_op calm_depend by blast
next
  case (exception h s x i)
  then show ?case using epilog_inv_op calm_exception by blast
next
  case (prolog_remove h s pm)
  then have "epilog_inv h (snd (run_state (prolog_remove_msg_cb pm) s))" using epilog_inv_op calm_messages(2) by blast
  then show ?case by (simp add: epilog_inv_def)
qed (simp_all add: epilog_inv_op calm_responses calm_messages)

section \<open>Properties of the runs\<close>

definition all_jobs_run :: "jobid \<Rightarrow> job_args option" where
  "all_jobs_run i = Some \<lparr>j_id = i, j_dw = Some (JArray [])\<rparr>"

definition fresh_state :: dws_state where
  "fresh_state = \<lparr>trace = [], answer = (\<lambda>_. True), prolog_active = Map.empty, epilog_active = (\<lambda>_. False),
    epilog_timeout = 0\<rparr>"

lemma fresh_reachable: "dws_reachable no_jobs fresh_state"
  by (rule dws_reachable.init [of None "\<lambda>_. True" "\<lambda>_. True"]) (simp add: dws_plugin_init_def fresh_state_def)

text \<open>
  C10. In every run of the plugin the prolog of a job is finished at most once, whatever the order
  of responses, messages and exceptions and whichever calls into the host fail, as long as no
  \<^verbatim>\<open>dws.prolog-remove\<close> message came for the job while it had no flag: then the number of successful
  \<^verbatim>\<open>prolog_finish\<close> calls for the job is 1 if its flag was cleared and 0 otherwise. Every such message,
  which the code handles with a local flag, can add one more and never takes one away.
\<close>

theorem prolog_finished_once:
  assumes "dws_reachable h s"
  shows "let n = (if prolog_active s i = Some False then 1 else 0) in
    n \<le> prolog_finishes s i \<and> prolog_finishes s i \<le> n + unflagged h i"
proof -
  have "prolog_inv h s" using assms by (rule prolog_inv_reachable)
  then show ?thesis unfolding prolog_inv_def cleared_def Let_def by blast
qed

lemma prolog_finished_once_witness:
  "\<exists>s. prolog_finishes s 5 = 1 \<and> prolog_active s 5 = Some False"
proof -
  let ?s1 = "snd (run_state (run_cb 5 (all_jobs_run 5)) fresh_state)"
  let ?x = "Some \<lparr>e_id = 5, e_severity = 0, e_type = None\<rparr>"
  let ?s2 = "snd (run_state (exception_cb 5 ?x) ?s1)"
  let ?h = "no_jobs\<lparr>entered_run := insert 5 (entered_run no_jobs)\<rparr>"
  have "dws_reachable ?h ?s1"
    by (rule dws_reachable.run [OF fresh_reachable]) (simp_all add: no_jobs_def all_jobs_run_def)
  then have r: "dws_reachable ?h ?s2"
    by (rule dws_reachable.exception) simp
  have "unflagged ?h 5 = 0" by (simp add: no_jobs_def)
  moreover have "prolog_active ?s2 5 = Some False"
    by (simp add: exception_cb_def run_cb_def all_jobs_run_def fresh_state_def)
  ultimately show ?thesis
    using prolog_finished_once [OF r, of 5] by (intro exI [of _ ?s2]) (simp add: Let_def)
qed

text \<open>
  The bound is reached: with a message that comes before the job enters RUN, the prolog is finished
  for the message and again for the exception that ends it.
\<close>

lemma prolog_finished_twice:
  "\<exists>h s. dws_reachable h s \<and> unflagged h 5 = 1 \<and> prolog_finishes s 5 = 2"
proof -
  let ?m = "Message \<lparr>p_id = 5, p_variables = JObject []\<rparr>"
  let ?x = "Some \<lparr>e_id = 5, e_severity = 0, e_type = None\<rparr>"
  let ?s0 = "snd (run_state (prolog_remove_msg_cb ?m) fresh_state)"
  let ?s1 = "snd (run_state (run_cb 5 (all_jobs_run 5)) ?s0)"
  let ?s2 = "snd (run_state (exception_cb 5 ?x) ?s1)"
  let ?k = "note_remove fresh_state ?m no_jobs"
  let ?h = "?k\<lparr>entered_run := insert 5 (entered_run ?k)\<rparr>"
  have r0: "dws_reachable ?k ?s0" by (rule dws_reachable.prolog_remove [OF fresh_reachable])
  have r1: "dws_reachable ?h ?s1"
    by (rule dws_reachable.run [OF r0]) (simp_all add: no_jobs_def fresh_state_def all_jobs_run_def)
  have "dws_reachable ?h ?s2" by (rule dws_reachable.exception [OF r1]) simp
  moreover have "unflagged ?h 5 = 1" by (simp add: no_jobs_def fresh_state_def)
  moreover have "prolog_finishes ?s2 5 = 2"
    by (simp add: exception_cb_def run_cb_def prolog_remove_msg_cb_def dws_prolog_finish_def
        all_jobs_run_def fresh_state_def prolog_finishes_def count_ok_def upt_rec)
  ultimately show ?thesis by blast
qed

text \<open>
  C11. At most one epilog is started for a job, by its \<^verbatim>\<open>finish\<close> event or by entering CLEANUP
  without having started, however often the events are handled; and it is only started after the
  item that later \<^verbatim>\<open>finish\<close> events look for was stored.
\<close>

theorem epilog_started_once:
  assumes "dws_reachable h s"
  shows "epilog_starts s i \<le> (if epilog_active s i then 1 else 0)"
proof -
  have "epilog_inv h s" using assms by (rule epilog_inv_reachable)
  then show ?thesis unfolding epilog_inv_def by blast
qed

lemma epilog_started_once_witness:
  "\<exists>s. epilog_starts s 5 = 1 \<and> epilog_starts s 5 \<le> (if epilog_active s 5 then 1 else 0)"
proof -
  let ?s1 = "snd (run_state (cleanup_cb 5 (5 \<in> started no_jobs) (all_jobs_run 5)) fresh_state)"
  have r: "dws_reachable (no_jobs\<lparr>entered_cleanup := insert 5 (entered_cleanup no_jobs)\<rparr>) ?s1"
    by (rule dws_reachable.cleanup [OF fresh_reachable]) (simp_all add: no_jobs_def all_jobs_run_def)
  have "epilog_starts ?s1 5 = 1"
    by (simp add: cleanup_cb_def all_jobs_run_def fresh_state_def no_jobs_def start_dws_epilog_for_job_def
        epilog_starts_def)
  with epilog_started_once [OF r, of 5] show ?thesis by blast
qed

text \<open>
  C35. A failed set-up does not leave the job stuck: when the lookup of R or the \<^verbatim>\<open>dws.setup\<close> RPC
  fails for a job with a running prolog, an exception is raised on it, and the handler of that
  exception finishes the prolog with failure status and clears the flag.
\<close>

theorem failed_setup_releases_prolog:
  assumes "prolog_active s i = Some True" and "\<forall>n. answer s n"
    and "step \<in> {setup_rpc_cb (Some i) (ReplyFailed enosys), setup_rpc_cb (Some i) (Reply False errstr),
      fetch_R_callback (Some i) None}"
    and "run_state step s = (u, s1)"
    and "run_state (exception_cb i (Some \<lparr>e_id = i, e_severity = 0, e_type = Some ''dws-setup''\<rparr>)) s1 = (rc, s2)"
  shows "(\<exists>text. new_calls s s1 = [RaiseException i ''dws-setup'' text]) \<and>
    new_calls s1 s2 = [PrologFinish i ''dws-setup'' True] \<and> rc = 0 \<and> prolog_active s2 i = Some False"
proof -
  have "(\<exists>text. s1 = s\<lparr>trace := trace s @ [RaiseException i ''dws-setup'' text]\<rparr>)"
    using assms(1-4) by (auto simp: setup_rpc_cb_def fetch_R_callback_def dws_prolog_finish_def
        raise_job_exception_def SETUP_PROLOG_NAME_def fun_upd_idem)
  then obtain m where "s1 = s\<lparr>trace := trace s @ [RaiseException i ''dws-setup'' m]\<rparr>" ..
  with assms(1,2,5) show ?thesis
    by (auto simp: exception_cb_def SETUP_PROLOG_NAME_def)
qed

lemma failed_setup_releases_prolog_witness:
  "\<exists>s s1 s2 u rc. run_state (fetch_R_callback (Some 4) None) s = (u, s1) \<and>
     run_state (exception_cb 4 (Some \<lparr>e_id = 4, e_severity = 0, e_type = Some ''dws-setup''\<rparr>)) s1 = (rc, s2) \<and>
     prolog_active s 4 = Some True \<and> prolog_active s2 4 = Some False"
proof -
  let ?s = "fresh_state\<lparr>prolog_active := Map.empty(4 \<mapsto> True)\<rparr>"
  let ?x = "Some \<lparr>e_id = 4, e_severity = 0, e_type = Some ''dws-setup''\<rparr>"
  obtain u s1 where r1: "run_state (fetch_R_callback (Some 4) None) ?s = (u, s1)"
    by (cases "run_state (fetch_R_callback (Some 4) None) ?s")
  obtain rc s2 where r2: "run_state (exception_cb 4 ?x) s1 = (rc, s2)"
    by (cases "run_state (exception_cb 4 ?x) s1")
  have p: "prolog_active ?s 4 = Some True" by simp
  have "prolog_active s2 4 = Some False"
    using failed_setup_releases_prolog [OF p _ _ r1 r2] by (simp add: fresh_state_def)
  with p r1 r2 show ?thesis by blast
qed

text \<open>The calls of a successful start of an epilog; only starting the timer cannot fail.\<close>

definition epilog_steps :: "dws_state \<Rightarrow> jobid \<Rightarrow> bool \<Rightarrow> dws_call list" where
  "epilog_steps s i b = [GetReactor, Calloc, JobAuxSet i [], JobAuxSet i ''dws_epilog_active'', EpilogStart i ''dws-epilog'']
     @ (if epilog_timeout s > 0 then [TimerCreate (epilog_timeout s), JobAuxSet i [], TimerStart] else [])
     @ [RpcPostRun i b, FutureThen ''post_run_rpc_callback'', JobAuxSet i []]"

definition epilog_ok :: "dws_state \<Rightarrow> nat \<Rightarrow> bool" where
  "epilog_ok s n \<longleftrightarrow> ok_at s n \<or> epilog_timeout s > 0 \<and> n = 7"

lemma epilog_ok_simps:
  "epilog_timeout s > 0 \<Longrightarrow> epilog_ok s 7" "epilog_timeout s \<le> 0 \<Longrightarrow> epilog_ok s n = ok_at s n"
  "n \<noteq> 7 \<Longrightarrow> epilog_ok s n = ok_at s n"
  by (auto simp: epilog_ok_def)

lemma start_epilog_all_ok:
  assumes run: "run_state (start_dws_epilog_for_job i i b) s = (rc, s')"
    and ok: "\<And>n. n < length (epilog_steps s i b) \<Longrightarrow> epilog_ok s n"
  shows "rc = 0 \<and> new_calls s s' = epilog_steps s i b \<and> epilog_active s' i"
proof -
  have o: "ok_at s 0" "ok_at s 1" "ok_at s 2" "ok_at s 3" "ok_at s 4" "ok_at s 5" "ok_at s 6"
    using ok [of 0] ok [of 1] ok [of 2] ok [of 3] ok [of 4] ok [of 5] ok [of 6]
    by (simp_all add: epilog_steps_def epilog_ok_simps)
  show ?thesis
  proof (cases "epilog_timeout s > 0")
    case True
    then have "ok_at s 8" "ok_at s 9" "ok_at s 10"
      using ok [of 8] ok [of 9] ok [of 10] by (simp_all add: epilog_steps_def epilog_ok_simps)
    with True o run show ?thesis
      by (auto simp: start_dws_epilog_for_job_def epilog_steps_def ok_at_simps new_calls_def DWS_EPILOG_NAME_def)
  next
    case False
    then have "ok_at s 7"
      using ok [of 7] by (simp add: epilog_steps_def epilog_ok_simps)
    with False o run show ?thesis
      by (auto simp: start_dws_epilog_for_job_def epilog_steps_def ok_at_simps new_calls_def DWS_EPILOG_NAME_def)
  qed
qed

definition epilog_gives_up :: "dws_state \<Rightarrow> dws_state \<Rightarrow> jobid \<Rightarrow> bool \<Rightarrow> nat \<Rightarrow> bool" where
  "epilog_gives_up s s' i b n \<longleftrightarrow> (\<exists>text. new_calls s s' = take (Suc n) (epilog_steps s i b) @
     (if n < 5 then [RaiseException i ''dws'' text]
      else [RaiseException i ''dws-epilog'' text, EpilogFinish i ''dws-epilog'' True]))"

lemma start_epilog_failed:
  assumes run: "run_state (start_dws_epilog_for_job i i b) s = (rc, s')"
    and n: "n < length (epilog_steps s i b)" "\<not> epilog_ok s n" and least: "\<And>m. m < n \<Longrightarrow> epilog_ok s m"
  shows "rc = -1 \<and> epilog_gives_up s s' i b n"
proof -
  note D = start_dws_epilog_for_job_def dws_helpers DWS_EPILOG_NAME_def PLUGIN_NAME_def new_calls_def
    epilog_gives_up_def epilog_steps_def ok_at_simps
  have before: "list_all (epilog_ok s) [0..<n]" using least by (auto simp: list_all_iff)
  show ?thesis
  proof (cases "epilog_timeout s > 0")
    case True
    then have "n < 11" using n by (simp add: epilog_steps_def)
    then have "n \<in> {0, 1, 2, 3, 4, 5, 6, 7, 8, 9, 10}" by (simp only: insert_iff empty_iff) presburger
    then show ?thesis using before n(2) True run
      by (elim insertE emptyE; hypsubst; simp add: upt_rec epilog_ok_simps; auto simp: D)
  next
    case False
    then have "n < 8" using n by (simp add: epilog_steps_def)
    then have "n \<in> {0, 1, 2, 3, 4, 5, 6, 7}" by auto
    then show ?thesis using before n(2) False run
      by (elim insertE emptyE; hypsubst; simp add: upt_rec epilog_ok_simps; auto simp: D)
  qed
qed

text \<open>
  Starting an epilog either succeeds completely, ending with the post-run request to the service
  whose reply will end the epilog; or it stops at the first call that fails, returns -1 and reports
  it: before the epilog was started an exception is raised, afterwards an exception is raised and
  the epilog is finished with failure status, so that it cannot hold up the job.
\<close>

theorem start_epilog_outcome:
  assumes "run_state (start_dws_epilog_for_job i i b) s = (rc, s')"
  shows "if (\<exists>n < length (epilog_steps s i b). \<not> epilog_ok s n)
    then rc = -1 \<and> (\<exists>n < length (epilog_steps s i b). \<not> epilog_ok s n \<and> epilog_gives_up s s' i b n)
    else rc = 0 \<and> new_calls s s' = epilog_steps s i b \<and> epilog_active s' i"
proof (cases "\<exists>n < length (epilog_steps s i b). \<not> epilog_ok s n")
  case True
  let ?P = "\<lambda>n. n < length (epilog_steps s i b) \<and> \<not> epilog_ok s n"
  from True have "\<exists>n. ?P n" by blast
  then obtain n where n: "?P n" and "\<forall>m < n. \<not> ?P m" using exists_least_iff [of ?P] by blast
  then have "\<And>m. m < n \<Longrightarrow> epilog_ok s m" by auto
  with start_epilog_failed [OF assms] n True show ?thesis by auto
next
  case False
  then have "\<And>n. n < length (epilog_steps s i b) \<Longrightarrow> epilog_ok s n" by blast
  with start_epilog_all_ok [OF assms] False show ?thesis by simp
qed

lemma start_epilog_outcome_witness:
  "\<exists>rc s'. run_state (start_dws_epilog_for_job 9 9 True) (fresh_state\<lparr>answer := (\<lambda>n. n \<noteq> 5)\<rparr>) = (rc, s') \<and> rc = -1
     \<and> (\<exists>m. new_calls (fresh_state\<lparr>answer := (\<lambda>n. n \<noteq> 5)\<rparr>) s' = [GetReactor, Calloc, JobAuxSet 9 [],
       JobAuxSet 9 ''dws_epilog_active'', EpilogStart 9 ''dws-epilog'', RpcPostRun 9 True,
       RaiseException 9 ''dws-epilog'' m, EpilogFinish 9 ''dws-epilog'' True])"
proof -
  let ?s = "fresh_state\<lparr>answer := (\<lambda>n. n \<noteq> 5)\<rparr>"
  obtain rc s' where r: "run_state (start_dws_epilog_for_job 9 9 True) ?s = (rc, s')"
    by (cases "run_state (start_dws_epilog_for_job 9 9 True) ?s")
  have ok: "epilog_ok ?s n \<longleftrightarrow> n \<noteq> 5" for n by (simp add: epilog_ok_def ok_at_def fresh_state_def)
  have len: "length (epilog_steps ?s 9 True) = 8" by (simp add: epilog_steps_def fresh_state_def)
  have "\<exists>n < length (epilog_steps ?s 9 True). \<not> epilog_ok ?s n" unfolding ok len by (intro exI [of _ 5]) simp
  with start_epilog_outcome [OF r] have "rc = -1" "\<exists>n < 8. \<not> epilog_ok ?s n \<and> epilog_gives_up ?s s' 9 True n"
    by (simp_all only: if_True len)
  then have g: "rc = -1" "epilog_gives_up ?s s' 9 True 5" unfolding ok by auto
  then show ?thesis
    using r by (intro exI [of _ rc] exI [of _ s']) (simp add: epilog_gives_up_def epilog_steps_def fresh_state_def)
qed

fun is_response :: "dws_call \<Rightarrow> bool" where
  "is_response Respond = True"
| "is_response (RespondError e) = True"
| "is_response _ = False"

fun removes_dependency :: "dws_call \<Rightarrow> bool" where
  "removes_dependency (DependencyRemove i nm) = True"
| "removes_dependency _ = False"

lemma run_generate:
  "\<exists>k r. run_state (generate_constraints sp c) s = (r, s\<lparr>trace := trace s @ replicate k PackJson\<rparr>)"
proof (cases sp)
  case None
  then show ?thesis by (intro exI [of _ 0] exI [of _ None]) (simp add: generate_constraints_def)
next
  case (Some p)
  consider "s_constraints p = None" "\<not> s_allow_rabbits p" | "s_constraints p = None" "s_allow_rabbits p"
    | old where "s_constraints p = Some old" "\<not> s_allow_rabbits p \<or> \<not> answer s (length (trace s))"
    | old where "s_constraints p = Some old" "s_allow_rabbits p" "answer s (length (trace s))"
    by (cases "s_constraints p") auto
  then show ?thesis
  proof cases
    case 1
    with Some show ?thesis by (simp add: generate_constraints_def, intro exI [of _ 0]) simp
  next
    case 2
    with Some show ?thesis by (simp add: generate_constraints_def, intro exI [of _ 1]) simp
  next
    case 3
    with Some show ?thesis by (auto simp: generate_constraints_def intro!: exI [of _ 1])
  next
    case 4
    with Some show ?thesis by (simp add: generate_constraints_def, intro exI [of _ 2]) (simp add: numeral_eq_Suc)
  qed
qed

lemma rev_response: "\<exists>pre r. cs @ [c] = pre @ [r] \<and> r = c \<and> pre = cs"
  by simp

definition answered :: "dws_call list \<Rightarrow> bool" where
  "answered cs \<longleftrightarrow> cs \<noteq> [] \<and> is_response (last cs) \<and> list_all (\<lambda>c. \<not> is_response c) (butlast cs)"

text \<open>An update with an exclusion, for a job in \<^verbatim>\<open>DEPEND\<close>: the constraint, the jobspec, the dependency, in this order.\<close>

lemma resource_update_excludes:
  assumes "msg = Message m" and "u_errmsg m = None \<and> job = Some DEPEND" and "u_exclude m \<noteq> JNull"
  shows "let cs = new_calls s (snd (run_state (resource_update_msg_cb msg job spec) s)) in
     answered cs \<and>
     (list_all (\<lambda>c. \<not> removes_dependency c) cs \<or>
      (\<exists>m k constraints. msg = Message m \<and> u_errmsg m = None \<and> job = Some DEPEND \<and>
         (constraints = None \<longleftrightarrow> u_exclude m = JNull) \<and> ok_at s k \<and>
         butlast cs = replicate k PackJson @
           [UpdateJobspec (u_id m) (u_resources m) constraints, DependencyRemove (u_id m) ''dws-create''] \<and>
         (last cs = Respond \<longleftrightarrow> ok_at s (Suc k))))"
proof -
  note D = resource_update_msg_cb_def raise_job_exception_def CREATE_DEP_NAME_def answered_def new_calls_def
    ok_at_simps assms(1)
  obtain k r where g: "run_state (generate_constraints spec (u_exclude m)) s
      = (r, s\<lparr>trace := trace s @ replicate k PackJson\<rparr>)"
    using run_generate by blast
  have rep: "list_all (\<lambda>c. \<not> is_response c) (replicate k PackJson)"
    "list_all (\<lambda>c. \<not> removes_dependency c) (replicate k PackJson)"
    by (simp_all add: list_all_iff)
  show ?thesis
  proof (cases "r \<noteq> None \<and> ok_at s k")
    case False
    then show ?thesis using assms g rep
      by (cases r) (auto simp: D Let_def ok_at_def butlast_append)
  next
    case upd: True
    then show ?thesis using assms g rep
      unfolding Let_def
      by (intro conjI disjI2 exI [of _ m] exI [of _ k] exI [of _ r])
        (simp_all add: D ok_at_def butlast_append add.commute)
  qed
qed

text \<open>
  C34. Every \<^verbatim>\<open>dws.resource-update\<close> message gets exactly one response, as the last call of the
  handler; and the dependency that holds the job is removed only when the service reported no error,
  the job is still in DEPEND and its jobspec was just updated with the resources of the message and,
  unless there is nothing to exclude, new constraints. Success is then reported exactly when the
  dependency was removed.
\<close>

theorem resource_update_outcome:
  "let cs = new_calls s (snd (run_state (resource_update_msg_cb msg job spec) s)) in
     answered cs \<and>
     (list_all (\<lambda>c. \<not> removes_dependency c) cs \<or>
      (\<exists>m k constraints. msg = Message m \<and> u_errmsg m = None \<and> job = Some DEPEND \<and>
         (constraints = None \<longleftrightarrow> u_exclude m = JNull) \<and> ok_at s k \<and>
         butlast cs = replicate k PackJson @
           [UpdateJobspec (u_id m) (u_resources m) constraints, DependencyRemove (u_id m) ''dws-create''] \<and>
         (last cs = Respond \<longleftrightarrow> ok_at s (Suc k))))"
proof (cases msg)
  case (Malformed i)
  then show ?thesis
    by (cases i) (simp_all add: resource_update_msg_cb_def malformed_message_def raise_job_exception_def
        answered_def Let_def)
next
  case (Message m)
  note D = resource_update_msg_cb_def raise_job_exception_def CREATE_DEP_NAME_def answered_def new_calls_def
    ok_at_simps Message
  show ?thesis
  proof (cases "u_errmsg m = None \<and> job = Some DEPEND")
    case False
    then show ?thesis by (cases "u_errmsg m") (auto simp: D Let_def)
  next
    case True
    show ?thesis
    proof (cases "u_exclude m = JNull")
      case null: True
      show ?thesis
      proof (cases "ok_at s 0")
        case True
        then show ?thesis using \<open>u_errmsg m = None \<and> job = Some DEPEND\<close> null
          unfolding Let_def
          by (intro conjI disjI2 exI [of _ m] exI [of _ 0] exI [of _ None])
            (simp_all add: D split: if_splits)
      qed (use True null in \<open>simp add: D Let_def\<close>)
    next
      case False
      from resource_update_excludes [OF Message True this] show ?thesis .
    qed
  qed
qed

text \<open>
  The new constraint means what it should, for every reading of constraints that takes
  \<^verbatim>\<open>and\<close>, \<^verbatim>\<open>or\<close> and \<^verbatim>\<open>properties\<close> as RFC 31 defines them: a node is eligible when it satisfied the old
  constraint and is not excluded, or, if the job may use rabbits themselves, when it is a rabbit.
\<close>

theorem generate_constraints_meaning:
  fixes eligible :: "json \<Rightarrow> bool"
  assumes all: "\<And>cs. eligible (JObject [(''and'', JArray cs)]) \<longleftrightarrow> list_all eligible cs"
    and any: "\<And>cs. eligible (JObject [(''or'', JArray cs)]) \<longleftrightarrow> list_ex eligible cs"
    and run: "run_state (generate_constraints (Some sp) exclude) s = (Some new, s')"
  shows "eligible new \<longleftrightarrow>
     (case s_constraints sp of None \<Rightarrow> True | Some old \<Rightarrow> eligible old) \<and> eligible exclude
     \<or> s_allow_rabbits sp \<and> eligible (JObject [(''properties'', JArray [JString ''rabbit''])])"
proof (cases "s_constraints sp")
  case None
  with run show ?thesis
    by (auto simp: generate_constraints_def any all split: if_splits)
next
  case (Some old)
  with run show ?thesis
    by (auto simp: generate_constraints_def any all split: if_splits option.splits)
qed

text \<open>The reading for a node with the given properties.\<close>

fun has_properties :: "string list \<Rightarrow> json \<Rightarrow> bool" where
  "has_properties ps (JObject [(k, JArray cs)]) =
     (if k = ''and'' then list_all (has_properties ps) cs
      else if k = ''or'' then list_ex (has_properties ps) cs
      else if k = ''properties'' then list_all (\<lambda>c. case c of JString p \<Rightarrow> p \<in> set ps | _ \<Rightarrow> False) cs
      else False)"
| "has_properties ps _ = False"

lemma generate_constraints_meaning_witness:
  "\<exists>new s'. run_state (generate_constraints (Some \<lparr>s_constraints = None, s_allow_rabbits = True\<rparr>)
       (JObject [(''properties'', JArray [JString ''compute''])])) fresh_state = (Some new, s') \<and>
     has_properties [''rabbit''] new"
proof -
  let ?sp = "\<lparr>s_constraints = None, s_allow_rabbits = True\<rparr>"
  let ?c = "JObject [(''properties'', JArray [JString ''compute''])]"
  obtain new s' where r: "run_state (generate_constraints (Some ?sp) ?c) fresh_state = (Some new, s')"
    by (simp add: generate_constraints_def fresh_state_def)
  have "has_properties [''rabbit''] new"
    using generate_constraints_meaning [of "has_properties [''rabbit'']", OF _ _ r] by simp
  with r show ?thesis by blast
qed

end
