(* ===== verification/Eventlog.thy ===== *)
theory Eventlog
  imports Json Libutil
begin

text \<open>
  \<^verbatim>\<open>src/common/libutil/eventlog.c\<close>: the entries of a job's eventlog and the loop that waits for
  a named event. Parsing JSON text (\<^verbatim>\<open>json_loads\<close>) and flux-core's futures are parameters.
\<close>

section \<open>Entries\<close>

definition eventlog_entry_validate :: "json \<Rightarrow> bool" where
  "eventlog_entry_validate entry =
     (if \<not> json_is_object entry then False
      else case json_object_get entry ''name'' of
        None \<Rightarrow> False
      | Some nm \<Rightarrow>
          if json_string_value nm = None then False
          else (case json_object_get entry ''timestamp'' of
              None \<Rightarrow> False
            | Some timestamp \<Rightarrow>
                if json_number_value timestamp = None then False
                else (case json_object_get entry ''context'' of
                    None \<Rightarrow> True
                  | Some ctx \<Rightarrow> json_is_object ctx)))"

named_theorems entry_eval \<open>definitions that evaluate a concrete eventlog entry\<close>

text \<open>The position of the first occurrence of a character (\<^verbatim>\<open>strchr\<close>).\<close>

fun strchr :: "string \<Rightarrow> char \<Rightarrow> nat option" where
  "strchr [] c = None"
| "strchr (x # xs) c = (if x = c then Some 0 else map_option Suc (strchr xs c))"

definition newline :: char where
  "newline = CHR 0x0A"

definition eventlog_entry_decode :: "(string \<Rightarrow> json option) \<Rightarrow> string option \<Rightarrow> errno + json" where
  "eventlog_entry_decode json_loads arg = (case arg of
       None \<Rightarrow> Inl EINVAL
     | Some entry \<Rightarrow>
         if length entry = 0 then Inl EINVAL
         else if entry ! (length entry - 1) \<noteq> newline then Inl EINVAL
         else if strchr entry newline \<noteq> Some (length entry - 1) then Inl EINVAL
         else (case json_loads entry of
             None \<Rightarrow> Inl EINVAL
           | Some v \<Rightarrow> if eventlog_entry_validate v then Inr v else Inl EINVAL))"

text \<open>The result has the timestamp, the name and the context (\<open>None\<close> for a \<^verbatim>\<open>NULL\<close> context).\<close>

definition eventlog_entry_parse :: "json option \<Rightarrow> errno + (real \<times> string \<times> json option)" where
  "eventlog_entry_parse arg = (case arg of
       None \<Rightarrow> Inl EINVAL
     | Some entry \<Rightarrow>
         (case (unpack_member json_number_value entry ''timestamp'',
                unpack_member json_string_value entry ''name'') of
            (Some t, Some n) \<Rightarrow>
              (case json_object_get entry ''context'' of
                 Some c \<Rightarrow> if json_is_object c then Inr (t, n, Some c) else Inl EINVAL
               | None \<Rightarrow> Inr (t, n, None))
          | _ \<Rightarrow> Inl EINVAL))"

lemma strchr_last:
  "strchr s c = Some (length s - 1) \<and> s \<noteq> [] \<longleftrightarrow> (\<exists>t. s = t @ [c] \<and> c \<notin> set t)"
proof (induction s)
  case (Cons x xs)
  show ?case
  proof (cases "xs = []")
    case True
    then show ?thesis by (auto simp: Cons_eq_append_conv)
  next
    case False
    show ?thesis
    proof (cases "x = c")
      case True
      with False show ?thesis by (auto simp: Cons_eq_append_conv)
    next
      case neq: False
      have "strchr (x # xs) c = Some (length (x # xs) - 1) \<longleftrightarrow> strchr xs c = Some (length xs - 1)"
        using False neq by (cases xs) auto
      with Cons.IH False neq show ?thesis by (auto simp: Cons_eq_append_conv)
    qed
  qed
qed simp

text \<open>
  An entry is decoded exactly when it is one line: some text without a newline, followed by a
  newline, that parses to an object with a string \<^verbatim>\<open>name\<close>, a numeric \<^verbatim>\<open>timestamp\<close> and, if there is
  a \<^verbatim>\<open>context\<close>, an object in it. Every other text gives \<^verbatim>\<open>EINVAL\<close>, and an entry that was decoded can
  always be parsed: its context comes back as it is in the object.
\<close>

theorem eventlog_decode_parse:
  "case eventlog_entry_decode json_loads (Some s) of
     Inl e \<Rightarrow> e = EINVAL \<and> \<not> (\<exists>t v. s = t @ [newline] \<and> newline \<notin> set t \<and> json_loads s = Some v
         \<and> eventlog_entry_validate v)
   | Inr v \<Rightarrow> json_loads s = Some v \<and> (\<exists>t. s = t @ [newline] \<and> newline \<notin> set t)
       \<and> (\<exists>t n. eventlog_entry_parse (Some v) = Inr (t, n, json_object_get v ''context'')
            \<and> json_object_get v ''name'' = Some (JString n))"
proof -
  have line: "(length s \<noteq> 0 \<and> s ! (length s - 1) = newline \<and> strchr s newline = Some (length s - 1))
      \<longleftrightarrow> (\<exists>t. s = t @ [newline] \<and> newline \<notin> set t)"
    using strchr_last [of s newline] by (auto simp: nth_append)
  have str: "json_string_value v = Some n \<longleftrightarrow> v = JString n" for v n by (cases v) auto
  have parse: "\<exists>t n. eventlog_entry_parse (Some v) = Inr (t, n, json_object_get v ''context'')
      \<and> json_object_get v ''name'' = Some (JString n)" if "eventlog_entry_validate v" for v
    using that
    by (auto simp: eventlog_entry_validate_def eventlog_entry_parse_def unpack_member_def str
        split: if_splits option.splits)
  show ?thesis
  proof (cases "length s \<noteq> 0 \<and> s ! (length s - 1) = newline \<and> strchr s newline = Some (length s - 1)")
    case False
    then have d: "eventlog_entry_decode json_loads (Some s) = Inl EINVAL"
      by (auto simp: eventlog_entry_decode_def)
    show ?thesis unfolding d using False line by simp blast
  next
    case True
    then have d: "eventlog_entry_decode json_loads (Some s) = (case json_loads s of
             None \<Rightarrow> Inl EINVAL
           | Some v \<Rightarrow> if eventlog_entry_validate v then Inr v else Inl EINVAL)"
      by (simp add: eventlog_entry_decode_def)
    show ?thesis
      unfolding d using True line parse by (simp split: option.split)
  qed
qed

section \<open>Waiting for an event\<close>

text \<open>
  What the future of the eventlog watch delivers, one response after the other: \<open>gap\<close> is the time
  (in seconds) from the start of the wait until the response is there, and \<open>took\<close> the time that
  \<^verbatim>\<open>monotime_since\<close> reports when the timeout is adjusted after the response was handled. After the
  last response nothing arrives any more. By the documentation of \<^verbatim>\<open>flux_future_wait_for\<close> a
  negative timeout waits without limit.
\<close>

datatype watch_reply = WatchError string | WatchEntry string

record arrival =
  gap :: real
  reply :: watch_reply
  took :: real

datatype wait_result = WaitHangs | WaitFails string | WaitDone "json option"

definition severity_zero :: "json option \<Rightarrow> bool" where
  "severity_zero ctx = (case ctx of
       None \<Rightarrow> False
     | Some c \<Rightarrow> (case unpack_member json_integer_value c ''severity'' of
          None \<Rightarrow> False
        | Some i \<Rightarrow> i mod 2 ^ 32 = 0))"
  \<comment> \<open>the \<^verbatim>\<open>i\<close> of \<^verbatim>\<open>json_unpack\<close> keeps the low 32 bits\<close>

definition adjust_timeout :: "real \<Rightarrow> real \<Rightarrow> real" where
  "adjust_timeout timeout elapsed = timeout - elapsed"

fun eventlog_wait_for ::
  "(string \<Rightarrow> json option) \<Rightarrow> string \<Rightarrow> string \<Rightarrow> real \<Rightarrow> arrival list \<Rightarrow> wait_result" where
  "eventlog_wait_for loads timed_out event_name timeout [] =
     (if timeout < 0 then WaitHangs
      else WaitFails (error_msg (''error reading job eventlog: '' @ timed_out)))"
| "eventlog_wait_for loads timed_out event_name timeout (a # as) =
     (if 0 \<le> timeout \<and> timeout < gap a
      then WaitFails (error_msg (''error reading job eventlog: '' @ timed_out))
      else case reply a of
        WatchError strerr \<Rightarrow> WaitFails (error_msg (''error reading job eventlog: '' @ strerr))
      | WatchEntry s \<Rightarrow> (case eventlog_entry_decode loads (Some s) of
          Inl _ \<Rightarrow> WaitFails (error_msg ''error parsing eventlog entry'')
        | Inr entry \<Rightarrow> (case eventlog_entry_parse (Some entry) of
            Inl _ \<Rightarrow> WaitFails (error_msg ''error parsing eventlog entry'')
          | Inr (t, nm, ctx) \<Rightarrow>
              (let (stop, res) = (if nm = ''start'' then (True, None)
                 else if nm = ''exception'' then (severity_zero ctx, None)
                 else if nm = event_name then (True, ctx) else (False, None))
               in if stop then WaitDone res
                  else eventlog_wait_for loads timed_out event_name
                    (if 0 \<le> timeout then adjust_timeout timeout (took a) else timeout) as))))"

text \<open>
  The first entry that is \<^verbatim>\<open>start\<close>, an exception of severity 0, or the named event decides.
\<close>

fun entry_decides :: "string \<Rightarrow> string \<times> json option \<Rightarrow> bool" where
  "entry_decides ev (nm, ctx) \<longleftrightarrow>
     nm = ''start'' \<or> (nm = ''exception'' \<and> severity_zero ctx) \<or> (nm = ev \<and> nm \<noteq> ''exception'')"

definition wait_spec :: "string \<Rightarrow> (string \<times> json option) list \<Rightarrow> json option option" where
  "wait_spec ev es = (case find (entry_decides ev) es of
       None \<Rightarrow> None
     | Some (nm, ctx) \<Rightarrow> Some (if nm = ''start'' \<or> nm = ''exception'' then None else ctx))"

text \<open>
  The contract in \<^verbatim>\<open>eventlog.h\<close>: an exception of any severity ends the wait, as \<^verbatim>\<open>start\<close> does.
\<close>

fun header_decides :: "string \<Rightarrow> string \<times> json option \<Rightarrow> bool" where
  "header_decides ev (nm, ctx) \<longleftrightarrow> nm = ''start'' \<or> nm = ''exception'' \<or> nm = ev"

definition header_spec :: "string \<Rightarrow> (string \<times> json option) list \<Rightarrow> json option option" where
  "header_spec ev es = (case find (header_decides ev) es of
       None \<Rightarrow> None
     | Some (nm, ctx) \<Rightarrow> Some (if nm = ''start'' \<or> nm = ''exception'' then None else ctx))"

text \<open>The entries that the loop reads before the one that decides.\<close>

definition passed :: "string \<Rightarrow> (string \<times> json option) list \<Rightarrow> (string \<times> json option) list" where
  "passed ev es = takeWhile (\<lambda>e. \<not> entry_decides ev e) es"

lemma passed_simps [simp]:
  "passed ev [] = []" "passed ev (e # es) = (if entry_decides ev e then [] else e # passed ev es)"
  by (simp_all add: passed_def)


lemma header_differs:
  assumes "\<not> severity_zero ctx" and "ev \<noteq> ''start''" and "ev \<noteq> ''exception''"
  shows "wait_spec ev [(''exception'', ctx), (ev, c)] = Some c \<and> header_spec ev [(''exception'', ctx), (ev, c)] = Some None"
  using assms by (simp add: wait_spec_def header_spec_def)

text \<open>
  One of the waits up to the one with number \<open>n\<close> times out: what is left of the timeout was never
  negative, and the next response comes later than that, or never.
\<close>

definition times_out :: "real \<Rightarrow> arrival list \<Rightarrow> nat \<Rightarrow> bool" where
  "times_out timeout as n \<longleftrightarrow> (let left = (\<lambda>k. timeout - sum_list (map took (take k as))) in
     \<exists>k \<le> n. (\<forall>j \<le> k. 0 \<le> left j) \<and> (k < length as \<longrightarrow> left k < gap (as ! k)))"

lemma all_le_Suc: "(\<forall>j \<le> Suc k. P j) \<longleftrightarrow> P 0 \<and> (\<forall>j \<le> k. P (Suc j))"
  by (metis Suc_le_mono le0 not0_implies_Suc)

lemma ex_le_Suc: "(\<exists>j \<le> Suc k. P j) \<longleftrightarrow> P 0 \<or> (\<exists>j \<le> k. P (Suc j))"
  by (metis Suc_le_mono le0 not0_implies_Suc)

lemma times_out_simps [simp]:
  "times_out t [] n \<longleftrightarrow> 0 \<le> t"
  "times_out t (a # as) 0 \<longleftrightarrow> 0 \<le> t \<and> t < gap a"
  "times_out t (a # as) (Suc n) \<longleftrightarrow> 0 \<le> t \<and> (t < gap a \<or> times_out (t - took a) as n)"
  unfolding times_out_def Let_def ex_le_Suc
  by (auto simp: all_le_Suc diff_diff_eq)


text \<open>A response that holds the entry \<open>(nm, ctx)\<close>.\<close>

definition holds_entry :: "(string \<Rightarrow> json option) \<Rightarrow> arrival \<Rightarrow> string \<times> json option \<Rightarrow> bool" where
  "holds_entry loads a e \<longleftrightarrow> (\<exists>s v t. reply a = WatchEntry s \<and> eventlog_entry_decode loads (Some s) = Inr v
     \<and> eventlog_entry_parse (Some v) = Inr (t, fst e, snd e))"

lemma wait_step:
  assumes "holds_entry loads a (nm, ctx)" and "timeout < 0 \<or> gap a \<le> timeout"
  shows "eventlog_wait_for loads msg ev timeout (a # as) =
    (if entry_decides ev (nm, ctx)
     then WaitDone (if nm = ''start'' \<or> nm = ''exception'' then None else ctx)
     else eventlog_wait_for loads msg ev (if 0 \<le> timeout then timeout - took a else timeout) as)"
  using assms by (auto simp: holds_entry_def adjust_timeout_def Let_def)

declare eventlog_wait_for.simps(2) [simp del]

text \<open>Without a timeout, as the shell plugins wait, time does not matter.\<close>

lemma wait_unlimited:
  assumes "list_all2 (holds_entry loads) as es" and "timeout < 0"
  shows "eventlog_wait_for loads msg ev timeout as =
    (case wait_spec ev es of None \<Rightarrow> WaitHangs | Some res \<Rightarrow> WaitDone res)"
  using assms
proof (induction as es rule: list_all2_induct)
  case Nil
  then show ?case by (simp add: wait_spec_def)
next
  case (Cons a as e es)
  obtain nm ctx where e: "e = (nm, ctx)" by (cases e)
  note step = wait_step [OF Cons.hyps(1) [unfolded e], of timeout msg ev as]
  show ?case
    using step Cons.IH Cons.prems by (cases "entry_decides ev e") (simp_all add: e wait_spec_def del: entry_decides.simps)
qed


text \<open>A parser for the witnesses that knows three lines.\<close>

definition sample_entry :: "string \<Rightarrow> (string \<times> json) list \<Rightarrow> json" where
  "sample_entry nm ctx = JObject [(''timestamp'', JReal 1), (''name'', JString nm), (''context'', JObject ctx)]"

definition sample_loads :: "string \<Rightarrow> json option" where
  "sample_loads s =
     (if s = ''a'' @ [newline] then Some (sample_entry ''alloc'' [])
      else if s = ''p'' @ [newline] then Some (sample_entry ''cray-pmi-bootstrap'' [(''ports'', JArray [])])
      else if s = ''s'' @ [newline] then Some (sample_entry ''start'' [])
      else None)"

definition sample_arrival :: "string \<Rightarrow> real \<Rightarrow> real \<Rightarrow> arrival" where
  "sample_arrival s g t = \<lparr>gap = g, reply = WatchEntry (s @ [newline]), took = t\<rparr>"

declare eventlog_entry_decode_def [entry_eval] and eventlog_entry_validate_def [entry_eval]
  and eventlog_entry_parse_def [entry_eval] and unpack_member_def [entry_eval] and holds_entry_def [entry_eval]
  and newline_def [entry_eval] and sample_entry_def [entry_eval] and sample_arrival_def [entry_eval]

lemma sample_holds:
  "holds_entry sample_loads (sample_arrival ''a'' g t) (''alloc'', Some (JObject []))"
  "holds_entry sample_loads (sample_arrival ''p'' g t) (''cray-pmi-bootstrap'', Some (JObject [(''ports'', JArray [])]))"
  by (auto simp: entry_eval sample_loads_def)


text \<open>
  The timeout can be lost. When an entry that does not decide arrives in time but handling it
  ends after the timeout, the adjusted timeout is negative, which the next wait takes for \<^emph>\<open>no
  limit\<close>: with no further entry the loop never returns, although a timeout was given.
\<close>

theorem eventlog_wait_for_loses_timeout:
  assumes "holds_entry loads a (nm, ctx)" and "\<not> entry_decides ev (nm, ctx)"
    and "0 \<le> timeout" and "gap a \<le> timeout" and "timeout < took a"
  shows "eventlog_wait_for loads msg ev timeout [a] = WaitHangs"
  using wait_step [OF assms(1), of timeout msg ev "[]"] assms(2-5) by simp

theorem eventlog_wait_for_loses_timeout_witness:
  "eventlog_wait_for sample_loads ''timeout'' ''cray-pmi-bootstrap'' 10 [sample_arrival ''a'' 10 11] = WaitHangs"
  by (rule eventlog_wait_for_loses_timeout [OF sample_holds(1)]) (simp_all add: sample_arrival_def)

end
