(* ===== verification/Shell.thy ===== *)
theory Shell
  imports Json "HOL-Library.State_Monad"
begin

text \<open>
  What the shell plugins share: the environment of the job (or of the command of a task), which
  \<^verbatim>\<open>flux_shell_setenvf\<close>, \<^verbatim>\<open>flux_shell_unsetenv\<close> and \<^verbatim>\<open>flux_shell_getenv\<close> work on, and the argz vectors
  of the C library, which \<^verbatim>\<open>cray_pals.c\<close> and \<^verbatim>\<open>cray-slingshot.c\<close> use to split and join lists of words.
\<close>

section \<open>The environment\<close>

text \<open>
  \<open>set_ok n\<close> says whether the \<open>n\<close>-th attempt to set a variable succeeds (it fails when memory
  runs out). The callbacks are written in the state monad over this state.
\<close>

record environment =
  vars :: "string \<rightharpoonup> string"
  set_ok :: "nat \<Rightarrow> bool"
  set_count :: nat

type_synonym 'a shell = "(environment, 'a) state"

definition setenv :: "string \<Rightarrow> string \<Rightarrow> bool shell" where
  "setenv k v = do {
     s \<leftarrow> State_Monad.get;
     let ok = set_ok s (set_count s);
     State_Monad.set (s\<lparr>vars := (if ok then (vars s)(k \<mapsto> v) else vars s), set_count := Suc (set_count s)\<rparr>);
     State_Monad.return ok
   }"

definition unsetenv :: "string \<Rightarrow> unit shell" where
  "unsetenv k = do { s \<leftarrow> State_Monad.get; State_Monad.set (s\<lparr>vars := (vars s)(k := None)\<rparr>) }"

definition getenv :: "string \<Rightarrow> string option shell" where
  "getenv k = do { s \<leftarrow> State_Monad.get; State_Monad.return (vars s k) }"

text \<open>A chain \<^verbatim>\<open>setenv (...) < 0 || setenv (...) < 0\<close> that stops at the first failure.\<close>

fun setenvs :: "(string \<times> string) list \<Rightarrow> bool shell" where
  "setenvs [] = State_Monad.return True"
| "setenvs ((k, v) # kvs) = do { ok \<leftarrow> setenv k v; if ok then setenvs kvs else State_Monad.return False }"

fun unsetenvs :: "string list \<Rightarrow> unit shell" where
  "unsetenvs [] = State_Monad.return ()"
| "unsetenvs (k # ks) = do { unsetenv k; unsetenvs ks }"

lemma run_setenv [simp]:
  "run_state (setenv k v) s = (set_ok s (set_count s),
     s\<lparr>vars := (if set_ok s (set_count s) then (vars s)(k \<mapsto> v) else vars s), set_count := Suc (set_count s)\<rparr>)"
  by (simp add: setenv_def)

lemma run_unsetenv [simp]: "run_state (unsetenv k) s = ((), s\<lparr>vars := (vars s)(k := None)\<rparr>)"
  by (simp add: unsetenv_def)

lemma run_getenv [simp]: "run_state (getenv k) s = (vars s k, s)"
  by (simp add: getenv_def)

lemma run_if_shell [simp]:
  "run_state (if b then m else n) s = (if b then run_state m s else run_state n s)"
  by simp

text \<open>With enough memory, a chain sets all its variables.\<close>

definition memory_ok :: "environment \<Rightarrow> bool" where
  "memory_ok s \<longleftrightarrow> (\<forall>n. set_ok s n)"

lemma memory_okD [simp]: "memory_ok s \<Longrightarrow> set_ok s n"
  by (simp add: memory_ok_def)

lemma run_setenvs:
  assumes "memory_ok s"
  shows "run_state (setenvs kvs) s =
    (True, s\<lparr>vars := vars s ++ map_of (rev kvs), set_count := set_count s + length kvs\<rparr>)"
  using assms
proof (induction kvs arbitrary: s)
  case (Cons kv kvs)
  obtain k v where kv: "kv = (k, v)" by (cases kv)
  have "memory_ok (s\<lparr>vars := (vars s)(k \<mapsto> v), set_count := Suc (set_count s)\<rparr>)"
    using Cons.prems by (simp add: memory_ok_def)
  from Cons.IH [OF this] Cons.prems kv show ?case
    by (simp add: map_add_def fun_eq_iff split: option.split)
qed simp

text \<open>A chain that fails sets the variables before the failure only.\<close>

lemma run_setenvs_cases:
  "\<exists>n. n \<le> length kvs \<and> vars (snd (run_state (setenvs kvs) s)) = vars s ++ map_of (rev (take n kvs))
     \<and> (fst (run_state (setenvs kvs) s) \<longleftrightarrow> n = length kvs)"
proof (induction kvs arbitrary: s)
  case (Cons kv kvs)
  obtain k v where kv: "kv = (k, v)" by (cases kv)
  show ?case
  proof (cases "set_ok s (set_count s)")
    case True
    let ?t = "s\<lparr>vars := (vars s)(k \<mapsto> v), set_count := Suc (set_count s)\<rparr>"
    obtain n where "n \<le> length kvs" "vars (snd (run_state (setenvs kvs) ?t)) = vars ?t ++ map_of (rev (take n kvs))"
      "fst (run_state (setenvs kvs) ?t) \<longleftrightarrow> n = length kvs"
      using Cons.IH [of ?t] by (elim exE conjE)
    then show ?thesis using True kv
      by (intro exI [of _ "Suc n"]) (simp add: map_add_def fun_eq_iff split: option.split)
  next
    case False
    then show ?thesis using kv by (intro exI [of _ 0]) simp
  qed
qed simp

lemma run_unsetenvs:
  "run_state (unsetenvs ks) s = ((), s\<lparr>vars := vars s |` (- set ks)\<rparr>)"
proof (induction ks arbitrary: s)
  case (Cons k ks)
  have "((vars s)(k := None)) |` (- set ks) = vars s |` (- set (k # ks))"
    by (auto simp: fun_eq_iff restrict_map_def)
  then show ?case using Cons.IH by simp
qed (simp add: restrict_map_def)

section \<open>argz vectors\<close>

text \<open>
  A vector is the list of its entries. \<^verbatim>\<open>argz_create_sep\<close> copies the string, ends an entry at every
  separator and skips a separator that directly follows the start or another one; the end of the
  string ends the last entry, which may therefore be empty. \<open>acc\<close> is the entry read so far.
\<close>

fun create_sep_from :: "char \<Rightarrow> string \<Rightarrow> string \<Rightarrow> string list" where
  "create_sep_from c acc [] = [acc]"
| "create_sep_from c acc (x # xs) =
     (if x = c then (if acc = [] then create_sep_from c [] xs else acc # create_sep_from c [] xs)
      else create_sep_from c (acc @ [x]) xs)"

definition argz_create_sep :: "char \<Rightarrow> string \<Rightarrow> string list" where
  "argz_create_sep c s = (if s = [] then [] else create_sep_from c [] s)"

text \<open>\<^verbatim>\<open>argz_stringify\<close> puts the separator between the entries.\<close>

fun argz_stringify :: "char \<Rightarrow> string list \<Rightarrow> string" where
  "argz_stringify c [] = []"
| "argz_stringify c [e] = e"
| "argz_stringify c (e # es) = e @ c # argz_stringify c es"

text \<open>The vectors that \<^verbatim>\<open>argz_create_sep\<close> makes: only the last entry may be empty.\<close>

fun argz_ok :: "char \<Rightarrow> string list \<Rightarrow> bool" where
  "argz_ok c [] \<longleftrightarrow> True"
| "argz_ok c [e] \<longleftrightarrow> c \<notin> set e"
| "argz_ok c (e # es) \<longleftrightarrow> e \<noteq> [] \<and> c \<notin> set e \<and> argz_ok c es"

lemma create_sep_not_Nil [simp]: "create_sep_from c acc s \<noteq> []"
  by (induction c acc s rule: create_sep_from.induct) auto

lemma argz_ok_Cons: "es \<noteq> [] \<Longrightarrow> argz_ok c (e # es) \<longleftrightarrow> e \<noteq> [] \<and> c \<notin> set e \<and> argz_ok c es"
  by (cases es) simp_all

lemma stringify_Cons: "es \<noteq> [] \<Longrightarrow> argz_stringify c (e # es) = e @ c # argz_stringify c es"
  by (cases es) simp_all

lemma create_sep_ok: "c \<notin> set acc \<Longrightarrow> argz_ok c (create_sep_from c acc s)"
  by (induction c acc s rule: create_sep_from.induct) (auto simp: argz_ok_Cons)

lemma argz_create_sep_ok: "argz_ok c (argz_create_sep c s)"
  by (simp add: argz_create_sep_def create_sep_ok)

lemma create_sep_append:
  "c \<notin> set e \<Longrightarrow> create_sep_from c acc (e @ s) = create_sep_from c (acc @ e) s"
  by (induction e arbitrary: acc) auto

text \<open>Splitting what was joined gives the entries back.\<close>

lemma create_sep_stringify:
  "argz_ok c es \<Longrightarrow> es \<noteq> [] \<Longrightarrow> create_sep_from c [] (argz_stringify c es) = es"
proof (induction es)
  case (Cons e es)
  show ?case
  proof (cases "es = []")
    case True
    with Cons.prems show ?thesis using create_sep_append [of c e "[]" "[]"] by simp
  next
    case False
    with Cons.prems have "e \<noteq> []" "c \<notin> set e" "argz_ok c es" by (simp_all add: argz_ok_Cons)
    with Cons.IH False create_sep_append [of c e "[]"] show ?thesis by (simp add: stringify_Cons)
  qed
qed simp

lemma argz_create_stringify:
  assumes "argz_ok c es" and "es \<noteq> []" and "hd es \<noteq> []"
  shows "argz_create_sep c (argz_stringify c es) = es"
proof -
  have "argz_stringify c es \<noteq> []" using assms(2,3) by (cases es; cases "tl es") auto
  with create_sep_stringify [OF assms(1,2)] show ?thesis by (simp add: argz_create_sep_def)
qed

lemma argz_ok_remove1: "argz_ok c es \<Longrightarrow> argz_ok c (remove1 e es)"
proof (induction es)
  case (Cons x es)
  show ?case
  proof (cases "es = []")
    case False
    with Cons.prems have "x \<noteq> []" "c \<notin> set x" "argz_ok c es" by (simp_all add: argz_ok_Cons)
    with Cons.IH show ?thesis by (cases "remove1 e es = []") (simp_all add: argz_ok_Cons)
  qed (use Cons.prems in simp)
qed simp

end
