(* ===== verification/CrayPals.thy ===== *)
theory CrayPals
  imports Apinfo Eventlog Shell "HOL-Library.Signed_Division"
begin

text \<open>
  The shell plugin \<^verbatim>\<open>src/shell/plugins/cray_pals.c\<close>: it writes the application file that Cray's
  libpals reads, and sets the environment of the job and of every task for it. Port numbers and a
  secret come from the \<^verbatim>\<open>cray-pmi-bootstrap\<close> event of the job or from the options of the user.
\<close>

section \<open>State\<close>

record pmi_bootstrap_info =
  port0 :: int
  port1 :: int
  secret :: int
  valid :: bool
  disabled :: bool

record cray_pals =
  apinfo_version :: int
  apinfo_path :: string
  no_edit_env :: int
  pmi :: pmi_bootstrap_info
  shell_size :: int
  shell_rank :: int
  ntasks :: int
  jobid :: jobid

definition default_apinfo_version :: int where
  "default_apinfo_version = 5"

text \<open>
  The \<^verbatim>\<open>i\<close> of \<^verbatim>\<open>json_unpack\<close> stores a JSON integer in a 32-bit \<^verbatim>\<open>int\<close>. \<open>opt_member\<close> is \<^verbatim>\<open>s?x\<close>: the
  member may be missing; \<open>None\<close> is a failure to unpack.
\<close>

definition c_int :: "int \<Rightarrow> int" where
  "c_int i = signed_take_bit 31 i"

definition opt_member :: "(json \<Rightarrow> 'a option) \<Rightarrow> json \<Rightarrow> string \<Rightarrow> 'a option option" where
  "opt_member val j k = (case json_object_get j k of None \<Rightarrow> Some None | Some v \<Rightarrow> map_option Some (val v))"

text \<open>\<open>info\<close>: the size, rank, number of tasks and job id that the shell reports.\<close>

definition cray_pals_create :: "(int \<times> int \<times> int \<times> jobid) option \<Rightarrow> cray_pals option" where
  "cray_pals_create info = (case info of
       None \<Rightarrow> None
     | Some (sz, rank, n, i) \<Rightarrow> Some \<lparr>apinfo_version = 0, apinfo_path = [], no_edit_env = 0,
         pmi = \<lparr>port0 = 0, port1 = 0, secret = 0, valid = False, disabled = False\<rparr>,
         shell_size = sz, shell_rank = rank, ntasks = n, jobid = i\<rparr>)"

section \<open>The application file\<close>

definition names_of_json :: "json \<Rightarrow> json_names" where
  "names_of_json j = map_option (map json_string_value) (json_array_value j)"

text \<open>The copy of \<^verbatim>\<open>hostlist_from_array\<close> in \<^verbatim>\<open>cray_pals.c\<close>, from the JSON value.\<close>

definition hostlist_of_json :: "'h hostlist_api \<Rightarrow> json \<Rightarrow> 'h option" where
  "hostlist_of_json hl nodelist_array = hostlist_from_array hl (names_of_json nodelist_array)"

text \<open>
  \<open>info\<close>: version, number of slots and cores per slot of the jobspec. The result is \<open>None\<close> where C
  leaves it undefined: when the product overflows or there are no tasks.
\<close>

definition get_cores_per_task :: "(int \<times> int \<times> int) option \<Rightarrow> int \<Rightarrow> int option" where
  "get_cores_per_task info n = (case info of
       None \<Rightarrow> Some (-1)
     | Some (ver, task_slots, cores_per_slot) \<Rightarrow>
         if ver \<noteq> 1 then Some (-1)
         else (let cores = task_slots * cores_per_slot in
           if n = 0 \<or> \<not> is_int cores \<or> \<not> is_int (cores sdiv n) then None else Some (cores sdiv n)))"

text \<open>
  What the shell, the memory and the file system provide: the node list of R and the task map (if
  they are there), the jobspec, whether the objects can be allocated, and the file that is opened.
\<close>

record 't pals_world =
  w_nodelist :: "json option"
  w_taskmap :: "'t option"
  w_jobspec :: "(int \<times> int \<times> int) option"
  w_object :: bool
  w_alloc :: calloc_env
  w_files :: put_env

text \<open>
  The result has the return value, the context with the path, and the contents of the file if it
  was opened; \<open>None\<close> where the behaviour is undefined.
\<close>

definition create_apinfo ::
  "('hl, 't, 'i) apinfo_env \<Rightarrow> 't pals_world \<Rightarrow> string option \<Rightarrow> cray_pals \<Rightarrow>
    (int \<times> cray_pals \<times> byte list option) option" where
  "create_apinfo E w tmpdir ctx = (case tmpdir of
       None \<Rightarrow> Some (-1, ctx, None)
     | Some dir \<Rightarrow>
         let path = dir @ ''/libpals_apinfo''; ctx1 = ctx\<lparr>apinfo_path := take 1023 path\<rparr> in
         if length path \<ge> 1024 then Some (-1, ctx1, None)
         else (case w_nodelist w of
            None \<Rightarrow> Some (-1, ctx1, None)
          | Some nodelist_array \<Rightarrow> (case w_taskmap w of
              None \<Rightarrow> Some (-1, ctx1, None)
            | Some tmap \<Rightarrow> (case get_cores_per_task (w_jobspec w) (ntasks ctx1) of
                None \<Rightarrow> None
              | Some cores_per_task \<Rightarrow>
                  if cores_per_task < 0 then Some (-1, ctx1, None)
                  else (case hostlist_of_json (env_hosts E) nodelist_array of
                    None \<Rightarrow> Some (-1, ctx1, None)
                  | Some hlist \<Rightarrow> (case apinfo_create E (w_object w) (w_alloc w) (apinfo_version ctx1) of
                      Inl _ \<Rightarrow> Some (-1, ctx1, None)
                    | Inr ap \<Rightarrow> (case apinfo_set_hostlist E (w_alloc w) (Some ap) (Some hlist) of
                        (_, Inl _) \<Rightarrow> Some (-1, ctx1, None)
                      | (ap1, Inr _) \<Rightarrow> (case apinfo_set_taskmap E (w_alloc w) ap1 (Some tmap) cores_per_task of
                          None \<Rightarrow> None
                        | Some (_, Inl _) \<Rightarrow> Some (-1, ctx1, None)
                        | Some (ap2, Inr _) \<Rightarrow> (case apinfo_check E ap2 of
                            Inl _ \<Rightarrow> Some (-1, ctx1, None)
                          | Inr _ \<Rightarrow> (case apinfo_put E (w_files w) ap2 (Some (apinfo_path ctx1)) of
                              (contents, Inl _) \<Rightarrow> Some (-1, ctx1, contents)
                            | (contents, Inr _) \<Rightarrow> Some (0, ctx1, contents)))))))))))"

section \<open>Ports and secret from the eventlog\<close>

text \<open>
  \<open>None\<close>: the wait never ends. When unpacking fails some fields of \<^verbatim>\<open>pmi\<close> may have been written; they
  are not modelled, because the callers give up then.
\<close>

definition read_future ::
  "(string \<Rightarrow> json option) \<Rightarrow> string \<Rightarrow> arrival list \<Rightarrow> pmi_bootstrap_info \<Rightarrow> (int \<times> pmi_bootstrap_info) option" where
  "read_future loads timed_out fut info = (case eventlog_wait_for loads timed_out ''cray-pmi-bootstrap'' (-1) fut of
       WaitHangs \<Rightarrow> None
     | WaitFails _ \<Rightarrow> Some (-1, info)
     | WaitDone None \<Rightarrow> Some (0, info)
     | WaitDone (Some context) \<Rightarrow>
         (case (unpack_member json_array_value context ''ports'', unpack_member json_integer_value context ''random_integer'') of
            (Some (JInt p0 # JInt p1 # rest), Some r) \<Rightarrow>
              Some (0, info\<lparr>port0 := c_int p0, port1 := c_int p1, secret := r, valid := True\<rparr>)
          | _ \<Rightarrow> Some (-1, info)))"

text \<open>\<open>watch\<close>: the responses, or \<open>None\<close> when the eventlog cannot be watched.\<close>

definition get_pmi_bootstrap ::
  "(string \<Rightarrow> json option) \<Rightarrow> string \<Rightarrow> arrival list option \<Rightarrow> cray_pals \<Rightarrow> (int \<times> cray_pals) option" where
  "get_pmi_bootstrap loads timed_out watch ctx = (case watch of
       None \<Rightarrow> Some (-1, ctx)
     | Some fut \<Rightarrow> map_option (\<lambda>(rc, p). (rc, ctx\<lparr>pmi := p\<rparr>)) (read_future loads timed_out fut (pmi ctx)))"

section \<open>The environment\<close>

definition set_environment :: "cray_pals \<Rightarrow> int shell" where
  "set_environment ctx = do {
     unsetenv ''PMI_CONTROL_PORT'';
     ok \<leftarrow> setenvs [(''PALS_NODEID'', dec_of_int (shell_rank ctx)), (''PALS_APID'', dec_of_nat (unat (jobid ctx)))];
     if \<not> ok then State_Monad.return (-1)
     else do {
       dir \<leftarrow> getenv ''FLUX_JOB_TMPDIR'';
       case dir of
         None \<Rightarrow> State_Monad.return (-1)
       | Some tmpdir \<Rightarrow> do {
           ok \<leftarrow> setenvs [(''PALS_SPOOL_DIR'', tmpdir), (''PALS_APINFO'', apinfo_path ctx)];
           if \<not> ok then State_Monad.return (-1)
           else if valid (pmi ctx) then do {
             ok \<leftarrow> setenvs [(''PMI_CONTROL_PORT'', dec_of_int (port0 (pmi ctx)) @ '','' @ dec_of_int (port1 (pmi ctx))),
               (''PMI_SHARED_SECRET'', dec_of_nat (nat (secret (pmi ctx) mod 2 ^ 64)))];
             State_Monad.return (if ok then 0 else -1)
           } else State_Monad.return 0
         }
     }
   }"

text \<open>The callback of \<^verbatim>\<open>shell.init\<close>.\<close>

definition libpals_init ::
  "('hl, 't, 'i) apinfo_env \<Rightarrow> 't pals_world \<Rightarrow> (string \<Rightarrow> json option) \<Rightarrow> string \<Rightarrow> arrival list option \<Rightarrow>
    cray_pals \<Rightarrow> environment \<Rightarrow> (int \<times> cray_pals \<times> byte list option \<times> environment) option" where
  "libpals_init E w loads timed_out watch ctx s =
     (case (if shell_size ctx > 1 \<and> \<not> disabled (pmi ctx) \<and> \<not> valid (pmi ctx)
            then get_pmi_bootstrap loads timed_out watch ctx else Some (0, ctx)) of
        None \<Rightarrow> None
      | Some (rc, ctx1) \<Rightarrow>
          if rc < 0 then Some (-1, ctx1, None, s)
          else (case create_apinfo E w (vars s ''FLUX_JOB_TMPDIR'') ctx1 of
             None \<Rightarrow> None
           | Some (rc2, ctx2, contents) \<Rightarrow>
               if rc2 < 0 then Some (-1, ctx2, contents, s)
               else (case run_state (set_environment ctx2) s of
                  (rc3, s') \<Rightarrow> Some (if rc3 < 0 then -1 else 0, ctx2, contents, s'))))"

section \<open>The environment of a task\<close>

text \<open>The search for the entry and its deletion are those of the first match.\<close>

definition remove_path_from_cmd_env :: "string \<Rightarrow> string \<Rightarrow> int shell" where
  "remove_path_from_cmd_env name path = do {
     searchpath \<leftarrow> getenv name;
     case searchpath of
       None \<Rightarrow> State_Monad.return (-1)
     | Some sp \<Rightarrow>
         let argz = argz_create_sep (CHR '':'') sp in
         if path \<notin> set argz then State_Monad.return (-1)
         else (let rest = remove1 path argz in
           if rest \<noteq> [] \<and> hd rest \<noteq> [] then do {
             ok \<leftarrow> setenv name (argz_stringify (CHR '':'') rest);
             State_Monad.return (if ok then 0 else -1)
           } else do {
             unsetenv name;
             State_Monad.return 0
           })
   }"

text \<open>\<^verbatim>\<open>while (remove_path_from_cmd_env (...) == 0)\<close>.\<close>

definition path_entries :: "string \<Rightarrow> environment \<Rightarrow> string list" where
  "path_entries name s = (case vars s name of None \<Rightarrow> [] | Some sp \<Rightarrow> argz_create_sep (CHR '':'') sp)"

lemma path_entries_ok: "argz_ok (CHR '':'') (path_entries name s)"
  by (simp add: path_entries_def argz_create_sep_ok split: option.split)

lemma remove_path_result:
  assumes "run_state (remove_path_from_cmd_env name path) s = (rc, s')"
  shows "if path \<in> set (path_entries name s) then
      (rc = 0 \<longrightarrow> path_entries name s' = (let rest = remove1 path (path_entries name s) in
        if rest \<noteq> [] \<and> hd rest \<noteq> [] then rest else []))
    else rc = -1 \<and> s' = s"
proof (cases "vars s name")
  case None
  with assms show ?thesis by (simp add: remove_path_from_cmd_env_def path_entries_def)
next
  case (Some sp)
  have ok: "argz_ok (CHR '':'') (remove1 path (argz_create_sep (CHR '':'') sp))"
    by (intro argz_ok_remove1 argz_create_sep_ok)
  show ?thesis
    using assms argz_create_stringify [OF ok] Some
    by (auto simp: remove_path_from_cmd_env_def path_entries_def Let_def split: if_splits)
qed

function remove_all :: "string \<Rightarrow> string \<Rightarrow> environment \<Rightarrow> environment" where
  "remove_all name path s =
     (case run_state (remove_path_from_cmd_env name path) s of
        (rc, s') \<Rightarrow> if rc = 0 then remove_all name path s' else s')"
  by pat_completeness auto
termination
proof (relation "measure (\<lambda>(name, path, s). length (path_entries name s))", goal_cases)
  case (2 name path s x s')
  then have r: "run_state (remove_path_from_cmd_env name path) s = (0, s')" by simp
  have p: "path \<in> set (path_entries name s)"
    using remove_path_result [OF r] by (auto split: if_splits)
  then have "length (remove1 path (path_entries name s)) < length (path_entries name s)"
    using length_pos_if_in_set [OF p] by (simp add: length_remove1)
  with remove_path_result [OF r] p show ?case
    by (auto simp: Let_def split: if_splits)
qed simp

declare remove_all.simps [simp del]

text \<open>
  \<open>rank\<close>: the rank of the current task, when there is one and its command and rank are known;
  \<open>dir\<close>: the directory of the \<^verbatim>\<open>pmi_library_path\<close> that flux-core was configured with, if any.
  The environment is that of the command of the task.
\<close>

definition libpals_task_init :: "cray_pals \<Rightarrow> int option \<Rightarrow> string option \<Rightarrow> environment \<Rightarrow> int \<times> environment" where
  "libpals_task_init ctx rank dir s = (case rank of
       None \<Rightarrow> (-1, s)
     | Some task_rank \<Rightarrow> (case run_state (setenv ''PALS_RANKID'' (dec_of_int task_rank)) s of
          (ok, s1) \<Rightarrow>
            if \<not> ok then (-1, s1)
            else (0, if no_edit_env ctx = 0
              then (case dir of None \<Rightarrow> s1 | Some d \<Rightarrow> remove_all ''LD_LIBRARY_PATH'' d s1)
              else s1)))"

section \<open>Options and initialisation\<close>

definition member_of_csv :: "string \<Rightarrow> string \<Rightarrow> bool" where
  "member_of_csv csv name \<longleftrightarrow> list_ex (\<lambda>entry. entry = name) (argz_create_sep (CHR '','') csv)"

definition pals_env :: "string list" where
  "pals_env = [''PALS_NODEID'', ''PALS_RANKID'', ''PALS_APINFO'', ''PALS_APID'', ''PALS_SPOOL_DIR'', ''PALS_FD'',
     ''PALS_DEPTH'', ''PALS_LOCAL_RANKID'', ''PALS_LOCAL_SIZE'', ''PMI_JOBID'', ''PMI_CONTROL_PORT'',
     ''PMI_SHARED_SECRET'', ''PMI_JOBID'', ''PMI_LOCAL_RANK'', ''PMI_LOCAL_SIZE'']"

definition unset_pals_env :: "int shell" where
  "unset_pals_env = do { unsetenvs pals_env; State_Monad.return 0 }"

text \<open>
  \<open>opts\<close>: the value of the option \<^verbatim>\<open>cray-pals\<close>, if it was given; the outer \<open>None\<close> is a failure to
  get it. The closing \<^verbatim>\<open>!\<close> of the format refuses other members. What is stored before a failure is
  not modelled: the caller gives up then.
\<close>

definition cray_pals_parse_args :: "json option option \<Rightarrow> cray_pals \<Rightarrow> int \<times> cray_pals" where
  "cray_pals_parse_args opts ctx0 =
     (let ctx = ctx0\<lparr>no_edit_env := 0, apinfo_version := default_apinfo_version\<rparr> in
      case opts of
        None \<Rightarrow> (-1, ctx)
      | Some None \<Rightarrow> (0, ctx)
      | Some (Some (JObject kvs)) \<Rightarrow>
          if \<not> fst ` set kvs \<subseteq> {''no-edit-env'', ''apinfo-version'', ''pmi-bootstrap''} then (-1, ctx)
          else (case (opt_member json_integer_value (JObject kvs) ''no-edit-env'',
                      opt_member json_integer_value (JObject kvs) ''apinfo-version'') of
             (Some noedit, Some ver) \<Rightarrow>
               let ctx1 = ctx\<lparr>no_edit_env := (case noedit of None \<Rightarrow> 0 | Some i \<Rightarrow> c_int i),
                   apinfo_version := (case ver of None \<Rightarrow> default_apinfo_version | Some i \<Rightarrow> c_int i)\<rparr> in
               (case json_object_get (JObject kvs) ''pmi-bootstrap'' of
                  None \<Rightarrow> (0, ctx1)
                | Some (JString str) \<Rightarrow>
                    if str = ''off'' then (0, ctx1\<lparr>pmi := (pmi ctx1)\<lparr>disabled := True\<rparr>\<rparr>) else (-1, ctx1)
                | Some (JArray (JInt p0 # JInt p1 # JInt r # rest)) \<Rightarrow>
                    (0, ctx1\<lparr>pmi := (pmi ctx1)\<lparr>port0 := c_int p0, port1 := c_int p1, secret := r, valid := True\<rparr>\<rparr>)
                | Some _ \<Rightarrow> (-1, ctx1))
           | _ \<Rightarrow> (-1, ctx))
      | Some (Some _) \<Rightarrow> (-1, ctx))"

text \<open>
  \<open>registered k\<close> is the outcome of the \<open>k\<close>-th call into the shell; \<open>pmi_opt\<close> the value of the option
  \<^verbatim>\<open>pmi\<close> (outer \<open>None\<close>: not a string). The result has the context when the plugin is active.
\<close>

definition pals_plugin_init ::
  "(nat \<Rightarrow> bool) \<Rightarrow> string option option \<Rightarrow> (int \<times> int \<times> int \<times> jobid) option \<Rightarrow> json option option \<Rightarrow>
    environment \<Rightarrow> int \<times> cray_pals option \<times> environment" where
  "pals_plugin_init registered pmi_opt info opts s =
     (if \<not> registered 0 \<or> \<not> registered 1 then (-1, None, s)
      else case pmi_opt of
        None \<Rightarrow> (-1, None, s)
      | Some opt \<Rightarrow>
          if (case opt of None \<Rightarrow> True | Some csv \<Rightarrow> \<not> member_of_csv csv ''cray-pals'') then
            (case run_state unset_pals_env s of (rc, s') \<Rightarrow> (rc, None, s'))
          else (case cray_pals_create info of
             None \<Rightarrow> (-1, None, s)
           | Some ctx \<Rightarrow>
               if \<not> registered 2 then (-1, None, s)
               else (case cray_pals_parse_args opts ctx of
                  (rc, ctx1) \<Rightarrow>
                    if rc < 0 \<or> \<not> registered 3 \<or> \<not> registered 4 then (-1, None, s)
                    else (0, Some ctx1, s))))"

section \<open>The search path of a task\<close>

text \<open>A variable that has these entries: it is unset when there are none.\<close>

definition joined :: "string list \<Rightarrow> string option" where
  "joined es = (if es = [] \<or> hd es = [] then None else Some (argz_stringify (CHR '':'') es))"

lemma remove_path_run:
  assumes "memory_ok s" and "path \<in> set (path_entries name s)"
  shows "\<exists>s1. run_state (remove_path_from_cmd_env name path) s = (0, s1) \<and> memory_ok s1
    \<and> vars s1 = (vars s)(name := joined (remove1 path (path_entries name s)))"
  using assms
  by (cases "vars s name")
    (auto simp: remove_path_from_cmd_env_def path_entries_def joined_def Let_def memory_ok_def)

lemma filter_remove1_same: "filter (\<lambda>e. e \<noteq> p) (remove1 p es) = filter (\<lambda>e. e \<noteq> p) es"
  by (induction es) auto

lemma argz_ok_filter_Nil:
  "argz_ok c es \<Longrightarrow> es \<noteq> [] \<Longrightarrow> hd es = [] \<Longrightarrow> es = [[]]"
  by (cases es; cases "tl es") (auto simp: argz_ok_Cons)

text \<open>What is left after one entry was removed, when the rest is cleaned.\<close>

lemma cleaned_rest:
  assumes "argz_ok (CHR '':'') rest" and "path \<noteq> []" and "vars s1 = m(name := joined rest)"
    and e: "path_entries name s1 = (if rest \<noteq> [] \<and> hd rest \<noteq> [] then rest else [])"
    and IH: "v = (if path \<in> set (path_entries name s1)
         then (vars s1)(name := joined (filter (\<lambda>e. e \<noteq> path) (path_entries name s1))) else vars s1)"
  shows "v = m(name := joined (filter (\<lambda>e. e \<noteq> path) rest))"
proof -
  consider "rest = []" | "rest = [[]]" | "rest \<noteq> []" "hd rest \<noteq> []"
    using argz_ok_filter_Nil [OF assms(1)] by blast
  then show ?thesis
  proof cases
    case 1
    then show ?thesis using IH e assms(3) by simp
  next
    case 2
    then show ?thesis using IH e assms(3) assms(2) by (simp add: joined_def)
  next
    case 3
    then show ?thesis
    proof (cases "path \<in> set rest")
      case True
      then show ?thesis using IH e assms(3) 3 by simp
    next
      case False
      then have "filter (\<lambda>e. e \<noteq> path) rest = rest" by (simp add: filter_id_conv) blast
      then show ?thesis using IH e assms(3) 3 False by simp
    qed
  qed
qed

lemma remove_all_vars:
  assumes "memory_ok s" and "path \<noteq> []"
  shows "vars (remove_all name path s) =
    (if path \<in> set (path_entries name s)
     then (vars s)(name := joined (filter (\<lambda>e. e \<noteq> path) (path_entries name s))) else vars s)"
  using assms
proof (induction name path s rule: remove_all.induct)
  case (1 name path s)
  show ?case
  proof (cases "path \<in> set (path_entries name s)")
    case False
    obtain rc s' where r: "run_state (remove_path_from_cmd_env name path) s = (rc, s')"
      by (cases "run_state (remove_path_from_cmd_env name path) s")
    with remove_path_result [OF r] False have "rc = -1" "s' = s" by simp_all
    with r False show ?thesis by (simp add: remove_all.simps [of name path s])
  next
    case True
    define rest where "rest = remove1 path (path_entries name s)"
    obtain s1 where r: "run_state (remove_path_from_cmd_env name path) s = (0, s1)" and m: "memory_ok s1"
      and v: "vars s1 = (vars s)(name := joined rest)"
      using remove_path_run [OF 1(2) True] unfolding rest_def by (elim exE conjE)
    have e: "path_entries name s1 = (if rest \<noteq> [] \<and> hd rest \<noteq> [] then rest else [])"
      using remove_path_result [OF r] True by (simp add: rest_def Let_def)
    have f: "filter (\<lambda>e. e \<noteq> path) (path_entries name s) = filter (\<lambda>e. e \<noteq> path) rest"
      by (simp add: rest_def filter_remove1_same)
    have IH: "vars (remove_all name path s1) =
        (if path \<in> set (path_entries name s1)
         then (vars s1)(name := joined (filter (\<lambda>e. e \<noteq> path) (path_entries name s1))) else vars s1)"
      using 1(1) [OF r [symmetric]] m 1(3) by simp
    have u: "remove_all name path s = remove_all name path s1"
      using r by (simp add: remove_all.simps [of name path s])
    have ok: "argz_ok (CHR '':'') rest"
      unfolding rest_def by (intro argz_ok_remove1 path_entries_ok)
    have "vars (remove_all name path s1) = (vars s)(name := joined (filter (\<lambda>e. e \<noteq> path) rest))"
      by (rule cleaned_rest [OF ok \<open>path \<noteq> []\<close> v e IH])
    then show ?thesis using True u f by simp
  qed
qed

text \<open>
  C37. Before a task starts, its rank is put into its environment and, unless the user forbids it,
  the directory of Flux's own PMI library is removed from its library search path: exactly the
  entries for that directory, all of them, and the other entries keep their order. The variable is
  unset when nothing is left, and nothing else changes. The loop always ends.
\<close>

theorem task_environment:
  assumes "memory_ok s" and "dir \<noteq> []"
    and "libpals_task_init ctx (Some rank) (Some dir) s = (rc, s')"
  shows "rc = 0 \<and> vars s' = (vars s)(''PALS_RANKID'' \<mapsto> dec_of_int rank,
    ''LD_LIBRARY_PATH'' :=
      (if no_edit_env ctx = 0 \<and> dir \<in> set (path_entries ''LD_LIBRARY_PATH'' s)
       then joined (filter (\<lambda>e. e \<noteq> dir) (path_entries ''LD_LIBRARY_PATH'' s))
       else vars s ''LD_LIBRARY_PATH''))"
proof -
  let ?s1 = "s\<lparr>vars := (vars s)(''PALS_RANKID'' \<mapsto> dec_of_int rank), set_count := Suc (set_count s)\<rparr>"
  have m: "memory_ok ?s1" using assms(1) by (simp add: memory_ok_def)
  have p: "path_entries ''LD_LIBRARY_PATH'' ?s1 = path_entries ''LD_LIBRARY_PATH'' s"
    by (simp add: path_entries_def)
  have r: "rc = 0" "s' = (if no_edit_env ctx = 0 then remove_all ''LD_LIBRARY_PATH'' dir ?s1 else ?s1)"
    using assms(1,3) by (auto simp: libpals_task_init_def)
  show ?thesis
    using r remove_all_vars [OF m assms(2), of "''LD_LIBRARY_PATH''"] by (auto simp: p fun_eq_iff)
qed

lemma task_environment_witness:
  "\<exists>s'. libpals_task_init \<lparr>apinfo_version = 5, apinfo_path = [], no_edit_env = 0,
       pmi = \<lparr>port0 = 0, port1 = 0, secret = 0, valid = False, disabled = False\<rparr>,
       shell_size = 1, shell_rank = 0, ntasks = 1, jobid = 7\<rparr> (Some 3) (Some ''/f'')
     \<lparr>vars = [''LD_LIBRARY_PATH'' \<mapsto> ''/f:/a:/f:/b''], set_ok = (\<lambda>_. True), set_count = 0\<rparr> = (0, s')
     \<and> vars s' ''LD_LIBRARY_PATH'' = Some ''/a:/b'' \<and> vars s' ''PALS_RANKID'' = Some ''3''"
proof -
  let ?c = "\<lparr>apinfo_version = 5, apinfo_path = [], no_edit_env = 0,
       pmi = \<lparr>port0 = 0, port1 = 0, secret = 0, valid = False, disabled = False\<rparr>,
       shell_size = 1, shell_rank = 0, ntasks = 1, jobid = 7\<rparr>"
  let ?s = "\<lparr>vars = [''LD_LIBRARY_PATH'' \<mapsto> ''/f:/a:/f:/b''], set_ok = (\<lambda>_. True), set_count = 0\<rparr>"
  obtain rc s' where r: "libpals_task_init ?c (Some 3) (Some ''/f'') ?s = (rc, s')"
    by (cases "libpals_task_init ?c (Some 3) (Some ''/f'') ?s")
  have d: "dec_of_int 3 = ''3''" by (simp add: dec_of_int_def dec_of_nat.simps digit_char_def char_of_def bit_iff_odd)
  have e: "path_entries ''LD_LIBRARY_PATH'' ?s = [''/f'', ''/a'', ''/f'', ''/b'']"
    by (simp add: path_entries_def argz_create_sep_def)
  have m: "memory_ok ?s" by (simp add: memory_ok_def)
  from task_environment [OF m _ r] r e d show ?thesis by (simp add: joined_def)
qed

section \<open>What a successful initialisation leaves\<close>

lemma cores_per_task_int: "get_cores_per_task info n = Some c \<Longrightarrow> is_int c"
  by (auto simp: get_cores_per_task_def Let_def split: option.splits if_splits prod.splits)

lemma cores_per_task_value:
  assumes "get_cores_per_task info n = Some c" and "0 \<le> c"
  shows "\<exists>slots per_slot. info = Some (1, slots, per_slot) \<and> n \<noteq> 0 \<and> c = slots * per_slot sdiv n"
  using assms by (auto simp: get_cores_per_task_def Let_def split: option.splits if_splits prod.splits)

lemma create_apinfo_success:
  assumes "create_apinfo E w tmpdir ctx = Some (0, ctx', contents)"
  shows "\<exists>dir nl t cpus hs a mem m a0 a1.
    tmpdir = Some dir \<and> w_nodelist w = Some nl \<and> w_taskmap w = Some t
    \<and> hostlist_of_json (env_hosts E) nl = Some hs \<and> is_int cpus
    \<and> get_cores_per_task (w_jobspec w) (ntasks ctx) = Some cpus \<and> 0 \<le> cpus
    \<and> apinfo_create E mem m (apinfo_version ctx) = Inr a0
    \<and> apinfo_set_hostlist E m (Some a0) (Some hs) = (a1, Inr ())
    \<and> apinfo_set_taskmap E m a1 (Some t) cpus = Some (a, Inr ()) \<and> apinfo_check E a = Inr ()
    \<and> ctx' = ctx\<lparr>apinfo_path := dir @ ''/libpals_apinfo''\<rparr>
    \<and> apinfo_put E (w_files w) a (Some (apinfo_path ctx')) = (contents, Inr ())"
proof -
  let ?path = "\<lambda>dir. dir @ ''/libpals_apinfo''"
  obtain dir where dir: "tmpdir = Some dir" "length (?path dir) < 1024"
    using assms by (auto simp: create_apinfo_def Let_def split: option.splits if_splits)
  then have tk: "take 1023 (?path dir) = ?path dir" by simp
  obtain nl t where nl: "w_nodelist w = Some nl" "w_taskmap w = Some t"
    using assms dir by (auto simp: create_apinfo_def Let_def split: option.splits)
  obtain c hs where c: "get_cores_per_task (w_jobspec w) (ntasks ctx) = Some c" "\<not> c < 0"
    "hostlist_of_json (env_hosts E) nl = Some hs"
    using assms dir nl by (auto simp: create_apinfo_def Let_def split: option.splits if_splits)
  obtain a0 where a0: "apinfo_create E (w_object w) (w_alloc w) (apinfo_version ctx) = Inr a0"
    using assms dir nl c by (auto simp: create_apinfo_def Let_def split: sum.splits)
  obtain a1 u where a1: "apinfo_set_hostlist E (w_alloc w) (Some a0) (Some hs) = (a1, Inr u)"
    using assms dir nl c a0 by (auto simp: create_apinfo_def Let_def split: sum.splits prod.splits)
  obtain a2 v where a2: "apinfo_set_taskmap E (w_alloc w) a1 (Some t) c = Some (a2, Inr v)"
    using assms dir nl c a0 a1 by (auto simp: create_apinfo_def Let_def split: sum.splits prod.splits option.splits)
  have ck: "apinfo_check E a2 = Inr ()"
    using assms dir nl c a0 a1 a2 by (auto simp: create_apinfo_def Let_def split: sum.splits)
  have "ctx' = ctx\<lparr>apinfo_path := ?path dir\<rparr>
      \<and> apinfo_put E (w_files w) a2 (Some (?path dir)) = (contents, Inr ())"
    using assms dir nl c a0 a1 a2 ck tk by (auto simp: create_apinfo_def Let_def split: sum.splits prod.splits)
  with dir(1) nl c cores_per_task_int [OF c(1)] a0 a1 a2 ck show ?thesis
    by (intro exI [of _ dir] exI [of _ nl] exI [of _ t] exI [of _ c] exI [of _ hs] exI [of _ a2]
        exI [of _ "w_object w"] exI [of _ "w_alloc w"] exI [of _ a0] exI [of _ a1]) simp
qed

text \<open>The environment of a job: the control ports are those that the plugin has, never inherited ones.\<close>

definition pals_vars :: "cray_pals \<Rightarrow> string \<Rightarrow> (string \<rightharpoonup> string) \<Rightarrow> (string \<rightharpoonup> string)" where
  "pals_vars ctx dir m = m
    (''PMI_CONTROL_PORT'' := (if valid (pmi ctx)
        then Some (dec_of_int (port0 (pmi ctx)) @ '','' @ dec_of_int (port1 (pmi ctx))) else None),
     ''PMI_SHARED_SECRET'' := (if valid (pmi ctx) then Some (dec_of_nat (nat (secret (pmi ctx) mod 2 ^ 64)))
        else m ''PMI_SHARED_SECRET''),
     ''PALS_NODEID'' \<mapsto> dec_of_int (shell_rank ctx), ''PALS_APID'' \<mapsto> dec_of_nat (unat (jobid ctx)),
     ''PALS_SPOOL_DIR'' \<mapsto> dir, ''PALS_APINFO'' \<mapsto> apinfo_path ctx)"

lemma set_environment_success:
  assumes "memory_ok s" and "vars s ''FLUX_JOB_TMPDIR'' = Some dir"
  shows "\<exists>s'. run_state (set_environment ctx) s = (0, s') \<and> vars s' = pals_vars ctx dir (vars s)"
proof -
  have m: "set_ok s n" for n using assms(1) by simp
  show ?thesis
    using assms(2) by (auto simp: set_environment_def pals_vars_def m fun_eq_iff)
qed

lemma create_apinfo_rc:
  "create_apinfo E w tmpdir ctx = Some (rc, ctx', contents) \<Longrightarrow> rc = 0 \<or> rc = -1"
  by (auto simp: create_apinfo_def Let_def split: option.splits if_splits sum.splits prod.splits)

lemma get_pmi_frame:
  "get_pmi_bootstrap loads msg watch ctx = Some (rc, ctx') \<Longrightarrow> \<exists>p. ctx' = ctx\<lparr>pmi := p\<rparr>"
  by (auto simp: get_pmi_bootstrap_def split: option.splits intro: exI [of _ "pmi ctx"])

lemma built_from_steps:
  assumes "apinfo_create E mem m ver = Inr a0" and "apinfo_set_hostlist E m (Some a0) (Some hs) = (a1, Inr ())"
    and "apinfo_set_taskmap E m a1 (Some t) cpus = Some (a, Inr ())"
  shows "\<exists>b. a = Some b \<and> built_for E ver hs t cpus b"
proof -
  obtain b1 where b1: "a1 = Some b1"
    using assms(2) by (cases a0) (auto simp: apinfo_set_hostlist_def map_prod_def split: prod.splits)
  obtain b where b: "a = Some b"
    using assms(3) b1 by (cases b1) (auto simp: apinfo_set_taskmap_def map_prod_def split: prod.splits)
  with assms b1 show ?thesis unfolding built_for_def by blast
qed

lemma put_opened: "apinfo_put E fs (Some a) (Some path) = (contents, Inr ()) \<Longrightarrow> \<exists>img. contents = Some img"
  by (cases a) (auto simp: apinfo_put_def apinfo_write_def map_prod_def split: sum.splits prod.splits if_splits)

text \<open>The file of a successful \<^verbatim>\<open>create_apinfo\<close>.\<close>

lemma create_apinfo_file:
  assumes "good_env E elems tasks" and "hostlist_lib (env_hosts E) hosts expand"
    and "\<forall>nl h. w_nodelist w = Some nl \<longrightarrow> hostlist_of_json (env_hosts E) nl = Some h
      \<longrightarrow> int (hostlist_count (env_hosts E) h) < 2 ^ 31"
    and "create_apinfo E w tmpdir ctx = Some (0, ctx', contents)"
  shows "\<exists>dir names xss hs t slots per_slot cpus img. tmpdir = Some dir \<and> contents = Some img
    \<and> w_jobspec w = Some (1, slots, per_slot) \<and> ntasks ctx \<noteq> 0 \<and> cpus = slots * per_slot sdiv ntasks ctx \<and> 0 \<le> cpus
    \<and> w_nodelist w = Some (JArray (map JString names)) \<and> map expand names = map Some xss \<and> hosts hs = concat xss
    \<and> w_taskmap w = Some t \<and> set (tasks t) = {..<length (hosts hs)}
    \<and> file_says E tasks (apinfo_version ctx) hs t cpus img
    \<and> ctx' = ctx\<lparr>apinfo_path := dir @ ''/libpals_apinfo''\<rparr>"
proof -
  obtain dir nl t cpus hs a mem m a0 a1 where c:
    "tmpdir = Some dir" "w_nodelist w = Some nl" "w_taskmap w = Some t"
    "hostlist_of_json (env_hosts E) nl = Some hs" "- (2 ^ 31) \<le> cpus" "cpus < 2 ^ 31"
    "get_cores_per_task (w_jobspec w) (ntasks ctx) = Some cpus" "0 \<le> cpus"
    "apinfo_create E mem m (apinfo_version ctx) = Inr a0"
    "apinfo_set_hostlist E m (Some a0) (Some hs) = (a1, Inr ())"
    "apinfo_set_taskmap E m a1 (Some t) cpus = Some (a, Inr ())" "apinfo_check E a = Inr ()"
    "ctx' = ctx\<lparr>apinfo_path := dir @ ''/libpals_apinfo''\<rparr>"
    "apinfo_put E (w_files w) a (Some (apinfo_path ctx')) = (contents, Inr ())"
    using create_apinfo_success [OF assms(4)] by (elim exE conjE)
  obtain b where b: "a = Some b" "built_for E (apinfo_version ctx) hs t cpus b"
    using built_from_steps [OF c(9-11)] by (elim exE conjE)
  obtain img where img: "contents = Some img" using put_opened c(14) b(1) by blast
  have n: "hostlist_count (env_hosts E) hs = length (hosts hs)"
    using hostlist_lib.count_hosts [OF assms(2)] .
  obtain names xss where nm: "names_of_json nl = Some (map Some names)" "map expand names = map Some xss"
    "hosts hs = concat xss"
    using hostlist_lib.from_array_hosts [OF assms(2) c(4) [unfolded hostlist_of_json_def]] by (elim exE conjE)
  have str: "vs = map JString names" if "map json_string_value vs = map Some names" for vs names
    using that
  proof (induction vs arbitrary: names)
    case (Cons v vs)
    then obtain k ks where "names = k # ks" "json_string_value v = Some k" "map json_string_value vs = map Some ks"
      by (cases names) auto
    with Cons.IH [of ks] show ?case by (cases v) auto
  qed simp
  have "nl = JArray (map JString names)"
    using nm(1) str by (cases nl) (auto simp: names_of_json_def)
  moreover have "set (tasks t) = {..<length (hosts hs)}"
    using built_check_iff [OF assms(1) b(2) assms(3) [rule_format, OF c(2,4)]] c(12) b(1) n by simp
  moreover have "file_says E tasks (apinfo_version ctx) hs t cpus img"
    using put_contents [OF assms(1) b(2) assms(3) [rule_format, OF c(2,4)] conjI [OF c(5,6)]] c(14) b(1) img by blast
  moreover obtain slots per_slot where "w_jobspec w = Some (1, slots, per_slot)" "ntasks ctx \<noteq> 0"
    "cpus = slots * per_slot sdiv ntasks ctx"
    using cores_per_task_value [OF c(7,8)] by blast
  ultimately show ?thesis using c(1,2,3,8,13) img nm
    by - (rule exI [of _ dir], rule exI [of _ names], rule exI [of _ xss], rule exI [of _ hs],
        rule exI [of _ t], rule exI [of _ slots], rule exI [of _ per_slot], rule exI [of _ cpus],
        rule exI [of _ img], simp)
qed

text \<open>
  What is known of the ports afterwards. Across nodes the plugin takes them from the bootstrap event,
  unless the user gave them or switched this off; when the job surpasses the event there are none.
\<close>

definition ports_after :: "(string \<times> json option) list \<Rightarrow> cray_pals \<Rightarrow> pmi_bootstrap_info \<Rightarrow> bool" where
  "ports_after es ctx p \<longleftrightarrow>
     (if shell_size ctx > 1 \<and> \<not> disabled (pmi ctx) \<and> \<not> valid (pmi ctx)
      then (case wait_spec ''cray-pmi-bootstrap'' es of
          None \<Rightarrow> False
        | Some None \<Rightarrow> p = pmi ctx
        | Some (Some c) \<Rightarrow> (\<exists>p0 p1 rest r. json_object_get c ''ports'' = Some (JArray (JInt p0 # JInt p1 # rest))
            \<and> json_object_get c ''random_integer'' = Some (JInt r)
            \<and> p = (pmi ctx)\<lparr>port0 := c_int p0, port1 := c_int p1, secret := r, valid := True\<rparr>))
      else p = pmi ctx)"

lemma json_values: "json_array_value v = Some vs \<longleftrightarrow> v = JArray vs" "json_integer_value v = Some i \<longleftrightarrow> v = JInt i"
  by (cases v; auto)+

lemma get_pmi_ports:
  assumes "list_all2 (holds_entry loads) fut es" and "get_pmi_bootstrap loads msg (Some fut) ctx = Some (rc, ctx')" and "\<not> rc < 0"
    and "shell_size ctx > 1 \<and> \<not> disabled (pmi ctx) \<and> \<not> valid (pmi ctx)"
  shows "\<exists>p. ctx' = ctx\<lparr>pmi := p\<rparr> \<and> ports_after es ctx p"
proof -
  have "(-1 :: real) < 0" by simp
  note W = wait_unlimited [OF assms(1) this, of msg "''cray-pmi-bootstrap''"]
  obtain p where r: "read_future loads msg fut (pmi ctx) = Some (rc, p)" "ctx' = ctx\<lparr>pmi := p\<rparr>"
    using assms(2) by (auto simp: get_pmi_bootstrap_def)
  have "ports_after es ctx p"
    using r(1) assms(3) W unfolding ports_after_def if_P [OF assms(4)] read_future_def
    by (auto simp: unpack_member_Some json_values split: option.splits list.splits json.splits)
  with r(2) show ?thesis by blast
qed

text \<open>A successful initialisation wrote the file and set the environment, with at most the ports changed before.\<close>

lemma libpals_init_steps:
  assumes "memory_ok s" and "libpals_init E w loads timed_out watch ctx s = Some (0, ctx', contents, s')"
    and "\<forall>fut. watch = Some fut \<longrightarrow> list_all2 (holds_entry loads) fut es"
  shows "\<exists>p. ports_after es ctx p
      \<and> create_apinfo E w (vars s ''FLUX_JOB_TMPDIR'') (ctx\<lparr>pmi := p\<rparr>) = Some (0, ctx', contents)
      \<and> run_state (set_environment ctx') s = (0, s')"
proof -
  let ?wait = "shell_size ctx > 1 \<and> \<not> disabled (pmi ctx) \<and> \<not> valid (pmi ctx)"
  obtain rc ctx1 where g: "(if ?wait then get_pmi_bootstrap loads timed_out watch ctx else Some (0, ctx)) = Some (rc, ctx1)" "\<not> rc < 0"
    using assms(2) by (auto simp: libpals_init_def split: option.splits if_splits)
  have p: "\<exists>p. ctx1 = ctx\<lparr>pmi := p\<rparr> \<and> ports_after es ctx p"
  proof (cases ?wait)
    case True
    with g obtain fut where fut: "watch = Some fut" by (auto simp: get_pmi_bootstrap_def split: option.splits)
    have "get_pmi_bootstrap loads timed_out (Some fut) ctx = Some (rc, ctx1)" using g(1) True fut by simp
    from get_pmi_ports [OF assms(3) [rule_format, OF fut] this g(2) True] show ?thesis .
  next
    case False
    then have "ports_after es ctx (pmi ctx)" unfolding ports_after_def if_not_P [OF False] by simp
    moreover have "ctx1 = ctx\<lparr>pmi := pmi ctx\<rparr>" using g(1) False by simp
    ultimately show ?thesis by blast
  qed
  obtain rc2 ctx2 img where c: "create_apinfo E w (vars s ''FLUX_JOB_TMPDIR'') ctx1 = Some (rc2, ctx2, img)" "\<not> rc2 < 0"
    using assms(2) unfolding libpals_init_def g(1) option.case prod.case if_not_P [OF g(2)]
    by (auto split: option.splits if_splits)
  then have rc2: "rc2 = 0" using create_apinfo_rc by fastforce
  obtain rc3 s3 where e: "run_state (set_environment ctx2) s = (rc3, s3)"
    by (cases "run_state (set_environment ctx2) s")
  have "ctx2 = ctx'" "img = contents" "s3 = s'" "\<not> rc3 < 0"
    using assms(2) unfolding libpals_init_def g(1) option.case prod.case if_not_P [OF g(2)] c(1) if_not_P [OF c(2)] e
    by (auto split: if_splits)
  with c(1) e rc2 have c': "create_apinfo E w (vars s ''FLUX_JOB_TMPDIR'') ctx1 = Some (0, ctx', contents)"
    and e': "run_state (set_environment ctx') s = (rc3, s')" by simp_all
  obtain dir where "vars s ''FLUX_JOB_TMPDIR'' = Some dir"
    using create_apinfo_success [OF c'] by (elim exE conjE)
  then obtain s4 where "run_state (set_environment ctx') s = (0, s4)"
    using set_environment_success [OF assms(1)] by blast
  with e' c' p show ?thesis by auto
qed

text \<open>
  C36. When \<^verbatim>\<open>shell.init\<close> of the PALS plugin succeeds, the application file is in the temporary
  directory of the job and describes the hosts of the resource set and the task map of the shell,
  in the version that was asked for, with tasks on every host and nowhere else, and with the cores of
  all slots of the jobspec divided by the number of tasks as the CPUs per task; and the environment
  has the node id, the job id, the spool directory and the path of the file. The control ports are
  never inherited ones: in a job on several nodes they are those of the bootstrap event, or none when the job went
  past it; otherwise, or when the user gave or refused them, those that the plugin had.
\<close>

theorem libpals_init_effect:
  assumes "good_env E elems tasks" and "hostlist_lib (env_hosts E) hosts expand"
    and "\<forall>nl h. w_nodelist w = Some nl \<longrightarrow> hostlist_of_json (env_hosts E) nl = Some h
      \<longrightarrow> int (hostlist_count (env_hosts E) h) < 2 ^ 31" and "memory_ok s"
    and "\<forall>fut. watch = Some fut \<longrightarrow> list_all2 (holds_entry loads) fut es"
    and "libpals_init E w loads timed_out watch ctx s = Some (0, ctx', contents, s')"
  shows "\<exists>dir names xss hs t slots per_slot img.
    vars s ''FLUX_JOB_TMPDIR'' = Some dir \<and> contents = Some img
    \<and> w_jobspec w = Some (1, slots, per_slot) \<and> ntasks ctx \<noteq> 0
    \<and> w_nodelist w = Some (JArray (map JString names)) \<and> map expand names = map Some xss \<and> hosts hs = concat xss
    \<and> w_taskmap w = Some t \<and> set (tasks t) = {..<length (hosts hs)}
    \<and> file_says E tasks (apinfo_version ctx) hs t (slots * per_slot sdiv ntasks ctx) img
    \<and> ports_after es ctx (pmi ctx')
    \<and> ctx' = ctx\<lparr>pmi := pmi ctx', apinfo_path := dir @ ''/libpals_apinfo''\<rparr> \<and> vars s' = pals_vars ctx' dir (vars s)"
proof -
  obtain p where c: "create_apinfo E w (vars s ''FLUX_JOB_TMPDIR'') (ctx\<lparr>pmi := p\<rparr>) = Some (0, ctx', contents)"
    and e: "run_state (set_environment ctx') s = (0, s')" and p: "ports_after es ctx p"
    using libpals_init_steps [OF assms(4,6,5)] by blast
  obtain dir names xss hs t slots per_slot cpus img where f: "vars s ''FLUX_JOB_TMPDIR'' = Some dir" "contents = Some img"
    "w_jobspec w = Some (1, slots, per_slot)" "ntasks (ctx\<lparr>pmi := p\<rparr>) \<noteq> 0"
    "cpus = slots * per_slot sdiv ntasks (ctx\<lparr>pmi := p\<rparr>)"
    "w_nodelist w = Some (JArray (map JString names))" "map expand names = map Some xss" "hosts hs = concat xss"
    "w_taskmap w = Some t" "set (tasks t) = {..<length (hosts hs)}"
    "file_says E tasks (apinfo_version (ctx\<lparr>pmi := p\<rparr>)) hs t cpus img"
    "ctx' = ctx\<lparr>pmi := p\<rparr>\<lparr>apinfo_path := dir @ ''/libpals_apinfo''\<rparr>"
    using create_apinfo_file [OF assms(1-3) c] by (elim exE conjE)
  have v: "apinfo_version (ctx\<lparr>pmi := p\<rparr>) = apinfo_version ctx" "ntasks (ctx\<lparr>pmi := p\<rparr>) = ntasks ctx" by simp_all
  have s': "vars s' = pals_vars ctx' dir (vars s)"
    using set_environment_success [OF assms(4) f(1), of ctx'] e by auto
  have c': "ctx' = ctx\<lparr>pmi := pmi ctx', apinfo_path := dir @ ''/libpals_apinfo''\<rparr>" and p': "ports_after es ctx (pmi ctx')"
    using p by (simp_all add: f(12))
  show ?thesis
    by (rule exI [of _ dir], rule exI [of _ names], rule exI [of _ xss], rule exI [of _ hs], rule exI [of _ t],
        rule exI [of _ slots], rule exI [of _ per_slot], rule exI [of _ img]) (intro conjI f(1-3) f(4) [unfolded v] f(6-10) f(11) [unfolded f(5) v] p' s' c')
qed

definition sample_world :: "task_list pals_world" where
  "sample_world = \<lparr>w_nodelist = Some (JArray (map JString sample_hosts)), w_taskmap = Some sample_tasks,
     w_jobspec = Some (1, 3, 1), w_object = True, w_alloc = plenty,
     w_files = \<lparr>open_room = Inr 344, close_ok = True\<rparr>\<rparr>"

definition sample_pals :: cray_pals where
  "sample_pals = \<lparr>apinfo_version = 5, apinfo_path = [], no_edit_env = 0,
     pmi = \<lparr>port0 = 0, port1 = 0, secret = 0, valid = False, disabled = False\<rparr>,
     shell_size = 1, shell_rank = 0, ntasks = 3, jobid = 7\<rparr>"

definition sample_vars :: environment where
  "sample_vars = \<lparr>vars = [''FLUX_JOB_TMPDIR'' \<mapsto> ''/t'', ''PMI_CONTROL_PORT'' \<mapsto> ''1''], set_ok = (\<lambda>_. True), set_count = 0\<rparr>"

lemma sample_from_array: "hostlist_of_json list_hostlist (JArray (map JString sample_hosts)) = Some sample_hosts"
  by (simp add: hostlist_of_json_def hostlist_from_array_def names_of_json_def sample_hosts_def list_hostlist_def)

lemma sample_create:
  "\<exists>ctx' img. create_apinfo sample_env sample_world (Some ''/t'') (sample_pals\<lparr>shell_size := n, pmi := p\<rparr>) = Some (0, ctx', Some img)"
proof -
  obtain a0 a1 a where a: "apinfo_create sample_env True plenty 5 = Inr a0"
    "apinfo_set_hostlist sample_env plenty (Some a0) (Some sample_hosts) = (Some a1, Inr ())"
    "apinfo_set_taskmap sample_env plenty (Some a1) (Some sample_tasks) 1 = Some (Some a, Inr ())"
    using sample_steps [of 5] by auto
  then have b: "built_for sample_env 5 sample_hosts sample_tasks 1 a" unfolding built_for_def by blast
  have n: "int (hostlist_count (env_hosts sample_env) sample_hosts) < 2 ^ 31"
    by (simp only: sample_env_simps sample_count) simp
  have "set (tl_list sample_tasks) = {..<hostlist_count (env_hosts sample_env) sample_hosts}"
    unfolding sample_env_simps sample_count sample_tasks_list by auto
  then have ck: "apinfo_check sample_env (Some a) = Inr ()"
    using built_check_iff [OF sample_good b n] by blast
  have o: "open_room (w_files sample_world) = Inr 344" "close_ok (w_files sample_world)"
    by (simp_all add: sample_world_def)
  have "apinfo_put sample_env (w_files sample_world) (Some a) (Some ''/t/libpals_apinfo'') = (Some (ap_image a), Inr ())"
    using put_result [OF sample_good b n o, of "''/t/libpals_apinfo''"] sample_size [OF b] by simp
  then show ?thesis
    using a ck sample_from_array
    by (simp add: create_apinfo_def sample_world_def sample_pals_def get_cores_per_task_def Let_def)
qed

text \<open>A job on two nodes, whose eventlog has the bootstrap event.\<close>

definition bootstrap_event :: json where
  "bootstrap_event = JObject [(''ports'', JArray [JInt 11000, JInt 11001]), (''random_integer'', JInt 5)]"

definition bootstrap_loads :: "string \<Rightarrow> json option" where
  "bootstrap_loads s = (if s = ''b'' @ [newline] then Some (JObject [(''timestamp'', JReal 1),
     (''name'', JString ''cray-pmi-bootstrap''), (''context'', bootstrap_event)]) else None)"

lemma bootstrap_holds:
  "list_all2 (holds_entry bootstrap_loads) [sample_arrival ''b'' 1 1] [(''cray-pmi-bootstrap'', Some bootstrap_event)]"
  by (auto simp: entry_eval bootstrap_loads_def bootstrap_event_def)

lemma bootstrap_ports:
  "get_pmi_bootstrap bootstrap_loads [] (Some [sample_arrival ''b'' 1 1]) ctx
     = Some (0, ctx\<lparr>pmi := (pmi ctx)\<lparr>port0 := 11000, port1 := 11001, secret := 5, valid := True\<rparr>\<rparr>)"
proof -
  have "(-1 :: real) < 0" by simp
  have "eventlog_wait_for bootstrap_loads [] ''cray-pmi-bootstrap'' (-1) [sample_arrival ''b'' 1 1] = WaitDone (Some bootstrap_event)"
    using wait_unlimited [OF bootstrap_holds \<open>(-1 :: real) < 0\<close>, of "[]" "''cray-pmi-bootstrap''"]
    by (simp add: wait_spec_def)
  then show ?thesis
    by (simp add: get_pmi_bootstrap_def read_future_def bootstrap_event_def unpack_member_def c_int_def signed_take_bit_int_eq_self)
qed

lemma libpals_init_effect_witness:
  "\<exists>ctx' img s'. libpals_init sample_env sample_world bootstrap_loads [] (Some [sample_arrival ''b'' 1 1])
        (sample_pals\<lparr>shell_size := 2\<rparr>) sample_vars = Some (0, ctx', Some img, s')
     \<and> file_nnodes img = 2 \<and> cpus_per_pe (file_cmd img 0) = 1 \<and> port0 (pmi ctx') = 11000
     \<and> vars s' ''PALS_APINFO'' = Some ''/t/libpals_apinfo''"
proof -
  let ?ctx = "sample_pals\<lparr>shell_size := 2\<rparr>" and ?es = "[(''cray-pmi-bootstrap'', Some bootstrap_event)]"
  let ?p = "(pmi ?ctx)\<lparr>port0 := 11000, port1 := 11001, secret := 5, valid := True\<rparr>"
  let ?init = "libpals_init sample_env sample_world bootstrap_loads [] (Some [sample_arrival ''b'' 1 1]) ?ctx sample_vars"
  have m: "memory_ok sample_vars" by (simp add: memory_ok_def sample_vars_def)
  have t: "vars sample_vars ''FLUX_JOB_TMPDIR'' = Some ''/t''" by (simp add: sample_vars_def)
  obtain ctx' img where c: "create_apinfo sample_env sample_world (Some ''/t'') (?ctx\<lparr>pmi := ?p\<rparr>) = Some (0, ctx', Some img)"
    using sample_create [where n = 2 and p = ?p] by auto
  obtain s' where e: "run_state (set_environment ctx') sample_vars = (0, s')"
    using set_environment_success [OF m t] by blast
  have wait: "shell_size ?ctx > 1 \<and> \<not> disabled (pmi ?ctx) \<and> \<not> valid (pmi ?ctx)" by (simp add: sample_pals_def)
  have i: "?init = Some (0, ctx', Some img, s')"
    unfolding libpals_init_def if_P [OF wait] bootstrap_ports t using c by (simp add: e)
  have h: "hostlist_lib (env_hosts sample_env) (\<lambda>h. h) (\<lambda>s. Some [s])"
    using plain_hosts.hostlist_lib_axioms by simp
  have n: "\<forall>nl hs. w_nodelist sample_world = Some nl
      \<longrightarrow> hostlist_of_json (env_hosts sample_env) nl = Some hs
      \<longrightarrow> int (hostlist_count (env_hosts sample_env) hs) < 2 ^ 31"
    using sample_from_array sample_count by (simp add: sample_world_def)
  have l: "\<forall>fut. Some [sample_arrival ''b'' 1 1] = Some fut \<longrightarrow> list_all2 (holds_entry bootstrap_loads) fut ?es"
    using bootstrap_holds by simp
  from libpals_init_effect [OF sample_good h n m l i] show ?thesis
  proof (elim exE conjE)
    fix dir names xss hs t slots per_slot img'
    assume r: "vars sample_vars ''FLUX_JOB_TMPDIR'' = Some dir" "Some img = Some img'"
      "w_nodelist sample_world = Some (JArray (map JString names))"
      "map (\<lambda>s. Some [s]) names = map Some xss" "hs = concat xss"
      "file_says sample_env tl_list (apinfo_version ?ctx) hs t (slots * per_slot sdiv ntasks ?ctx) img'"
      "ctx' = ?ctx\<lparr>pmi := pmi ctx', apinfo_path := dir @ ''/libpals_apinfo''\<rparr>"
      "vars s' = pals_vars ctx' dir (vars sample_vars)"
      "w_jobspec sample_world = Some (1, slots, per_slot)" "ports_after ?es ?ctx (pmi ctx')"
    have "names = sample_hosts" using r(3) by (simp add: sample_world_def map_injective inj_def)
    then have "length hs = 2" using r(4,5) by (auto simp: sample_hosts_def)
    then have nn: "file_nnodes img = 2" using r(2,6) by (simp add: file_says_def list_hostlist_def)
    have "slots * per_slot sdiv ntasks ?ctx = 1" using r(9) by (simp add: sample_world_def sample_pals_def)
    then have cp: "cpus_per_pe (file_cmd img 0) = 1" using r(2,6) by (simp add: file_says_def)
    have pt: "port0 (pmi ctx') = 11000"
      using r(10) wait by (auto simp: ports_after_def wait_spec_def bootstrap_event_def c_int_def signed_take_bit_int_eq_self)
    have "apinfo_path ctx' = dir @ ''/libpals_apinfo''" by (subst r(7)) simp
    then have "vars s' ''PALS_APINFO'' = Some ''/t/libpals_apinfo''" using r(1,8) \<open>vars sample_vars ''FLUX_JOB_TMPDIR'' = Some ''/t''\<close>
      by (simp add: pals_vars_def)
    with i nn cp pt show ?thesis by blast
  qed
qed

end
