(* ===== verification/DwsEnvironment.thy ===== *)
theory DwsEnvironment
  imports Eventlog Shell
begin

text \<open>
  The shell plugin \<^verbatim>\<open>src/shell/plugins/dws_environment.c\<close>: before the tasks of a job with \<^verbatim>\<open>#DW\<close>
  directives start, it waits for the \<^verbatim>\<open>dws_environment\<close> event, which \<^verbatim>\<open>dws-jobtap.c\<close> posts, and puts
  the variables of the event into the environment of the job.
\<close>

section \<open>The plugin\<close>

text \<open>The loop of \<^verbatim>\<open>set_environment\<close>; a value that is not an object has no members.\<close>

fun set_members :: "(string \<times> json) list \<Rightarrow> int shell" where
  "set_members [] = State_Monad.return 0"
| "set_members ((key, v) # kvs) = (case json_string_value v of
       None \<Rightarrow> State_Monad.return (-1)
     | Some value_string \<Rightarrow> do {
         ok \<leftarrow> setenv key value_string;
         if \<not> ok then State_Monad.return (-1) else set_members kvs
       })"

definition dws_set_environment :: "json \<Rightarrow> int shell" where
  "dws_set_environment env_object = set_members (case env_object of JObject kvs \<Rightarrow> kvs | _ \<Rightarrow> [])"

text \<open>\<open>None\<close>: the wait for the event never ends.\<close>

definition dws_read_future ::
  "(string \<Rightarrow> json option) \<Rightarrow> string \<Rightarrow> arrival list \<Rightarrow> environment \<Rightarrow> (int \<times> environment) option" where
  "dws_read_future loads timed_out fut s = (case eventlog_wait_for loads timed_out ''dws_environment'' (-1) fut of
       WaitHangs \<Rightarrow> None
     | WaitFails _ \<Rightarrow> Some (-1, s)
     | WaitDone None \<Rightarrow> Some (-1, s)
     | WaitDone (Some context) \<Rightarrow> (case json_object_get context ''variables'' of
          None \<Rightarrow> Some (-1, s)
        | Some vs \<Rightarrow> (case run_state (dws_set_environment vs) s of
             (rc, s') \<Rightarrow> Some (if rc < 0 then -1 else 0, s'))))"

text \<open>
  \<open>info\<close>: the \<^verbatim>\<open>dw\<close> attribute of the jobspec if there is one (outer \<open>None\<close>: the shell or its
  information is not there); \<open>watch\<close>: the responses of the eventlog watch, if it can be set up.
\<close>

definition dws_environment_init ::
  "(string \<Rightarrow> json option) \<Rightarrow> string \<Rightarrow> json option option \<Rightarrow> arrival list option \<Rightarrow> environment \<Rightarrow>
    (int \<times> environment) option" where
  "dws_environment_init loads timed_out info watch s = (case info of
       None \<Rightarrow> Some (-1, s)
     | Some None \<Rightarrow> Some (0, s)
     | Some (Some dw) \<Rightarrow> (case watch of
          None \<Rightarrow> Some (-1, s)
        | Some fut \<Rightarrow> (case dws_read_future loads timed_out fut s of
             None \<Rightarrow> None
           | Some (rc, s') \<Rightarrow> Some (if rc < 0 then -1 else 0, s'))))"

definition dws_environment_plugin_init :: "bool \<Rightarrow> bool \<Rightarrow> int" where
  "dws_environment_plugin_init named handler = (if \<not> named \<or> \<not> handler then -1 else 0)"

section \<open>What the job gets\<close>

text \<open>The contract: an object of strings gives its members, anything else is an error.\<close>

definition string_members :: "json \<Rightarrow> (string \<times> string) list option" where
  "string_members j = (case j of
       JObject kvs \<Rightarrow> those (map (\<lambda>(k, v). map_option (Pair k) (json_string_value v)) kvs)
     | _ \<Rightarrow> Some [])"

lemma run_set_members:
  assumes "memory_ok s"
  shows "case those (map (\<lambda>(k, v). map_option (Pair k) (json_string_value v)) kvs) of
      None \<Rightarrow> fst (run_state (set_members kvs) s) = -1
    | Some ms \<Rightarrow> fst (run_state (set_members kvs) s) = 0
        \<and> vars (snd (run_state (set_members kvs) s)) = vars s ++ map_of (rev ms)"
  using assms
proof (induction kvs arbitrary: s)
  case (Cons kv kvs)
  obtain k v where kv: "kv = (k, v)" by (cases kv)
  show ?case
  proof (cases "json_string_value v")
    case None
    then show ?thesis by (simp add: kv)
  next
    case (Some str)
    let ?t = "s\<lparr>vars := (vars s)(k \<mapsto> str), set_count := Suc (set_count s)\<rparr>"
    have "memory_ok ?t" using Cons.prems by (simp add: memory_ok_def)
    from Cons.IH [OF this] Some Cons.prems show ?thesis
      by (simp add: kv map_add_def fun_eq_iff split: option.splits)
  qed
qed simp

text \<open>
  C40. Without directives the plugin does nothing. For a job with directives, and an eventlog of
  well-formed entries, it waits until the first entry that is the \<^verbatim>\<open>dws_environment\<close> event, the start of
  the job or an exception of severity 0. It succeeds exactly when that is the event and the values of
  its \<^verbatim>\<open>variables\<close> are strings; then the environment of the job is the old one with these variables. A
  job that starts or fails first makes it fail with the environment as it was, and without a deciding
  entry it waits for ever.
\<close>

theorem dws_environment_contract:
  assumes "memory_ok s" and "list_all2 (holds_entry loads) as es"
  shows "dws_environment_init loads timed_out (Some None) watch s = Some (0, s) \<and>
    (case wait_spec ''dws_environment'' es of
       None \<Rightarrow> dws_environment_init loads timed_out (Some (Some dw)) (Some as) s = None
     | Some None \<Rightarrow> dws_environment_init loads timed_out (Some (Some dw)) (Some as) s = Some (-1, s)
     | Some (Some c) \<Rightarrow> (\<exists>rc s'. dws_environment_init loads timed_out (Some (Some dw)) (Some as) s = Some (rc, s') \<and>
         (case Option.bind (json_object_get c ''variables'') string_members of
            None \<Rightarrow> rc = -1
          | Some ms \<Rightarrow> rc = 0 \<and> vars s' = vars s ++ map_of (rev ms))))"
proof -
  note W = wait_unlimited [OF assms(2), of "-1" timed_out "''dws_environment''"]
  show ?thesis
  proof (cases "wait_spec ''dws_environment'' es")
    case None
    with W show ?thesis by (simp add: dws_environment_init_def dws_read_future_def)
  next
    case (Some res)
    show ?thesis
    proof (cases res)
      case None
      with Some W show ?thesis by (simp add: dws_environment_init_def dws_read_future_def)
    next
      case c: (Some c)
      show ?thesis
      proof (cases "json_object_get c ''variables''")
        case None
        with Some c W show ?thesis by (simp add: dws_environment_init_def dws_read_future_def)
      next
        case v: (Some vs)
        let ?kvs = "case vs of JObject kvs \<Rightarrow> kvs | _ \<Rightarrow> []"
        obtain rc s' where r: "run_state (set_members ?kvs) s = (rc, s')"
          by (cases "run_state (set_members ?kvs) s")
        have "string_members vs = those (map (\<lambda>(k, v). map_option (Pair k) (json_string_value v)) ?kvs)"
          by (cases vs) (simp_all add: string_members_def)
        with run_set_members [OF assms(1), of ?kvs] r Some c v W show ?thesis
          by (auto simp: dws_environment_init_def dws_read_future_def dws_set_environment_def split: option.splits)
      qed
    qed
  qed
qed

text \<open>A reader of two entries, one of them the event with a variable.\<close>

definition dws_event :: json where
  "dws_event = JObject [(''variables'', JObject [(''DW_JOB_S'', JString ''/mnt'')])]"

definition dws_loads :: "string \<Rightarrow> json option" where
  "dws_loads s = (if s = ''d'' @ [newline] then Some (JObject [(''timestamp'', JReal 1),
       (''name'', JString ''dws_environment''), (''context'', dws_event)]) else sample_loads s)"

lemma dws_holds:
  "holds_entry dws_loads (sample_arrival ''a'' 1 1) (''alloc'', Some (JObject []))"
  "holds_entry dws_loads (sample_arrival ''d'' 1 1) (''dws_environment'', Some dws_event)"
  by (auto simp: entry_eval dws_loads_def dws_event_def sample_loads_def)

lemma dws_environment_contract_witness:
  "(\<exists>s'. dws_environment_init dws_loads ''timeout'' (Some (Some (JArray [])))
        (Some [sample_arrival ''a'' 1 1, sample_arrival ''d'' 1 1])
        \<lparr>vars = [''HOME'' \<mapsto> ''/h''], set_ok = (\<lambda>_. True), set_count = 0\<rparr> = Some (0, s')
      \<and> vars s' = [''HOME'' \<mapsto> ''/h'', ''DW_JOB_S'' \<mapsto> ''/mnt''])
   \<and> dws_environment_init dws_loads ''timeout'' (Some (Some (JArray []))) (Some [sample_arrival ''a'' 1 1])
        \<lparr>vars = [''HOME'' \<mapsto> ''/h''], set_ok = (\<lambda>_. True), set_count = 0\<rparr> = None"
proof -
  let ?s = "\<lparr>vars = [''HOME'' \<mapsto> ''/h''], set_ok = (\<lambda>_. True), set_count = 0\<rparr>"
  have m: "memory_ok ?s" by (simp add: memory_ok_def)
  have h: "list_all2 (holds_entry dws_loads) [sample_arrival ''a'' 1 1, sample_arrival ''d'' 1 1]
      [(''alloc'', Some (JObject [])), (''dws_environment'', Some dws_event)]"
    "list_all2 (holds_entry dws_loads) [sample_arrival ''a'' 1 1] [(''alloc'', Some (JObject []))]"
    by (simp_all add: dws_holds)
  have v: "Option.bind (json_object_get dws_event ''variables'') string_members = Some [(''DW_JOB_S'', ''/mnt'')]"
    by (simp add: dws_event_def string_members_def)
  have w: "wait_spec ''dws_environment'' [(''alloc'', Some (JObject [])), (''dws_environment'', Some dws_event)] = Some (Some dws_event)"
    "wait_spec ''dws_environment'' [(''alloc'', Some (JObject []))] = None"
    by (simp_all add: wait_spec_def)
  from dws_environment_contract [OF m h(1), of "''timeout''" None "JArray []"]
    dws_environment_contract [OF m h(2), of "''timeout''" None "JArray []"]
  show ?thesis unfolding w option.case v by auto
qed

end
