(* ===== verification/Vnipool.thy ===== *)
theory Vnipool
  imports Idset
begin

text \<open>
  The VNI reservation system, \<^verbatim>\<open>src/job-manager/plugins/vnipool.c\<close>: its state, one definition
  per function of the file in the file's order, the invariants of the pool, and a locale for the
  contract that the jobtap plugin relies on.
\<close>

section \<open>State\<close>

text \<open>
  A \<^verbatim>\<open>json_t\<close> array of VNIs: its items and its reference count. The counts are kept because
  \<^verbatim>\<open>json_decref\<close> is called on every path, and a count below zero is a use after free.
\<close>

record jarray =
  items :: "nat list"
  refs :: int

definition json_decref :: "jarray \<Rightarrow> jarray" where
  "json_decref a = a\<lparr>refs := refs a - 1\<rparr>"

definition json_incref :: "jarray \<Rightarrow> jarray" where
  "json_incref a = a\<lparr>refs := refs a + 1\<rparr>"

text \<open>
  \<^verbatim>\<open>struct vnipool\<close>: \<open>universe\<close> is the set of configured valid VNIs, \<open>pool\<close> the set of
  unallocated VNIs (both \<^verbatim>\<open>NULL\<close> until the first configuration), \<open>jobs\<close> the reservations by
  job key.
\<close>

record 'i vnipool =
  universe :: "'i option"
  pool :: "'i option"
  jobs :: "string \<Rightarrow> jarray option"

definition CXI_SVC_MAX_VNIS :: int where
  "CXI_SVC_MAX_VNIS = 4"

definition VNI_VALID_SET :: string where
  "VNI_VALID_SET = ''0,2-9,11-65535''"

definition VNIPOOL_DEFAULT :: string where
  "VNIPOOL_DEFAULT = ''1024-65535''"

text \<open>
  The libraries of the file: the idset operations, the job id encoder, and the outcome of each
  jansson allocation the code checks. \<open>append_ok i\<close> is the outcome of building and appending
  the \<open>i\<close>-th VNI of an array.
\<close>

record 'i vni_libs =
  idsets :: "'i idset_api"
  f58 :: "jobid \<Rightarrow> string option"
  json_array_ok :: bool
  append_ok :: "nat \<Rightarrow> bool"
  object_set_ok :: bool

text \<open>Failures, with what the error text is made of.\<close>

datatype vni_error =
    BadCount
  | NoSpace int nat
  | SaveFailed
  | UnknownJob string
  | DecodeFailed string
  | InternalDecode string
  | InvalidVnis string
  | PoolCreateFailed

fun vni_errno :: "vni_error \<Rightarrow> errno" where
  "vni_errno BadCount = EINVAL"
| "vni_errno (NoSpace _ _) = ENOSPC"
| "vni_errno SaveFailed = ENOMEM"
| "vni_errno (UnknownJob _) = ENOENT"
| "vni_errno (DecodeFailed _) = EINVAL"
| "vni_errno (InternalDecode _) = EINVAL"
| "vni_errno (InvalidVnis _) = EINVAL"
| "vni_errno PoolCreateFailed = EOTHER"

section \<open>Operations\<close>

record vni_query =
  q_universe :: string
  q_free :: string
  q_jobs :: "string \<Rightarrow> nat list option"

text \<open>
  The outer \<open>None\<close> is a failed \<^verbatim>\<open>json_pack\<close> (outcome \<open>pack_ok\<close>), the inner one the JSON null of a
  missing pool.
\<close>

definition vnipool_query ::
  "'i vni_libs \<Rightarrow> bool \<Rightarrow> 'i vnipool option \<Rightarrow> vni_query option option" where
  "vnipool_query L pack_ok vpp = (case vpp of
       None \<Rightarrow> Some None
     | Some vp \<Rightarrow>
         if \<not> pack_ok then None
         else Some (Some \<lparr>
           q_universe = (case idset_encode (idsets L) (universe vp) of None \<Rightarrow> '''' | Some s \<Rightarrow> s),
           q_free = (case idset_encode (idsets L) (pool vp) of None \<Rightarrow> '''' | Some s \<Rightarrow> s),
           q_jobs = (\<lambda>k. map_option items (jobs vp k))\<rparr>))"

definition is_subset_of :: "'i idset_api \<Rightarrow> 'i option \<Rightarrow> 'i option \<Rightarrow> bool" where
  "is_subset_of A a b = (case idset_intersect A a b of
       None \<Rightarrow> False
     | Some u \<Rightarrow> idset_equal A (Some u) a)"

text \<open>The loop of \<^verbatim>\<open>vnipool_free_array\<close>.\<close>

fun free_items :: "'i idset_api \<Rightarrow> 'i option \<Rightarrow> nat list \<Rightarrow> 'i option \<Rightarrow> 'i option" where
  "free_items A uni [] pl = pl"
| "free_items A uni (x # xs) pl =
     free_items A uni xs (if idset_test A uni x then idset_free A pl x else pl)"

definition vnipool_free_array ::
  "'i vni_libs \<Rightarrow> 'i vnipool \<Rightarrow> jarray option \<Rightarrow> 'i vnipool \<times> jarray option" where
  "vnipool_free_array L vp vnis = (case vnis of
       None \<Rightarrow> (vp, None)
     | Some a \<Rightarrow> (vp\<lparr>pool := free_items (idsets L) (universe vp) (items a) (pool vp)\<rparr>,
                  Some (json_decref a)))"

text \<open>
  The loop of \<^verbatim>\<open>vnipool_alloc_array\<close>: \<open>n\<close> iterations are left and \<open>i\<close> is the loop
  counter. An item that cannot be appended goes back to the pool and the loop goes on. The
  flag of the result says whether the loop ended normally or jumped to the error label.
\<close>

fun alloc_loop ::
  "'i vni_libs \<Rightarrow> nat \<Rightarrow> nat \<Rightarrow> 'i option \<Rightarrow> jarray \<Rightarrow> bool \<times> 'i option \<times> jarray" where
  "alloc_loop L 0 i pl a = (True, pl, a)"
| "alloc_loop L (Suc n) i pl a = (case idset_alloc (idsets L) pl of
       None \<Rightarrow> (False, pl, a)
     | Some (vni, pl') \<Rightarrow>
         if append_ok L i then alloc_loop L n (Suc i) (Some pl') (a\<lparr>items := items a @ [vni]\<rparr>)
         else alloc_loop L n (Suc i) (idset_free (idsets L) (Some pl') vni) a)"

text \<open>
  The result is the array, or on failure (\<^verbatim>\<open>NULL\<close> in the source) the final state of the array
  that the error path has dropped, if it was ever created.
\<close>

definition vnipool_alloc_array ::
  "'i vni_libs \<Rightarrow> 'i vnipool \<Rightarrow> int \<Rightarrow> 'i vnipool \<times> (jarray option + jarray)" where
  "vnipool_alloc_array L vp count =
     (if \<not> json_array_ok L then (vp, Inl None)
      else (case alloc_loop L (nat count) 0 (pool vp) \<lparr>items = [], refs = 1\<rparr> of
          (True, pl, a) \<Rightarrow> (vp\<lparr>pool := pl\<rparr>, Inr a)
        | (False, pl, a) \<Rightarrow>
            (let (vp', a') = vnipool_free_array L (vp\<lparr>pool := pl\<rparr>) (Some a)
             in (vp', Inl (map_option json_decref a')))))"

definition vnipool_reserve ::
  "'i vni_libs \<Rightarrow> 'i vnipool \<Rightarrow> jobid \<Rightarrow> int \<Rightarrow> 'i vnipool \<times> (vni_error + jarray)" where
  "vnipool_reserve L vp i vnicount =
     (let key = idf58 (f58 L) i in
      if vnicount < 0 \<or> vnicount > CXI_SVC_MAX_VNIS then (vp, Inl BadCount)
      else (case vnipool_alloc_array L vp vnicount of
          (vp', Inl _) \<Rightarrow> (vp', Inl (NoSpace vnicount (idset_count (idsets L) (pool vp'))))
        | (vp', Inr vnis) \<Rightarrow>
            if object_set_ok L then (vp'\<lparr>jobs := (jobs vp')(key \<mapsto> vnis)\<rparr>, Inr vnis)
            else (fst (vnipool_free_array L vp' (Some vnis)), Inl SaveFailed)))"

definition vnipool_lookup :: "'i vni_libs \<Rightarrow> 'i vnipool \<Rightarrow> jobid \<Rightarrow> vni_error + jarray" where
  "vnipool_lookup L vp i =
     (let key = idf58 (f58 L) i in
      case jobs vp key of None \<Rightarrow> Inl (UnknownJob key) | Some job \<Rightarrow> Inr job)"

definition vnipool_release ::
  "'i vni_libs \<Rightarrow> 'i vnipool \<Rightarrow> jobid \<Rightarrow> 'i vnipool \<times> (vni_error + unit)" where
  "vnipool_release L vp i =
     (let key = idf58 (f58 L) i in
      case vnipool_lookup L vp i of
        Inl e \<Rightarrow> (vp, Inl e)
      | Inr vnis \<Rightarrow>
          (let (vp', _) = vnipool_free_array L vp (Some (json_incref vnis))
           in (vp'\<lparr>jobs := (jobs vp')(key := None)\<rparr>, Inr ())))"

definition decode_vnipool :: "'i idset_api \<Rightarrow> string \<Rightarrow> string \<Rightarrow> vni_error + 'i" where
  "decode_vnipool A s valid = (case idset_decode_ex A s of
       Inl e \<Rightarrow> Inl (DecodeFailed e)
     | Inr ids \<Rightarrow> (case idset_decode_ex A valid of
          Inl e \<Rightarrow> Inl (InternalDecode e)
        | Inr valid_ids \<Rightarrow>
            if is_subset_of A (Some ids) (Some valid_ids) then Inr ids else Inl (InvalidVnis s)))"

text \<open>The loop of \<^verbatim>\<open>create_vnipool\<close> over the ids of the new universe.\<close>

fun clear_ids ::
  "'i idset_api \<Rightarrow> 'i option \<Rightarrow> 'i option \<Rightarrow> 'i option \<Rightarrow> nat list \<Rightarrow> 'i \<Rightarrow> 'i option" where
  "clear_ids A new_universe old_universe old_pool [] pl = Some pl"
| "clear_ids A new_universe old_universe old_pool (x # xs) pl =
     (if \<not> idset_test A new_universe x \<or> (idset_test A old_universe x \<and> \<not> idset_test A old_pool x)
      then (case idset_clear A pl x of
          None \<Rightarrow> None
        | Some pl' \<Rightarrow> clear_ids A new_universe old_universe old_pool xs pl')
      else clear_ids A new_universe old_universe old_pool xs pl)"

definition create_vnipool ::
  "'i idset_api \<Rightarrow> 'i \<Rightarrow> 'i option \<Rightarrow> 'i option \<Rightarrow> 'i option" where
  "create_vnipool A new_universe old_universe old_pool =
     (let pool_size = idset_universe_size A new_universe in
      case idset_create_full_rr A pool_size of
        None \<Rightarrow> None
      | Some pl \<Rightarrow> clear_ids A (Some new_universe) old_universe old_pool [0..<pool_size] pl)"

definition vnipool_configure ::
  "'i vni_libs \<Rightarrow> 'i vnipool \<Rightarrow> string \<Rightarrow> 'i vnipool \<times> (vni_error + unit)" where
  "vnipool_configure L vp vni_pool = (case decode_vnipool (idsets L) vni_pool VNI_VALID_SET of
       Inl e \<Rightarrow> (vp, Inl e)
     | Inr new_universe \<Rightarrow>
         if idset_equal (idsets L) (Some new_universe) (universe vp) then (vp, Inr ())
         else (case create_vnipool (idsets L) new_universe (universe vp) (pool vp) of
            None \<Rightarrow> (vp, Inl PoolCreateFailed)
          | Some new_pool \<Rightarrow>
              (vp\<lparr>universe := Some new_universe, pool := Some new_pool\<rparr>, Inr ())))"

definition vnipool_create :: "bool \<Rightarrow> bool \<Rightarrow> 'i vnipool option" where
  "vnipool_create calloc_ok json_object_ok =
     (if \<not> calloc_ok then None
      else if \<not> json_object_ok then None
      else Some \<lparr>universe = None, pool = None, jobs = Map.empty\<rparr>)"

section \<open>What the reservations hold\<close>

definition held_by :: "'i vnipool \<Rightarrow> string \<Rightarrow> nat set" where
  "held_by vp k = (case jobs vp k of None \<Rightarrow> {} | Some a \<Rightarrow> set (items a))"

definition held :: "'i vnipool \<Rightarrow> nat set" where
  "held vp = (\<Union>k. held_by vp k)"

text \<open>
  The structural invariant: both sets are present or both absent, the pool is part of the
  universe, the universe has valid VNIs only and fits the pool's id range, and every
  reservation is a live array of at most four distinct valid VNIs.
\<close>

definition valid_vni :: "nat \<Rightarrow> bool" where
  "valid_vni x \<longleftrightarrow> x \<le> 65535 \<and> x \<noteq> 1 \<and> x \<noteq> 10"

definition reservation_ok :: "jarray \<Rightarrow> bool" where
  "reservation_ok a \<longleftrightarrow>
     refs a = 1 \<and> distinct (items a) \<and> length (items a) \<le> 4 \<and> (\<forall>x \<in> set (items a). valid_vni x)"

definition vnipool_inv :: "'i idset_api \<Rightarrow> ('i \<Rightarrow> nat set) \<Rightarrow> 'i vnipool \<Rightarrow> bool" where
  "vnipool_inv A elems vp \<longleftrightarrow>
     (universe vp = None \<longleftrightarrow> pool vp = None)
     \<and> ids_of elems (pool vp) \<subseteq> ids_of elems (universe vp)
     \<and> (\<forall>x \<in> ids_of elems (universe vp). valid_vni x)
     \<and> (\<forall>p. pool vp = Some p \<longrightarrow> (\<forall>x \<in> ids_of elems (universe vp). x < idset_universe_size A p))
     \<and> (\<forall>k a. jobs vp k = Some a \<longrightarrow> reservation_ok a)"

text \<open>
  Exclusive ownership: no VNI is held by two jobs, and none is both held and free. Exactness:
  every configured VNI that is not free is held, so nothing leaks.
\<close>

definition vni_exclusive :: "('i \<Rightarrow> nat set) \<Rightarrow> 'i vnipool \<Rightarrow> bool" where
  "vni_exclusive elems vp \<longleftrightarrow>
     (\<forall>j k. j \<noteq> k \<longrightarrow> held_by vp j \<inter> held_by vp k = {}) \<and> held vp \<inter> ids_of elems (pool vp) = {}"

definition vni_exact :: "('i \<Rightarrow> nat set) \<Rightarrow> 'i vnipool \<Rightarrow> bool" where
  "vni_exact elems vp \<longleftrightarrow> ids_of elems (universe vp) - ids_of elems (pool vp) \<subseteq> held vp"

lemma held_by_upd:
  "held_by (vp\<lparr>pool := pl, jobs := (jobs vp)(k := r)\<rparr>) =
     (held_by vp)(k := (case r of None \<Rightarrow> {} | Some a \<Rightarrow> set (items a)))"
  by (rule ext) (simp add: held_by_def)

lemma held_by_frame [simp]:
  "held_by (vp\<lparr>pool := pl\<rparr>) = held_by vp"
  "held_by (vp\<lparr>universe := u, pool := pl\<rparr>) = held_by vp"
  "held (vp\<lparr>pool := pl\<rparr>) = held vp"
  "held (vp\<lparr>universe := u, pool := pl\<rparr>) = held vp"
  by (auto simp: held_by_def held_def fun_eq_iff)

lemma held_cong: "jobs vp' = jobs vp \<Longrightarrow> held_by vp' = held_by vp \<and> held vp' = held vp"
  by (simp add: held_by_def held_def fun_eq_iff)

lemma held_by_subset: "held_by vp k \<subseteq> held vp"
  by (auto simp: held_def)

section \<open>Facts about the operations\<close>

text \<open>The environment of the component: libraries that behave as documented.\<close>

locale vni_env = idset_lib "idsets L" elems + f58_encoding "f58 L"
  for L :: "'i vni_libs" and elems :: "'i \<Rightarrow> nat set"
begin

lemma is_subset_ofD: "is_subset_of (idsets L) (Some i) (Some j) \<Longrightarrow> elems i \<subseteq> elems j"
  by (auto simp: is_subset_of_def dest: intersect_elems split: option.splits)

lemma free_items_NULL [simp]: "free_items (idsets L) uni xs None = None"
  by (induction xs) simp_all

lemma free_items_Some:
  "\<exists>q. free_items (idsets L) uni xs (Some p) = Some q
     \<and> idset_universe_size (idsets L) q = idset_universe_size (idsets L) p
     \<and> elems q = elems p \<union> {x \<in> set xs. x \<in> ids uni \<and> x < idset_universe_size (idsets L) p}"
proof (induction xs arbitrary: p)
  case Nil
  then show ?case by simp
next
  case (Cons x xs)
  obtain r where r: "idset_free (idsets L) (Some p) x = Some r"
    using free_Some by blast
  show ?case
    using Cons.IH [of r] Cons.IH [of p] r free_elems [OF r] free_size [OF r] by auto
qed

lemma alloc_loop_spec:
  assumes "alloc_loop L n i pl a = (ok, pl', a')"
  shows "\<exists>ys. items a' = items a @ ys \<and> refs a' = refs a \<and> distinct ys \<and> length ys \<le> n
     \<and> set ys \<subseteq> ids pl \<and> ids pl' = ids pl - set ys \<and> (pl' = None \<longleftrightarrow> pl = None)
     \<and> (\<forall>p p'. pl = Some p \<longrightarrow> pl' = Some p' \<longrightarrow>
          idset_universe_size (idsets L) p' = idset_universe_size (idsets L) p)"
  using assms
proof (induction n arbitrary: i pl a)
  case 0
  then show ?case by auto
next
  case (Suc n)
  show ?case
  proof (cases "idset_alloc (idsets L) pl")
    case None
    with Suc.prems show ?thesis by auto
  next
    case (Some r)
    obtain vni q where r: "r = (vni, q)" by (cases r)
    with Some obtain p where pl: "pl = Some p" by (cases pl) auto
    have q: "vni \<in> elems p" "elems q = elems p - {vni}"
        "idset_universe_size (idsets L) q = idset_universe_size (idsets L) p"
      using Some r pl by (auto dest: alloc_member alloc_elems alloc_size)
    show ?thesis
    proof (cases "append_ok L i")
      case True
      with Suc.prems Some r have
        "alloc_loop L n (Suc i) (Some q) (a\<lparr>items := items a @ [vni]\<rparr>) = (ok, pl', a')"
        by simp
      from Suc.IH [OF this] obtain ys where
        "items a' = items a @ [vni] @ ys" "refs a' = refs a" "distinct ys" "length ys \<le> n"
        "set ys \<subseteq> elems q" "ids pl' = elems q - set ys" "pl' \<noteq> None"
        "\<forall>p'. pl' = Some p' \<longrightarrow> idset_universe_size (idsets L) p' = idset_universe_size (idsets L) q"
        by auto
      then show ?thesis using q pl by (intro exI [of _ "vni # ys"]) auto
    next
      case False
      obtain s where s: "idset_free (idsets L) (Some q) vni = Some s"
        using free_Some by blast
      have s': "elems s = elems p" "idset_universe_size (idsets L) s = idset_universe_size (idsets L) p"
        using free_elems [OF s] free_size [OF s] q elems_bound [OF q(1)] by auto
      from False Suc.prems Some r s have "alloc_loop L n (Suc i) (Some s) a = (ok, pl', a')"
        by simp
      from Suc.IH [OF this] show ?thesis using s' pl by auto
    qed
  qed
qed

lemma alloc_loop_count:
  assumes "\<forall>j. append_ok L j" and "alloc_loop L n i pl a = (ok, pl', a')"
  shows "ok \<longleftrightarrow> n \<le> card (ids pl)" and "ok \<Longrightarrow> length (items a') = length (items a) + n"
proof -
  have "(ok \<longleftrightarrow> n \<le> card (ids pl)) \<and> (ok \<longrightarrow> length (items a') = length (items a) + n)"
    using assms(2)
  proof (induction n arbitrary: i pl a)
    case 0
    then show ?case by auto
  next
    case (Suc n)
    show ?case
    proof (cases "idset_alloc (idsets L) pl")
      case None
      with Suc.prems show ?thesis by (auto simp: alloc_None_iff)
    next
      case (Some r)
      obtain vni q where r: "r = (vni, q)" by (cases r)
      have "card (elems q) = card (ids pl) - 1" "card (ids pl) > 0"
        using alloc_SomeD [of pl vni q] Some r by (auto simp: card_gt_0_iff)
      moreover have "alloc_loop L n (Suc i) (Some q) (a\<lparr>items := items a @ [vni]\<rparr>) = (ok, pl', a')"
        using Suc.prems Some r assms(1) by simp
      from Suc.IH [OF this]
      have "(ok \<longleftrightarrow> n \<le> card (elems q)) \<and> (ok \<longrightarrow> length (items a') = length (items a) + 1 + n)"
        by simp
      ultimately show ?thesis by auto
    qed
  qed
  then show "ok \<longleftrightarrow> n \<le> card (ids pl)" "ok \<Longrightarrow> length (items a') = length (items a) + n"
    by blast+
qed

lemma free_array_spec:
  assumes "vnipool_free_array L vp (Some a) = (vp', r)"
  shows "universe vp' = universe vp" and "jobs vp' = jobs vp" and "r = Some (json_decref a)"
    and "(pool vp' = None \<longleftrightarrow> pool vp = None)"
    and "\<And>p. pool vp = Some p \<Longrightarrow> ids (pool vp') =
          elems p \<union> {x \<in> set (items a). x \<in> ids (universe vp) \<and> x < idset_universe_size (idsets L) p}"
    and "\<And>p q. pool vp = Some p \<Longrightarrow> pool vp' = Some q \<Longrightarrow>
          idset_universe_size (idsets L) q = idset_universe_size (idsets L) p"
proof -
  have vp': "vp' = vp\<lparr>pool := free_items (idsets L) (universe vp) (items a) (pool vp)\<rparr>"
    and r: "r = Some (json_decref a)"
    using assms by (simp_all add: vnipool_free_array_def)
  show "universe vp' = universe vp" "jobs vp' = jobs vp" "r = Some (json_decref a)"
    by (simp_all add: vp' r)
  show "pool vp' = None \<longleftrightarrow> pool vp = None"
    using free_items_Some [of "universe vp" "items a"] by (cases "pool vp") (auto simp: vp')
  fix p assume p: "pool vp = Some p"
  obtain q where f: "free_items (idsets L) (universe vp) (items a) (Some p) = Some q"
    and q: "idset_universe_size (idsets L) q = idset_universe_size (idsets L) p"
      "elems q = elems p \<union> {x \<in> set (items a). x \<in> ids (universe vp) \<and> x < idset_universe_size (idsets L) p}"
    using free_items_Some [of "universe vp" "items a" p] by blast
  have pq: "pool vp' = Some q" by (simp add: vp' p f)
  from pq q(2) show "ids (pool vp') =
      elems p \<union> {x \<in> set (items a). x \<in> ids (universe vp) \<and> x < idset_universe_size (idsets L) p}"
    by (simp only: ids_of_simps)
  fix q' assume "pool vp' = Some q'"
  with pq q(1) show "idset_universe_size (idsets L) q' = idset_universe_size (idsets L) p" by simp
qed

text \<open>Returning VNIs of the universe to a pool that fits the universe.\<close>

lemma free_array_ids:
  assumes "vnipool_free_array L vp (Some a) = (vp', r)" and "vnipool_inv (idsets L) elems vp"
  shows "ids (pool vp') = ids (pool vp) \<union> (set (items a) \<inter> ids (universe vp))"
proof (cases "pool vp")
  case None
  with assms free_array_spec(4) [OF assms(1)] show ?thesis by (simp add: vnipool_inv_def)
next
  case (Some p)
  with assms(2) have "\<forall>x \<in> ids (universe vp). x < idset_universe_size (idsets L) p"
    by (simp add: vnipool_inv_def)
  with free_array_spec(5) [OF assms(1) Some] Some show ?thesis by auto
qed

lemma inv_pool_change:
  assumes "vnipool_inv (idsets L) elems vp" and "universe vp' = universe vp"
    and "pool vp' = None \<longleftrightarrow> pool vp = None" and "ids (pool vp') \<subseteq> ids (universe vp)"
    and "\<And>p q. pool vp = Some p \<Longrightarrow> pool vp' = Some q \<Longrightarrow>
          idset_universe_size (idsets L) q = idset_universe_size (idsets L) p"
    and "\<forall>k a. jobs vp' k = Some a \<longrightarrow> reservation_ok a"
  shows "vnipool_inv (idsets L) elems vp'"
proof -
  have "x < idset_universe_size (idsets L) q" if q: "pool vp' = Some q" and x: "x \<in> ids (universe vp)" for q x
  proof -
    obtain p where p: "pool vp = Some p" using q assms(3) by (cases "pool vp") auto
    show ?thesis using assms(1) assms(5) [OF p q] p x by (simp add: vnipool_inv_def)
  qed
  moreover have "universe vp' = None \<longleftrightarrow> pool vp' = None" "\<forall>x \<in> ids (universe vp'). valid_vni x"
    using assms(1-3) by (simp_all add: vnipool_inv_def)
  ultimately show ?thesis
    using assms(2,4,6) unfolding vnipool_inv_def by simp
qed

lemma free_array_inv:
  assumes "vnipool_free_array L vp (Some a) = (vp', r)" and "vnipool_inv (idsets L) elems vp"
  shows "vnipool_inv (idsets L) elems vp'"
proof (rule inv_pool_change [OF assms(2)])
  show "ids (pool vp') \<subseteq> ids (universe vp)"
    using free_array_ids [OF assms] assms(2) by (auto simp: vnipool_inv_def)
  show "\<forall>k a. jobs vp' k = Some a \<longrightarrow> reservation_ok a"
    using free_array_spec(2) [OF assms(1)] assms(2) by (simp add: vnipool_inv_def)
qed (use free_array_spec [OF assms(1)] in auto)

text \<open>The array allocator: what it returns, and that its failure gives everything back.\<close>

lemma alloc_loop_inv:
  assumes "vnipool_inv (idsets L) elems vp"
    and "alloc_loop L n 0 (pool vp) \<lparr>items = [], refs = 1\<rparr> = (ok, pl, a)"
  shows "vnipool_inv (idsets L) elems (vp\<lparr>pool := pl\<rparr>)"
proof -
  obtain ys where *: "ids pl = ids (pool vp) - set ys" "pl = None \<longleftrightarrow> pool vp = None"
      "\<forall>p p'. pool vp = Some p \<longrightarrow> pl = Some p' \<longrightarrow>
          idset_universe_size (idsets L) p' = idset_universe_size (idsets L) p"
    using alloc_loop_spec [OF assms(2)] by (elim exE conjE) assumption
  show ?thesis
  proof (rule inv_pool_change [OF assms(1)])
    fix p q assume "pool vp = Some p" "pool (vp\<lparr>pool := pl\<rparr>) = Some q"
    with *(3) show "idset_universe_size (idsets L) q = idset_universe_size (idsets L) p" by simp
  qed (use *(1,2) assms(1) in \<open>auto simp: vnipool_inv_def\<close>)
qed

lemma alloc_array_ok:
  assumes "vnipool_inv (idsets L) elems vp" and "vnipool_alloc_array L vp n = (vp', Inr a)"
  shows "universe vp' = universe vp" and "jobs vp' = jobs vp" and "refs a = 1"
    and "distinct (items a)" and "length (items a) \<le> nat n" and "set (items a) \<subseteq> ids (pool vp)"
    and "ids (pool vp') = ids (pool vp) - set (items a)" and "vnipool_inv (idsets L) elems vp'"
    and "\<forall>j. append_ok L j \<Longrightarrow> length (items a) = nat n \<and> nat n \<le> card (ids (pool vp))"
proof -
  obtain pl where l: "alloc_loop L (nat n) 0 (pool vp) \<lparr>items = [], refs = 1\<rparr> = (True, pl, a)"
    and vp': "vp' = vp\<lparr>pool := pl\<rparr>"
    using assms(2)
    by (auto simp: vnipool_alloc_array_def split: if_splits prod.splits bool.splits)
  show "universe vp' = universe vp" "jobs vp' = jobs vp" by (simp_all add: vp')
  show "refs a = 1" "distinct (items a)" "length (items a) \<le> nat n"
      "set (items a) \<subseteq> ids (pool vp)" "ids (pool vp') = ids (pool vp) - set (items a)"
    using alloc_loop_spec [OF l] by (auto simp: vp')
  show "vnipool_inv (idsets L) elems vp'"
    unfolding vp' by (rule alloc_loop_inv [OF assms(1) l])
  assume "\<forall>j. append_ok L j"
  from alloc_loop_count [OF this l] show "length (items a) = nat n \<and> nat n \<le> card (ids (pool vp))"
    by simp
qed

lemma alloc_array_fail:
  assumes "vnipool_inv (idsets L) elems vp" and "vnipool_alloc_array L vp n = (vp', Inl d)"
  shows "universe vp' = universe vp \<and> jobs vp' = jobs vp \<and> ids (pool vp') = ids (pool vp)
     \<and> vnipool_inv (idsets L) elems vp' \<and> (\<forall>a. d = Some a \<longrightarrow> refs a = -1)"
proof (cases "json_array_ok L")
  case False
  with assms show ?thesis by (simp add: vnipool_alloc_array_def)
next
  case True
  then obtain pl a where l: "alloc_loop L (nat n) 0 (pool vp) \<lparr>items = [], refs = 1\<rparr> = (False, pl, a)"
    and f: "vnipool_free_array L (vp\<lparr>pool := pl\<rparr>) (Some a) = (vp', Some (json_decref a))"
    and d: "d = Some (json_decref (json_decref a))"
    using assms(2)
    by (auto simp: vnipool_alloc_array_def vnipool_free_array_def split: prod.splits bool.splits)
  have inv: "vnipool_inv (idsets L) elems (vp\<lparr>pool := pl\<rparr>)"
    by (rule alloc_loop_inv [OF assms(1) l])
  have "set (items a) \<subseteq> ids (pool vp)" "ids pl = ids (pool vp) - set (items a)" "refs a = 1"
    using alloc_loop_spec [OF l] by auto
  moreover have "ids (pool vp) \<subseteq> ids (universe vp)"
    using assms(1) by (simp add: vnipool_inv_def)
  ultimately show ?thesis
    using free_array_spec(1,2) [OF f] free_array_ids [OF f inv] free_array_inv [OF f inv]
    by (auto simp: d json_decref_def)
qed

lemma alloc_array_exhausted:
  assumes "\<forall>j. append_ok L j" and "json_array_ok L" and "card (ids (pool vp)) < nat n"
  shows "\<exists>vp' a. vnipool_alloc_array L vp n = (vp', Inl (Some a))"
proof -
  obtain ok pl a where l: "alloc_loop L (nat n) 0 (pool vp) \<lparr>items = [], refs = 1\<rparr> = (ok, pl, a)"
    by (metis prod_cases3)
  from alloc_loop_count(1) [OF assms(1) l] assms(3) have "\<not> ok" by simp
  with l assms(2) show ?thesis
    by (simp add: vnipool_alloc_array_def vnipool_free_array_def)
qed

subsection \<open>Reserve and release\<close>

abbreviation key :: "jobid \<Rightarrow> string" where
  "key i \<equiv> idf58 (f58 L) i"

lemma reserve_fail:
  assumes "vnipool_inv (idsets L) elems vp" and "vnipool_reserve L vp i n = (vp', Inl e)"
  shows "universe vp' = universe vp \<and> jobs vp' = jobs vp \<and> ids (pool vp') = ids (pool vp)
     \<and> vnipool_inv (idsets L) elems vp'"
proof (cases "n < 0 \<or> n > CXI_SVC_MAX_VNIS")
  case True
  with assms show ?thesis by (simp add: vnipool_reserve_def)
next
  case False
  obtain vp1 r where a: "vnipool_alloc_array L vp n = (vp1, r)" by (cases "vnipool_alloc_array L vp n")
  show ?thesis
  proof (cases r)
    case (Inl d)
    with a False assms(2) alloc_array_fail [OF assms(1), of n vp1 d] show ?thesis
      by (simp add: vnipool_reserve_def)
  next
    case (Inr a')
    with a have ok: "vnipool_alloc_array L vp n = (vp1, Inr a')" by simp
    obtain w where f: "vnipool_free_array L vp1 (Some a') = (vp', w)"
      using assms(2) False ok by (auto simp: vnipool_reserve_def Let_def prod_eq_iff split: if_splits)
    note A = alloc_array_ok [OF assms(1) ok]
    have "set (items a') \<subseteq> ids (universe vp)"
      using A(6) assms(1) by (auto simp: vnipool_inv_def)
    then show ?thesis
      using A(1,2,6,7) free_array_spec(1,2) [OF f] free_array_ids [OF f A(8)] free_array_inv [OF f A(8)]
      by auto
  qed
qed

lemma reserve_ok:
  assumes "vnipool_inv (idsets L) elems vp" and "vnipool_reserve L vp i n = (vp', Inr a)"
  shows "universe vp' = universe vp" and "jobs vp' = (jobs vp)(key i \<mapsto> a)"
    and "0 \<le> n \<and> n \<le> 4" and "refs a = 1" and "distinct (items a)" and "length (items a) \<le> nat n"
    and "set (items a) \<subseteq> ids (pool vp)" and "ids (pool vp') = ids (pool vp) - set (items a)"
    and "vnipool_inv (idsets L) elems vp'"
    and "\<forall>j. append_ok L j \<Longrightarrow> length (items a) = nat n"
proof -
  obtain vp1 where ok: "vnipool_alloc_array L vp n = (vp1, Inr a)"
    and vp': "vp' = vp1\<lparr>jobs := (jobs vp1)(key i \<mapsto> a)\<rparr>" and n: "0 \<le> n \<and> n \<le> 4"
    using assms(2)
    by (auto simp: vnipool_reserve_def Let_def CXI_SVC_MAX_VNIS_def split: if_splits sum.splits prod.splits)
  note A = alloc_array_ok [OF assms(1) ok]
  show "universe vp' = universe vp" "jobs vp' = (jobs vp)(key i \<mapsto> a)" "0 \<le> n \<and> n \<le> 4" "refs a = 1"
    "distinct (items a)" "length (items a) \<le> nat n" "set (items a) \<subseteq> ids (pool vp)"
    "ids (pool vp') = ids (pool vp) - set (items a)"
    using A(1-7) n by (simp_all add: vp')
  have "set (items a) \<subseteq> ids (universe vp)"
    using A(6) assms(1) by (auto simp: vnipool_inv_def)
  then have "reservation_ok a"
    using A(3-5) n assms(1) by (auto simp: reservation_ok_def vnipool_inv_def)
  then show "vnipool_inv (idsets L) elems vp'"
    using A(8) by (auto simp: vp' vnipool_inv_def)
  show "\<forall>j. append_ok L j \<Longrightarrow> length (items a) = nat n"
    using A(9) by blast
qed

lemma reserve_inv:
  "vnipool_inv (idsets L) elems vp \<Longrightarrow> vnipool_inv (idsets L) elems (fst (vnipool_reserve L vp i n))"
  by (cases "vnipool_reserve L vp i n"; cases "snd (vnipool_reserve L vp i n)")
    (auto dest: reserve_fail reserve_ok(9))

lemma release_unknown:
  "jobs vp (key i) = None \<Longrightarrow> vnipool_release L vp i = (vp, Inl (UnknownJob (key i)))"
  by (simp add: vnipool_release_def vnipool_lookup_def Let_def)

lemma release_ok:
  assumes "vnipool_inv (idsets L) elems vp" and "jobs vp (key i) = Some a"
    and "vnipool_release L vp i = (vp', r)"
  shows "r = Inr ()" and "universe vp' = universe vp" and "jobs vp' = (jobs vp)(key i := None)"
    and "ids (pool vp') = ids (pool vp) \<union> (set (items a) \<inter> ids (universe vp))"
    and "vnipool_inv (idsets L) elems vp'"
proof -
  obtain vp1 w where f: "vnipool_free_array L vp (Some (json_incref a)) = (vp1, w)"
    and vp': "vp' = vp1\<lparr>jobs := (jobs vp1)(key i := None)\<rparr>" and r: "r = Inr ()"
    using assms(2,3) by (auto simp: vnipool_release_def vnipool_lookup_def Let_def split: prod.splits)
  note F = free_array_spec [OF f] and I = free_array_inv [OF f assms(1)]
  show "r = Inr ()" "universe vp' = universe vp" "jobs vp' = (jobs vp)(key i := None)"
    using F(1,2) r by (simp_all add: vp')
  show "ids (pool vp') = ids (pool vp) \<union> (set (items a) \<inter> ids (universe vp))"
    using free_array_ids [OF f assms(1)] by (simp add: vp' json_incref_def)
  show "vnipool_inv (idsets L) elems vp'"
    using I by (auto simp: vp' vnipool_inv_def)
qed

lemma release_inv:
  assumes "vnipool_inv (idsets L) elems vp"
  shows "vnipool_inv (idsets L) elems (fst (vnipool_release L vp i))"
proof (cases "jobs vp (key i)")
  case None
  with assms show ?thesis by (simp add: release_unknown)
next
  case (Some a)
  from release_ok(5) [OF assms Some] show ?thesis by (cases "vnipool_release L vp i") auto
qed

subsection \<open>Configuration\<close>

lemma clear_ids_spec:
  "clear_ids (idsets L) (Some u) ou op xs p = Some q \<Longrightarrow>
     elems q = elems p - {x \<in> set xs. x \<notin> elems u \<or> (x \<in> ids ou \<and> x \<notin> ids op)}
     \<and> idset_universe_size (idsets L) q = idset_universe_size (idsets L) p"
proof (induction xs arbitrary: p)
  case Nil
  then show ?case by simp
next
  case (Cons x xs)
  show ?case
  proof (cases "x \<notin> elems u \<or> (x \<in> ids ou \<and> x \<notin> ids op)")
    case True
    then obtain r where r: "idset_clear (idsets L) p x = Some r"
      and q: "clear_ids (idsets L) (Some u) ou op xs r = Some q"
      using Cons.prems by (auto split: option.splits)
    show ?thesis
      using Cons.IH [OF q] clear_elems [OF r] clear_size [OF r] True by auto
  next
    case False
    with Cons.prems have "clear_ids (idsets L) (Some u) ou op xs p = Some q"
      by (auto split: if_splits)
    from Cons.IH [OF this] False show ?thesis by auto
  qed
qed

lemma create_vnipool_spec:
  assumes "create_vnipool (idsets L) u ou op = Some p"
  shows "elems p = elems u - (ids ou - ids op)"
    and "idset_universe_size (idsets L) p = idset_universe_size (idsets L) u"
proof -
  obtain p0 where p0: "idset_create_full_rr (idsets L) (idset_universe_size (idsets L) u) = Some p0"
    and c: "clear_ids (idsets L) (Some u) ou op [0..<idset_universe_size (idsets L) u] p0 = Some p"
    using assms by (auto simp: create_vnipool_def Let_def split: option.splits)
  show "elems p = elems u - (ids ou - ids op)"
    using clear_ids_spec [OF c] create_elems [OF universe_size_pos p0] elems_bound by fastforce
  show "idset_universe_size (idsets L) p = idset_universe_size (idsets L) u"
    using clear_ids_spec [OF c] create_size [OF universe_size_pos p0] by simp
qed

lemma decode_vnipool_ok:
  assumes "decode_vnipool (idsets L) s VNI_VALID_SET = Inr u"
  shows "idset_decode_ex (idsets L) s = Inr u" and "\<forall>x \<in> elems u. valid_vni x"
proof -
  obtain v where "idset_decode_ex (idsets L) s = Inr u"
    and v: "idset_decode_ex (idsets L) VNI_VALID_SET = Inr v"
    and "is_subset_of (idsets L) (Some u) (Some v)"
    using assms by (auto simp: decode_vnipool_def split: sum.splits if_splits)
  then show "idset_decode_ex (idsets L) s = Inr u" "\<forall>x \<in> elems u. valid_vni x"
    using decode_valid_set [of v] is_subset_ofD [of u v]
    by (auto simp: VNI_VALID_SET_def valid_vni_def)
qed

lemma configure_fail: "vnipool_configure L vp s = (vp', Inl e) \<Longrightarrow> vp' = vp"
  by (auto simp: vnipool_configure_def split: sum.splits if_splits option.splits)

lemma configure_ok:
  assumes "vnipool_inv (idsets L) elems vp" and "vnipool_configure L vp s = (vp', Inr ())"
  shows "jobs vp' = jobs vp"
    and "\<exists>u. idset_decode_ex (idsets L) s = Inr u \<and> ids (universe vp') = elems u"
    and "ids (pool vp') = ids (universe vp') - (ids (universe vp) - ids (pool vp))"
    and "vnipool_inv (idsets L) elems vp'"
proof -
  obtain u where u: "decode_vnipool (idsets L) s VNI_VALID_SET = Inr u"
    using assms(2) by (auto simp: vnipool_configure_def split: sum.splits)
  note D = decode_vnipool_ok [OF u]
  have "jobs vp' = jobs vp \<and> ids (universe vp') = elems u \<and>
      ids (pool vp') = ids (universe vp') - (ids (universe vp) - ids (pool vp)) \<and>
      vnipool_inv (idsets L) elems vp'"
  proof (cases "idset_equal (idsets L) (Some u) (universe vp)")
    case True
    then obtain u' where "universe vp = Some u'" "elems u = elems u'"
      by (cases "universe vp") auto
    moreover have "vp' = vp"
      using True assms(2) u by (simp add: vnipool_configure_def)
    moreover have "ids (pool vp) \<subseteq> ids (universe vp)"
      using assms(1) by (simp add: vnipool_inv_def)
    ultimately show ?thesis using assms(1) by auto
  next
    case False
    then obtain p where p: "create_vnipool (idsets L) u (universe vp) (pool vp) = Some p"
      and vp': "vp' = vp\<lparr>universe := Some u, pool := Some p\<rparr>"
      using assms(2) u by (auto simp: vnipool_configure_def split: option.splits)
    note C = create_vnipool_spec [OF p]
    have "vnipool_inv (idsets L) elems vp'"
      using C D(2) elems_bound assms(1) by (auto simp: vnipool_inv_def vp')
    then show ?thesis using C(1) by (simp add: vp')
  qed
  with D(1) show "jobs vp' = jobs vp"
    "\<exists>u. idset_decode_ex (idsets L) s = Inr u \<and> ids (universe vp') = elems u"
    "ids (pool vp') = ids (universe vp') - (ids (universe vp) - ids (pool vp))"
    "vnipool_inv (idsets L) elems vp'"
    by blast+
qed

lemma configure_inv:
  assumes "vnipool_inv (idsets L) elems vp"
  shows "vnipool_inv (idsets L) elems (fst (vnipool_configure L vp s))"
proof (cases "vnipool_configure L vp s")
  case (Pair vp' r)
  with configure_fail [of vp s vp'] configure_ok(4) [OF assms, of s vp'] assms show ?thesis
    by (cases r) auto
qed

lemma create_inv: "vnipool_create True True = Some vp \<Longrightarrow> vnipool_inv (idsets L) elems vp"
  by (auto simp: vnipool_create_def vnipool_inv_def)

subsection \<open>Ownership\<close>

lemma reserve_held:
  assumes "vnipool_inv (idsets L) elems vp" and "jobs vp (key i) = None"
    and "vnipool_reserve L vp i n = (vp', Inr a)"
  shows "held_by vp' = (held_by vp)(key i := set (items a))" and "held vp' = held vp \<union> set (items a)"
proof -
  show *: "held_by vp' = (held_by vp)(key i := set (items a))"
    using reserve_ok(2) [OF assms(1,3)] by (auto simp: held_by_def fun_eq_iff)
  have "held_by vp (key i) = {}"
    using assms(2) by (simp add: held_by_def)
  then show "held vp' = held vp \<union> set (items a)"
    unfolding held_def * by (rule UN_fun_upd_empty)
qed

lemma reserve_exclusive:
  assumes "vnipool_inv (idsets L) elems vp" and "vni_exclusive elems vp"
    and "jobs vp (key i) = None"
  shows "vni_exclusive elems (fst (vnipool_reserve L vp i n))"
proof (cases "vnipool_reserve L vp i n")
  case (Pair vp' r)
  show ?thesis
  proof (cases r)
    case (Inl e)
    with reserve_fail [OF assms(1), of i n vp' e] Pair assms(2) show ?thesis
      by (auto simp: vni_exclusive_def held_def held_by_def)
  next
    case (Inr a)
    with Pair have r: "vnipool_reserve L vp i n = (vp', Inr a)" by simp
    have "set (items a) \<inter> held vp = {}"
      using reserve_ok(7) [OF assms(1) r] assms(2) by (auto simp: vni_exclusive_def)
    then have "\<forall>k. k \<noteq> key i \<longrightarrow> set (items a) \<inter> held_by vp k = {}"
      using held_by_subset by fastforce
    then have "\<forall>j k. j \<noteq> k \<longrightarrow> held_by vp' j \<inter> held_by vp' k = {}"
      unfolding reserve_held(1) [OF assms(1,3) r]
      using assms(2) by (intro disjoint_family_fun_upd) (simp_all add: vni_exclusive_def)
    moreover have "held vp' \<inter> ids (pool vp') = {}"
      using reserve_held(2) [OF assms(1,3) r] reserve_ok(8) [OF assms(1) r] assms(2)
      by (auto simp: vni_exclusive_def)
    ultimately show ?thesis using Pair by (simp add: vni_exclusive_def)
  qed
qed

lemma reserve_exact:
  assumes "vnipool_inv (idsets L) elems vp" and "vni_exact elems vp" and "jobs vp (key i) = None"
  shows "vni_exact elems (fst (vnipool_reserve L vp i n))"
proof (cases "vnipool_reserve L vp i n")
  case (Pair vp' r)
  show ?thesis
  proof (cases r)
    case (Inl e)
    with reserve_fail [OF assms(1), of i n vp' e] Pair assms(2) show ?thesis
      by (auto simp: vni_exact_def held_def held_by_def)
  next
    case (Inr a)
    with Pair have r: "vnipool_reserve L vp i n = (vp', Inr a)" by simp
    show ?thesis
      using reserve_held(2) [OF assms(1,3) r] reserve_ok(1,8) [OF assms(1) r] assms(2) Pair
      by (auto simp: vni_exact_def)
  qed
qed

lemma release_held:
  assumes "vnipool_inv (idsets L) elems vp" and "jobs vp (key i) = Some a"
    and "vnipool_release L vp i = (vp', r)"
  shows "held_by vp' = (held_by vp)(key i := {})"
  using release_ok(3) [OF assms] by (auto simp: held_by_def fun_eq_iff)

lemma release_exclusive:
  assumes "vnipool_inv (idsets L) elems vp" and "vni_exclusive elems vp"
  shows "vni_exclusive elems (fst (vnipool_release L vp i))"
proof (cases "jobs vp (key i)")
  case None
  with assms show ?thesis by (simp add: release_unknown)
next
  case (Some a)
  obtain vp' r where r: "vnipool_release L vp i = (vp', r)" by (cases "vnipool_release L vp i")
  note H = release_held [OF assms(1) Some r] and R = release_ok(4) [OF assms(1) Some r]
  have a: "held_by vp (key i) = set (items a)" using Some by (simp add: held_by_def)
  have "held vp' = (\<Union>k \<in> - {key i}. held_by vp k)"
    unfolding held_def H by (auto split: if_splits)
  moreover have "(\<Union>k \<in> - {key i}. held_by vp k) \<inter> set (items a) = {}"
    using assms(2) a by (auto simp: vni_exclusive_def)
  moreover have "(\<Union>k \<in> - {key i}. held_by vp k) \<inter> ids (pool vp) = {}"
    using assms(2) held_by_subset [of vp] by (fastforce simp: vni_exclusive_def)
  ultimately have "held vp' \<inter> ids (pool vp') = {}" unfolding R by auto
  moreover have "\<forall>j k. j \<noteq> k \<longrightarrow> held_by vp' j \<inter> held_by vp' k = {}"
    unfolding H using assms(2) by (auto simp: vni_exclusive_def)
  ultimately show ?thesis by (simp add: vni_exclusive_def r)
qed

lemma release_exact:
  assumes "vnipool_inv (idsets L) elems vp" and "vni_exact elems vp"
  shows "vni_exact elems (fst (vnipool_release L vp i))"
proof (cases "jobs vp (key i)")
  case None
  with assms show ?thesis by (simp add: release_unknown)
next
  case (Some a)
  obtain vp' r where r: "vnipool_release L vp i = (vp', r)" by (cases "vnipool_release L vp i")
  note H = release_held [OF assms(1) Some r]
  have a: "held_by vp (key i) = set (items a)" using Some by (simp add: held_by_def)
  have "held vp \<subseteq> held vp' \<union> set (items a)"
    unfolding held_def H fun_upd_def using a by (auto split: if_splits) (metis)
  then show ?thesis
    using assms(2) release_ok(2,4) [OF assms(1) Some r] by (auto simp: vni_exact_def r)
qed

lemma configure_exclusive:
  assumes "vnipool_inv (idsets L) elems vp" and "vni_exclusive elems vp"
    and "vnipool_configure L vp s = (vp', r)"
    and "held vp \<inter> ids (universe vp') \<subseteq> ids (universe vp)"
  shows "vni_exclusive elems vp'"
proof (cases r)
  case (Inl e)
  with configure_fail assms(2,3) show ?thesis by metis
next
  case (Inr u)
  with assms(3) have c: "vnipool_configure L vp s = (vp', Inr ())" by simp
  have "held_by vp' = held_by vp" "held vp' = held vp"
    using held_cong [OF configure_ok(1) [OF assms(1) c]] by blast+
  moreover have "held vp \<inter> ids (pool vp') = {}"
    unfolding configure_ok(3) [OF assms(1) c] using assms(2,4) by (auto simp: vni_exclusive_def)
  ultimately show ?thesis using assms(2) by (simp add: vni_exclusive_def)
qed

lemma configure_exact:
  assumes "vnipool_inv (idsets L) elems vp" and "vni_exact elems vp"
  shows "vni_exact elems (fst (vnipool_configure L vp s))"
proof (cases "vnipool_configure L vp s")
  case (Pair vp' r)
  show ?thesis
  proof (cases r)
    case (Inl e)
    with Pair configure_fail assms(2) show ?thesis by fastforce
  next
    case (Inr u)
    with Pair have c: "vnipool_configure L vp s = (vp', Inr ())" by simp
    have "held vp' = held vp"
      using held_cong [OF configure_ok(1) [OF assms(1) c]] by blast
    with assms(2) show ?thesis
      unfolding vni_exact_def Pair fst_conv configure_ok(3) [OF assms(1) c] by auto
  qed
qed

text \<open>A grant of as many VNIs as were asked for, when the JSON library does not fail.\<close>

lemma reserve_granted:
  assumes "vnipool_inv (idsets L) elems vp" and "\<forall>j. append_ok L j" and "json_array_ok L"
    and "object_set_ok L" and "0 \<le> n" and "n \<le> 4" and "nat n \<le> card (ids (pool vp))"
  shows "\<exists>vp' a. vnipool_reserve L vp i n = (vp', Inr a) \<and> length (items a) = nat n"
proof -
  obtain ok pl a where l: "alloc_loop L (nat n) 0 (pool vp) \<lparr>items = [], refs = 1\<rparr> = (ok, pl, a)"
    by (metis prod_cases3)
  have ok: "ok" "length (items a) = nat n"
    using alloc_loop_count [OF assms(2) l] assms(7) by auto
  with l assms(3-6) show ?thesis
    by (simp add: vnipool_reserve_def vnipool_alloc_array_def CXI_SVC_MAX_VNIS_def)
qed

end

section \<open>The contract of a reservation service\<close>

text \<open>
  What the jobtap plugin relies on: a grant takes VNIs out of the free set and records them
  for the job, a denial changes nothing it can observe, and a release gives the VNIs back.
\<close>

locale vni_service =
  fixes reserve :: "'s \<Rightarrow> jobid \<Rightarrow> int \<Rightarrow> 's \<times> (vni_error + jarray)"
    and release :: "'s \<Rightarrow> jobid \<Rightarrow> 's \<times> (vni_error + unit)"
    and inv :: "'s \<Rightarrow> bool"
    and reserved :: "'s \<Rightarrow> jobid \<Rightarrow> nat list option"
    and avail :: "'s \<Rightarrow> nat set"
  assumes inv_reserve: "inv s \<Longrightarrow> inv (fst (reserve s i n))"
    and inv_release: "inv s \<Longrightarrow> inv (fst (release s i))"
    and grant: "inv s \<Longrightarrow> reserve s i n = (s', Inr a) \<Longrightarrow>
      reserved s' = (reserved s)(i \<mapsto> items a) \<and> set (items a) \<subseteq> avail s
      \<and> avail s' = avail s - set (items a) \<and> distinct (items a) \<and> length (items a) \<le> 4"
    and denial: "inv s \<Longrightarrow> reserve s i n = (s', Inl e) \<Longrightarrow> reserved s' = reserved s \<and> avail s' = avail s"
    and release_reserved: "inv s \<Longrightarrow> reserved s i = Some xs \<Longrightarrow> release s i = (s', r) \<Longrightarrow>
      r = Inr () \<and> reserved s' = (reserved s)(i := None) \<and> avail s \<subseteq> avail s' \<and> avail s' \<subseteq> avail s \<union> set xs"
    and release_grant: "inv s \<Longrightarrow> reserve s i n = (s', Inr a) \<Longrightarrow>
      set (items a) \<subseteq> avail (fst (release s' i))"
    and release_nothing: "reserved s i = None \<Longrightarrow> \<exists>e. release s i = (s, Inl e) \<and> vni_errno e = ENOENT"
begin

lemma reserve_then_release:
  assumes "inv s" and "reserved s i = None" and "reserve s i n = (s1, Inr a)"
  obtains s2 where "release s1 i = (s2, Inr ())" and "reserved s2 = reserved s"
    and "avail s2 = avail s" and "inv s2"
proof -
  note G = grant [OF assms(1,3)]
  have inv1: "inv s1" using inv_reserve [OF assms(1), of i n] assms(3) by simp
  obtain s2 r where r: "release s1 i = (s2, r)" by (cases "release s1 i")
  have i: "reserved s1 i = Some (items a)" using G by simp
  note R = release_reserved [OF inv1 i r]
  have "reserved s2 = reserved s" using R G assms(2) by (auto simp: fun_eq_iff)
  moreover have "avail s2 = avail s" using R G release_grant [OF assms(1,3)] r by auto
  moreover have "inv s2" using inv_release [OF inv1, of i] r by simp
  ultimately show ?thesis using R r that by blast
qed

lemma release_never_fails_otherwise:
  assumes "inv s" and "release s i = (s', Inl e)"
  shows "vni_errno e = ENOENT" and "s' = s"
proof -
  have "reserved s i = None"
    using assms release_reserved [OF assms(1) _ assms(2)] by (cases "reserved s i") auto
  from release_nothing [OF this] assms(2) show "vni_errno e = ENOENT" "s' = s" by auto
qed

end

text \<open>The pool implements the service, for all libraries that behave as documented.\<close>

definition reserved_vnis :: "'i vni_libs \<Rightarrow> 'i vnipool \<Rightarrow> jobid \<Rightarrow> nat list option" where
  "reserved_vnis L vp i = map_option items (jobs vp (idf58 (f58 L) i))"

sublocale vni_env \<subseteq> svc: vni_service "vnipool_reserve L" "vnipool_release L"
  "vnipool_inv (idsets L) elems" "reserved_vnis L" "\<lambda>vp. ids (pool vp)"
proof
  fix vp vp' i n a e xs r
  let ?inv = "vnipool_inv (idsets L) elems"
  assume inv: "?inv vp"
  show "?inv (fst (vnipool_reserve L vp i n))" by (rule reserve_inv [OF inv])
  show "?inv (fst (vnipool_release L vp i))" by (rule release_inv [OF inv])
  show "reserved_vnis L vp' = (reserved_vnis L vp)(i \<mapsto> items a) \<and> set (items a) \<subseteq> ids (pool vp)
      \<and> ids (pool vp') = ids (pool vp) - set (items a) \<and> distinct (items a) \<and> length (items a) \<le> 4"
    if r: "vnipool_reserve L vp i n = (vp', Inr a)"
    using reserve_ok(2,5,7,8) [OF inv r] reserve_ok(3,6) [OF inv r]
    by (auto simp: reserved_vnis_def fun_eq_iff idf58_inj)
  show "reserved_vnis L vp' = reserved_vnis L vp \<and> ids (pool vp') = ids (pool vp)"
    if "vnipool_reserve L vp i n = (vp', Inl e)"
    using reserve_fail [OF inv that] by (simp add: reserved_vnis_def fun_eq_iff)
  show "r = Inr () \<and> reserved_vnis L vp' = (reserved_vnis L vp)(i := None)
      \<and> ids (pool vp) \<subseteq> ids (pool vp') \<and> ids (pool vp') \<subseteq> ids (pool vp) \<union> set xs"
    if x: "reserved_vnis L vp i = Some xs" and r: "vnipool_release L vp i = (vp', r)"
  proof -
    obtain b where b: "jobs vp (key i) = Some b" "xs = items b"
      using x by (auto simp: reserved_vnis_def)
    from release_ok(1,3,4) [OF inv b(1) r] b(2) show ?thesis
      by (auto simp: reserved_vnis_def fun_eq_iff idf58_inj)
  qed
  show "set (items a) \<subseteq> ids (pool (fst (vnipool_release L vp' i)))"
    if r: "vnipool_reserve L vp i n = (vp', Inr a)"
  proof -
    note R = reserve_ok [OF inv r]
    have k: "jobs vp' (key i) = Some a" using R(2) by simp
    have "set (items a) \<subseteq> ids (universe vp')"
      using R(1,7) inv by (auto simp: vnipool_inv_def)
    with release_ok(4) [OF R(9) k] show ?thesis
      by (cases "vnipool_release L vp' i") auto
  qed
next
  fix vp i assume "reserved_vnis L vp i = None"
  then show "\<exists>e. vnipool_release L vp i = (vp, Inl e) \<and> vni_errno e = ENOENT"
    using release_unknown [of vp i] by (auto simp: reserved_vnis_def)
qed

context vni_env begin

lemmas service = svc.vni_service_axioms

end

end
