(* ===== verification/VniReach.thy ===== *)
theory VniReach
  imports Vnipool
begin

text \<open>
  The VNI pool over time: the steps that the jobtap plugin takes, the states they reach, two
  sample runs on the sample libraries, and the properties of the pool.
\<close>

section \<open>The pool over time\<close>

text \<open>
  One call into the pool, with arbitrary outcomes of the JSON allocations. A job reserves when
  it has no reservation yet: the caller does so once per job.
\<close>

inductive vni_step ::
  "'i idset_api \<Rightarrow> (jobid \<Rightarrow> string option) \<Rightarrow> 'i vnipool \<Rightarrow> 'i vnipool \<Rightarrow> bool"
  for A enc where
  step_reserve: "idsets L = A \<Longrightarrow> f58 L = enc \<Longrightarrow> jobs vp (idf58 enc i) = None \<Longrightarrow>
     vni_step A enc vp (fst (vnipool_reserve L vp i n))"
| step_release: "idsets L = A \<Longrightarrow> f58 L = enc \<Longrightarrow> vni_step A enc vp (fst (vnipool_release L vp i))"
| step_configure: "idsets L = A \<Longrightarrow> f58 L = enc \<Longrightarrow>
     vni_step A enc vp (fst (vnipool_configure L vp s))"

inductive vni_reachable ::
  "'i idset_api \<Rightarrow> (jobid \<Rightarrow> string option) \<Rightarrow> 'i vnipool \<Rightarrow> bool" for A enc where
  reach_create: "vnipool_create True True = Some vp \<Longrightarrow> vni_reachable A enc vp"
| reach_step: "vni_reachable A enc vp \<Longrightarrow> vni_step A enc vp vp' \<Longrightarrow> vni_reachable A enc vp'"

text \<open>
  The same, when no step brings a VNI into the configured universe that a job holds and that is
  not in the universe before the step.
\<close>

definition vni_stable :: "('i \<Rightarrow> nat set) \<Rightarrow> 'i vnipool \<Rightarrow> 'i vnipool \<Rightarrow> bool" where
  "vni_stable elems vp vp' \<longleftrightarrow> held vp \<inter> ids_of elems (universe vp') \<subseteq> ids_of elems (universe vp)"

inductive vni_stable_reachable ::
  "'i idset_api \<Rightarrow> ('i \<Rightarrow> nat set) \<Rightarrow> (jobid \<Rightarrow> string option) \<Rightarrow> 'i vnipool \<Rightarrow> bool"
  for A elems enc where
  stable_create: "vnipool_create True True = Some vp \<Longrightarrow> vni_stable_reachable A elems enc vp"
| stable_step: "vni_stable_reachable A elems enc vp \<Longrightarrow> vni_step A enc vp vp' \<Longrightarrow>
     vni_stable elems vp vp' \<Longrightarrow> vni_stable_reachable A elems enc vp'"

lemma vni_create_ok:
  assumes "vnipool_create True True = Some vp"
  shows "vnipool_inv A elems vp \<and> vni_exact elems vp \<and> vni_exclusive elems vp"
  using assms
  by (auto simp: vnipool_create_def vnipool_inv_def vni_exact_def vni_exclusive_def held_by_def held_def)

lemma vni_step_inv:
  assumes "vni_step A enc vp vp'" and "idset_lib A elems" and "f58_encoding enc"
    and "vnipool_inv A elems vp"
  shows "vnipool_inv A elems vp'" and "vni_exact elems vp \<Longrightarrow> vni_exact elems vp'"
    and "vni_exclusive elems vp \<Longrightarrow> vni_stable elems vp vp' \<Longrightarrow> vni_exclusive elems vp'"
proof -
  have "vnipool_inv A elems vp' \<and> (vni_exact elems vp \<longrightarrow> vni_exact elems vp')
      \<and> (vni_exclusive elems vp \<longrightarrow> vni_stable elems vp vp' \<longrightarrow> vni_exclusive elems vp')"
    using assms(1)
  proof cases
    case (step_reserve L i n)
    then have "vni_env L elems"
      using assms(2,3) by (simp add: vni_env_def)
    from vni_env.reserve_inv [OF this] vni_env.reserve_exact [OF this]
      vni_env.reserve_exclusive [OF this] step_reserve assms(4)
    show ?thesis by auto
  next
    case (step_release L i)
    then have "vni_env L elems"
      using assms(2,3) by (simp add: vni_env_def)
    from vni_env.release_inv [OF this] vni_env.release_exact [OF this]
      vni_env.release_exclusive [OF this] step_release assms(4)
    show ?thesis by auto
  next
    case (step_configure L s)
    then have "vni_env L elems"
      using assms(2,3) by (simp add: vni_env_def)
    from vni_env.configure_inv [OF this] vni_env.configure_exact [OF this]
      vni_env.configure_exclusive [OF this] step_configure assms(4)
    show ?thesis by (auto simp: vni_stable_def prod_eq_iff)
  qed
  then show "vnipool_inv A elems vp'" "vni_exact elems vp \<Longrightarrow> vni_exact elems vp'"
    "vni_exclusive elems vp \<Longrightarrow> vni_stable elems vp vp' \<Longrightarrow> vni_exclusive elems vp'"
    by blast+
qed

lemma vni_reachable_inv:
  assumes "vni_reachable A enc vp" and "idset_lib A elems" and "f58_encoding enc"
  shows "vnipool_inv A elems vp \<and> vni_exact elems vp"
  using assms(1)
proof induction
  case (reach_create vp)
  then show ?case using vni_create_ok by blast
next
  case (reach_step vp vp')
  then show ?case using vni_step_inv [OF reach_step.hyps(2) assms(2,3)] by blast
qed

lemma vni_stable_reachable_inv:
  assumes "vni_stable_reachable A elems enc vp" and "idset_lib A elems" and "f58_encoding enc"
  shows "vnipool_inv A elems vp \<and> vni_exact elems vp \<and> vni_exclusive elems vp"
  using assms(1)
proof induction
  case (stable_create vp)
  then show ?case using vni_create_ok by blast
next
  case (stable_step vp vp')
  then show ?case using vni_step_inv [OF stable_step.hyps(2) assms(2,3)] by blast
qed

section \<open>The component on the sample libraries\<close>

definition ref_libs :: "refset vni_libs" where
  "ref_libs = \<lparr>idsets = ref_api, f58 = sample_enc, json_array_ok = True,
     append_ok = (\<lambda>_. True), object_set_ok = True\<rparr>"

lemma ref_libs_simps [simp]:
  "idsets ref_libs = ref_api" "f58 ref_libs = sample_enc" "json_array_ok ref_libs"
  "append_ok ref_libs = (\<lambda>_. True)" "object_set_ok ref_libs"
  by (simp_all add: ref_libs_def)

interpretation ref_vni: vni_env ref_libs rs_elems
  by (simp add: vni_env_def ref.idset_lib_axioms sample_f58.f58_encoding_axioms)

definition vnipool0 :: "refset vnipool" where
  "vnipool0 = \<lparr>universe = None, pool = None, jobs = Map.empty\<rparr>"

lemma vnipool0_create: "vnipool_create True True = Some vnipool0"
  by (simp add: vnipool_create_def vnipool0_def)

lemma vnipool0_inv: "vnipool_inv ref_api rs_elems vnipool0"
  by (simp add: vnipool0_def vnipool_inv_def)

lemma ref_clear_ids: "\<exists>q. clear_ids ref_api u ou op xs p = Some q"
  by (induction xs arbitrary: p) (auto simp: ref_api_def)

text \<open>On the sample libraries, configuring a single valid VNI succeeds.\<close>

definition digit_string :: "nat \<Rightarrow> string" where
  "digit_string d = [digit_char d]"

lemma ref_decode_digit:
  assumes "d < 10"
  shows "idset_decode_ex ref_api (digit_string d) = Inr (rs_make {d..d} d 0)"
proof -
  have "digit_char d \<noteq> CHR '','' \<and> digit_char d \<noteq> CHR ''-''"
    using char_digit_of [OF assms] by (auto simp: char_digit_def)
  with assms show ?thesis
    by (simp add: ref_api_def rs_decode_def digit_string_def parse_range_def nat_of_dec_def)
qed

lemma ref_configure_digit:
  assumes "d < 10" and "d \<noteq> 1" and "vnipool_inv ref_api rs_elems vp"
  obtains vp' where "vnipool_configure ref_libs vp (digit_string d) = (vp', Inr ())"
    and "jobs vp' = jobs vp" and "ref.ids (universe vp') = {d}"
    and "ref.ids (pool vp') = {d} - (ref.ids (universe vp) - ref.ids (pool vp))"
    and "vnipool_inv ref_api rs_elems vp'"
proof -
  let ?u = "rs_make {d..d} d 0"
  have u: "rs_elems ?u = {d}" by auto
  obtain v where v: "idset_decode_ex ref_api VNI_VALID_SET = Inr v"
    by (simp add: ref_api_def VNI_VALID_SET_def parse_eval)
  have "rs_elems v = {x. x \<le> 65535 \<and> x \<noteq> 1 \<and> x \<noteq> 10}"
    using ref.decode_valid_set [of v] v by (simp add: VNI_VALID_SET_def)
  then have "{d} \<inter> rs_elems v = {d}" using assms(1,2) by auto
  then have "is_subset_of ref_api (Some ?u) (Some v)"
    using u by (auto simp: is_subset_of_def ref_api_def)
  then have dec: "decode_vnipool ref_api (digit_string d) VNI_VALID_SET = Inr ?u"
    using ref_decode_digit [OF assms(1)] v by (simp add: decode_vnipool_def)
  obtain q where "create_vnipool ref_api ?u (universe vp) (pool vp) = Some q"
    using ref_clear_ids by (fastforce simp: create_vnipool_def ref_api_def Let_def)
  with dec obtain vp' where c: "vnipool_configure ref_libs vp (digit_string d) = (vp', Inr ())"
    by (cases "idset_equal ref_api (Some ?u) (universe vp)") (simp_all add: vnipool_configure_def)
  have inv: "vnipool_inv (idsets ref_libs) rs_elems vp" using assms(3) by simp
  obtain w where "idset_decode_ex ref_api (digit_string d) = Inr w" "ref.ids (universe vp') = rs_elems w"
    using ref_vni.configure_ok(2) [OF inv c] by auto
  then have "ref.ids (universe vp') = {d}"
    using ref_decode_digit [OF assms(1)] u by simp
  with ref_vni.configure_ok(1,3,4) [OF inv c] c that show ?thesis by simp
qed

lemma ref_reserve_single:
  assumes "vnipool_inv ref_api rs_elems vp" and "ref.ids (pool vp) = {d}"
  obtains vp' a where "vnipool_reserve ref_libs vp i 1 = (vp', Inr a)" and "items a = [d]"
    and "jobs vp' = (jobs vp)(idf58 sample_enc i \<mapsto> a)" and "universe vp' = universe vp"
    and "ref.ids (pool vp') = {}" and "vnipool_inv ref_api rs_elems vp'"
proof -
  have inv: "vnipool_inv (idsets ref_libs) rs_elems vp" using assms(1) by simp
  obtain vp' a where r: "vnipool_reserve ref_libs vp i 1 = (vp', Inr a)" and len: "length (items a) = 1"
    using ref_vni.reserve_granted [OF inv, of 1 i] assms(2) by auto
  note R = ref_vni.reserve_ok [OF inv r]
  have "items a = [d]"
    using R(7) len assms(2) by (cases "items a") auto
  with R(1,2,8,9) r assms(2) that show ?thesis by simp
qed

text \<open>Two runs of the pool, one stable and one that re-admits a held VNI.\<close>

lemma ref_two_jobs:
  obtains vp2 a where "vni_stable_reachable ref_api rs_elems sample_enc vp2"
    and "jobs vp2 = [idf58 sample_enc 1 \<mapsto> a]" and "items a = [2]" and "held vp2 = {2}"
    and "ref.ids (universe vp2) = {3}" and "ref.ids (pool vp2) = {3}"
    and "vnipool_inv ref_api rs_elems vp2"
proof -
  obtain c where c: "vnipool_configure ref_libs vnipool0 (digit_string 2) = (c, Inr ())"
      "jobs c = Map.empty" "ref.ids (universe c) = {2}" "ref.ids (pool c) = {2}"
      "vnipool_inv ref_api rs_elems c"
    by (rule ref_configure_digit [of 2 vnipool0]) (simp_all add: vnipool0_inv, simp add: vnipool0_def)
  obtain r a where r: "vnipool_reserve ref_libs c 1 1 = (r, Inr a)" "items a = [2]"
      "jobs r = [idf58 sample_enc 1 \<mapsto> a]" "universe r = universe c" "ref.ids (pool r) = {}"
      "vnipool_inv ref_api rs_elems r"
    by (rule ref_reserve_single [OF c(5,4), of 1]) (simp add: c(2))
  obtain d where d: "vnipool_configure ref_libs r (digit_string 3) = (d, Inr ())"
      "jobs d = jobs r" "ref.ids (universe d) = {3}" "ref.ids (pool d) = {3} - ({2} - {})"
      "vnipool_inv ref_api rs_elems d"
    by (rule ref_configure_digit [of 3 r]) (simp_all add: r c(3))
  have held: "held vnipool0 = {}" "held c = {}" "held r = {2}" "held d = {2}"
    using c(2) r(2,3) d(2) by (auto simp: held_def held_by_def vnipool0_def split: if_splits)
  have "vni_stable_reachable ref_api rs_elems sample_enc c"
    using stable_step [OF stable_create [OF vnipool0_create] step_configure
        [of ref_libs ref_api sample_enc vnipool0 "digit_string 2"]] held
    by (simp add: vni_stable_def c)
  from stable_step [OF this step_reserve [of ref_libs ref_api sample_enc c 1 1]] held
  have "vni_stable_reachable ref_api rs_elems sample_enc r"
    by (simp add: vni_stable_def c r)
  from stable_step [OF this step_configure [of ref_libs ref_api sample_enc r "digit_string 3"]] held
  have "vni_stable_reachable ref_api rs_elems sample_enc d"
    by (simp add: vni_stable_def d)
  with that d held r show ?thesis by simp
qed

lemma ref_two_reservations:
  obtains e a b where "vni_stable_reachable ref_api rs_elems sample_enc e"
    and "jobs e (idf58 sample_enc 1) = Some a" and "jobs e (idf58 sample_enc 2) = Some b"
    and "items a = [2]" and "items b = [3]"
proof -
  obtain d a where d: "vni_stable_reachable ref_api rs_elems sample_enc d"
    "jobs d = [idf58 sample_enc 1 \<mapsto> a]" "items a = [2]" "ref.ids (pool d) = {3}"
    "vnipool_inv ref_api rs_elems d" using ref_two_jobs by metis
  obtain e b where e: "vnipool_reserve ref_libs d 2 1 = (e, Inr b)" "items b = [3]"
    "jobs e = (jobs d)(idf58 sample_enc 2 \<mapsto> b)" "universe e = universe d"
    using ref_reserve_single [OF d(5,4), of 2] by metis
  have ne: "idf58 sample_enc 2 \<noteq> idf58 sample_enc 1" by (simp add: sample_f58.idf58_inj)
  from stable_step [OF d(1) step_reserve [of ref_libs ref_api sample_enc d 2 1]] ne
  have "vni_stable_reachable ref_api rs_elems sample_enc e"
    by (simp add: vni_stable_def d e)
  moreover have "jobs e (idf58 sample_enc 1) = Some a" "jobs e (idf58 sample_enc 2) = Some b"
    using ne by (simp_all add: e d)
  ultimately show ?thesis using that d(3) e(2) by blast
qed

lemma stable_reachable_reachable:
  "vni_stable_reachable A elems enc vp \<Longrightarrow> vni_reachable A enc vp"
  by (induction rule: vni_stable_reachable.induct) (auto intro: vni_reachable.intros)

section \<open>Properties\<close>

text \<open>
  C3. Exclusive ownership. In every state the pool can reach, as long as no configuration
  re-admits a VNI that a job still holds, two jobs never hold the same VNI, a held VNI is never
  free, and every configured VNI is either free or held.
\<close>

theorem vni_exclusive_ownership:
  assumes "idset_lib A elems" and "f58_encoding enc" and "vni_stable_reachable A elems enc vp"
    and "i \<noteq> j" and "jobs vp (idf58 enc i) = Some a" and "jobs vp (idf58 enc j) = Some b"
  shows "set (items a) \<inter> set (items b) = {} \<and> set (items a) \<inter> ids_of elems (pool vp) = {}
    \<and> ids_of elems (universe vp) = ids_of elems (pool vp) \<union> (held vp \<inter> ids_of elems (universe vp))"
proof (intro conjI)
  have inv: "vnipool_inv A elems vp \<and> vni_exact elems vp \<and> vni_exclusive elems vp"
    by (rule vni_stable_reachable_inv [OF assms(3,1,2)])
  have "idf58 enc i \<noteq> idf58 enc j"
    using assms(4) f58_encoding.idf58_inj [OF assms(2)] by simp
  then have "held_by vp (idf58 enc i) \<inter> held_by vp (idf58 enc j) = {}"
    using inv by (simp add: vni_exclusive_def)
  then show "set (items a) \<inter> set (items b) = {}"
    using assms(5,6) by (simp add: held_by_def)
  show "set (items a) \<inter> ids_of elems (pool vp) = {}"
    using inv assms(5) held_by_subset [of vp "idf58 enc i"]
    by (auto simp: vni_exclusive_def held_by_def)
  show "ids_of elems (universe vp) = ids_of elems (pool vp) \<union> (held vp \<inter> ids_of elems (universe vp))"
    using inv by (auto simp: vnipool_inv_def vni_exact_def)
qed

theorem vni_exclusive_ownership_witness:
  "\<exists>vp a b. vni_stable_reachable ref_api rs_elems sample_enc vp
     \<and> jobs vp (idf58 sample_enc 1) = Some a \<and> jobs vp (idf58 sample_enc 2) = Some b
     \<and> items a = [2] \<and> items b = [3] \<and> set (items a) \<inter> set (items b) = {}"
proof -
  obtain e a b where e: "vni_stable_reachable ref_api rs_elems sample_enc e"
    "jobs e (idf58 sample_enc 1) = Some a" "jobs e (idf58 sample_enc 2) = Some b" "items a = [2]" "items b = [3]"
    by (rule ref_two_reservations)
  then show ?thesis
    using vni_exclusive_ownership [OF ref.idset_lib_axioms sample_f58.f58_encoding_axioms,
        of e 1 2 a b] by auto
qed

text \<open>
  In every reachable state, whatever is configured and whichever JSON allocations fail, the
  pool is part of the universe, every configured or reserved VNI is a legal one (16 bits, not 1
  or 10), a reservation has at most four distinct VNIs in a live array, and no configured VNI is
  lost: if it is not free, a job holds it.
\<close>

theorem vni_reachable_wellformed:
  assumes "idset_lib A elems" and "f58_encoding enc" and "vni_reachable A enc vp"
  shows "ids_of elems (pool vp) \<subseteq> ids_of elems (universe vp)
    \<and> (x \<in> ids_of elems (universe vp) \<union> held vp \<longrightarrow> x \<le> 65535 \<and> x \<noteq> 1 \<and> x \<noteq> 10)
    \<and> (jobs vp k = Some a \<longrightarrow> refs a = 1 \<and> distinct (items a) \<and> length (items a) \<le> 4)
    \<and> ids_of elems (universe vp) - ids_of elems (pool vp) \<subseteq> held vp"
proof -
  have inv: "vnipool_inv A elems vp" and ex: "vni_exact elems vp"
    using vni_reachable_inv [OF assms(3,1,2)] by blast+
  have "reservation_ok b" if "jobs vp k' = Some b" for k' b
    using inv that by (simp add: vnipool_inv_def)
  then have res: "x \<in> held vp \<Longrightarrow> valid_vni x"
    "jobs vp k = Some a \<Longrightarrow> refs a = 1 \<and> distinct (items a) \<and> length (items a) \<le> 4"
    by (auto simp: held_def held_by_def reservation_ok_def split: option.splits)
  from inv have "ids_of elems (pool vp) \<subseteq> ids_of elems (universe vp)"
    "x \<in> ids_of elems (universe vp) \<Longrightarrow> valid_vni x"
    by (simp_all add: vnipool_inv_def)
  with ex res show ?thesis by (auto simp: vni_exact_def valid_vni_def)
qed

theorem vni_reachable_wellformed_witness:
  "\<exists>vp a. vni_reachable ref_api sample_enc vp \<and> jobs vp (idf58 sample_enc 1) = Some a
     \<and> items a = [2] \<and> refs a = 1 \<and> ref.ids (universe vp) - ref.ids (pool vp) \<subseteq> held vp"
proof -
  obtain d a where d: "vni_stable_reachable ref_api rs_elems sample_enc d"
    "jobs d = [idf58 sample_enc 1 \<mapsto> a]" "items a = [2]" using ref_two_jobs by metis
  have r: "vni_reachable ref_api sample_enc d"
    by (rule stable_reachable_reachable [OF d(1)])
  from vni_reachable_wellformed [OF ref.idset_lib_axioms sample_f58.f58_encoding_axioms r,
      of 2 "idf58 sample_enc 1" a] d r
  show ?thesis by auto
qed

text \<open>
  C25. The exclusiveness of C1 does not survive every reconfiguration. A VNI that is held while
  the pool is configured without it is put into the pool again when a later configuration
  contains it: there is a reachable state in which two jobs hold the same VNI.
\<close>

theorem vni_double_allocation:
  "\<exists>vp a b. vni_reachable ref_api sample_enc vp
     \<and> jobs vp (idf58 sample_enc 1) = Some a \<and> jobs vp (idf58 sample_enc 2) = Some b
     \<and> items a = [2] \<and> items b = [2]"
proof -
  obtain d a where d: "vni_stable_reachable ref_api rs_elems sample_enc d"
    "jobs d = [idf58 sample_enc 1 \<mapsto> a]" "items a = [2]" "ref.ids (universe d) = {3}"
    "ref.ids (pool d) = {3}" "vnipool_inv ref_api rs_elems d" using ref_two_jobs by metis
  obtain e where e: "vnipool_configure ref_libs d (digit_string 2) = (e, Inr ())"
      "jobs e = jobs d" "ref.ids (pool e) = {2}" "vnipool_inv ref_api rs_elems e"
    by (rule ref_configure_digit [of 2 d]) (simp_all add: d(4-6))
  obtain f b where f: "vnipool_reserve ref_libs e 2 1 = (f, Inr b)" "items b = [2]"
    "jobs f = (jobs e)(idf58 sample_enc 2 \<mapsto> b)"
    using ref_reserve_single [OF e(4,3), of 2] by metis
  have ne: "idf58 sample_enc 2 \<noteq> idf58 sample_enc 1" by (simp add: sample_f58.idf58_inj)
  from reach_step [OF stable_reachable_reachable [OF d(1)]
      step_configure [of ref_libs ref_api sample_enc d "digit_string 2"]]
  have "vni_reachable ref_api sample_enc e" by (simp add: e)
  from reach_step [OF this step_reserve [of ref_libs ref_api sample_enc e 2 1]] ne
  have "vni_reachable ref_api sample_enc f" by (simp add: e d f)
  moreover have "jobs f (idf58 sample_enc 1) = Some a" "jobs f (idf58 sample_enc 2) = Some b"
    using ne by (simp_all add: f e d)
  ultimately show ?thesis using d(3) f(2) by blast
qed

text \<open>
  A granted reservation takes exactly its VNIs out of the pool, records them for the job and
  for no other, and has as many VNIs as were asked for when no JSON allocation fails; a refused
  one leaves the universe, the free VNIs and all reservations as they were.
\<close>

theorem vnipool_reserve_effect:
  assumes "vni_env L elems" and "vnipool_inv (idsets L) elems vp"
    and "vnipool_reserve L vp i n = (vp', r)"
  shows "universe vp' = universe vp \<and>
    (case r of
       Inr a \<Rightarrow> 0 \<le> n \<and> n \<le> 4 \<and> distinct (items a) \<and> set (items a) \<subseteq> ids_of elems (pool vp)
         \<and> ids_of elems (pool vp') = ids_of elems (pool vp) - set (items a)
         \<and> jobs vp' = (jobs vp)(idf58 (f58 L) i \<mapsto> a)
         \<and> ((\<forall>j. append_ok L j) \<longrightarrow> length (items a) = nat n)
     | Inl e \<Rightarrow> jobs vp' = jobs vp \<and> ids_of elems (pool vp') = ids_of elems (pool vp))"
proof (cases r)
  case (Inl e)
  with vni_env.reserve_fail [OF assms(1,2), of i n vp' e] assms(3) show ?thesis by simp
next
  case (Inr a)
  with assms(3) have r: "vnipool_reserve L vp i n = (vp', Inr a)" by simp
  note R = vni_env.reserve_ok [OF assms(1,2) r]
  have "(\<forall>j. append_ok L j) \<longrightarrow> length (items a) = nat n" using R(10) by blast
  with R(1-3,5,7,8) Inr show ?thesis by simp
qed

theorem vnipool_reserve_effect_witness:
  "\<exists>vp vp' a. vnipool_reserve ref_libs vp 1 1 = (vp', Inr a) \<and> ref.ids (pool vp) = {3}
     \<and> set (items a) \<subseteq> {3} \<and> length (items a) = 1 \<and> ref.ids (pool vp') = {3} - set (items a)"
proof -
  obtain d where d: "ref.ids (pool d) = {3}" "vnipool_inv (idsets ref_libs) rs_elems d"
    using ref_two_jobs by (metis ref_libs_simps(1))
  then obtain vp' a where r: "vnipool_reserve ref_libs d 1 1 = (vp', Inr a)"
    using ref_reserve_single [of d 3 1] by (metis ref_libs_simps(1))
  from vnipool_reserve_effect [OF ref_vni.vni_env_axioms d(2) r] d(1) r show ?thesis
    by - (rule exI [of _ d], rule exI [of _ vp'], rule exI [of _ a], simp)
qed

text \<open>
  Reserving and then releasing is the identity on the reservations and the free VNIs, for a
  job that had no reservation; the release succeeds.
\<close>

theorem vnipool_reserve_release:
  assumes "vni_env L elems" and "vnipool_inv (idsets L) elems vp"
    and "jobs vp (idf58 (f58 L) i) = None" and "vnipool_reserve L vp i n = (vp1, Inr a)"
  shows "\<exists>vp2. vnipool_release L vp1 i = (vp2, Inr ()) \<and> jobs vp2 = jobs vp
    \<and> universe vp2 = universe vp \<and> ids_of elems (pool vp2) = ids_of elems (pool vp)"
proof -
  obtain vp2 where r: "vnipool_release L vp1 i = (vp2, Inr ())"
    and p: "ids_of elems (pool vp2) = ids_of elems (pool vp)"
    using vni_service.reserve_then_release [OF vni_env.service [OF assms(1)] assms(2) _ assms(4)]
      assms(3) by (auto simp: reserved_vnis_def)
  note R = vni_env.reserve_ok [OF assms(1,2,4)]
  have k: "jobs vp1 (idf58 (f58 L) i) = Some a" using R(2) by simp
  note S = vni_env.release_ok [OF assms(1) R(9) k r]
  have "jobs vp2 = jobs vp" using S(3) R(2) assms(3) by auto
  with r p S(2) R(1) show ?thesis by simp
qed

theorem vnipool_reserve_release_witness:
  "\<exists>vp vp1 vp2 a. vnipool_reserve ref_libs vp 2 1 = (vp1, Inr a)
     \<and> vnipool_release ref_libs vp1 2 = (vp2, Inr ()) \<and> jobs vp2 = jobs vp"
proof -
  obtain d a where d': "ref.ids (pool d) = {3}" "vnipool_inv ref_api rs_elems d"
    "jobs d = [idf58 sample_enc 1 \<mapsto> a]"
    using ref_two_jobs by metis
  then have d: "ref.ids (pool d) = {3}" "vnipool_inv (idsets ref_libs) rs_elems d"
    "jobs d (idf58 (f58 ref_libs) 2) = None"
    by (simp_all add: sample_f58.idf58_inj)
  then obtain vp1 a where r: "vnipool_reserve ref_libs d 2 1 = (vp1, Inr a)"
    using ref_reserve_single [of d 3 2] by (metis ref_libs_simps(1))
  from vnipool_reserve_release [OF ref_vni.vni_env_axioms d(2,3) r] r show ?thesis by blast
qed

text \<open>
  A configuration that is accepted makes the decoded set the universe and frees exactly its
  VNIs that were not allocated before; one that is refused changes nothing. Reservations are
  never changed.
\<close>

theorem vnipool_configure_effect:
  assumes "vni_env L elems" and "vnipool_inv (idsets L) elems vp"
    and "vnipool_configure L vp s = (vp', r)"
  shows "case r of
      Inl e \<Rightarrow> vp' = vp
    | Inr _ \<Rightarrow> jobs vp' = jobs vp
        \<and> (\<exists>u. idset_decode_ex (idsets L) s = Inr u \<and> ids_of elems (universe vp') = elems u)
        \<and> ids_of elems (pool vp') =
            ids_of elems (universe vp') - (ids_of elems (universe vp) - ids_of elems (pool vp))"
proof (cases r)
  case (Inl e)
  with vni_env.configure_fail [OF assms(1)] assms(3) show ?thesis by auto
next
  case (Inr u)
  with assms(3) have c: "vnipool_configure L vp s = (vp', Inr ())" by simp
  from vni_env.configure_ok(1-3) [OF assms(1,2) c] Inr show ?thesis by simp
qed

theorem vnipool_configure_effect_witness:
  "\<exists>vp'. vnipool_configure ref_libs vnipool0 (digit_string 2) = (vp', Inr ())
     \<and> ref.ids (pool vp') = {2} \<and> jobs vp' = Map.empty"
proof -
  have inv: "vnipool_inv (idsets ref_libs) rs_elems vnipool0" by (simp add: vnipool0_inv)
  obtain c where c: "vnipool_configure ref_libs vnipool0 (digit_string 2) = (c, Inr ())"
    by (rule ref_configure_digit [of 2 vnipool0]) (simp_all add: vnipool0_inv)
  have e: "rs_elems (rs_make {2..2} 2 0) = {2}" by auto
  from vnipool_configure_effect [OF ref_vni.vni_env_axioms inv c] ref_decode_digit [of 2] c e
  show ?thesis by (auto simp: vnipool0_def)
qed

text \<open>
  The error path of the allocator drops the array twice. When fewer VNIs are free than asked
  for and no JSON call fails, the array that is thrown away ends with a reference count of -1:
  \<^verbatim>\<open>vnipool_free_array\<close> has already released the only reference.
\<close>

theorem vnipool_alloc_double_decref:
  assumes "vni_env L elems" and "vnipool_inv (idsets L) elems vp"
    and "json_array_ok L" and "\<forall>j. append_ok L j" and "card (ids_of elems (pool vp)) < nat n"
  shows "\<exists>vp' a. vnipool_alloc_array L vp n = (vp', Inl (Some a)) \<and> refs a = -1"
proof -
  obtain vp' a where a: "vnipool_alloc_array L vp n = (vp', Inl (Some a))"
    using vni_env.alloc_array_exhausted [OF assms(1,4,3,5)] by blast
  with vni_env.alloc_array_fail [OF assms(1,2) a] show ?thesis by blast
qed

theorem vnipool_alloc_double_decref_witness:
  "\<exists>vp' a. vnipool_alloc_array ref_libs vnipool0 1 = (vp', Inl (Some a)) \<and> refs a = -1"
  by (rule vnipool_alloc_double_decref [OF ref_vni.vni_env_axioms])
    (simp_all add: vnipool0_inv, simp add: vnipool0_def)

end
