(* ===== verification/SlingshotJobtap.thy ===== *)
theory SlingshotJobtap
  imports VniReach Json
begin

text \<open>
  The jobtap plugin \<^verbatim>\<open>src/job-manager/plugins/cray-slingshot.c\<close>: its configuration, the callbacks
  that reserve VNIs when a job enters RUN and release them in CLEANUP, and their properties. The
  callbacks reach the pool through the reservation contract of \<open>Vnipool\<close>.
\<close>

section \<open>State\<close>

text \<open>\<^verbatim>\<open>struct cray_slingshot\<close>.\<close>

record 'i slingshot =
  vnipool :: "'i vnipool"
  vnis_per_job :: int
  vni_reserve_fatal :: bool

definition vnis_per_job_default :: int where
  "vnis_per_job_default = 1"

definition vni_reserve_fatal_default :: bool where
  "vni_reserve_fatal_default = True"

text \<open>The text of a \<^verbatim>\<open>flux_error_t\<close>: a message of the plugin, of the host, or of the pool.\<close>

datatype error_text = Msg string | HostMsg string | PoolMsg vni_error

text \<open>
  What the plugin does to its host: it posts \<^verbatim>\<open>cray-slingshot\<close> events to the eventlogs of jobs
  and raises fatal job exceptions.
\<close>

record vni_event =
  ev_vnis :: "nat list"
  ev_empty_reason :: "error_text option"

record host =
  posted :: "(jobid \<times> vni_event) list"
  raised :: "(jobid \<times> error_text) list"

definition raise_exception :: "host \<Rightarrow> jobid \<Rightarrow> error_text \<Rightarrow> host" where
  "raise_exception h i e = h\<lparr>raised := raised h @ [(i, e)]\<rparr>"

text \<open>Outcomes of the calls of \<^verbatim>\<open>post_event\<close>: building the context, the reason, and posting.\<close>

record post_env =
  context_ok :: bool
  reason_ok :: bool
  post_ok :: bool

text \<open>
  The arguments that the host passes. The cray-slingshot shell option is seen through the two
  library calls that the code makes on it: \<^verbatim>\<open>json_string_value\<close>, and unpacking the optional
  integer \<^verbatim>\<open>vnicount\<close> from an object.
\<close>

record shell_option =
  string_value :: "string option"
  unpack_vnicount :: "string + int option"

record run_args =
  run_id :: jobid
  run_option :: "shell_option option"

record conf_args =
  conf_vni_pool :: "string option"
  conf_vnis_per_job :: "int option"
  conf_vni_reserve_fatal :: "bool option"

section \<open>Operations\<close>

definition cray_slingshot_create :: "bool \<Rightarrow> bool \<Rightarrow> bool \<Rightarrow> 'i slingshot option" where
  "cray_slingshot_create calloc_ok pool_calloc_ok json_object_ok =
     (if \<not> calloc_ok then None
      else map_option (\<lambda>vp. \<lparr>vnipool = vp, vnis_per_job = 0, vni_reserve_fatal = False\<rparr>)
        (vnipool_create pool_calloc_ok json_object_ok))"

record slingshot_query =
  sq_vnis_per_job :: int
  sq_vni_reserve_fatal :: bool
  sq_vnipool :: "vni_query option"

definition plugin_query_cb ::
  "'i vni_libs \<Rightarrow> bool \<Rightarrow> bool \<Rightarrow> 'i slingshot \<Rightarrow> slingshot_query option" where
  "plugin_query_cb L pool_pack_ok args_pack_ok ctx =
     (case vnipool_query L pool_pack_ok (Some (vnipool ctx)) of
        None \<Rightarrow> None
      | Some q \<Rightarrow>
          if args_pack_ok then Some \<lparr>sq_vnis_per_job = vnis_per_job ctx,
            sq_vni_reserve_fatal = vni_reserve_fatal ctx, sq_vnipool = q\<rparr>
          else None)"

definition conf_update_cb ::
  "'i vni_libs \<Rightarrow> 'i slingshot \<Rightarrow> string + conf_args \<Rightarrow> 'i slingshot \<times> (error_text + unit)" where
  "conf_update_cb L ctx unpacked = (case unpacked of
       Inl msg \<Rightarrow> (ctx, Inl (HostMsg msg))
     | Inr args \<Rightarrow>
        (let vni_pool = (case conf_vni_pool args of None \<Rightarrow> VNIPOOL_DEFAULT | Some s \<Rightarrow> s);
             n = (case conf_vnis_per_job args of None \<Rightarrow> vnis_per_job_default | Some n \<Rightarrow> n);
             fatal = (case conf_vni_reserve_fatal args of None \<Rightarrow> vni_reserve_fatal_default | Some b \<Rightarrow> b)
         in if n < 0 \<or> n > 4 then
              (ctx, Inl (Msg ''cray-slingshot: cray-slingshot.vnis-per-job value out of range (0-4)''))
            else
              (let ctx1 = ctx\<lparr>vnis_per_job := n, vni_reserve_fatal := fatal\<rparr> in
               case vnipool_configure L (vnipool ctx1) vni_pool of
                 (vp, Inl e) \<Rightarrow> (ctx1\<lparr>vnipool := vp\<rparr>, Inl (PoolMsg e))
               | (vp, Inr _) \<Rightarrow> (ctx1\<lparr>vnipool := vp\<rparr>, Inr ()))))"

definition post_event ::
  "post_env \<Rightarrow> host \<Rightarrow> jobid \<Rightarrow> nat list option \<Rightarrow> error_text option \<Rightarrow> host \<times> (error_text + unit)" where
  "post_event E h i vnis reason =
     (if \<not> context_ok E \<or> (reason \<noteq> None \<and> \<not> reason_ok E)
      then (h, Inl (Msg ''error constructing cray-slingshot event context''))
      else if \<not> post_ok E then (h, Inl (Msg ''error posting cray-slingshot event''))
      else (h\<lparr>posted := posted h @
              [(i, \<lparr>ev_vnis = (case vnis of None \<Rightarrow> [] | Some xs \<Rightarrow> xs), ev_empty_reason = reason\<rparr>)]\<rparr>,
            Inr ()))"

text \<open>The context of the event as a JSON object; \<open>txt\<close> is the text of a reason.\<close>

definition event_context :: "(error_text \<Rightarrow> string) \<Rightarrow> vni_event \<Rightarrow> json" where
  "event_context txt ev = JObject ((''vnis'', JArray (map (JInt \<circ> int) (ev_vnis ev))) #
     (case ev_empty_reason ev of None \<Rightarrow> [] | Some r \<Rightarrow> [(''empty-reason'', JString (txt r))]))"

text \<open>The \<^verbatim>\<open>empty:\<close> label of \<^verbatim>\<open>job_state_run_cb\<close>, which falls through to \<^verbatim>\<open>error:\<close>.\<close>

definition run_empty :: "post_env \<Rightarrow> host \<Rightarrow> jobid \<Rightarrow> error_text \<Rightarrow> host" where
  "run_empty E h i reason = (case post_event E h i None (Some reason) of
       (h', Inl e) \<Rightarrow> raise_exception h' i e
     | (h', Inr _) \<Rightarrow> h')"

text \<open>
  The part of \<^verbatim>\<open>job_state_run_cb\<close> after the options are parsed, with \<open>n\<close> the value of
  \<^verbatim>\<open>vnicount\<close> (-1 when the option did not set it).
\<close>

definition run_reserve ::
  "'i vni_libs \<Rightarrow> post_env \<Rightarrow> 'i slingshot \<Rightarrow> host \<Rightarrow> jobid \<Rightarrow> int \<Rightarrow> 'i slingshot \<times> host" where
  "run_reserve L E ctx h i n =
     (let vnicount = (if n = -1 then vnis_per_job ctx else n) in
      if vnicount = 0 then (ctx, run_empty E h i (Msg ''none requested''))
      else (case vnipool_reserve L (vnipool ctx) i vnicount of
          (vp, Inl e) \<Rightarrow>
            (let ctx' = ctx\<lparr>vnipool := vp\<rparr> in
             if \<not> vni_reserve_fatal ctx then (ctx', run_empty E h i (PoolMsg e))
             else (ctx', raise_exception h i (PoolMsg e)))
        | (vp, Inr vnis) \<Rightarrow>
            (case post_event E h i (Some (items vnis)) None of
               (h', Inl e) \<Rightarrow>
                 (ctx\<lparr>vnipool := fst (vnipool_release L vp i)\<rparr>, raise_exception h' i e)
             | (h', Inr _) \<Rightarrow> (ctx\<lparr>vnipool := vp\<rparr>, h'))))"

text \<open>
  \<^verbatim>\<open>job_state_run_cb\<close>. The callback returns 0 on every path. When the arguments cannot be
  unpacked, the job id is an uninitialised variable, here \<open>junk\<close>.
\<close>

definition job_state_run_cb ::
  "'i vni_libs \<Rightarrow> post_env \<Rightarrow> jobid \<Rightarrow> 'i slingshot \<Rightarrow> host \<Rightarrow> string + run_args \<Rightarrow>
     'i slingshot \<times> host" where
  "job_state_run_cb L E junk ctx h unpacked = (case unpacked of
       Inl msg \<Rightarrow> (ctx, raise_exception h junk (HostMsg msg))
     | Inr args \<Rightarrow> (case run_option args of
          None \<Rightarrow> run_reserve L E ctx h (run_id args) (-1)
        | Some options \<Rightarrow>
            if string_value options = Some ''off''
            then (ctx, run_empty E h (run_id args) (Msg ''disabled by user request''))
            else (case unpack_vnicount options of
                Inl jerror \<Rightarrow> (ctx, raise_exception h (run_id args) (HostMsg jerror))
              | Inr None \<Rightarrow> run_reserve L E ctx h (run_id args) (-1)
              | Inr (Some n) \<Rightarrow> run_reserve L E ctx h (run_id args) n)))"

definition job_state_cleanup_cb ::
  "'i vni_libs \<Rightarrow> 'i slingshot \<Rightarrow> jobid option \<Rightarrow> 'i slingshot \<times> int" where
  "job_state_cleanup_cb L ctx unpacked = (case unpacked of
       None \<Rightarrow> (ctx, -1)
     | Some i \<Rightarrow> (case vnipool_release L (vnipool ctx) i of
          (vp, Inl e) \<Rightarrow> (ctx\<lparr>vnipool := vp\<rparr>, if vni_errno e \<noteq> ENOENT then -1 else 0)
        | (vp, Inr _) \<Rightarrow> (ctx\<lparr>vnipool := vp\<rparr>, 0)))"

text \<open>
  \<^verbatim>\<open>flux_plugin_init\<close>: \<open>host_ok k\<close> is the outcome of the \<open>k\<close>-th host call of the chain
  (set the name, four handlers, set the plugin's data).
\<close>

definition slingshot_plugin_init ::
  "bool \<Rightarrow> bool \<Rightarrow> bool \<Rightarrow> (nat \<Rightarrow> bool) \<Rightarrow> ('i slingshot \<times> string list) option" where
  "slingshot_plugin_init calloc_ok pool_calloc_ok json_object_ok host_ok =
     (case cray_slingshot_create calloc_ok pool_calloc_ok json_object_ok of
        None \<Rightarrow> None
      | Some ctx \<Rightarrow>
          if host_ok 0 \<and> host_ok 1 \<and> host_ok 2 \<and> host_ok 3 \<and> host_ok 4 \<and> host_ok 5
          then Some (ctx, [''job.state.run'', ''job.state.cleanup'', ''conf.update'', ''plugin.query''])
          else None)"

section \<open>Facts about the callbacks\<close>

lemma post_event_cases:
  "(\<exists>e. post_event E h i v r = (h, Inl e)) \<or>
   post_event E h i v r = (h\<lparr>posted := posted h @
     [(i, \<lparr>ev_vnis = (case v of None \<Rightarrow> [] | Some xs \<Rightarrow> xs), ev_empty_reason = r\<rparr>)]\<rparr>, Inr ())"
  by (auto simp: post_event_def)

lemma run_empty_cases:
  "run_empty E h i r = h\<lparr>posted := posted h @ [(i, \<lparr>ev_vnis = [], ev_empty_reason = Some r\<rparr>)]\<rparr>
   \<or> (\<exists>e. run_empty E h i r = raise_exception h i e)"
  using post_event_cases [of E h i None "Some r"] by (auto simp: run_empty_def)

lemma raise_exception_simps [simp]:
  "posted (raise_exception h i e) = posted h" "raised (raise_exception h i e) = raised h @ [(i, e)]"
  by (simp_all add: raise_exception_def)

text \<open>
  What one run of the callback does, seen from the host and from the pool: it announces a
  reservation it has made, announces an empty one, or raises an exception and holds nothing new.
\<close>

definition run_announced ::
  "'i vni_libs \<Rightarrow> ('i \<Rightarrow> nat set) \<Rightarrow> jobid \<Rightarrow> 'i slingshot \<Rightarrow> host \<Rightarrow> 'i slingshot \<Rightarrow> host \<Rightarrow> vni_event \<Rightarrow> bool" where
  "run_announced L elems i ctx h ctx' h' ev \<longleftrightarrow>
     posted h' = posted h @ [(i, ev)] \<and> raised h' = raised h \<and>
     (if ev_empty_reason ev = None
      then reserved_vnis L (vnipool ctx') = (reserved_vnis L (vnipool ctx))(i \<mapsto> ev_vnis ev)
        \<and> set (ev_vnis ev) \<subseteq> ids_of elems (pool (vnipool ctx))
        \<and> ids_of elems (pool (vnipool ctx')) = ids_of elems (pool (vnipool ctx)) - set (ev_vnis ev)
      else ev_vnis ev = [] \<and> reserved_vnis L (vnipool ctx') = reserved_vnis L (vnipool ctx)
        \<and> ids_of elems (pool (vnipool ctx')) = ids_of elems (pool (vnipool ctx)))"

definition run_excepted ::
  "'i vni_libs \<Rightarrow> ('i \<Rightarrow> nat set) \<Rightarrow> jobid \<Rightarrow> 'i slingshot \<Rightarrow> host \<Rightarrow> 'i slingshot \<Rightarrow> host \<Rightarrow> error_text \<Rightarrow> bool" where
  "run_excepted L elems i ctx h ctx' h' e \<longleftrightarrow>
     posted h' = posted h \<and> raised h' = raised h @ [(i, e)]
     \<and> reserved_vnis L (vnipool ctx') = reserved_vnis L (vnipool ctx)
     \<and> ids_of elems (pool (vnipool ctx')) = ids_of elems (pool (vnipool ctx))"

context vni_env begin

abbreviation run_settled :: "jobid \<Rightarrow> 'i slingshot \<Rightarrow> host \<Rightarrow> 'i slingshot \<times> host \<Rightarrow> bool" where
  "run_settled i ctx h r \<equiv>
     (\<exists>ev. run_announced L elems i ctx h (fst r) (snd r) ev) \<or>
     (\<exists>e. run_excepted L elems i ctx h (fst r) (snd r) e)"

lemma run_empty_settled:
  assumes "reserved_vnis L (vnipool ctx') = reserved_vnis L (vnipool ctx)"
    and "ids (pool (vnipool ctx')) = ids (pool (vnipool ctx))"
  shows "run_settled i ctx h (ctx', run_empty E h i r)"
  using run_empty_cases [of E h i r] assms
  by (elim disjE exE) (auto simp: run_announced_def run_excepted_def)

text \<open>The pool refuses, and the pool grants.\<close>

lemma run_reserve_refused:
  assumes "vnipool_inv (idsets L) elems (vnipool ctx)" and "reserved_vnis L (vnipool ctx) i = None"
    and "k = (if n = -1 then vnis_per_job ctx else n)" and "k \<noteq> 0" and "vnipool_reserve L (vnipool ctx) i k = (vp, Inl e)"
  shows "run_settled i ctx h (run_reserve L E ctx h i n) \<and> vnipool (fst (run_reserve L E ctx h i n)) = vp"
proof -
  note D = svc.denial [OF assms(1,5)]
  show ?thesis
  proof (cases "vni_reserve_fatal ctx")
    case True
    then have "run_reserve L E ctx h i n = (ctx\<lparr>vnipool := vp\<rparr>, raise_exception h i (PoolMsg e))"
      using assms(4,5) by (simp add: run_reserve_def assms(3) [symmetric])
    then show ?thesis using assms(2) D by (simp add: run_excepted_def)
  next
    case False
    then have "run_reserve L E ctx h i n = (ctx\<lparr>vnipool := vp\<rparr>, run_empty E h i (PoolMsg e))"
      using assms(4,5) by (simp add: run_reserve_def assms(3) [symmetric])
    then show ?thesis using run_empty_settled [of "ctx\<lparr>vnipool := vp\<rparr>" ctx] assms(2) D by simp
  qed
qed

lemma run_reserve_granted:
  assumes "vnipool_inv (idsets L) elems (vnipool ctx)" and "reserved_vnis L (vnipool ctx) i = None"
    and "k = (if n = -1 then vnis_per_job ctx else n)" and "k \<noteq> 0" and g: "vnipool_reserve L (vnipool ctx) i k = (vp, Inr a)"
  shows "run_settled i ctx h (run_reserve L E ctx h i n)
    \<and> vnipool_inv (idsets L) elems (vnipool (fst (run_reserve L E ctx h i n)))"
proof -
  have inv: "vnipool_inv (idsets L) elems vp" using svc.inv_reserve [OF assms(1), of i k] g by simp
  note G = svc.grant [OF assms(1) g]
  obtain vp2 where R: "vnipool_release L vp i = (vp2, Inr ())"
      "reserved_vnis L vp2 = reserved_vnis L (vnipool ctx)"
      "ids (pool vp2) = ids (pool (vnipool ctx))" "vnipool_inv (idsets L) elems vp2"
    by (rule svc.reserve_then_release [OF assms(1,2) g])
  from post_event_cases [of E h i "Some (items a)" None] show ?thesis
  proof (elim disjE exE)
    fix e assume "post_event E h i (Some (items a)) None = (h, Inl e)"
    then have "run_reserve L E ctx h i n = (ctx\<lparr>vnipool := vp2\<rparr>, raise_exception h i e)"
      using assms(4) g R(1) by (simp add: run_reserve_def assms(3) [symmetric])
    then show ?thesis using R assms(2) by (simp add: run_excepted_def)
  next
    assume "post_event E h i (Some (items a)) None = (h\<lparr>posted := posted h @
      [(i, \<lparr>ev_vnis = (case Some (items a) of None \<Rightarrow> [] | Some xs \<Rightarrow> xs), ev_empty_reason = None\<rparr>)]\<rparr>, Inr ())"
    then have "run_reserve L E ctx h i n = (ctx\<lparr>vnipool := vp\<rparr>,
        h\<lparr>posted := posted h @ [(i, \<lparr>ev_vnis = items a, ev_empty_reason = None\<rparr>)]\<rparr>)"
      using assms(4) g by (simp add: run_reserve_def assms(3) [symmetric])
    then show ?thesis using G assms(2) inv by (simp add: run_announced_def)
  qed
qed

lemma run_reserve_settled:
  assumes "vnipool_inv (idsets L) elems (vnipool ctx)"
    and "reserved_vnis L (vnipool ctx) i = None"
  shows "run_settled i ctx h (run_reserve L E ctx h i n)
    \<and> vnipool_inv (idsets L) elems (vnipool (fst (run_reserve L E ctx h i n)))"
proof -
  define k where "k = (if n = -1 then vnis_per_job ctx else n)"
  show ?thesis
  proof (cases "k = 0")
    case True
    with run_empty_settled [of ctx ctx i h E] assms(1) show ?thesis
      by (simp add: run_reserve_def k_def [symmetric])
  next
    case False
    obtain vp r where r: "vnipool_reserve L (vnipool ctx) i k = (vp, r)"
      by (cases "vnipool_reserve L (vnipool ctx) i k")
    have inv: "vnipool_inv (idsets L) elems vp"
      using svc.inv_reserve [OF assms(1), of i k] r by simp
    show ?thesis
    proof (cases r)
      case (Inl e)
      from run_reserve_refused [OF assms k_def False r [unfolded this]] inv show ?thesis by simp
    next
      case (Inr a)
      from run_reserve_granted [OF assms k_def False r [unfolded this]] show ?thesis .
    qed
  qed
qed

end

text \<open>
  The request that a job makes, and the outcome that the documented rules give it: nothing for
  a disabled plugin or a count of zero, \<open>Granted k\<close> when the pool has enough free VNIs, otherwise
  a fatal exception or an empty reservation, as configured.
\<close>

datatype run_outcome = Granted nat | Empty error_text | Fatal error_text

definition requested_count :: "int \<Rightarrow> int option \<Rightarrow> int" where
  "requested_count per_job opt = (case opt of None \<Rightarrow> per_job | Some n \<Rightarrow> if n = -1 then per_job else n)"

definition count_outcome :: "bool \<Rightarrow> nat \<Rightarrow> int \<Rightarrow> run_outcome" where
  "count_outcome fatal available n =
     (let refuse = (\<lambda>e. if fatal then Fatal (PoolMsg e) else Empty (PoolMsg e)) in
      if n = 0 then Empty (Msg ''none requested'')
      else if n < 0 \<or> n > 4 then refuse BadCount
      else if available < nat n then refuse (NoSpace n available)
      else Granted (nat n))"

definition run_spec :: "int \<Rightarrow> bool \<Rightarrow> nat \<Rightarrow> shell_option option \<Rightarrow> run_outcome" where
  "run_spec per_job fatal available opt = (case opt of
       None \<Rightarrow> count_outcome fatal available (requested_count per_job None)
     | Some o' \<Rightarrow>
         if string_value o' = Some ''off'' then Empty (Msg ''disabled by user request'')
         else (case unpack_vnicount o' of
             Inl err \<Rightarrow> Fatal (HostMsg err)
           | Inr n \<Rightarrow> count_outcome fatal available (requested_count per_job n)))"

text \<open>The observation of a run that has a given outcome.\<close>

fun shows_outcome ::
  "'i vni_libs \<Rightarrow> ('i \<Rightarrow> nat set) \<Rightarrow> jobid \<Rightarrow> 'i slingshot \<Rightarrow> host \<Rightarrow> 'i slingshot \<times> host \<Rightarrow> run_outcome \<Rightarrow> bool" where
  "shows_outcome L elems i ctx h (ctx', h') (Granted k) =
     (\<exists>xs. run_announced L elems i ctx h ctx' h' \<lparr>ev_vnis = xs, ev_empty_reason = None\<rparr>
        \<and> length xs = k \<and> distinct xs)"
| "shows_outcome L elems i ctx h (ctx', h') (Empty e) =
     run_announced L elems i ctx h ctx' h' \<lparr>ev_vnis = [], ev_empty_reason = Some e\<rparr>"
| "shows_outcome L elems i ctx h (ctx', h') (Fatal e) = run_excepted L elems i ctx h ctx' h' e"

definition libs_ok :: "'i vni_libs \<Rightarrow> post_env \<Rightarrow> bool" where
  "libs_ok L E \<longleftrightarrow> json_array_ok L \<and> (\<forall>j. append_ok L j) \<and> object_set_ok L
     \<and> context_ok E \<and> reason_ok E \<and> post_ok E"

context vni_env begin

lemma run_empty_ok: "libs_ok L E \<Longrightarrow> run_empty E h i r =
    h\<lparr>posted := posted h @ [(i, \<lparr>ev_vnis = [], ev_empty_reason = Some r\<rparr>)]\<rparr>"
  by (simp add: run_empty_def post_event_def libs_ok_def)

lemma reserve_refused:
  assumes "vnipool_inv (idsets L) elems vp" and "libs_ok L E" and "0 \<le> n" and "n \<le> 4"
    and "card (ids (pool vp)) < nat n"
  shows "\<exists>vp'. vnipool_reserve L vp i n = (vp', Inl (NoSpace n (card (ids (pool vp)))))"
proof -
  obtain vp' a where a: "vnipool_alloc_array L vp n = (vp', Inl (Some a))"
    using alloc_array_exhausted assms(2,5) by (fastforce simp: libs_ok_def)
  with alloc_array_fail [OF assms(1) a] assms(3,4) show ?thesis
    by (simp add: vnipool_reserve_def CXI_SVC_MAX_VNIS_def)
qed

lemma reserve_bad_count: "n < 0 \<or> n > 4 \<Longrightarrow> vnipool_reserve L vp i n = (vp, Inl BadCount)"
  by (auto simp: vnipool_reserve_def CXI_SVC_MAX_VNIS_def)

lemma run_reserve_denied:
  assumes "libs_ok L E" and "vnipool_inv (idsets L) elems (vnipool ctx)"
    and "k = (if n = -1 then vnis_per_job ctx else n)" and "k \<noteq> 0"
    and "vnipool_reserve L (vnipool ctx) i k = (vp, Inl e)"
  shows "shows_outcome L elems i ctx h (run_reserve L E ctx h i n)
    (if vni_reserve_fatal ctx then Fatal (PoolMsg e) else Empty (PoolMsg e))"
  using svc.denial [OF assms(2,5)] assms(4,5) run_empty_ok [OF assms(1)]
  by (simp add: run_reserve_def assms(3) [symmetric] run_announced_def run_excepted_def)

lemma run_reserve_outcome:
  assumes "libs_ok L E" and "vnipool_inv (idsets L) elems (vnipool ctx)"
    and "k = (if n = -1 then vnis_per_job ctx else n)"
  shows "shows_outcome L elems i ctx h (run_reserve L E ctx h i n)
    (count_outcome (vni_reserve_fatal ctx) (card (ids (pool (vnipool ctx)))) k)"
proof -
  note def = run_reserve_def assms(3) [symmetric]
  consider (zero) "k = 0" | (bad) "k < 0 \<or> k > 4"
    | (few) "0 < k" "k \<le> 4" "card (ids (pool (vnipool ctx))) < nat k"
    | (enough) "0 < k" "k \<le> 4" "nat k \<le> card (ids (pool (vnipool ctx)))"
    by linarith
  then show ?thesis
  proof cases
    case zero
    then show ?thesis using run_empty_ok [OF assms(1)]
      by (simp add: def count_outcome_def run_announced_def)
  next
    case bad
    then show ?thesis using run_reserve_denied [OF assms _ reserve_bad_count [OF bad], where h = h]
      by (auto simp: count_outcome_def Let_def)
  next
    case few
    then obtain vp where r: "vnipool_reserve L (vnipool ctx) i k =
        (vp, Inl (NoSpace k (card (ids (pool (vnipool ctx))))))"
      using reserve_refused [OF assms(2,1), of k i] by auto
    from few run_reserve_denied [OF assms _ r, where h = h] show ?thesis
      by (simp add: count_outcome_def Let_def)
  next
    case enough
    obtain vp a where r: "vnipool_reserve L (vnipool ctx) i k = (vp, Inr a)" "length (items a) = nat k"
      using reserve_granted [OF assms(2), of k i] assms(1) enough by (auto simp: libs_ok_def)
    then have "run_reserve L E ctx h i n = (ctx\<lparr>vnipool := vp\<rparr>,
        h\<lparr>posted := posted h @ [(i, \<lparr>ev_vnis = items a, ev_empty_reason = None\<rparr>)]\<rparr>)"
      using enough assms(1) by (simp add: def post_event_def libs_ok_def)
    with svc.grant [OF assms(2) r(1)] r(2) enough show ?thesis
      by (auto simp: count_outcome_def run_announced_def intro!: exI [of _ "items a"])
  qed
qed

end

text \<open>A plugin on the sample libraries whose pool has the single free VNI 3.\<close>

definition sample_env :: post_env where
  "sample_env = \<lparr>context_ok = True, reason_ok = True, post_ok = True\<rparr>"

definition no_calls :: host where
  "no_calls = \<lparr>posted = [], raised = []\<rparr>"

definition plain_args :: "jobid \<Rightarrow> run_args" where
  "plain_args i = \<lparr>run_id = i, run_option = None\<rparr>"

lemma sample_plugin:
  obtains ctx :: "refset slingshot" where "vnipool_inv (idsets ref_libs) rs_elems (vnipool ctx)"
    and "reserved_vnis ref_libs (vnipool ctx) 2 = None" and "reserved_vnis ref_libs (vnipool ctx) 1 = Some [2]"
    and "ref.ids (pool (vnipool ctx)) = {3}" and "ref.ids (universe (vnipool ctx)) = {3}"
    and "vnis_per_job ctx = 1" and "vni_reserve_fatal ctx"
proof -
  obtain d a where "vnipool_inv ref_api rs_elems d" "jobs d = [idf58 sample_enc 1 \<mapsto> a]"
    "items a = [2]" "ref.ids (pool d) = {3}" "ref.ids (universe d) = {3}"
    using ref_two_jobs by metis
  with that [of "\<lparr>vnipool = d, vnis_per_job = 1, vni_reserve_fatal = True\<rparr>"] show ?thesis
    by (simp add: reserved_vnis_def sample_f58.idf58_inj)
qed

section \<open>Properties\<close>

text \<open>
  Whatever library and host calls fail, a run of \<^verbatim>\<open>job_state_run_cb\<close> for a job without a
  reservation ends in one of two ways. Either exactly one event is posted and no exception is
  raised, and the event tells the truth: the job holds the VNIs it lists, taken from the free
  ones, or nothing when it gives a reason for being empty. Or exactly one exception is raised,
  nothing is posted, and the reservations and the free VNIs are as before: an exception never
  leaves a reservation behind.
\<close>

theorem job_state_run_settles:
  assumes "vni_env L elems" and "vnipool_inv (idsets L) elems (vnipool ctx)"
    and "reserved_vnis L (vnipool ctx) (run_id args) = None"
    and "job_state_run_cb L E junk ctx h (Inr args) = (ctx', h')"
  shows "vnipool_inv (idsets L) elems (vnipool ctx') \<and>
    ((\<exists>ev. run_announced L elems (run_id args) ctx h ctx' h' ev) \<or>
     (\<exists>e. run_excepted L elems (run_id args) ctx h ctx' h' e))"
proof -
  note S = vni_env.run_reserve_settled [OF assms(1-3)]
  note Em = vni_env.run_empty_settled [OF assms(1), of ctx ctx]
  have exc: "run_excepted L elems (run_id args) ctx h ctx (raise_exception h (run_id args) e) e" for e
    by (simp add: run_excepted_def)
  show ?thesis
  proof (cases "run_option args")
    case None
    with S [of h E "-1"] assms(4) show ?thesis by (simp add: job_state_run_cb_def)
  next
    case (Some options)
    show ?thesis
    proof (cases "string_value options = Some ''off''")
      case True
      with Some Em [of "run_id args" h E] assms(2,4) show ?thesis
        by (auto simp: job_state_run_cb_def)
    next
      case False
      with Some S [of h E] exc assms(2,4) show ?thesis
        by (auto simp: job_state_run_cb_def prod_eq_iff split: sum.splits option.splits)
    qed
  qed
qed

theorem job_state_run_settles_witness:
  "\<exists>ctx ctx' h'. job_state_run_cb ref_libs sample_env 0 ctx no_calls (Inr (plain_args 2)) = (ctx', h')
     \<and> ((\<exists>ev. run_announced ref_libs rs_elems 2 ctx no_calls ctx' h' ev) \<or>
        (\<exists>e. run_excepted ref_libs rs_elems 2 ctx no_calls ctx' h' e))"
proof -
  obtain ctx :: "refset slingshot" where c: "vnipool_inv (idsets ref_libs) rs_elems (vnipool ctx)"
    "reserved_vnis ref_libs (vnipool ctx) (run_id (plain_args 2)) = None"
    using sample_plugin by (metis plain_args_def run_args.select_convs(1))
  obtain ctx' h' where "job_state_run_cb ref_libs sample_env 0 ctx no_calls (Inr (plain_args 2)) = (ctx', h')"
    by (metis prod.exhaust)
  with job_state_run_settles [OF ref_vni.vni_env_axioms c this] show ?thesis
    by (simp add: plain_args_def) blast
qed

text \<open>
  C6. The callback implements the documented rules: when no library call fails, its outcome is
  the one \<open>run_spec\<close> computes from the configuration, the number of free VNIs and the job's
  shell option, for every combination of them.
\<close>

theorem job_state_run_refines_spec:
  assumes "vni_env L elems" and "vnipool_inv (idsets L) elems (vnipool ctx)" and "libs_ok L E"
  shows "shows_outcome L elems (run_id args) ctx h (job_state_run_cb L E junk ctx h (Inr args))
    (run_spec (vnis_per_job ctx) (vni_reserve_fatal ctx)
       (card (ids_of elems (pool (vnipool ctx)))) (run_option args))"
proof -
  note R = vni_env.run_reserve_outcome [OF assms(1,3,2) refl, of "run_id args" h]
  show ?thesis
  proof (cases "run_option args")
    case None
    with R [of "-1"] show ?thesis
      by (simp add: job_state_run_cb_def run_spec_def requested_count_def)
  next
    case (Some options)
    show ?thesis
    proof (cases "string_value options = Some ''off''")
      case True
      with Some vni_env.run_empty_ok [OF assms(1,3)] show ?thesis
        by (simp add: job_state_run_cb_def run_spec_def run_announced_def)
    next
      case False
      with Some R [of "-1"] R show ?thesis
        by (auto simp: job_state_run_cb_def run_spec_def requested_count_def run_excepted_def
            split: sum.splits option.splits)
    qed
  qed
qed

theorem job_state_run_refines_spec_witness:
  "\<exists>ctx. shows_outcome ref_libs rs_elems 2 ctx no_calls
     (job_state_run_cb ref_libs sample_env 0 ctx no_calls (Inr (plain_args 2))) (Granted 1)"
proof -
  obtain ctx :: "refset slingshot" where c: "vnipool_inv (idsets ref_libs) rs_elems (vnipool ctx)"
    "ref.ids (pool (vnipool ctx)) = {3}" "vnis_per_job ctx = 1"
    using sample_plugin by metis
  have "libs_ok ref_libs sample_env" by (simp add: libs_ok_def sample_env_def)
  from job_state_run_refines_spec [OF ref_vni.vni_env_axioms c(1) this, of "plain_args 2" no_calls 0] c
  show ?thesis
    by (auto simp: run_spec_def count_outcome_def requested_count_def plain_args_def)
qed

text \<open>
  \<^verbatim>\<open>job_state_cleanup_cb\<close> succeeds for every job it can decode, with or without a
  reservation: afterwards the job holds nothing, no other job's reservation has changed, and only
  VNIs of the job's own reservation have become free.
\<close>

theorem job_state_cleanup_releases:
  assumes "vni_env L elems" and "vnipool_inv (idsets L) elems (vnipool ctx)"
    and "job_state_cleanup_cb L ctx (Some i) = (ctx', rc)"
  shows "rc = 0 \<and> vnipool_inv (idsets L) elems (vnipool ctx')
    \<and> reserved_vnis L (vnipool ctx') = (reserved_vnis L (vnipool ctx))(i := None)
    \<and> ids_of elems (pool (vnipool ctx)) \<subseteq> ids_of elems (pool (vnipool ctx'))
    \<and> ids_of elems (pool (vnipool ctx')) \<subseteq> ids_of elems (pool (vnipool ctx))
         \<union> (case reserved_vnis L (vnipool ctx) i of None \<Rightarrow> {} | Some xs \<Rightarrow> set xs)"
proof -
  obtain vp r where r: "vnipool_release L (vnipool ctx) i = (vp, r)"
    by (cases "vnipool_release L (vnipool ctx) i")
  note S = vni_env.service [OF assms(1)]
  have inv: "vnipool_inv (idsets L) elems vp"
    using vni_service.inv_release [OF S assms(2), of i] r by simp
  show ?thesis
  proof (cases "reserved_vnis L (vnipool ctx) i")
    case None
    then obtain e where "r = Inl e" "vni_errno e = ENOENT" "vp = vnipool ctx"
      using vni_service.release_nothing [OF S None] r by auto
    with None assms(2,3) r show ?thesis
      by (auto simp: job_state_cleanup_cb_def fun_eq_iff)
  next
    case (Some xs)
    with vni_service.release_reserved [OF S assms(2) Some r] assms(3) r inv show ?thesis
      by (auto simp: job_state_cleanup_cb_def)
  qed
qed

theorem job_state_cleanup_releases_witness:
  "\<exists>ctx ctx' :: refset slingshot. reserved_vnis ref_libs (vnipool ctx) 1 = Some [2]
     \<and> job_state_cleanup_cb ref_libs ctx (Some 1) = (ctx', 0)
     \<and> reserved_vnis ref_libs (vnipool ctx') 1 = None"
proof -
  obtain ctx :: "refset slingshot" where c: "vnipool_inv (idsets ref_libs) rs_elems (vnipool ctx)"
    "reserved_vnis ref_libs (vnipool ctx) 1 = Some [2]"
    using sample_plugin by metis
  obtain ctx' rc where r: "job_state_cleanup_cb ref_libs ctx (Some 1) = (ctx', rc)"
    by (metis prod.exhaust)
  from job_state_cleanup_releases [OF ref_vni.vni_env_axioms c(1) r] c r show ?thesis
    by (metis fun_upd_same)
qed

text \<open>
  A configuration update never changes a reservation. When it is accepted, the per-job count
  is within 0 and 4 and the configured string (or the default) is the universe; when it is
  refused, the pool is as before.
\<close>

theorem conf_update_effect:
  assumes "vni_env L elems" and "vnipool_inv (idsets L) elems (vnipool ctx)"
    and "conf_update_cb L ctx (Inr args) = (ctx', r)"
  shows "vnipool_inv (idsets L) elems (vnipool ctx')
    \<and> reserved_vnis L (vnipool ctx') = reserved_vnis L (vnipool ctx)
    \<and> (case r of
         Inl _ \<Rightarrow> vnipool ctx' = vnipool ctx
       | Inr _ \<Rightarrow> 0 \<le> vnis_per_job ctx' \<and> vnis_per_job ctx' \<le> 4
           \<and> (\<exists>u. idset_decode_ex (idsets L)
                   (case conf_vni_pool args of None \<Rightarrow> VNIPOOL_DEFAULT | Some s \<Rightarrow> s) = Inr u
                 \<and> ids_of elems (universe (vnipool ctx')) = elems u))"
proof -
  define s where "s = (case conf_vni_pool args of None \<Rightarrow> VNIPOOL_DEFAULT | Some s \<Rightarrow> s)"
  define n where "n = (case conf_vnis_per_job args of None \<Rightarrow> vnis_per_job_default | Some n \<Rightarrow> n)"
  obtain vp q where c: "vnipool_configure L (vnipool ctx) s = (vp, q)"
    by (cases "vnipool_configure L (vnipool ctx) s")
  note D = conf_update_cb_def s_def [symmetric] n_def [symmetric]
  show ?thesis
  proof (cases "n < 0 \<or> n > 4")
    case True
    with assms(2,3) show ?thesis by (auto simp: D)
  next
    case range: False
    show ?thesis
    proof (cases q)
      case (Inl e)
      with c have "vp = vnipool ctx"
        using vni_env.configure_fail [OF assms(1)] by blast
      with range c Inl assms(2,3) show ?thesis by (auto simp: D Let_def)
    next
      case (Inr w)
      with c have c': "vnipool_configure L (vnipool ctx) s = (vp, Inr ())" by simp
      note K = vni_env.configure_ok [OF assms(1,2) c']
      have "reserved_vnis L vp = reserved_vnis L (vnipool ctx)"
        using K(1) by (simp add: reserved_vnis_def fun_eq_iff)
      with range c' K(2,4) assms(3) show ?thesis by (auto simp: D Let_def)
    qed
  qed
qed

theorem conf_update_effect_witness:
  "\<exists>ctx ctx' :: refset slingshot.
     conf_update_cb ref_libs ctx (Inr \<lparr>conf_vni_pool = Some (digit_string 2),
       conf_vnis_per_job = Some 3, conf_vni_reserve_fatal = None\<rparr>) = (ctx', Inr ())
     \<and> vnis_per_job ctx' \<le> 4 \<and> ref.ids (universe (vnipool ctx')) = {2}"
proof -
  let ?args = "\<lparr>conf_vni_pool = Some (digit_string 2), conf_vnis_per_job = Some 3,
    conf_vni_reserve_fatal = None\<rparr>"
  let ?ctx = "\<lparr>vnipool = vnipool0, vnis_per_job = 0, vni_reserve_fatal = False\<rparr>"
  have inv: "vnipool_inv (idsets ref_libs) rs_elems (vnipool ?ctx)" by (simp add: vnipool0_inv)
  obtain vp where c: "vnipool_configure ref_libs vnipool0 (digit_string 2) = (vp, Inr ())"
    by (rule ref_configure_digit [of 2 vnipool0]) (simp_all add: vnipool0_inv)
  then have u: "conf_update_cb ref_libs ?ctx (Inr ?args) =
      (?ctx\<lparr>vnipool := vp, vnis_per_job := 3, vni_reserve_fatal := True\<rparr>, Inr ())"
    by (simp add: conf_update_cb_def vni_reserve_fatal_default_def)
  have "rs_elems (rs_make {2..2} 2 0) = {2}" by auto
  with conf_update_effect [OF ref_vni.vni_env_axioms inv u] ref_decode_digit [of 2]
  have "ref.ids (universe vp) = {2}" by simp
  then show ?thesis
    by - (rule exI [of _ ?ctx], rule exI, rule conjI [OF u], simp)
qed

text \<open>
  A refused configuration is not without effect. When the VNI pool string does not decode,
  the update is reported as an error, but the per-job count and the fatal flag have already been
  replaced by the refused ones.
\<close>

theorem conf_update_refused_takes_effect:
  assumes "idset_decode_ex (idsets L) s = Inl msg" and "0 \<le> n" and "n \<le> 4"
  shows "conf_update_cb L ctx (Inr \<lparr>conf_vni_pool = Some s, conf_vnis_per_job = Some n,
      conf_vni_reserve_fatal = Some b\<rparr>)
    = (ctx\<lparr>vnis_per_job := n, vni_reserve_fatal := b\<rparr>, Inl (PoolMsg (DecodeFailed msg)))"
  using assms by (simp add: conf_update_cb_def vnipool_configure_def decode_vnipool_def)

theorem conf_update_refused_takes_effect_witness:
  "conf_update_cb ref_libs \<lparr>vnipool = vnipool0, vnis_per_job = 1, vni_reserve_fatal = True\<rparr>
     (Inr \<lparr>conf_vni_pool = Some ''x'', conf_vnis_per_job = Some 4, conf_vni_reserve_fatal = Some False\<rparr>)
   = (\<lparr>vnipool = vnipool0, vnis_per_job = 4, vni_reserve_fatal = False\<rparr>,
      Inl (PoolMsg (DecodeFailed ''parse error'')))"
proof -
  have "idset_decode_ex (idsets ref_libs) ''x'' = Inl ''parse error''"
    by (simp add: ref_api_def parse_eval)
  from conf_update_refused_takes_effect [OF this, of 4] show ?thesis by simp
qed

end
