(* ===== verification/SlingshotReach.thy ===== *)
theory SlingshotReach
  imports SlingshotJobtap
begin

text \<open>
  The jobtap plugin \<^verbatim>\<open>src/job-manager/plugins/cray-slingshot.c\<close> over time: any sequence of its callbacks
  that the job manager can make, with any outcomes of the calls in them. What the plugin announces is
  compared with what the pool has.
\<close>

section \<open>Callbacks in sequence\<close>

text \<open>
  A job runs once and is cleaned up after that; the configuration can be updated at any time. The
  arguments of a callback may fail to unpack.
\<close>

datatype job_phase = Pending | Active | Done

record 'i slingshot_sys =
  plug :: "'i slingshot"
  jobs_host :: host
  phase :: "jobid \<Rightarrow> job_phase"

inductive slingshot_step ::
  "'i idset_api \<Rightarrow> (jobid \<Rightarrow> string option) \<Rightarrow> 'i slingshot_sys \<Rightarrow> 'i slingshot_sys \<Rightarrow> bool" for A enc where
  slingshot_run: "idsets L = A \<Longrightarrow> f58 L = enc \<Longrightarrow> phase s i = Pending \<Longrightarrow> (\<forall>args. u = Inr args \<longrightarrow> run_id args = i) \<Longrightarrow>
     job_state_run_cb L E junk (plug s) (jobs_host s) u = (ctx', h') \<Longrightarrow>
     slingshot_step A enc s \<lparr>plug = ctx', jobs_host = h', phase = (phase s)(i := Active)\<rparr>"
| slingshot_cleanup: "idsets L = A \<Longrightarrow> f58 L = enc \<Longrightarrow> phase s i = Active \<Longrightarrow> u = None \<or> u = Some i \<Longrightarrow>
     job_state_cleanup_cb L (plug s) u = (ctx', rc) \<Longrightarrow>
     slingshot_step A enc s \<lparr>plug = ctx', jobs_host = jobs_host s, phase = (phase s)(i := Done)\<rparr>"
| slingshot_conf: "idsets L = A \<Longrightarrow> f58 L = enc \<Longrightarrow> conf_update_cb L (plug s) u = (ctx', r) \<Longrightarrow>
     slingshot_step A enc s \<lparr>plug = ctx', jobs_host = jobs_host s, phase = phase s\<rparr>"

definition slingshot_start :: "'i slingshot \<Rightarrow> 'i slingshot_sys" where
  "slingshot_start ctx = \<lparr>plug = ctx, jobs_host = \<lparr>posted = [], raised = []\<rparr>, phase = (\<lambda>_. Pending)\<rparr>"

text \<open>
  The states that are reached by steps that change the pool as \<open>ok\<close> allows: all that the plugin reaches when
  \<open>ok\<close> allows everything, and, with \<open>vni_stable elems\<close>, those that it reaches as long as no configuration brings back a VNI
  that a job holds and that was not configured before. The properties say in their hypotheses which of them they are about.
\<close>

inductive slingshot_reachable ::
  "'i idset_api \<Rightarrow> (jobid \<Rightarrow> string option) \<Rightarrow> ('i vnipool \<Rightarrow> 'i vnipool \<Rightarrow> bool) \<Rightarrow> 'i slingshot_sys \<Rightarrow> bool" for A enc ok where
  slingshot_init: "slingshot_plugin_init c p j mem = Some (ctx, handlers) \<Longrightarrow>
     slingshot_reachable A enc ok (slingshot_start ctx)"
| slingshot_next: "slingshot_reachable A enc ok s \<Longrightarrow> slingshot_step A enc s s' \<Longrightarrow>
     ok (vnipool (plug s)) (vnipool (plug s')) \<Longrightarrow> slingshot_reachable A enc ok s'"

section \<open>The plugin only takes steps of the pool\<close>

definition pool_after :: "'i vni_libs \<Rightarrow> 'i vnipool \<Rightarrow> jobid \<Rightarrow> 'i vnipool \<Rightarrow> bool" where
  "pool_after L vp i vp' \<longleftrightarrow> vp' = vp \<or> (\<exists>n. vp' = fst (vnipool_reserve L vp i n)
     \<or> vp' = fst (vnipool_release L (fst (vnipool_reserve L vp i n)) i))"

lemma run_reserve_pool: "pool_after L (vnipool ctx) i (vnipool (fst (run_reserve L E ctx h i n)))"
proof -
  define k where "k = (if n = -1 then vnis_per_job ctx else n)"
  obtain vp r where r: "vnipool_reserve L (vnipool ctx) i k = (vp, r)"
    by (cases "vnipool_reserve L (vnipool ctx) i k")
  then have vp: "vp = fst (vnipool_reserve L (vnipool ctx) i k)" by simp
  have "vnipool (fst (run_reserve L E ctx h i n)) \<in> {vnipool ctx, vp, fst (vnipool_release L vp i)}"
    by (simp add: run_reserve_def k_def [symmetric] r Let_def split: sum.split prod.split)
  then show ?thesis unfolding pool_after_def vp by blast
qed

lemma run_pool: "pool_after L (vnipool ctx) (run_id args) (vnipool (fst (job_state_run_cb L E junk ctx h (Inr args))))"
proof -
  have "pool_after L (vnipool ctx) (run_id args) (vnipool ctx)" by (simp add: pool_after_def)
  with run_reserve_pool [of L ctx "run_id args" E h] show ?thesis
    by (simp add: job_state_run_cb_def split: option.split sum.split)
qed

lemma cleanup_pool:
  "vnipool (fst (job_state_cleanup_cb L ctx u)) =
     (case u of None \<Rightarrow> vnipool ctx | Some i \<Rightarrow> fst (vnipool_release L (vnipool ctx) i))"
  by (auto simp: job_state_cleanup_cb_def split: option.split sum.split prod.split)

lemma conf_pool:
  "\<exists>t. vnipool (fst (conf_update_cb L ctx u)) \<in> {vnipool ctx, fst (vnipool_configure L (vnipool ctx) t)}"
proof (cases u)
  case (Inr a)
  let ?t = "case conf_vni_pool a of None \<Rightarrow> VNIPOOL_DEFAULT | Some s \<Rightarrow> s"
  obtain vp r where r: "vnipool_configure L (vnipool ctx) ?t = (vp, r)"
    by (cases "vnipool_configure L (vnipool ctx) ?t")
  then have "vnipool (fst (conf_update_cb L ctx u)) \<in> {vnipool ctx, vp}"
    by (simp add: conf_update_cb_def Inr Let_def split: sum.split)
  with r show ?thesis by (metis fst_conv)
qed (simp add: conf_update_cb_def)


section \<open>The invariant\<close>

definition pool_good :: "'i idset_api \<Rightarrow> ('i \<Rightarrow> nat set) \<Rightarrow> 'i vnipool \<Rightarrow> bool" where
  "pool_good A elems vp \<longleftrightarrow> vnipool_inv A elems vp \<and> vni_exact elems vp \<and> vni_exclusive elems vp"

definition holds :: "(jobid \<Rightarrow> string option) \<Rightarrow> 'i slingshot_sys \<Rightarrow> jobid \<Rightarrow> nat list option" where
  "holds enc s i = map_option items (jobs (vnipool (plug s)) (idf58 enc i))"

text \<open>
  A job that has not run has no event and no VNIs; what was announced for an active job is what it
  has; and there is at most one event for each job.
\<close>

definition slingshot_inv ::
  "'i idset_api \<Rightarrow> ('i \<Rightarrow> nat set) \<Rightarrow> (jobid \<Rightarrow> string option) \<Rightarrow> 'i slingshot_sys \<Rightarrow> bool" where
  "slingshot_inv A elems enc s \<longleftrightarrow> pool_good A elems (vnipool (plug s))
     \<and> (\<forall>i. phase s i = Pending \<longrightarrow> holds enc s i = None \<and> i \<notin> fst ` set (posted (jobs_host s)))
     \<and> (\<forall>i ev. (i, ev) \<in> set (posted (jobs_host s)) \<longrightarrow> phase s i = Active \<longrightarrow>
          ev_vnis ev = [] \<or> holds enc s i = Some (ev_vnis ev))
     \<and> distinct (map fst (posted (jobs_host s)))"

lemma step_good:
  assumes "vni_step A enc vp vp'" and "idset_lib A elems" and "f58_encoding enc" and "pool_good A elems vp"
    and "vni_stable elems vp vp'"
  shows "pool_good A elems vp'"
  using vni_step_inv [OF assms(1-3)] assms(4,5) by (simp add: pool_good_def)

context vni_env
begin

lemma reserve_universe: "vnipool_inv (idsets L) elems vp \<Longrightarrow> universe (fst (vnipool_reserve L vp i n)) = universe vp"
  by (cases "vnipool_reserve L vp i n"; cases "snd (vnipool_reserve L vp i n)") (auto dest: reserve_fail reserve_ok(1))

lemma release_universe: "vnipool_inv (idsets L) elems vp \<Longrightarrow> universe (fst (vnipool_release L vp i)) = universe vp"
proof (cases "jobs vp (key i)")
  case None
  then show ?thesis by (simp add: release_unknown)
next
  case (Some a)
  assume "vnipool_inv (idsets L) elems vp"
  from release_ok(2) [OF this Some] show ?thesis by (cases "vnipool_release L vp i") auto
qed

lemma reserve_good:
  assumes "pool_good (idsets L) elems vp" and "jobs vp (key i) = None"
  shows "pool_good (idsets L) elems (fst (vnipool_reserve L vp i n))"
proof (rule step_good [OF step_reserve [OF refl refl assms(2)] idset_lib_axioms f58_encoding_axioms assms(1)])
  have "vnipool_inv (idsets L) elems vp" using assms(1) by (simp add: pool_good_def)
  then show "vni_stable elems vp (fst (vnipool_reserve L vp i n))" by (simp add: vni_stable_def reserve_universe)
qed

lemma release_good:
  assumes "pool_good (idsets L) elems vp"
  shows "pool_good (idsets L) elems (fst (vnipool_release L vp i))"
proof (rule step_good [OF step_release [OF refl refl] idset_lib_axioms f58_encoding_axioms assms])
  have "vnipool_inv (idsets L) elems vp" using assms by (simp add: pool_good_def)
  then show "vni_stable elems vp (fst (vnipool_release L vp i))" by (simp add: vni_stable_def release_universe)
qed

lemma run_good:
  assumes "pool_good (idsets L) elems (vnipool ctx)" and "jobs (vnipool ctx) (key (run_id args)) = None"
  shows "pool_good (idsets L) elems (vnipool (fst (job_state_run_cb L E junk ctx h (Inr args))))"
  using run_pool [of L ctx args E junk h] assms reserve_good release_good
  unfolding pool_after_def by auto

lemma release_others: "j \<noteq> i \<Longrightarrow> vnipool_inv (idsets L) elems vp \<Longrightarrow> jobs (fst (vnipool_release L vp i)) (key j) = jobs vp (key j)"
proof (cases "jobs vp (key i)")
  case None
  then show ?thesis by (simp add: release_unknown)
next
  case (Some a)
  assume "j \<noteq> i" "vnipool_inv (idsets L) elems vp"
  with release_ok(3) [OF _ Some] show ?thesis by (cases "vnipool_release L vp i") (auto simp: idf58_inj)
qed

lemma configure_jobs: "vnipool_inv (idsets L) elems vp \<Longrightarrow> jobs (fst (vnipool_configure L vp t)) = jobs vp"
  by (cases "vnipool_configure L vp t"; cases "snd (vnipool_configure L vp t)") (auto dest: configure_fail configure_ok(1))

end


lemma run_step_inv:
  assumes "vni_env L elems" and "slingshot_inv (idsets L) elems (f58 L) s" and "phase s i = Pending"
    and "\<forall>args. u = Inr args \<longrightarrow> run_id args = i"
    and "job_state_run_cb L E junk (plug s) (jobs_host s) u = (ctx', h')"
  shows "slingshot_inv (idsets L) elems (f58 L) \<lparr>plug = ctx', jobs_host = h', phase = (phase s)(i := Active)\<rparr>"
proof (cases u)
  case (Inl msg)
  with assms(5) have "ctx' = plug s" "posted h' = posted (jobs_host s)" by (auto simp: job_state_run_cb_def)
  then show ?thesis using assms(2,3) by (force simp: slingshot_inv_def holds_def)
next
  case (Inr args)
  then have i: "run_id args = i" using assms(4) by simp
  note I = assms(2)[unfolded slingshot_inv_def]
  have good: "pool_good (idsets L) elems (vnipool (plug s))" using I by blast
  have none: "holds (f58 L) s i = None" and new: "i \<notin> fst ` set (posted (jobs_host s))" using I assms(3) by blast+
  then have j: "jobs (vnipool (plug s)) (idf58 (f58 L) (run_id args)) = None"
    and r: "reserved_vnis L (vnipool (plug s)) (run_id args) = None"
    by (simp_all add: holds_def reserved_vnis_def i)
  have good': "pool_good (idsets L) elems (vnipool ctx')"
    using vni_env.run_good [OF assms(1) good j, of E junk "jobs_host s"] assms(5) Inr by simp
  have inv: "vnipool_inv (idsets L) elems (vnipool (plug s))" using good by (simp add: pool_good_def)
  have h': "holds (f58 L) \<lparr>plug = ctx', jobs_host = h', phase = ph\<rparr> = reserved_vnis L (vnipool ctx')" for ph
    by (simp add: holds_def reserved_vnis_def fun_eq_iff)
  have h: "holds (f58 L) s = reserved_vnis L (vnipool (plug s))"
    by (simp add: holds_def reserved_vnis_def fun_eq_iff)
  from job_state_run_settles [OF assms(1) inv r assms(5)[unfolded Inr]] i
  consider (announced) ev where "run_announced L elems i (plug s) (jobs_host s) ctx' h' ev"
    | (excepted) e where "run_excepted L elems i (plug s) (jobs_host s) ctx' h' e"
    by blast
  then show ?thesis
  proof cases
    case announced
    then have p: "posted h' = posted (jobs_host s) @ [(i, ev)]"
      and v: "ev_vnis ev = [] \<and> reserved_vnis L (vnipool ctx') = reserved_vnis L (vnipool (plug s))
        \<or> reserved_vnis L (vnipool ctx') = (reserved_vnis L (vnipool (plug s)))(i \<mapsto> ev_vnis ev)"
      by (auto simp: run_announced_def split: if_splits)
    show ?thesis
      using I v new good' none unfolding slingshot_inv_def h' h by (auto simp: p image_iff split: if_splits) blast+
  next
    case excepted
    then have p: "posted h' = posted (jobs_host s)" and v: "reserved_vnis L (vnipool ctx') = reserved_vnis L (vnipool (plug s))"
      by (simp_all add: run_excepted_def)
    show ?thesis
      using I new good' unfolding slingshot_inv_def h' v h by (auto simp: p image_iff split: if_splits)
  qed
qed

lemma cleanup_step_inv:
  assumes "vni_env L elems" and "slingshot_inv (idsets L) elems (f58 L) s" and "phase s i = Active"
    and "u = None \<or> u = Some i" and "job_state_cleanup_cb L (plug s) u = (ctx', rc)"
  shows "slingshot_inv (idsets L) elems (f58 L) \<lparr>plug = ctx', jobs_host = jobs_host s, phase = (phase s)(i := Done)\<rparr>"
proof -
  note I = assms(2)[unfolded slingshot_inv_def]
  have good: "pool_good (idsets L) elems (vnipool (plug s))" using I by blast
  have inv: "vnipool_inv (idsets L) elems (vnipool (plug s))" using good by (simp add: pool_good_def)
  have vp: "vnipool ctx' = vnipool (plug s) \<or> vnipool ctx' = fst (vnipool_release L (vnipool (plug s)) i)"
    using cleanup_pool [of L "plug s" u] assms(4,5) by auto
  then have good': "pool_good (idsets L) elems (vnipool ctx')"
    using good vni_env.release_good [OF assms(1) good] by auto
  have h: "holds (f58 L) \<lparr>plug = ctx', jobs_host = jobs_host s, phase = ph\<rparr> j = holds (f58 L) s j" if "j \<noteq> i" for j ph
    using vp vni_env.release_others [OF assms(1) that inv] by (auto simp: holds_def)
  show ?thesis
    using I good' h assms(3) unfolding slingshot_inv_def by (auto split: if_splits)
qed

lemma conf_step_inv:
  assumes "vni_env L elems" and "slingshot_inv (idsets L) elems (f58 L) s"
    and "conf_update_cb L (plug s) u = (ctx', r)" and "vni_stable elems (vnipool (plug s)) (vnipool ctx')"
  shows "slingshot_inv (idsets L) elems (f58 L) \<lparr>plug = ctx', jobs_host = jobs_host s, phase = phase s\<rparr>"
proof -
  note I = assms(2)[unfolded slingshot_inv_def]
  have good: "pool_good (idsets L) elems (vnipool (plug s))" using I by blast
  have inv: "vnipool_inv (idsets L) elems (vnipool (plug s))" using good by (simp add: pool_good_def)
  obtain t where vp: "vnipool ctx' = vnipool (plug s) \<or> vnipool ctx' = fst (vnipool_configure L (vnipool (plug s)) t)"
    using conf_pool [of L "plug s" u] assms(3) by auto
  have e: "idset_lib (idsets L) elems" "f58_encoding (f58 L)" using assms(1) by (simp_all add: vni_env_def)
  have good': "pool_good (idsets L) elems (vnipool ctx')"
    using vp good step_good [OF step_configure [OF refl refl] e good] assms(4) by auto
  have h: "holds (f58 L) \<lparr>plug = ctx', jobs_host = jobs_host s, phase = phase s\<rparr> = holds (f58 L) s"
    using vp vni_env.configure_jobs [OF assms(1) inv] by (auto simp: holds_def fun_eq_iff)
  show ?thesis using I good' unfolding slingshot_inv_def h by simp
qed

lemma start_inv:
  assumes "slingshot_plugin_init c p j ok = Some (ctx, handlers)"
  shows "slingshot_inv A elems enc (slingshot_start ctx)"
proof -
  have "vnipool_create True True = Some (vnipool ctx)"
    using assms by (auto simp: slingshot_plugin_init_def cray_slingshot_create_def vnipool_create_def split: option.splits if_splits)
  then have "pool_good A elems (vnipool ctx)" and "vnipool ctx = \<lparr>universe = None, pool = None, jobs = Map.empty\<rparr>"
    using vni_create_ok [of "vnipool ctx" A elems] by (auto simp: pool_good_def vnipool_create_def)
  then show ?thesis by (simp add: slingshot_inv_def slingshot_start_def holds_def)
qed

lemma slingshot_reachable_inv:
  assumes "slingshot_reachable A enc (vni_stable elems) s" and "idset_lib A elems" and "f58_encoding enc"
  shows "slingshot_inv A elems enc s"
  using assms(1)
proof induction
  case (slingshot_init c p j mem ctx handlers)
  then show ?case by (rule start_inv)
next
  case (slingshot_next s s')
  have env: "vni_env L elems" if "idsets L = A" "f58 L = enc" for L :: "'a vni_libs"
    using assms(2,3) that by (simp add: vni_env_def)
  from slingshot_next.hyps(2) show ?case
  proof cases
    case (slingshot_run L i u E junk ctx' h')
    with run_step_inv [OF env, of L s i u E junk ctx' h'] slingshot_next.IH show ?thesis by simp
  next
    case (slingshot_cleanup L i u ctx' rc)
    with cleanup_step_inv [OF env, of L s i u ctx' rc] slingshot_next.IH show ?thesis by simp
  next
    case (slingshot_conf L u ctx' r)
    with conf_step_inv [OF env, of L s u ctx' r] slingshot_next.IH slingshot_next.hyps(3) show ?thesis by simp
  qed
qed


section \<open>Properties\<close>

lemma announced_held:
  assumes "slingshot_reachable A enc (vni_stable elems) s" and "idset_lib A elems" and "f58_encoding enc"
    and "(i, ev) \<in> set (posted (jobs_host s))" and "phase s i = Active"
  shows "set (ev_vnis ev) \<subseteq> held_by (vnipool (plug s)) (idf58 enc i)" and "vni_exclusive elems (vnipool (plug s))"
  using slingshot_reachable_inv [OF assms(1-3), unfolded slingshot_inv_def] assms(4,5)
  by (fastforce simp: pool_good_def holds_def held_by_def)+

lemma announced_disjoint:
  assumes "slingshot_reachable A enc (vni_stable elems) s" and "idset_lib A elems" and "f58_encoding enc"
    and "(i, ev) \<in> set (posted (jobs_host s))" and "(j, ev') \<in> set (posted (jobs_host s))"
    and "phase s i = Active" and "phase s j = Active" and "i \<noteq> j"
  shows "set (ev_vnis ev) \<inter> set (ev_vnis ev') = {}"
proof -
  have "idf58 enc i \<noteq> idf58 enc j" using assms(8) f58_encoding.idf58_inj [OF assms(3)] by simp
  with announced_held [OF assms(1-4,6)] announced_held(1) [OF assms(1-3,5,7)] show ?thesis
    unfolding vni_exclusive_def by blast
qed

text \<open>
  C1. The VNIs of jobs never overlap. In every state that the plugin reaches by running, cleaning up
  and configuring, whatever calls fail in its callbacks, as long as no configuration brings back a
  VNI that a job still holds: there is at most one announcement for each job, the VNIs announced
  for two active jobs are disjoint, and no VNI that was announced for an active job is free.
\<close>

theorem announced_vnis_exclusive:
  assumes "slingshot_reachable A enc (vni_stable elems) s" and "idset_lib A elems" and "f58_encoding enc"
    and "(i, ev) \<in> set (posted (jobs_host s))" and "(j, ev') \<in> set (posted (jobs_host s))"
    and "phase s i = Active" and "phase s j = Active"
  shows "(if i = j then ev = ev' else set (ev_vnis ev) \<inter> set (ev_vnis ev') = {})
    \<and> set (ev_vnis ev) \<inter> ids_of elems (pool (vnipool (plug s))) = {}"
proof -
  have "distinct (map fst (posted (jobs_host s)))"
    using slingshot_reachable_inv [OF assms(1-3)] by (simp add: slingshot_inv_def)
  then have "ev = ev'" if "i = j" using assms(4,5) that by (auto dest: eq_key_imp_eq_value)
  moreover have "set (ev_vnis ev) \<inter> ids_of elems (pool (vnipool (plug s))) = {}"
    using announced_held [OF assms(1-4,6)] held_by_subset [of "vnipool (plug s)" "idf58 enc i"]
    unfolding vni_exclusive_def by blast
  ultimately show ?thesis using announced_disjoint [OF assms] by simp
qed

text \<open>Two jobs on the sample libraries.\<close>

definition one_vni :: "nat \<Rightarrow> conf_args" where
  "one_vni d = \<lparr>conf_vni_pool = Some (digit_string d), conf_vnis_per_job = Some 1, conf_vni_reserve_fatal = None\<rparr>"

lemma sample_conf:
  assumes "vnipool_configure ref_libs (vnipool ctx) (digit_string d) = (vp, Inr ())"
  shows "conf_update_cb ref_libs ctx (Inr (one_vni d)) =
    (ctx\<lparr>vnis_per_job := 1, vni_reserve_fatal := vni_reserve_fatal_default, vnipool := vp\<rparr>, Inr ())"
  using assms by (simp add: conf_update_cb_def one_vni_def Let_def)

lemma sample_granted:
  assumes "vnipool_reserve ref_libs (vnipool ctx) i 1 = (vp, Inr a)" and "vnis_per_job ctx = 1"
  shows "job_state_run_cb ref_libs sample_env 0 ctx h (Inr (plain_args i)) =
    (ctx\<lparr>vnipool := vp\<rparr>, h\<lparr>posted := posted h @ [(i, \<lparr>ev_vnis = items a, ev_empty_reason = None\<rparr>)]\<rparr>)"
  using assms by (simp add: job_state_run_cb_def plain_args_def run_reserve_def post_event_def sample_env_def)

lemma held_none: "jobs vp = Map.empty \<Longrightarrow> held vp = {}"
  by (simp add: held_def held_by_def)

lemma sample_system:
  obtains s :: "refset slingshot_sys" where "slingshot_reachable ref_api sample_enc (vni_stable rs_elems) s"
    and "posted (jobs_host s) = [(1, \<lparr>ev_vnis = [2], ev_empty_reason = None\<rparr>), (2, \<lparr>ev_vnis = [3], ev_empty_reason = None\<rparr>)]"
    and "phase s 1 = Active" and "phase s 2 = Active"
proof -
  let ?ctx = "\<lparr>vnipool = vnipool0, vnis_per_job = 0, vni_reserve_fatal = False\<rparr>"
  have R0: "slingshot_reachable ref_api sample_enc (vni_stable rs_elems) (slingshot_start ?ctx)"
    by (rule slingshot_init [of True True True "\<lambda>_. True"])
      (simp add: slingshot_plugin_init_def cray_slingshot_create_def vnipool0_create)
  obtain c where c: "vnipool_configure ref_libs vnipool0 (digit_string 2) = (c, Inr ())"
      "jobs c = Map.empty" "ref.ids (universe c) = {2}" "ref.ids (pool c) = {2}" "vnipool_inv ref_api rs_elems c"
    by (rule ref_configure_digit [of 2 vnipool0]) (simp_all add: vnipool0_inv, simp add: vnipool0_def)
  define s1 where "s1 = slingshot_start (?ctx\<lparr>vnis_per_job := 1, vni_reserve_fatal := vni_reserve_fatal_default, vnipool := c\<rparr>)"
  have "slingshot_step ref_api sample_enc (slingshot_start ?ctx) s1"
    using slingshot_conf [of ref_libs ref_api sample_enc "slingshot_start ?ctx", OF _ _ sample_conf] c(1)
    by (simp add: s1_def slingshot_start_def)
  moreover have "vni_stable rs_elems (vnipool (plug (slingshot_start ?ctx))) (vnipool (plug s1))"
    using held_none [of vnipool0] by (simp add: vni_stable_def slingshot_start_def) (simp add: vnipool0_def)
  ultimately have R1: "slingshot_reachable ref_api sample_enc (vni_stable rs_elems) s1" by (rule slingshot_next [OF R0])
  obtain r a where r: "vnipool_reserve ref_libs c 1 1 = (r, Inr a)" "items a = [2]"
      "jobs r = (jobs c)(idf58 sample_enc 1 \<mapsto> a)" "universe r = universe c" "vnipool_inv ref_api rs_elems r"
      "ref.ids (pool r) = {}"
    by (rule ref_reserve_single [OF c(5,4), of 1]) simp
  define s2 where "s2 = \<lparr>plug = (plug s1)\<lparr>vnipool := r\<rparr>,
     jobs_host = \<lparr>posted = [(1, \<lparr>ev_vnis = [2], ev_empty_reason = None\<rparr>)], raised = []\<rparr>, phase = (phase s1)(1 := Active)\<rparr>"
  have "slingshot_step ref_api sample_enc s1 s2"
    using slingshot_run [of ref_libs ref_api sample_enc s1 1 "Inr (plain_args 1)", OF _ _ _ _ sample_granted] r(1,2)
    by (simp add: s1_def s2_def slingshot_start_def plain_args_def)
  moreover have "vni_stable rs_elems (vnipool (plug s1)) (vnipool (plug s2))"
    by (simp add: vni_stable_def s1_def s2_def slingshot_start_def r(4))
  ultimately have R2: "slingshot_reachable ref_api sample_enc (vni_stable rs_elems) s2" by (rule slingshot_next [OF R1])
  obtain d where d: "vnipool_configure ref_libs r (digit_string 3) = (d, Inr ())" "jobs d = jobs r"
      "ref.ids (universe d) = {3}" "ref.ids (pool d) = {3} - (ref.ids (universe r) - ref.ids (pool r))" "vnipool_inv ref_api rs_elems d"
    by (rule ref_configure_digit [of 3 r]) (simp_all add: r(5))
  define s3 where "s3 = s2\<lparr>plug := (plug s2)\<lparr>vnis_per_job := 1, vni_reserve_fatal := vni_reserve_fatal_default, vnipool := d\<rparr>\<rparr>"
  have "slingshot_step ref_api sample_enc s2 s3"
    using slingshot_conf [of ref_libs ref_api sample_enc s2, OF _ _ sample_conf] d(1)
    by (simp add: s3_def s2_def)
  moreover have "held r = {2}" by (auto simp: held_def held_by_def r(2,3) c(2) split: if_splits)
  then have "vni_stable rs_elems (vnipool (plug s2)) (vnipool (plug s3))"
    by (simp add: vni_stable_def s3_def s2_def d(3))
  ultimately have R3: "slingshot_reachable ref_api sample_enc (vni_stable rs_elems) s3" by (rule slingshot_next [OF R2])
  have p: "ref.ids (pool d) = {3}" using d(4) by (simp add: r(4,6) c(3))
  obtain e b where e: "vnipool_reserve ref_libs d 2 1 = (e, Inr b)" "items b = [3]" "universe e = universe d"
    by (rule ref_reserve_single [OF d(5) p, of 2]) simp
  define s4 where "s4 = \<lparr>plug = (plug s3)\<lparr>vnipool := e\<rparr>,
     jobs_host = \<lparr>posted = posted (jobs_host s2) @ [(2, \<lparr>ev_vnis = [3], ev_empty_reason = None\<rparr>)], raised = []\<rparr>,
     phase = (phase s3)(2 := Active)\<rparr>"
  have "slingshot_step ref_api sample_enc s3 s4"
    using slingshot_run [of ref_libs ref_api sample_enc s3 2 "Inr (plain_args 2)", OF _ _ _ _ sample_granted] e(1,2)
    by (simp add: s1_def s2_def s3_def s4_def slingshot_start_def plain_args_def)
  moreover have "vni_stable rs_elems (vnipool (plug s3)) (vnipool (plug s4))"
    by (simp add: vni_stable_def s4_def s3_def e(3))
  ultimately have "slingshot_reachable ref_api sample_enc (vni_stable rs_elems) s4" by (rule slingshot_next [OF R3])
  then show ?thesis
    by (rule that) (simp_all add: s4_def s3_def s2_def)
qed

theorem announced_vnis_exclusive_witness:
  "\<exists>s :: refset slingshot_sys. phase s 1 = Active \<and> phase s 2 = Active
    \<and> posted (jobs_host s) = [(1, \<lparr>ev_vnis = [2], ev_empty_reason = None\<rparr>), (2, \<lparr>ev_vnis = [3], ev_empty_reason = None\<rparr>)]
    \<and> {2} \<inter> ref.ids (pool (vnipool (plug s))) = {}"
proof -
  obtain s :: "refset slingshot_sys" where s: "slingshot_reachable ref_api sample_enc (vni_stable rs_elems) s"
    "posted (jobs_host s) = [(1, \<lparr>ev_vnis = [2], ev_empty_reason = None\<rparr>), (2, \<lparr>ev_vnis = [3], ev_empty_reason = None\<rparr>)]"
    "phase s 1 = Active" "phase s 2 = Active"
    by (rule sample_system)
  have "(1, \<lparr>ev_vnis = [2], ev_empty_reason = None\<rparr>) \<in> set (posted (jobs_host s))"
    "(2, \<lparr>ev_vnis = [3], ev_empty_reason = None\<rparr>) \<in> set (posted (jobs_host s))"
    by (simp_all add: s(2))
  from announced_vnis_exclusive [OF s(1) ref.idset_lib_axioms sample_f58.f58_encoding_axioms this s(3,4)] s
  show ?thesis by (intro exI [of _ s]) simp
qed

end
