(* ===== verification/Cxi.thy ===== *)
theory Cxi
  imports Json
begin

unbundle bit_operations_syntax

text \<open>
  The data of libcxi, the library for Cassini NICs, as far as the sources use it: service
  descriptors and devices. The library itself is not part of this repository. \<open>tcs\<close> tells for each
  traffic class whether the service permits it; the numbers of the classes are constants of the
  library.
\<close>

record traffic_classes =
  dedicated_access :: nat
  low_latency :: nat
  bulk_data :: nat
  best_effort :: nat
  tc_max :: nat

datatype svc_member = MemberUid nat | MemberIgnore | MemberOther

datatype rsrc_type = PTE | TXQ | TGQ | EQ | CT | LE | TLE | AC

record rsrc_limits =
  limit_max :: nat
  limit_res :: nat

record cxi_svc_desc =
  svc_id :: int
  enable :: bool
  is_system_svc :: bool
  restricted_members :: bool
  members :: "svc_member list"
  restricted_vnis :: bool
  num_vld_vnis :: nat
  vnis :: "nat list"
  resource_limits :: bool
  limits :: "rsrc_type \<Rightarrow> rsrc_limits"
  restricted_tcs :: bool
  tcs :: "nat \<Rightarrow> bool"

text \<open>The JSON accessors that give 0 for a value of another type.\<close>

definition json_array_size :: "json \<Rightarrow> nat" where
  "json_array_size j = (case j of JArray vs \<Rightarrow> length vs | _ \<Rightarrow> 0)"

definition int_at :: "json \<Rightarrow> nat \<Rightarrow> int" where
  "int_at j i = (case j of
       JArray vs \<Rightarrow> if i < length vs then (case json_integer_value (vs ! i) of None \<Rightarrow> 0 | Some n \<Rightarrow> n) else 0
     | _ \<Rightarrow> 0)"

text \<open>
  The test that both the shell plugin and the command make: a service lists exactly the VNIs of a
  JSON array, in order.
\<close>

definition same_vnis :: "cxi_svc_desc \<Rightarrow> json \<Rightarrow> bool" where
  "same_vnis desc j \<longleftrightarrow> num_vld_vnis desc = json_array_size j
     \<and> list_all (\<lambda>i. int (vnis desc ! i) = int_at j i) [0..<num_vld_vnis desc]"

lemma same_vnis_iff:
  assumes "j = JArray (map (JInt \<circ> int) ns)" and "num_vld_vnis desc \<le> length (vnis desc)"
  shows "same_vnis desc j \<longleftrightarrow> take (num_vld_vnis desc) (vnis desc) = ns"
proof -
  have at: "int_at j i = int (ns ! i)" if "i < length ns" for i
    using that by (simp add: assms(1) int_at_def)
  have len: "json_array_size j = length ns" by (simp add: assms(1) json_array_size_def)
  show ?thesis
  proof (cases "num_vld_vnis desc = length ns")
    case True
    then have "same_vnis desc j \<longleftrightarrow> (\<forall>i < length ns. vnis desc ! i = ns ! i)"
      by (simp add: same_vnis_def len list_all_iff at Ball_def)
    also have "\<dots> \<longleftrightarrow> take (num_vld_vnis desc) (vnis desc) = ns"
      using True assms(2) by (simp add: list_eq_iff_nth_eq)
    finally show ?thesis .
  next
    case False
    then show ?thesis using assms(2) by (auto simp: same_vnis_def len)
  qed
qed

end
