(* ===== verification/CxiServices.thy ===== *)
theory CxiServices
  imports Cxi Idset
begin

text \<open>
  The first half of \<^verbatim>\<open>src/cmd/flux-slingshot.c\<close>: choosing, destroying and allocating CXI services on
  the devices of a node. The services that a device holds are part of its state here; what the
  calls of libcxi do to one service is a parameter.
\<close>

section \<open>Ways to end\<close>

text \<open>
  A command exits (\<^verbatim>\<open>fatal\<close> is \<open>Exit 1\<close>), waits for the eventlog for ever, or is killed by a signal.
\<close>

datatype exit = Hangs | Killed | Exit int

abbreviation fatal :: exit where
  "fatal \<equiv> Exit 1"

section \<open>Devices\<close>

text \<open>
  \<open>capacity\<close> is how much of each resource the device has (\<^verbatim>\<open>num_txqs\<close> and the like).
\<close>

record cxi_dev =
  dev_id :: nat
  dev_name :: string
  capacity :: "rsrc_type \<Rightarrow> nat"
  services :: "cxi_svc_desc list"

text \<open>
  One pass over the devices: whether the list of devices can be read, which devices can be opened
  and queried, and what destroying each service of each device gives. The warning about a service that
  cannot be destroyed passes the number of the service for a \<^verbatim>\<open>%s\<close>, which C leaves undefined: \<^verbatim>\<open>vsnprintf\<close> takes
  the number for the address of a text. \<open>p_text_at\<close> says for which numbers it finds something to read there, and the
  process goes on; for the others the process is killed.
\<close>

datatype destroy_result = Destroyed | Busy | DestroyFailed

record cxi_pass =
  p_list :: bool
  p_open :: "nat \<Rightarrow> bool"
  p_query :: "nat \<Rightarrow> bool"
  p_destroy :: "nat \<Rightarrow> int \<Rightarrow> destroy_result"
  p_text_at :: "int \<Rightarrow> bool"

section \<open>Matching\<close>

text \<open>The user and the VNIs of a reservation.\<close>

definition match_reservation :: "nat \<Rightarrow> json \<Rightarrow> cxi_svc_desc \<Rightarrow> bool" where
  "match_reservation uid vnis_arr desc =
     (if is_system_svc desc then False
      else if \<not> restricted_members desc \<or> (case members desc of MemberUid u # _ \<Rightarrow> u \<noteq> uid | _ \<Rightarrow> True) then False
      else restricted_vnis desc \<and> same_vnis desc vnis_arr)"

definition match_vnipool :: "'i idset_api \<Rightarrow> 'i option \<Rightarrow> cxi_svc_desc \<Rightarrow> bool" where
  "match_vnipool api vnipool desc =
     (if \<not> is_system_svc desc
      then list_ex (\<lambda>i. idset_test api vnipool (vnis desc ! i)) [0..<num_vld_vnis desc]
      else False)"

section \<open>Destroying services\<close>

definition remove_service :: "int \<Rightarrow> cxi_svc_desc list \<Rightarrow> cxi_svc_desc list" where
  "remove_service i ds = filter (\<lambda>d. svc_id d \<noteq> i) ds"

text \<open>
  The loop of \<^verbatim>\<open>destroy_cxi_service_device\<close> over the list that was read: \<open>matched\<close> says whether
  there was a match already. The result has the number of busy services, or \<open>None\<close> when the process was killed, the
  services that are left and the reported ids.
\<close>

fun destroy_loop ::
  "bool \<Rightarrow> (int \<Rightarrow> destroy_result) \<Rightarrow> (int \<Rightarrow> bool) \<Rightarrow> bool \<Rightarrow> (cxi_svc_desc \<Rightarrow> bool) \<Rightarrow> cxi_svc_desc list \<Rightarrow> bool \<Rightarrow>
    nat \<Rightarrow> cxi_svc_desc list \<Rightarrow> int list \<Rightarrow> nat option \<times> cxi_svc_desc list \<times> int list" where
  "destroy_loop dry destroy text_at every matchfun [] matched busy svcs reported = (Some busy, svcs, reported)"
| "destroy_loop dry destroy text_at every matchfun (d # ds) matched busy svcs reported =
     (if \<not> (every \<or> \<not> matched) then (Some busy, svcs, reported)
      else if matchfun d then
        (if dry then destroy_loop dry destroy text_at every matchfun ds True busy svcs (reported @ [svc_id d])
         else (case destroy (svc_id d) of
            Destroyed \<Rightarrow> destroy_loop dry destroy text_at every matchfun ds True busy (remove_service (svc_id d) svcs)
              (reported @ [svc_id d])
          | Busy \<Rightarrow> if text_at (svc_id d) then destroy_loop dry destroy text_at every matchfun ds True (Suc busy) svcs reported
              else (None, svcs, reported)
          | DestroyFailed \<Rightarrow> if text_at (svc_id d) then destroy_loop dry destroy text_at every matchfun ds True busy svcs reported
              else (None, svcs, reported)))
      else destroy_loop dry destroy text_at every matchfun ds matched busy svcs reported)"

definition destroy_cxi_service_device ::
  "cxi_pass \<Rightarrow> bool \<Rightarrow> bool \<Rightarrow> (cxi_svc_desc \<Rightarrow> bool) \<Rightarrow> cxi_dev \<Rightarrow> nat option \<times> cxi_dev \<times> int list" where
  "destroy_cxi_service_device p dry every matchfun dev =
     (if \<not> p_query p (dev_id dev) then (Some 0, dev, [])
      else (case destroy_loop dry (p_destroy p (dev_id dev)) (p_text_at p) every matchfun (services dev) False 0 (services dev) [] of
         (busy, svcs, reported) \<Rightarrow> (busy, dev\<lparr>services := svcs\<rparr>, reported)))"

text \<open>
  The loop of \<^verbatim>\<open>destroy_cxi_service\<close>, and the function, which gives the number of busy services or the way in which the
  process ended.
\<close>

fun destroy_devices ::
  "cxi_pass \<Rightarrow> bool \<Rightarrow> bool \<Rightarrow> (cxi_svc_desc \<Rightarrow> bool) \<Rightarrow> cxi_dev list \<Rightarrow> nat option \<times> cxi_dev list" where
  "destroy_devices p dry every matchfun [] = (Some 0, [])"
| "destroy_devices p dry every matchfun (dev # devs) =
     (if \<not> p_open p (dev_id dev)
      then (case destroy_devices p dry every matchfun devs of (busy, devs') \<Rightarrow> (busy, dev # devs'))
      else (case destroy_cxi_service_device p dry every matchfun dev of
         (None, dev', reported) \<Rightarrow> (None, dev' # devs)
       | (Some b, dev', reported) \<Rightarrow> (case destroy_devices p dry every matchfun devs of
            (busy, devs') \<Rightarrow> (map_option ((+) b) busy, dev' # devs'))))"

definition destroy_cxi_service ::
  "cxi_pass \<Rightarrow> bool \<Rightarrow> bool \<Rightarrow> (cxi_svc_desc \<Rightarrow> bool) \<Rightarrow> cxi_dev list \<Rightarrow> (exit + nat) \<times> cxi_dev list" where
  "destroy_cxi_service p dry every matchfun devs =
     (if \<not> p_list p then (Inl fatal, devs)
      else (case destroy_devices p dry every matchfun devs of
         (None, devs') \<Rightarrow> (Inl Killed, devs')
       | (Some busy, devs') \<Rightarrow> (Inr busy, devs')))"

section \<open>Allocating services\<close>

text \<open>Limits are 16-bit, and so are VNIs; a service has room for four.\<close>

definition u16 :: "nat \<Rightarrow> nat" where
  "u16 n = n mod 65536"

definition max_of :: "nat \<Rightarrow> (rsrc_type \<Rightarrow> nat) \<Rightarrow> rsrc_type \<Rightarrow> nat" where
  "max_of ncores cap r = u16 (case r of
       TXQ \<Rightarrow> min 2048 (cap TXQ) | TGQ \<Rightarrow> min 1024 (cap TGQ) | EQ \<Rightarrow> min 2047 (cap EQ) | CT \<Rightarrow> min 2047 (cap CT)
     | TLE \<Rightarrow> min (1 * ncores) (cap TLE) | PTE \<Rightarrow> min 2048 (cap PTE) | LE \<Rightarrow> min 16384 (cap LE)
     | AC \<Rightarrow> min 1022 (cap AC))"

definition per_core :: "rsrc_type \<Rightarrow> nat" where
  "per_core r = (case r of TXQ \<Rightarrow> 2 | TGQ \<Rightarrow> 1 | EQ \<Rightarrow> 2 | CT \<Rightarrow> 1 | TLE \<Rightarrow> 1 | PTE \<Rightarrow> 6 | LE \<Rightarrow> 16 | AC \<Rightarrow> 2)"

definition new_limits :: "nat \<Rightarrow> (rsrc_type \<Rightarrow> nat) \<Rightarrow> rsrc_type \<Rightarrow> rsrc_limits" where
  "new_limits ncores cap r = (let m = max_of ncores cap r in
     \<lparr>limit_max = m, limit_res = u16 (min (per_core r * ncores) m)\<rparr>)"

definition new_service ::
  "traffic_classes \<Rightarrow> nat \<Rightarrow> json \<Rightarrow> nat \<Rightarrow> (rsrc_type \<Rightarrow> nat) \<Rightarrow> cxi_svc_desc" where
  "new_service tc uid vnis_arr ncores cap =
     (let n = json_array_size vnis_arr in
     \<lparr>svc_id = 0, enable = False, is_system_svc = False, restricted_members = True,
      members = [MemberUid uid, MemberIgnore], restricted_vnis = True, num_vld_vnis = n,
      vnis = map (\<lambda>i. nat (int_at vnis_arr i mod 65536)) [0..<n] @ replicate (4 - n) 0,
      resource_limits = True, limits = new_limits ncores cap, restricted_tcs = True,
      tcs = (\<lambda>_. False)(best_effort tc := True, low_latency tc := True)\<rparr>)"

text \<open>
  \<open>alloc\<close> is \<^verbatim>\<open>cxil_alloc_svc\<close>: the service that the device then has, or \<open>None\<close> when it fails, which
  ends the command. In a dry run nothing is allocated.
\<close>

definition allocate_cxi_service_device ::
  "(nat \<Rightarrow> cxi_svc_desc \<Rightarrow> cxi_svc_desc option) \<Rightarrow> traffic_classes \<Rightarrow> bool \<Rightarrow> nat \<Rightarrow> json \<Rightarrow> nat \<Rightarrow> cxi_dev \<Rightarrow>
    cxi_dev option" where
  "allocate_cxi_service_device alloc tc dry uid vnis_arr ncores dev =
     (if dry then Some dev
      else (case alloc (dev_id dev) (new_service tc uid vnis_arr ncores (capacity dev)) of
         None \<Rightarrow> None
       | Some d \<Rightarrow> Some (dev\<lparr>services := services dev @ [d]\<rparr>)))"

text \<open>
  The loop of \<^verbatim>\<open>allocate_cxi_service\<close>: the devices, and the number of those that were allocated on or
  \<open>None\<close> when the command ended.
\<close>

fun allocate_devices ::
  "cxi_pass \<Rightarrow> (nat \<Rightarrow> cxi_svc_desc \<Rightarrow> cxi_svc_desc option) \<Rightarrow> traffic_classes \<Rightarrow> bool \<Rightarrow> nat \<Rightarrow> json \<Rightarrow> nat \<Rightarrow>
    cxi_dev list \<Rightarrow> nat \<Rightarrow> cxi_dev list \<times> nat option" where
  "allocate_devices p alloc tc dry uid vnis_arr ncores [] count = ([], Some count)"
| "allocate_devices p alloc tc dry uid vnis_arr ncores (dev # devs) count =
     (if \<not> p_open p (dev_id dev)
      then map_prod ((#) dev) id (allocate_devices p alloc tc dry uid vnis_arr ncores devs count)
      else (case allocate_cxi_service_device alloc tc dry uid vnis_arr ncores dev of
         None \<Rightarrow> (dev # devs, None)
       | Some dev' \<Rightarrow> map_prod ((#) dev') id (allocate_devices p alloc tc dry uid vnis_arr ncores devs (Suc count))))"

definition allocate_cxi_service ::
  "cxi_pass \<Rightarrow> (nat \<Rightarrow> cxi_svc_desc \<Rightarrow> cxi_svc_desc option) \<Rightarrow> traffic_classes \<Rightarrow> bool \<Rightarrow> nat \<Rightarrow> json \<Rightarrow> nat \<Rightarrow>
    cxi_dev list \<Rightarrow> cxi_dev list \<times> nat option" where
  "allocate_cxi_service p alloc tc dry uid vnis_arr ncores devs =
     (if \<not> p_list p then (devs, None) else allocate_devices p alloc tc dry uid vnis_arr ncores devs 0)"

section \<open>What destroying does\<close>

lemma destroy_loop_stop [simp]: "destroy_loop dry out txt False m ds True busy svcs rep = (Some busy, svcs, rep)"
  by (cases ds) simp_all

text \<open>Only the first match: it is destroyed, or it is busy, or it stays.\<close>

lemma destroy_loop_first:
  "destroy_loop dry out txt False m ds False busy svcs rep = (case find m ds of
      None \<Rightarrow> (Some busy, svcs, rep)
    | Some d \<Rightarrow> if dry then (Some busy, svcs, rep @ [svc_id d]) else (case out (svc_id d) of
        Destroyed \<Rightarrow> (Some busy, remove_service (svc_id d) svcs, rep @ [svc_id d])
      | Busy \<Rightarrow> (if txt (svc_id d) then Some (Suc busy) else None, svcs, rep)
      | DestroyFailed \<Rightarrow> (if txt (svc_id d) then Some busy else None, svcs, rep)))"
  by (induction ds) (auto split: destroy_result.split)

text \<open>Only services with the number of a match are removed, however the loop ends.\<close>

lemma destroy_loop_keeps:
  "destroy_loop dry out txt every m ds matched busy svcs rep = (b, svcs', rep') \<Longrightarrow>
     \<exists>keep. svcs' = filter keep svcs \<and> (\<forall>s. \<not> keep s \<longrightarrow> (\<exists>d \<in> set ds. m d \<and> svc_id s = svc_id d))"
proof (induction ds arbitrary: matched busy svcs rep)
  case Nil
  then show ?case by (intro exI [of _ "\<lambda>_. True"]) simp
next
  case (Cons d ds)
  have all: "\<exists>keep. svcs = filter keep svcs \<and> (\<forall>s. \<not> keep s \<longrightarrow> (\<exists>d \<in> set (d # ds). m d \<and> svc_id s = svc_id d))"
    by (intro exI [of _ "\<lambda>_. True"]) simp
  have more: "\<exists>keep. svcs' = filter keep svcs \<and> (\<forall>s. \<not> keep s \<longrightarrow> (\<exists>d \<in> set (d # ds). m d \<and> svc_id s = svc_id d))"
    if "\<exists>keep. svcs' = filter keep svcs \<and> (\<forall>s. \<not> keep s \<longrightarrow> (\<exists>d \<in> set ds. m d \<and> svc_id s = svc_id d))"
    using that unfolding set_simps by blast
  show ?case
  proof (cases "(every \<or> \<not> matched) \<and> m d \<and> \<not> dry \<and> out (svc_id d) = Destroyed")
    case True
    with Cons.prems Cons.IH [of True busy "remove_service (svc_id d) svcs"] obtain keep where
      "svcs' = filter keep (remove_service (svc_id d) svcs)" "\<forall>s. \<not> keep s \<longrightarrow> (\<exists>d \<in> set ds. m d \<and> svc_id s = svc_id d)"
      by auto
    then show ?thesis using True
      by (intro exI [of _ "\<lambda>s. keep s \<and> svc_id s \<noteq> svc_id d"]) (auto simp: remove_service_def intro: filter_cong)
  next
    case False
    with Cons.prems all more Cons.IH show ?thesis by (auto split: if_splits destroy_result.splits)
  qed
qed

text \<open>A loop over all matches that comes to its end.\<close>

lemma destroy_loop_every:
  "destroy_loop False out txt True m ds matched busy svcs rep = (Some b, svcs', rep') \<Longrightarrow>
     b = busy + length (filter (\<lambda>d. m d \<and> out (svc_id d) = Busy) ds)
     \<and> svcs' = filter (\<lambda>s. \<not> (\<exists>d \<in> set ds. m d \<and> out (svc_id d) = Destroyed \<and> svc_id s = svc_id d)) svcs
     \<and> (\<forall>d \<in> set ds. m d \<and> out (svc_id d) \<noteq> Destroyed \<longrightarrow> txt (svc_id d))"
proof (induction ds arbitrary: matched busy svcs rep)
  case (Cons d ds)
  show ?case
  proof (cases "m d")
    case False
    with Cons show ?thesis by fastforce
  next
    case True
    show ?thesis
    proof (cases "out (svc_id d)")
      case Destroyed
      with True Cons.prems have
        "destroy_loop False out txt True m ds True busy (remove_service (svc_id d) svcs) (rep @ [svc_id d]) = (Some b, svcs', rep')"
        by simp
      from Cons.IH [OF this] True Destroyed show ?thesis
        by (auto simp: remove_service_def intro!: filter_cong)
    next
      case Busy
      with True Cons.prems have "txt (svc_id d)" "destroy_loop False out txt True m ds True (Suc busy) svcs rep = (Some b, svcs', rep')"
        by (simp_all split: if_splits)
      with Cons.IH [OF this(2)] True Busy show ?thesis by (auto intro!: filter_cong)
    next
      case DestroyFailed
      with True Cons.prems have "txt (svc_id d)" "destroy_loop False out txt True m ds True busy svcs rep = (Some b, svcs', rep')"
        by (simp_all split: if_splits)
      with Cons.IH [OF this(2)] True DestroyFailed show ?thesis by (auto intro!: filter_cong)
    qed
  qed
qed simp

lemma destroy_loop_dry: "\<exists>rep'. destroy_loop True out txt every m ds matched busy svcs rep = (Some busy, svcs, rep')"
  by (induction ds arbitrary: matched rep) auto

definition unique_ids :: "cxi_dev \<Rightarrow> bool" where
  "unique_ids dev \<longleftrightarrow> distinct (map svc_id (services dev))"

lemma unique_same: "distinct (map svc_id ds) \<Longrightarrow> d \<in> set ds \<Longrightarrow> s \<in> set ds \<Longrightarrow> svc_id s = svc_id d \<longleftrightarrow> s = d"
  by (auto simp: distinct_map inj_on_def)

text \<open>The effect on one device: what does not match is left alone, in order.\<close>

definition spared :: "(cxi_svc_desc \<Rightarrow> bool) \<Rightarrow> cxi_dev \<Rightarrow> cxi_dev \<Rightarrow> bool" where
  "spared m dev dev' \<longleftrightarrow> dev' = dev\<lparr>services := services dev'\<rparr>
     \<and> filter (\<lambda>s. \<not> m s) (services dev') = filter (\<lambda>s. \<not> m s) (services dev)
     \<and> (\<exists>keep. services dev' = filter keep (services dev))"

lemma spared_refl: "spared m dev dev"
  by (auto simp: spared_def intro!: exI [of _ "\<lambda>_. True"])

lemma spared_trans: "spared m a b \<Longrightarrow> spared m b c \<Longrightarrow> spared m a c"
  unfolding spared_def by (elim conjE exE, intro conjI) (simp, simp, metis filter_filter)

lemma spared_unique: "spared m a b \<Longrightarrow> unique_ids a \<Longrightarrow> unique_ids b"
  by (auto simp: spared_def unique_ids_def distinct_map_filter)

lemma spared_filter:
  assumes "\<And>s. s \<in> set (services dev) \<Longrightarrow> \<not> keep s \<Longrightarrow> m s"
  shows "spared m dev (dev\<lparr>services := filter keep (services dev)\<rparr>)"
proof -
  have "filter (\<lambda>s. \<not> m s) (filter keep (services dev)) = filter (\<lambda>s. \<not> m s) (services dev)"
    using assms by (auto intro!: filter_cong)
  then show ?thesis by (auto simp: spared_def)
qed

lemma find_member: "find m ds = Some d \<Longrightarrow> d \<in> set ds \<and> m d"
  by (induction ds) (auto split: if_splits)

lemma destroy_device_spared:
  assumes "unique_ids dev" and "destroy_cxi_service_device p dry every m dev = (b, dev', rep)"
  shows "spared m dev dev'"
proof (cases "p_query p (dev_id dev)")
  case False
  with assms(2) show ?thesis by (simp add: destroy_cxi_service_device_def spared_refl)
next
  case True
  obtain svcs where L: "destroy_loop dry (p_destroy p (dev_id dev)) (p_text_at p) every m (services dev) False 0 (services dev) [] = (b, svcs, rep)"
    and dev': "dev' = dev\<lparr>services := svcs\<rparr>"
    using assms(2) True by (auto simp: destroy_cxi_service_device_def split: prod.splits)
  from destroy_loop_keeps [OF L] obtain keep where k: "svcs = filter keep (services dev)"
    "\<forall>s. \<not> keep s \<longrightarrow> (\<exists>d \<in> set (services dev). m d \<and> svc_id s = svc_id d)" by blast
  have "distinct (map svc_id (services dev))" using assms(1) by (simp add: unique_ids_def)
  then have "m s" if "s \<in> set (services dev)" "\<not> keep s" for s using k(2) that unique_same by metis
  then show ?thesis unfolding dev' k(1) by (rule spared_filter)
qed

lemma destroy_device_dry:
  "destroy_cxi_service_device p True every m dev = (b, dev', rep) \<Longrightarrow> b = Some 0 \<and> dev' = dev"
  using destroy_loop_dry [of "p_destroy p (dev_id dev)" "p_text_at p" every m "services dev" False 0 "services dev" "[]"]
  by (auto simp: destroy_cxi_service_device_def split: if_splits)

text \<open>All matches on a device that can be read: what is left, and how many were busy.\<close>

lemma destroy_device_all:
  assumes "unique_ids dev" and "p_query p (dev_id dev)"
    and "destroy_cxi_service_device p False True m dev = (Some b, dev', rep)"
  shows "dev' = dev\<lparr>services := filter (\<lambda>s. \<not> (m s \<and> p_destroy p (dev_id dev) (svc_id s) = Destroyed)) (services dev)\<rparr>
    \<and> b = length (filter (\<lambda>d. m d \<and> p_destroy p (dev_id dev) (svc_id d) = Busy) (services dev))"
proof -
  let ?out = "p_destroy p (dev_id dev)"
  let ?left = "\<lambda>s. \<not> (\<exists>d \<in> set (services dev). m d \<and> ?out (svc_id d) = Destroyed \<and> svc_id s = svc_id d)"
  have u: "distinct (map svc_id (services dev))" using assms(1) by (simp add: unique_ids_def)
  obtain svcs where L: "destroy_loop False ?out (p_text_at p) True m (services dev) False 0 (services dev) [] = (Some b, svcs, rep)"
    and dev': "dev' = dev\<lparr>services := svcs\<rparr>"
    using assms(2,3) by (auto simp: destroy_cxi_service_device_def split: prod.splits)
  have "filter ?left (services dev) = filter (\<lambda>s. \<not> (m s \<and> ?out (svc_id s) = Destroyed)) (services dev)"
    by (rule filter_cong [OF refl]) (use unique_same [OF u] in blast)
  with destroy_loop_every [OF L] dev' show ?thesis by simp
qed

text \<open>The first match only, on a device whose services can be destroyed.\<close>

lemma destroy_device_first:
  assumes "p_query p (dev_id dev)" and "\<forall>i. p_destroy p (dev_id dev) i = Destroyed"
  shows "\<exists>rep. destroy_cxi_service_device p False False m dev =
     (Some 0, dev\<lparr>services := (case find m (services dev) of None \<Rightarrow> services dev
        | Some d \<Rightarrow> remove_service (svc_id d) (services dev))\<rparr>, rep)"
  using assms by (auto simp: destroy_cxi_service_device_def destroy_loop_first split: option.split)

lemma spared_list_trans:
  "list_all2 (spared m) xs ys \<Longrightarrow> list_all2 (spared m) ys zs \<Longrightarrow> list_all2 (spared m) xs zs"
  by (rule list_all2_trans [of "spared m" "spared m"]) (auto intro: spared_trans)

lemma spared_list_refl: "list_all2 (spared m) xs xs"
  by (simp add: list_all2_refl spared_refl)

lemma spared_list_unique:
  "list_all2 (spared m) xs ys \<Longrightarrow> \<forall>dev \<in> set xs. unique_ids dev \<Longrightarrow> \<forall>dev \<in> set ys. unique_ids dev"
  by (induction rule: list_all2_induct) (auto intro: spared_unique)

lemma destroy_devices_spared:
  "\<forall>dev \<in> set devs. unique_ids dev \<Longrightarrow> destroy_devices p dry every m devs = (b, devs') \<Longrightarrow>
     list_all2 (spared m) devs devs'"
proof (induction devs arbitrary: b devs')
  case (Cons dev devs)
  then show ?case
    by (auto simp: spared_refl spared_list_refl destroy_device_spared split: if_splits prod.splits option.splits)
qed simp

lemma destroy_devices_dry: "destroy_devices p True every m devs = (b, devs') \<Longrightarrow> b = Some 0 \<and> devs' = devs"
  by (induction devs arbitrary: b devs') (auto dest: destroy_device_dry split: if_splits prod.splits option.splits)

lemma destroy_devices_ids: "destroy_devices p dry every m devs = (b, devs') \<Longrightarrow> map dev_id devs' = map dev_id devs"
  by (induction devs arbitrary: b devs')
    (auto simp: destroy_cxi_service_device_def split: if_splits prod.splits option.splits)

text \<open>When nothing was busy, a matching service that is left could not be destroyed for another reason.\<close>

lemma destroy_devices_clears:
  "\<forall>dev \<in> set devs. unique_ids dev \<Longrightarrow> destroy_devices p False True m devs = (Some 0, devs') \<Longrightarrow>
     \<forall>dev \<in> set devs'. p_open p (dev_id dev) \<longrightarrow> p_query p (dev_id dev) \<longrightarrow>
       (\<forall>s \<in> set (services dev). m s \<longrightarrow> p_destroy p (dev_id dev) (svc_id s) = DestroyFailed)"
proof (induction devs arbitrary: devs')
  case (Cons dev devs)
  obtain busy ds where R: "destroy_devices p False True m devs = (busy, ds)" by fastforce
  obtain b dev1 rep where D: "destroy_cxi_service_device p False True m dev = (b, dev1, rep)"
    using prod_cases3 by blast
  have head: "m s \<Longrightarrow> p_destroy p (dev_id dev1) (svc_id s) = DestroyFailed"
    if "p_query p (dev_id dev)" "b = Some 0" "s \<in> set (services dev1)" for s
  proof -
    assume "m s"
    have "dev1 = dev\<lparr>services := filter (\<lambda>s. \<not> (m s \<and> p_destroy p (dev_id dev) (svc_id s) = Destroyed)) (services dev)\<rparr>"
      "0 = length (filter (\<lambda>d. m d \<and> p_destroy p (dev_id dev) (svc_id d) = Busy) (services dev))"
      using destroy_device_all [OF _ that(1) D [unfolded that(2)]] Cons.prems(1) by simp_all
    with that \<open>m s\<close> show ?thesis
      by (cases "p_destroy p (dev_id dev) (svc_id s)") (auto simp: filter_empty_conv)
  qed
  have id: "dev_id dev1 = dev_id dev"
    using D by (auto simp: destroy_cxi_service_device_def split: if_splits prod.splits)
  show ?case
  proof (cases "p_open p (dev_id dev)")
    case False
    with Cons.prems(2) R have "busy = Some 0" "devs' = dev # ds" by simp_all
    then show ?thesis using Cons.IH [of ds] Cons.prems(1) R False by simp
  next
    case True
    with Cons.prems(2) R D have "b = Some 0" "busy = Some 0" "devs' = dev1 # ds" by (auto split: option.splits)
    then show ?thesis using Cons.IH [of ds] Cons.prems(1) R head id by simp
  qed
qed simp

section \<open>Creating and removing the service of a job\<close>

text \<open>The device after a service was added, and the law of \<^verbatim>\<open>cxil_alloc_svc\<close> that the prolog relies on.\<close>

definition with_service :: "cxi_dev \<Rightarrow> cxi_svc_desc \<Rightarrow> cxi_dev" where
  "with_service dev s = dev\<lparr>services := services dev @ [s]\<rparr>"

definition alloc_fits :: "(nat \<Rightarrow> cxi_svc_desc \<Rightarrow> cxi_svc_desc option) \<Rightarrow> cxi_dev \<Rightarrow> cxi_svc_desc \<Rightarrow> bool" where
  "alloc_fits alloc dev desc \<longleftrightarrow> (\<exists>n b. alloc (dev_id dev) desc = Some (desc\<lparr>svc_id := n, enable := b\<rparr>)
     \<and> n \<notin> svc_id ` set (services dev))"

lemma match_new_service:
  assumes "\<forall>i < json_array_size v. 0 \<le> int_at v i \<and> int_at v i \<le> 65535"
  shows "match_reservation uid v ((new_service tc uid v ncores cap)\<lparr>svc_id := n, enable := b\<rparr>)"
  using assms
  by (auto simp: match_reservation_def new_service_def same_vnis_def Let_def list_all_iff nth_append)

lemma allocate_devices_all:
  assumes "\<forall>dev \<in> set devs. p_open p (dev_id dev)"
    and "\<forall>dev \<in> set devs. alloc_fits alloc dev (new_service tc uid v ncores (capacity dev))"
    and "\<forall>i < json_array_size v. 0 \<le> int_at v i \<and> int_at v i \<le> 65535"
  shows "\<exists>devs1. allocate_devices p alloc tc False uid v ncores devs count = (devs1, Some (count + length devs))
    \<and> list_all2 (\<lambda>dev dev1. \<exists>s. dev1 = with_service dev s \<and> match_reservation uid v s
        \<and> svc_id s \<notin> svc_id ` set (services dev)
        \<and> alloc (dev_id dev) (new_service tc uid v ncores (capacity dev)) = Some s) devs devs1"
  using assms(1,2)
proof (induction devs arbitrary: count)
  case (Cons dev devs)
  obtain devs1 where D: "allocate_devices p alloc tc False uid v ncores devs (Suc count) = (devs1, Some (Suc count + length devs))"
    "list_all2 (\<lambda>dev dev1. \<exists>s. dev1 = with_service dev s \<and> match_reservation uid v s
        \<and> svc_id s \<notin> svc_id ` set (services dev)
        \<and> alloc (dev_id dev) (new_service tc uid v ncores (capacity dev)) = Some s) devs devs1"
    using Cons.IH [of "Suc count"] Cons.prems by auto
  obtain s where A: "alloc (dev_id dev) (new_service tc uid v ncores (capacity dev)) = Some s"
    "svc_id s \<notin> svc_id ` set (services dev)" "match_reservation uid v s"
    using Cons.prems(2) match_new_service [OF assms(3)] by (auto simp: alloc_fits_def)
  have "allocate_cxi_service_device alloc tc False uid v ncores dev = Some (with_service dev s)"
    by (simp add: allocate_cxi_service_device_def A(1) with_service_def)
  then have "allocate_devices p alloc tc False uid v ncores (dev # devs) count =
      (with_service dev s # devs1, Some (Suc count + length devs))"
    using D(1) Cons.prems(1) by simp
  with D(2) A show ?case by auto
qed simp

lemma find_append: "find m (xs @ ys) = (case find m xs of None \<Rightarrow> find m ys | Some x \<Rightarrow> Some x)"
  by (induction xs) simp_all

lemma remove_added:
  assumes "match_reservation uid v s" and "svc_id s \<notin> svc_id ` set (services dev)"
    and "\<forall>t \<in> set (services dev). \<not> match_reservation uid v t"
    and "p_query p (dev_id dev)" and "\<forall>i. p_destroy p (dev_id dev) i = Destroyed"
  shows "\<exists>rep. destroy_cxi_service_device p False False (match_reservation uid v) (with_service dev s) = (Some 0, dev, rep)"
proof -
  have "find (match_reservation uid v) (services dev) = None" using assms(3) by (simp add: find_None_iff)
  then have F: "find (match_reservation uid v) (services dev @ [s]) = Some s"
    using assms(1) by (simp add: find_append)
  have R: "remove_service (svc_id s) (services dev @ [s]) = services dev"
    using assms(2) by (auto simp: remove_service_def filter_id_conv image_iff)
  show ?thesis
    using destroy_device_first [of p "with_service dev s" "match_reservation uid v"] assms(4,5) F R
    by (simp add: with_service_def)
qed

lemma destroy_devices_added:
  assumes "list_all2 (\<lambda>dev dev1. \<exists>s. dev1 = with_service dev s \<and> match_reservation uid v s
        \<and> svc_id s \<notin> svc_id ` set (services dev) \<and> Q dev s) devs devs1"
    and "\<forall>dev \<in> set devs. \<forall>t \<in> set (services dev). \<not> match_reservation uid v t"
    and "\<forall>dev \<in> set devs. p_open p (dev_id dev) \<and> p_query p (dev_id dev) \<and> (\<forall>i. p_destroy p (dev_id dev) i = Destroyed)"
  shows "destroy_devices p False False (match_reservation uid v) devs1 = (Some 0, devs)"
  using assms
proof (induction rule: list_all2_induct)
  case (Cons dev devs dev1 devs1)
  then obtain s where s: "dev1 = with_service dev s" "match_reservation uid v s" "svc_id s \<notin> svc_id ` set (services dev)"
    by blast
  obtain rep where "destroy_cxi_service_device p False False (match_reservation uid v) dev1 = (Some 0, dev, rep)"
    using remove_added [OF s(2,3), of p] Cons.prems s(1) by auto
  moreover have "dev_id dev1 = dev_id dev" by (simp add: s(1) with_service_def)
  ultimately show ?case using Cons by simp
qed simp

end
