(* ===== verification/FluxSlingshot.thy ===== *)
theory FluxSlingshot
  imports CxiServices Vnipool Eventlog Libutil
begin

text \<open>
  The commands of \<^verbatim>\<open>src/cmd/flux-slingshot.c\<close> that the prolog, the epilog and housekeeping run: they
  create and remove the CXI services of a job, or clean up. A command gets what it reads from its
  options, its environment, the broker and libcxi as parameters, and gives the devices and its exit
  status. Messages are left out.
\<close>

section \<open>Job information\<close>

text \<open>\<^verbatim>\<open>strtoul (s, &endptr, 10)\<close>: the value and the unread rest, or \<open>None\<close> when \<^verbatim>\<open>errno\<close> is set.\<close>

definition is_space :: "char \<Rightarrow> bool" where
  "is_space c \<longleftrightarrow> c = CHR '' '' \<or> (9 \<le> (of_char c :: nat) \<and> (of_char c :: nat) \<le> 13)"

definition strtoul :: "string \<Rightarrow> (nat \<times> string) option" where
  "strtoul str =
     (let t = dropWhile is_space str;
          neg = (t \<noteq> [] \<and> hd t = CHR ''-'');
          u = (if t \<noteq> [] \<and> hd t \<in> {CHR ''-'', CHR ''+''} then tl t else t);
          ds = takeWhile (\<lambda>c. char_digit c \<noteq> None) u
      in if ds = [] then Some (0, str)
         else case nat_of_dec ds of
           None \<Rightarrow> Some (0, str)
         | Some n \<Rightarrow> if n \<ge> 2 ^ 64 then None
             else Some (if neg then (2 ^ 64 - n) mod 2 ^ 64 else n, drop (length ds) u))"

text \<open>
  \<^verbatim>\<open>parse_job_info\<close>: \<open>jobid\<close> and \<open>userid\<close> are the values of the option or else of the variable;
  \<open>parse\<close> is \<^verbatim>\<open>flux_job_id_parse\<close>. A \<^verbatim>\<open>uid_t\<close> has 32 bits.
\<close>

definition parse_jobid :: "(string \<Rightarrow> jobid option) \<Rightarrow> string option \<Rightarrow> exit + jobid" where
  "parse_jobid parse jobid = (case jobid of
       None \<Rightarrow> Inl fatal
     | Some str \<Rightarrow> (case parse str of None \<Rightarrow> Inl fatal | Some i \<Rightarrow> Inr i))"

definition parse_userid :: "string option \<Rightarrow> exit + nat" where
  "parse_userid userid = (case userid of
       None \<Rightarrow> Inl fatal
     | Some str \<Rightarrow> (case strtoul str of
          None \<Rightarrow> Inl fatal
        | Some (n, rest) \<Rightarrow> if rest \<noteq> [] then Inl fatal else Inr (n mod 2 ^ 32)))"

definition eventlog_timeout :: real where
  "eventlog_timeout = 30"

text \<open>The wait that the commands share; \<open>watch\<close> is \<open>None\<close> when the request cannot be sent.\<close>

definition wait_reservation ::
  "(string \<Rightarrow> json option) \<Rightarrow> string \<Rightarrow> arrival list option \<Rightarrow> exit + json option" where
  "wait_reservation loads timed_out watch = (case watch of
       None \<Rightarrow> Inl fatal
     | Some f \<Rightarrow> (case eventlog_wait_for loads timed_out ''cray-slingshot'' eventlog_timeout f of
          WaitHangs \<Rightarrow> Inl Hangs
        | WaitFails e \<Rightarrow> Inl fatal
        | WaitDone res \<Rightarrow> Inr res))"

definition good_entry :: "json \<Rightarrow> bool" where
  "good_entry e \<longleftrightarrow> (case json_integer_value e of
       None \<Rightarrow> False
     | Some n \<Rightarrow> \<not> (n < 0 \<or> n = 1 \<or> n = 10 \<or> n > 65535))"

definition parse_reservation_vnis :: "json \<Rightarrow> json option" where
  "parse_reservation_vnis res = (case json_object_get res ''vnis'' of
       None \<Rightarrow> None
     | Some v \<Rightarrow>
         if json_array_size v > CXI_SVC_MAX_VNIS then None
         else if list_all good_entry (case v of JArray es \<Rightarrow> es | _ \<Rightarrow> []) then Some v else None)"

section \<open>Cores of the node\<close>

definition idset_decode :: "'i idset_api \<Rightarrow> string \<Rightarrow> 'i option" where
  "idset_decode api str = (case idset_decode_ex api str of Inl _ \<Rightarrow> None | Inr i \<Rightarrow> Some i)"

text \<open>The loop over \<^verbatim>\<open>R_lite\<close>.\<close>

fun ncores_loop :: "'i idset_api \<Rightarrow> nat \<Rightarrow> json list \<Rightarrow> exit + nat" where
  "ncores_loop api rank [] = Inr 0"
| "ncores_loop api rank (entry # es) =
     (case (unpack_member json_string_value entry ''rank'',
            Option.bind (json_object_get entry ''children'') (\<lambda>ch. unpack_member json_string_value ch ''core'')) of
        (Some r, Some c) \<Rightarrow> (case (idset_decode api r, idset_decode api c) of
           (Some ranks, Some cores) \<Rightarrow>
             let ncores = (if idset_test api (Some ranks) rank then idset_count api (Some cores) else 0) in
             if ncores > 0 then Inr ncores else ncores_loop api rank es
         | _ \<Rightarrow> Inl fatal)
      | _ \<Rightarrow> Inl fatal)"

text \<open>\<open>rank\<close>: the rank of the broker; \<open>R\<close>: the text in the response, if it could be looked up.\<close>

definition ncores_from_R ::
  "'i idset_api \<Rightarrow> (string \<Rightarrow> json option) \<Rightarrow> nat option \<Rightarrow> string option \<Rightarrow> exit + nat" where
  "ncores_from_R api loads rank R = (case (rank, R) of
       (Some rk, Some text) \<Rightarrow> (case loads text of
          None \<Rightarrow> Inl fatal
        | Some obj \<Rightarrow> (case Option.bind (json_object_get obj ''execution'') (\<lambda>e. json_object_get e ''R_lite'') of
             None \<Rightarrow> Inl fatal
           | Some R_lite \<Rightarrow> ncores_loop api rk (case R_lite of JArray es \<Rightarrow> es | _ \<Rightarrow> [])))
     | _ \<Rightarrow> Inl fatal)"

section \<open>The commands\<close>

text \<open>
  What a command is given: whether there are free arguments, its options, the two variables or their
  overrides, whether the broker can be reached, and the responses of the broker; \<open>cxi\<close> tells whether
  it was built with libcxi. \<open>retry_busy\<close> is the argument of that option, if it was given.
\<close>

record command =
  c_free_args :: bool
  c_dry_run :: bool
  c_jobid :: "string option"
  c_userid :: "string option"
  c_retry_busy :: "string option"
  c_broker :: bool
  c_R_sent :: bool
  c_rank :: "nat option"
  c_R :: "string option"
  c_watch :: "arrival list option"
  c_config :: "json option"
  c_cxi :: bool

text \<open>The libraries.\<close>

record 'i slingshot_libs =
  l_idsets :: "'i idset_api"
  l_loads :: "string \<Rightarrow> json option"
  l_jobid :: "string \<Rightarrow> jobid option"
  l_floats :: float_ops
  l_timed_out :: string
  l_classes :: traffic_classes
  l_alloc :: "nat \<Rightarrow> cxi_svc_desc \<Rightarrow> cxi_svc_desc option"

definition parse_job :: "'i slingshot_libs \<Rightarrow> command \<Rightarrow> exit + (jobid \<times> nat)" where
  "parse_job L c = (case parse_jobid (l_jobid L) (c_jobid c) of
       Inl e \<Rightarrow> Inl e
     | Inr i \<Rightarrow> (case parse_userid (c_userid c) of Inl e \<Rightarrow> Inl e | Inr u \<Rightarrow> Inr (i, u)))"

definition cmd_prolog :: "'i slingshot_libs \<Rightarrow> command \<Rightarrow> cxi_pass \<Rightarrow> cxi_dev list \<Rightarrow> cxi_dev list \<times> exit" where
  "cmd_prolog L c p devs =
     (if c_free_args c then (devs, fatal)
      else case parse_job L c of
        Inl e \<Rightarrow> (devs, e)
      | Inr (i, uid) \<Rightarrow>
          if \<not> c_broker c then (devs, fatal)
          else if \<not> c_R_sent c then (devs, fatal)
          else (case wait_reservation (l_loads L) (l_timed_out L) (c_watch c) of
             Inl e \<Rightarrow> (devs, e)
           | Inr None \<Rightarrow> (devs, Exit 0)
           | Inr (Some res) \<Rightarrow> (case parse_reservation_vnis res of
               None \<Rightarrow> (devs, fatal)
             | Some vnis_arr \<Rightarrow>
                 if json_array_size vnis_arr = 0 then (devs, Exit 0)
                 else (case ncores_from_R (l_idsets L) (l_loads L) (c_rank c) (c_R c) of
                    Inl e \<Rightarrow> (devs, e)
                  | Inr ncores \<Rightarrow>
                      if c_cxi c
                      then (case allocate_cxi_service p (l_alloc L) (l_classes L) (c_dry_run c) uid vnis_arr ncores devs of
                         (devs', None) \<Rightarrow> (devs', fatal)
                       | (devs', Some count) \<Rightarrow> (devs', Exit 0))
                      else (devs, Exit 0)))))"

text \<open>The argument of \<^verbatim>\<open>--retry-busy\<close>; without it the timeout is -1.\<close>

definition parse_retry :: "float_ops \<Rightarrow> string option \<Rightarrow> exit + double" where
  "parse_retry F arg = (case arg of
       None \<Rightarrow> Inr (Finite (-1))
     | Some str \<Rightarrow> (case fsd_parse_duration F (Some str) of Inl _ \<Rightarrow> Inl fatal | Inr d \<Rightarrow> Inr d))"

definition positive :: "double \<Rightarrow> bool" where
  "positive d = (case d of NaN \<Rightarrow> False | Infinite neg \<Rightarrow> \<not> neg | Finite r \<Rightarrow> r > 0)"

definition time_left :: "real \<Rightarrow> double \<Rightarrow> bool" where
  "time_left elapsed d = (case d of NaN \<Rightarrow> False | Infinite neg \<Rightarrow> \<not> neg | Finite r \<Rightarrow> elapsed < r * 1000)"

text \<open>
  One attempt: what libcxi does and the milliseconds since the start that \<^verbatim>\<open>monotime_since\<close> reports
  after it. The \<^verbatim>\<open>do\<close> loop of the two commands runs through the attempts; the result has the devices
  and the last number of busy services, or the way in which the process ended in the attempt. With
  no attempt left the loop has not ended, and the result is \<open>None\<close>.
\<close>

type_synonym attempt = "cxi_pass \<times> real"

fun retry_loop ::
  "(cxi_pass \<Rightarrow> cxi_dev list \<Rightarrow> (exit + nat) \<times> cxi_dev list) \<Rightarrow> double \<Rightarrow> attempt list \<Rightarrow> cxi_dev list \<Rightarrow>
    (cxi_dev list \<times> (exit + nat)) option" where
  "retry_loop body timeout [] devs = None"
| "retry_loop body timeout ((p, elapsed) # as) devs =
     (case body p devs of
        (Inl e, devs') \<Rightarrow> Some (devs', Inl e)
      | (Inr busycount, devs') \<Rightarrow>
          if busycount > 0 \<and> positive timeout \<and> time_left elapsed timeout then retry_loop body timeout as devs'
          else Some (devs', Inr busycount))"

definition retry_exit :: "double \<Rightarrow> exit + nat \<Rightarrow> exit" where
  "retry_exit timeout busycount = (case busycount of
       Inl e \<Rightarrow> e
     | Inr b \<Rightarrow> if b > 0 \<and> positive timeout then Exit 1 else Exit 0)"

text \<open>The bodies of the loops; without libcxi nothing is destroyed.\<close>

definition epilog_body ::
  "command \<Rightarrow> nat \<Rightarrow> json \<Rightarrow> cxi_pass \<Rightarrow> cxi_dev list \<Rightarrow> (exit + nat) \<times> cxi_dev list" where
  "epilog_body c uid vnis_arr p devs =
     (if c_cxi c then destroy_cxi_service p (c_dry_run c) False (match_reservation uid vnis_arr) devs else (Inr 0, devs))"

definition clean_body ::
  "'i idset_api \<Rightarrow> command \<Rightarrow> 'i \<Rightarrow> cxi_pass \<Rightarrow> cxi_dev list \<Rightarrow> (exit + nat) \<times> cxi_dev list" where
  "clean_body api c vnipool p devs =
     (if c_cxi c then destroy_cxi_service p (c_dry_run c) True (match_vnipool api (Some vnipool)) devs else (Inr 0, devs))"

text \<open>\<open>None\<close>: the loop has not ended within the attempts.\<close>

definition cmd_epilog ::
  "'i slingshot_libs \<Rightarrow> command \<Rightarrow> attempt list \<Rightarrow> cxi_dev list \<Rightarrow> (cxi_dev list \<times> exit) option" where
  "cmd_epilog L c attempts devs =
     (if c_free_args c then Some (devs, fatal)
      else case parse_job L c of
        Inl e \<Rightarrow> Some (devs, e)
      | Inr (i, uid) \<Rightarrow> (case parse_retry (l_floats L) (c_retry_busy c) of
          Inl e \<Rightarrow> Some (devs, e)
        | Inr timeout \<Rightarrow>
            if \<not> c_broker c then Some (devs, fatal)
            else (case wait_reservation (l_loads L) (l_timed_out L) (c_watch c) of
               Inl e \<Rightarrow> Some (devs, e)
             | Inr None \<Rightarrow> Some (devs, Exit 0)
             | Inr (Some res) \<Rightarrow> (case parse_reservation_vnis res of
                 None \<Rightarrow> Some (devs, fatal)
               | Some vnis_arr \<Rightarrow>
                   if json_array_size vnis_arr = 0 then Some (devs, Exit 0)
                   else map_option (map_prod id (retry_exit timeout))
                     (retry_loop (epilog_body c uid vnis_arr) timeout attempts devs)))))"

text \<open>\<open>c_config\<close>: the configuration object, if the broker sends it.\<close>

definition lookup_vnipool :: "'i idset_api \<Rightarrow> json option \<Rightarrow> exit + 'i" where
  "lookup_vnipool api config = (case config of
       None \<Rightarrow> Inl fatal
     | Some obj \<Rightarrow>
         let vnipool = (case Option.bind (json_object_get obj ''cray-slingshot'')
               (\<lambda>t. unpack_member json_string_value t ''vni-pool'') of
             None \<Rightarrow> VNIPOOL_DEFAULT | Some str \<Rightarrow> str) in
         (case idset_decode api vnipool of None \<Rightarrow> Inl fatal | Some ids \<Rightarrow> Inr ids))"

definition cmd_clean ::
  "'i slingshot_libs \<Rightarrow> command \<Rightarrow> attempt list \<Rightarrow> cxi_dev list \<Rightarrow> (cxi_dev list \<times> exit) option" where
  "cmd_clean L c attempts devs =
     (if c_free_args c then Some (devs, fatal)
      else case parse_retry (l_floats L) (c_retry_busy c) of
        Inl e \<Rightarrow> Some (devs, e)
      | Inr timeout \<Rightarrow>
          if \<not> c_broker c then Some (devs, fatal)
          else (case lookup_vnipool (l_idsets L) (c_config c) of
             Inl e \<Rightarrow> Some (devs, e)
           | Inr vnipool \<Rightarrow> map_option (map_prod id (retry_exit timeout))
               (retry_loop (clean_body (l_idsets L) c vnipool) timeout attempts devs)))"

text \<open>\<^verbatim>\<open>cmd_jobinfo\<close>: the text that it prints, with \<open>dumps\<close> for \<^verbatim>\<open>json_dumps\<close>.\<close>

definition cmd_jobinfo :: "'i slingshot_libs \<Rightarrow> (json \<Rightarrow> string option) \<Rightarrow> command \<Rightarrow> string option \<times> exit" where
  "cmd_jobinfo L dumps c =
     (if c_free_args c then (None, fatal)
      else case parse_jobid (l_jobid L) (c_jobid c) of
        Inl e \<Rightarrow> (None, e)
      | Inr i \<Rightarrow>
          if \<not> c_broker c then (None, fatal)
          else (case wait_reservation (l_loads L) (l_timed_out L) (c_watch c) of
             Inl e \<Rightarrow> (None, e)
           | Inr None \<Rightarrow> (None, fatal)
           | Inr (Some res) \<Rightarrow> (case dumps res of None \<Rightarrow> (None, fatal) | Some str \<Rightarrow> (Some str, Exit 0))))"


section \<open>The loops that retry\<close>

lemma retry_loop_step:
  "retry_loop body timeout ((p, el) # as) devs = Some (devs', res) \<Longrightarrow> body p devs = (r, ds) \<Longrightarrow>
     (devs' = ds \<and> res = r) \<or> retry_loop body timeout as ds = Some (devs', res)"
  by (cases r) (simp_all split: if_splits)

text \<open>What every pass keeps, the whole loop keeps; and its last pass gave the final result.\<close>

lemma retry_loop_rel:
  assumes "\<forall>p ds r ds'. P ds \<longrightarrow> body p ds = (r, ds') \<longrightarrow> R ds ds' \<and> P ds'"
    and "\<forall>ds. R ds ds" and "\<forall>a b c. R a b \<longrightarrow> R b c \<longrightarrow> R a c"
  shows "retry_loop body timeout as devs = Some (devs', res) \<Longrightarrow> P devs \<Longrightarrow> R devs devs'"
proof (induction as arbitrary: devs)
  case (Cons a as)
  obtain p el where a: "a = (p, el)" by (cases a)
  obtain r ds where B: "body p devs = (r, ds)" by (cases "body p devs")
  have 1: "R devs ds \<and> P ds" using assms(1) B Cons.prems(2) by blast
  from retry_loop_step [OF Cons.prems(1)[unfolded a] B]
  consider "devs' = ds" | "retry_loop body timeout as ds = Some (devs', res)" by blast
  then show ?case
  proof cases
    case 1
    then show ?thesis using \<open>R devs ds \<and> P ds\<close> by simp
  next
    case 2
    with 1 Cons.IH assms(3) show ?thesis by blast
  qed
qed simp

lemma retry_loop_last:
  assumes "\<forall>p ds r ds'. P ds \<longrightarrow> body p ds = (r, ds') \<longrightarrow> P ds'"
  shows "retry_loop body timeout as devs = Some (devs', res) \<Longrightarrow> P devs \<Longrightarrow>
    \<exists>p el ds. (p, el) \<in> set as \<and> P ds \<and> body p ds = (res, devs')"
proof (induction as arbitrary: devs)
  case (Cons a as)
  obtain p el where a: "a = (p, el)" by (cases a)
  obtain r ds where B: "body p devs = (r, ds)" by (cases "body p devs")
  have P: "P ds" using assms B Cons.prems(2) by blast
  from retry_loop_step [OF Cons.prems(1)[unfolded a] B]
  consider "devs' = ds" "res = r" | "retry_loop body timeout as ds = Some (devs', res)" by blast
  then show ?case
  proof cases
    case 1
    then show ?thesis using B Cons.prems(2) a by auto
  next
    case 2
    from Cons.IH [OF this P] show ?thesis by auto
  qed
qed simp

text \<open>
  Each further attempt comes at least a second after the one before, so a finite timeout of \<open>r\<close>
  seconds is over after at most \<open>r + 1\<close> attempts.
\<close>

lemma retry_loop_ends:
  assumes "timeout \<noteq> Infinite False" and "\<forall>r. timeout = Finite r \<longrightarrow> r + 1 \<le> real n + real (length as)"
  shows "as \<noteq> [] \<Longrightarrow> \<forall>k < length as. 1000 * (real n + real k) \<le> snd (as ! k) \<Longrightarrow>
    \<exists>res. retry_loop body timeout as devs = Some res"
  using assms(2)
proof (induction as arbitrary: n devs)
  case (Cons a as)
  obtain p el where a: "a = (p, el)" by (cases a)
  obtain r ds where B: "body p devs = (r, ds)" by (cases "body p devs")
  have el: "1000 * real n \<le> el" using Cons.prems(2) a by (auto dest: spec [of _ 0])
  show ?case
  proof (cases "\<exists>b. r = Inr b \<and> b > 0 \<and> positive timeout \<and> time_left el timeout")
    case False
    then show ?thesis by (auto simp: a B split: sum.split)
  next
    case True
    then obtain b where b: "r = Inr b" "b > 0" "positive timeout" "time_left el timeout" by blast
    obtain t where t: "timeout = Finite t" "el < t * 1000"
      using b(3,4) assms(1) by (cases timeout) (simp_all add: time_left_def positive_def)
    from Cons.prems(3) t(1) have "t + 1 \<le> real n + real (length (a # as))" by blast
    with t(2) el have "as \<noteq> []" by (cases as) simp_all
    moreover have "\<forall>k < length as. 1000 * (real (Suc n) + real k) \<le> snd (as ! k)"
    proof (intro allI impI)
      fix k assume "k < length as"
      then have "1000 * (real n + real (Suc k)) \<le> snd ((a # as) ! Suc k)"
        using Cons.prems(2) by (simp only: length_Cons Suc_less_eq)
      then show "1000 * (real (Suc n) + real k) \<le> snd (as ! k)" by (simp add: algebra_simps)
    qed
    moreover have "\<forall>r. timeout = Finite r \<longrightarrow> r + 1 \<le> real (Suc n) + real (length as)"
      using Cons.prems(3) by auto
    ultimately obtain res where "retry_loop body timeout as ds = Some res" using Cons.IH by blast
    with b show ?thesis by (simp add: a B)
  qed
qed simp

end
