(* ===== verification/SlingshotShell.thy ===== *)
theory SlingshotShell
  imports Cxi Eventlog Shell
begin

unbundle bit_operations_syntax

text \<open>
  The shell plugin \<^verbatim>\<open>src/shell/plugins/cray-slingshot.c\<close>: it sets the \<^verbatim>\<open>SLINGSHOT_*\<close> variables of a
  job, from the environment of the broker, from the VNI reservation in the eventlog of the job
  together with the CXI services that the prolog created for it, or not at all.
\<close>

section \<open>Lists as text\<close>

definition tcmask_default :: int where
  "tcmask_default = 0xf"

text \<open>
  The entries are strings in all uses; for another entry the C function would pass \<^verbatim>\<open>NULL\<close> to
  \<^verbatim>\<open>argz_add\<close>.
\<close>

definition stringify_json_string_array :: "json list \<Rightarrow> string option" where
  "stringify_json_string_array es = map_option (argz_stringify (CHR '','')) (those (map json_string_value es))"

text \<open>
  \<open>dumps\<close> is \<^verbatim>\<open>json_dumps\<close> of an array with \<^verbatim>\<open>JSON_EMBED | JSON_COMPACT\<close>; \<^verbatim>\<open>json_array_size\<close> is 0 for
  other values.
\<close>

definition setenv_json_int_array :: "(json list \<Rightarrow> string option) \<Rightarrow> string \<Rightarrow> json \<Rightarrow> int shell" where
  "setenv_json_int_array dumps name j =
     (case j of
        JArray (e # es) \<Rightarrow> (case dumps (e # es) of
            None \<Rightarrow> State_Monad.return (-1)
          | Some str \<Rightarrow> do { ok \<leftarrow> setenv name str; State_Monad.return (if ok then 0 else -1) })
      | _ \<Rightarrow> State_Monad.return 0)"

definition setenv_json_string_array :: "string \<Rightarrow> json \<Rightarrow> int shell" where
  "setenv_json_string_array name j =
     (case j of
        JArray (e # es) \<Rightarrow> (case stringify_json_string_array (e # es) of
            None \<Rightarrow> State_Monad.return (-1)
          | Some str \<Rightarrow> do { ok \<leftarrow> setenv name str; State_Monad.return (if ok then 0 else -1) })
      | _ \<Rightarrow> State_Monad.return 0)"

text \<open>The output of \<^verbatim>\<open>printf ("%x")\<close>.\<close>

definition hex_char :: "nat \<Rightarrow> char" where
  "hex_char d = (if d < 10 then char_of (48 + d) else char_of (87 + d))"

fun hex_of_nat :: "nat \<Rightarrow> string" where
  "hex_of_nat n = (if n < 16 then [hex_char n] else hex_of_nat (n div 16) @ [hex_char (n mod 16)])"

declare hex_of_nat.simps [simp del]

section \<open>Services of the devices\<close>

definition tcmask_from_desc :: "traffic_classes \<Rightarrow> cxi_svc_desc \<Rightarrow> int" where
  "tcmask_from_desc tc desc =
     (let class_bits = (\<lambda>_. 0)(dedicated_access tc := 1, low_latency tc := 2, bulk_data tc := 4, best_effort tc := 8)
      in fold (\<lambda>i mask. if tcs desc i then mask OR class_bits i else mask) [0..<tc_max tc] (0 :: int))"

text \<open>\<open>mem\<close>: whether there is memory for the new entry.\<close>

definition array_append_int :: "bool \<Rightarrow> json list \<Rightarrow> int \<Rightarrow> json list option" where
  "array_append_int mem es v = (if mem then Some (es @ [JInt v]) else None)"

definition array_append_str :: "bool \<Rightarrow> json list \<Rightarrow> string \<Rightarrow> json list option" where
  "array_append_str mem es v = (if mem then Some (es @ [JString v]) else None)"

definition match_cxi_service :: "cxi_svc_desc \<Rightarrow> json \<Rightarrow> bool" where
  "match_cxi_service desc vnis_arr =
     (if \<not> enable desc \<or> is_system_svc desc then False else same_vnis desc vnis_arr)"

text \<open>\<open>svc_list\<close>: the services of the device, or \<open>None\<close> when it cannot be opened or queried.\<close>

definition append_cxi_service_match ::
  "traffic_classes \<Rightarrow> bool \<Rightarrow> json list \<Rightarrow> cxi_svc_desc list option \<Rightarrow> json \<Rightarrow> int \<Rightarrow> (json list \<times> int) option" where
  "append_cxi_service_match tc mem svcs svc_list vnis_arr tcmask = (case svc_list of
       None \<Rightarrow> None
     | Some descs \<Rightarrow>
         let (found, match_tcmask) = (case find (\<lambda>d. match_cxi_service d vnis_arr) descs of
               None \<Rightarrow> (-1, tcmask_default)
             | Some d \<Rightarrow> (svc_id d, tcmask_from_desc tc d)) in
         (case array_append_int mem svcs found of
            None \<Rightarrow> None
          | Some svcs' \<Rightarrow> Some (svcs', tcmask AND match_tcmask)))"

record nic =
  device_name :: string
  nic_services :: "cxi_svc_desc list option"
  nic_mem :: "bool \<times> bool"

fun add_devices ::
  "traffic_classes \<Rightarrow> nic list \<Rightarrow> json list \<Rightarrow> json list \<Rightarrow> json \<Rightarrow> int \<Rightarrow> (json list \<times> json list \<times> int) option" where
  "add_devices tc [] devs svcs vnis_arr tcmask = Some (devs, svcs, tcmask)"
| "add_devices tc (d # ds) devs svcs vnis_arr tcmask =
     (case array_append_str (fst (nic_mem d)) devs (device_name d) of
        None \<Rightarrow> None
      | Some devs' \<Rightarrow> (case append_cxi_service_match tc (snd (nic_mem d)) svcs (nic_services d) vnis_arr tcmask of
          None \<Rightarrow> None
        | Some (svcs', tcmask') \<Rightarrow> add_devices tc ds devs' svcs' vnis_arr tcmask'))"

section \<open>The three modes\<close>

text \<open>
  What the plugin finds on the node: the constants and, when the plugin is built with libcxi, the
  list of devices (or that it cannot be read).
\<close>

record cxi_node =
  classes :: traffic_classes
  with_cxi :: bool
  nics :: "nic list option"

definition find_devices :: "cxi_node \<Rightarrow> json \<Rightarrow> (json list \<times> json list \<times> int) option" where
  "find_devices node vnis_arr =
     (if with_cxi node
      then (case nics node of None \<Rightarrow> None | Some ds \<Rightarrow> add_devices (classes node) ds [] [] vnis_arr tcmask_default)
      else Some ([], [], tcmask_default))"

text \<open>The chain of calls that set the variables of a reservation.\<close>

definition set_reservation ::
  "(json list \<Rightarrow> string option) \<Rightarrow> json \<Rightarrow> json list \<Rightarrow> json list \<Rightarrow> int \<Rightarrow> int shell" where
  "set_reservation dumps vnis_arr devices cxi_svc tcmask = do {
     a \<leftarrow> setenv_json_int_array dumps ''SLINGSHOT_VNIS'' vnis_arr;
     if a < 0 then State_Monad.return (-1) else do {
     b \<leftarrow> setenv_json_string_array ''SLINGSHOT_DEVICES'' (JArray devices);
     if b < 0 then State_Monad.return (-1) else do {
     c \<leftarrow> setenv_json_int_array dumps ''SLINGSHOT_SVC_IDS'' (JArray cxi_svc);
     if c < 0 then State_Monad.return (-1) else do {
     ok \<leftarrow> setenv ''SLINGSHOT_TCS'' (''0x'' @ hex_of_nat (nat tcmask));
     State_Monad.return (if ok then 0 else -1)
     }}}}"

text \<open>\<open>None\<close>: the wait for the event never ends.\<close>

definition cray_slingshot_reserved ::
  "(json list \<Rightarrow> string option) \<Rightarrow> (string \<Rightarrow> json option) \<Rightarrow> string \<Rightarrow> cxi_node \<Rightarrow> arrival list \<Rightarrow> environment \<Rightarrow>
    (int \<times> environment) option" where
  "cray_slingshot_reserved dumps loads timed_out node f_event s =
     (case eventlog_wait_for loads timed_out ''cray-slingshot'' (-1) f_event of
        WaitHangs \<Rightarrow> None
      | WaitFails _ \<Rightarrow> Some (-1, s)
      | WaitDone None \<Rightarrow> Some (1, s)
      | WaitDone (Some res) \<Rightarrow> (case json_object_get res ''vnis'' of
          None \<Rightarrow> Some (-1, s)
        | Some vnis_arr \<Rightarrow> (case find_devices node vnis_arr of
            None \<Rightarrow> Some (-1, s)
          | Some (devices, cxi_svc, tcmask) \<Rightarrow>
              Some (run_state (set_reservation dumps vnis_arr devices cxi_svc tcmask) s))))"

text \<open>The variables of the broker, or the error of the request for them.\<close>

record broker_env =
  b_vnis :: "string option"
  b_devices :: "string option"
  b_svc_ids :: "string option"
  b_tcs :: "string option"

definition cray_slingshot_inherit :: "errno + broker_env \<Rightarrow> int shell" where
  "cray_slingshot_inherit f_getenv = (case f_getenv of
       Inl e \<Rightarrow> State_Monad.return (if e \<noteq> EPERM \<and> e \<noteq> ENOSYS then -1 else 1)
     | Inr b \<Rightarrow> (case b_vnis b of
          None \<Rightarrow> State_Monad.return 1
        | Some v \<Rightarrow> do {
            ok \<leftarrow> setenvs ((''SLINGSHOT_VNIS'', v) #
              (case b_devices b of None \<Rightarrow> [] | Some d \<Rightarrow> [(''SLINGSHOT_DEVICES'', d)]) @
              (case b_svc_ids b of None \<Rightarrow> [] | Some i \<Rightarrow> [(''SLINGSHOT_SVC_IDS'', i)]) @
              (case b_tcs b of None \<Rightarrow> [] | Some t \<Rightarrow> [(''SLINGSHOT_TCS'', t)]));
            State_Monad.return (if ok then 0 else -1)
          }))"

definition shell_post_init_cb ::
  "(json list \<Rightarrow> string option) \<Rightarrow> (string \<Rightarrow> json option) \<Rightarrow> string \<Rightarrow> cxi_node \<Rightarrow> arrival list \<Rightarrow>
    errno + broker_env \<Rightarrow> environment \<Rightarrow> (int \<times> environment) option" where
  "shell_post_init_cb dumps loads timed_out node f_event f_getenv s =
     (case run_state (cray_slingshot_inherit f_getenv) s of
        (rc, s1) \<Rightarrow>
          if rc \<le> 0 then Some (rc, s1)
          else (case cray_slingshot_reserved dumps loads timed_out node f_event s1 of
             None \<Rightarrow> None
           | Some (rc2, s2) \<Rightarrow> if rc2 \<le> 0 then Some (rc2, s2) else Some (0, s2)))"

section \<open>Initialisation\<close>

text \<open>\<open>watch\<close>, \<open>request\<close>: whether the two requests can be sent; otherwise the shell ends (\<open>None\<close>).\<close>

definition shell_init_cb :: "bool \<Rightarrow> bool \<Rightarrow> int option" where
  "shell_init_cb watch request = (if \<not> watch then None else if \<not> request then None else Some 0)"

record cray_slingshot_options =
  off :: bool
  vnicount :: int

text \<open>
  \<open>options\<close>: the value of the option, if it was given (outer \<open>None\<close>: it cannot be unpacked). The
  closing \<^verbatim>\<open>!\<close> refuses other members.
\<close>

definition cray_slingshot_parse_args :: "json option option \<Rightarrow> (errno + cray_slingshot_options)" where
  "cray_slingshot_parse_args options = (case options of
       None \<Rightarrow> Inl EINVAL
     | Some None \<Rightarrow> Inr \<lparr>off = False, vnicount = 0\<rparr>
     | Some (Some (JString val)) \<Rightarrow> if val = ''off'' then Inr \<lparr>off = True, vnicount = 0\<rparr> else Inl EINVAL
     | Some (Some (JObject kvs)) \<Rightarrow>
         if \<not> fst ` set kvs \<subseteq> {''vnicount''} then Inl EINVAL
         else (case json_object_get (JObject kvs) ''vnicount'' of
            None \<Rightarrow> Inr \<lparr>off = False, vnicount = 0\<rparr>
          | Some (JInt i) \<Rightarrow> Inr \<lparr>off = False, vnicount = signed_take_bit 31 i\<rparr>
          | Some _ \<Rightarrow> Inl EINVAL)
     | Some (Some _) \<Rightarrow> Inl EINVAL)"

definition slingshot_names :: "string list" where
  "slingshot_names = [''SLINGSHOT_VNIS'', ''SLINGSHOT_DEVICES'', ''SLINGSHOT_SVC_IDS'', ''SLINGSHOT_TCS'']"

text \<open>
  \<open>registered k\<close> is the outcome of the \<open>k\<close>-th call into the shell, \<open>created\<close> whether the context can
  be created. The flag of the result tells whether the plugin is active.
\<close>

definition slingshot_shell_plugin_init ::
  "(nat \<Rightarrow> bool) \<Rightarrow> bool \<Rightarrow> json option option \<Rightarrow> environment \<Rightarrow> int \<times> bool \<times> environment" where
  "slingshot_shell_plugin_init registered created options s =
     (if \<not> registered 0 \<or> \<not> registered 1 then (-1, False, s)
      else if \<not> created \<or> \<not> registered 2 then (-1, False, s)
      else case cray_slingshot_parse_args options of
        Inl _ \<Rightarrow> (-1, False, s)
      | Inr opt \<Rightarrow>
          if off opt then (0, False, s)
          else (case run_state (unsetenvs slingshot_names) s of
             (_, s1) \<Rightarrow> if \<not> registered 3 \<or> \<not> registered 4 then (-1, False, s1) else (0, True, s1)))"

section \<open>The services that are found\<close>

text \<open>The contract: for each device the first service for the VNIs, or -1.\<close>

definition chosen :: "json \<Rightarrow> cxi_svc_desc list \<Rightarrow> cxi_svc_desc option" where
  "chosen vnis_arr descs = find (\<lambda>d. match_cxi_service d vnis_arr) descs"

definition chosen_id :: "json \<Rightarrow> cxi_svc_desc list \<Rightarrow> int" where
  "chosen_id vnis_arr descs = (case chosen vnis_arr descs of None \<Rightarrow> -1 | Some d \<Rightarrow> svc_id d)"

definition chosen_mask :: "traffic_classes \<Rightarrow> json \<Rightarrow> cxi_svc_desc list \<Rightarrow> int" where
  "chosen_mask tc vnis_arr descs = (case chosen vnis_arr descs of None \<Rightarrow> tcmask_default | Some d \<Rightarrow> tcmask_from_desc tc d)"

text \<open>Devices that can be read, on a node with enough memory.\<close>

definition readable :: "nic \<Rightarrow> bool" where
  "readable d \<longleftrightarrow> nic_services d \<noteq> None \<and> nic_mem d = (True, True)"

abbreviation services_of :: "nic \<Rightarrow> cxi_svc_desc list" where
  "services_of d \<equiv> the (nic_services d)"

lemma append_match:
  "append_cxi_service_match tc True svcs (Some descs) vnis_arr m
    = Some (svcs @ [JInt (chosen_id vnis_arr descs)], m AND chosen_mask tc vnis_arr descs)"
  by (simp add: append_cxi_service_match_def array_append_int_def chosen_id_def chosen_mask_def chosen_def
      split: option.split)

lemma add_devices_result:
  assumes "list_all readable ds"
  shows "add_devices tc ds devs svcs vnis_arr m = Some (devs @ map (JString \<circ> device_name) ds,
     svcs @ map (JInt \<circ> chosen_id vnis_arr \<circ> services_of) ds,
     fold (\<lambda>d k. k AND chosen_mask tc vnis_arr (services_of d)) ds m)"
  using assms
proof (induction ds arbitrary: devs svcs m)
  case (Cons d ds)
  then obtain descs where "nic_services d = Some descs" "nic_mem d = (True, True)"
    by (auto simp: readable_def)
  with Cons show ?case by (simp add: array_append_str_def append_match)
qed simp

lemma bit_fold_and:
  "bit (fold (\<lambda>d k. k AND f d) ds (m :: int)) b \<longleftrightarrow> bit m b \<and> (\<forall>d \<in> set ds. bit (f d) b)"
  by (induction ds arbitrary: m) (auto simp: bit_and_iff)

lemma bit_fold_or:
  "bit (fold (\<lambda>i k. if p i then k OR g i else k) is (m :: int)) b \<longleftrightarrow> bit m b \<or> (\<exists>i \<in> set is. p i \<and> bit (g i) b)"
  by (induction "is" arbitrary: m) (auto simp: bit_or_iff)

definition proper_classes :: "traffic_classes \<Rightarrow> bool" where
  "proper_classes tc \<longleftrightarrow> distinct [dedicated_access tc, low_latency tc, bulk_data tc, best_effort tc]
     \<and> (\<forall>c \<in> {dedicated_access tc, low_latency tc, bulk_data tc, best_effort tc}. c < tc_max tc)"

definition class_of_bit :: "traffic_classes \<Rightarrow> nat \<Rightarrow> nat" where
  "class_of_bit tc b = [dedicated_access tc, low_latency tc, bulk_data tc, best_effort tc] ! b"

lemma bits_of_mask_constants:
  "bit (1 :: int) b \<longleftrightarrow> b = 0" "bit (2 :: int) b \<longleftrightarrow> b = 1" "bit (4 :: int) b \<longleftrightarrow> b = 2" "bit (8 :: int) b \<longleftrightarrow> b = 3"
  "bit (0xf :: int) b \<longleftrightarrow> b < 4"
proof -
  have p: "bit ((2 :: int) ^ n) b \<longleftrightarrow> b = n" for n by (auto simp: bit_exp_iff)
  show "bit (1 :: int) b \<longleftrightarrow> b = 0" "bit (2 :: int) b \<longleftrightarrow> b = 1" "bit (4 :: int) b \<longleftrightarrow> b = 2" "bit (8 :: int) b \<longleftrightarrow> b = 3"
    using p [of 0] p [of 1] p [of 2] p [of 3] by simp_all
  have e: "(0xf :: int) = mask 4" by (simp add: mask_eq_exp_minus_1)
  show "bit (0xf :: int) b \<longleftrightarrow> b < 4" unfolding e bit_mask_iff by simp
qed

lemma bit_tcmask:
  assumes "proper_classes tc"
  shows "bit (tcmask_from_desc tc desc) b \<longleftrightarrow> b < 4 \<and> tcs desc (class_of_bit tc b)"
proof -
  let ?g = "(\<lambda>_. 0)(dedicated_access tc := 1, low_latency tc := 2, bulk_data tc := 4, best_effort tc := (8 :: int))"
  have g: "bit (?g i) b \<longleftrightarrow> b < 4 \<and> i = class_of_bit tc b" for i
    using assms by (auto simp: proper_classes_def class_of_bit_def bits_of_mask_constants nth_Cons' )
  have c: "class_of_bit tc b < tc_max tc" if "b < 4"
    using assms that by (auto simp: proper_classes_def class_of_bit_def nth_Cons')
  have "bit (tcmask_from_desc tc desc) b \<longleftrightarrow> (\<exists>i \<in> {0..<tc_max tc}. tcs desc i \<and> bit (?g i) b)"
    unfolding tcmask_from_desc_def Let_def by (subst bit_fold_or) simp
  with g c show ?thesis by auto
qed

section \<open>What the job gets\<close>

definition slingshot_vars ::
  "string option \<Rightarrow> string option \<Rightarrow> string option \<Rightarrow> string option \<Rightarrow> (string \<rightharpoonup> string) \<Rightarrow> (string \<rightharpoonup> string)" where
  "slingshot_vars v d i t m = m(''SLINGSHOT_VNIS'' := v, ''SLINGSHOT_DEVICES'' := d, ''SLINGSHOT_SVC_IDS'' := i,
     ''SLINGSHOT_TCS'' := t)"

definition comma_ints :: "int list \<Rightarrow> string option" where
  "comma_ints is = (if is = [] then None else Some (argz_stringify (CHR '','') (map dec_of_int is)))"

definition comma_names :: "string list \<Rightarrow> string option" where
  "comma_names es = (if es = [] then None else Some (argz_stringify (CHR '','') es))"

lemma run_inherit:
  assumes "memory_ok s"
  shows "\<exists>s1. memory_ok s1 \<and> (case f_getenv of
      Inl e \<Rightarrow> run_state (cray_slingshot_inherit f_getenv) s = (if e \<noteq> EPERM \<and> e \<noteq> ENOSYS then -1 else 1, s1) \<and> s1 = s
    | Inr b \<Rightarrow> (case b_vnis b of
         None \<Rightarrow> run_state (cray_slingshot_inherit f_getenv) s = (1, s1) \<and> s1 = s
       | Some v \<Rightarrow> run_state (cray_slingshot_inherit f_getenv) s = (0, s1)
           \<and> vars s1 = vars s ++ [''SLINGSHOT_VNIS'' \<mapsto> v]
             ++ (case b_devices b of None \<Rightarrow> Map.empty | Some d \<Rightarrow> [''SLINGSHOT_DEVICES'' \<mapsto> d])
             ++ (case b_svc_ids b of None \<Rightarrow> Map.empty | Some i \<Rightarrow> [''SLINGSHOT_SVC_IDS'' \<mapsto> i])
             ++ (case b_tcs b of None \<Rightarrow> Map.empty | Some t \<Rightarrow> [''SLINGSHOT_TCS'' \<mapsto> t])))"
proof -
  have m: "set_ok s n" for n using assms by simp
  have mm: "memory_ok (s\<lparr>vars := x, set_count := k\<rparr>)" for x k using assms by (simp add: memory_ok_def)
  show ?thesis
  proof (cases f_getenv)
    case (Inl e)
    then show ?thesis using assms by (simp add: cray_slingshot_inherit_def)
  next
    case (Inr b)
    then show ?thesis
      using assms mm
      by (cases "b_vnis b"; cases "b_devices b"; cases "b_svc_ids b"; cases "b_tcs b")
        (simp_all add: cray_slingshot_inherit_def m)
  qed
qed

lemma map_dumps:
  assumes "\<And>is. dumps (map JInt is) = Some (argz_stringify (CHR '','') (map dec_of_int is))"
  shows "dumps (JInt i # map JInt is) = Some (argz_stringify (CHR '','') (map dec_of_int (i # is)))"
  using assms [of "i # is"] by simp

lemma run_set_int_array:
  assumes "memory_ok s" and "\<And>is. dumps (map JInt is) = Some (argz_stringify (CHR '','') (map dec_of_int is))"
  shows "\<exists>s1. run_state (setenv_json_int_array dumps name (JArray (map JInt is))) s = (0, s1) \<and> memory_ok s1
    \<and> vars s1 = (case comma_ints is of None \<Rightarrow> vars s | Some t \<Rightarrow> (vars s)(name \<mapsto> t))"
proof (cases "is")
  case (Cons i k)
  with assms(1) map_dumps [of dumps, OF assms(2), of i k] show ?thesis
    by (simp add: setenv_json_int_array_def comma_ints_def memory_ok_def)
qed (use assms(1) in \<open>simp add: setenv_json_int_array_def comma_ints_def\<close>)

lemma those_strings: "those (map json_string_value (map JString es)) = Some es"
  by (induction es) simp_all

lemma run_set_string_array:
  assumes "memory_ok s"
  shows "\<exists>s1. run_state (setenv_json_string_array name (JArray (map JString es))) s = (0, s1) \<and> memory_ok s1
    \<and> vars s1 = (case comma_names es of None \<Rightarrow> vars s | Some t \<Rightarrow> (vars s)(name \<mapsto> t))"
proof (cases es)
  case (Cons e k)
  with assms those_strings [of es] show ?thesis
    by (simp add: setenv_json_string_array_def comma_names_def memory_ok_def stringify_json_string_array_def)
qed (use assms in \<open>simp add: setenv_json_string_array_def comma_names_def\<close>)

lemma run_set_reservation:
  assumes "memory_ok s" and "\<And>is. dumps (map JInt is) = Some (argz_stringify (CHR '','') (map dec_of_int is))"
    and "vars s ''SLINGSHOT_VNIS'' = None" "vars s ''SLINGSHOT_DEVICES'' = None" "vars s ''SLINGSHOT_SVC_IDS'' = None"
  shows "\<exists>s1. run_state (set_reservation dumps (JArray (map JInt ns)) (map JString es) (map JInt is) tm) s = (0, s1)
    \<and> vars s1 = slingshot_vars (comma_ints ns) (comma_names es) (comma_ints is) (Some (''0x'' @ hex_of_nat (nat tm))) (vars s)"
proof -
  obtain s1 where 1: "run_state (setenv_json_int_array dumps ''SLINGSHOT_VNIS'' (JArray (map JInt ns))) s = (0, s1)"
    "memory_ok s1" "vars s1 = (case comma_ints ns of None \<Rightarrow> vars s | Some t \<Rightarrow> (vars s)(''SLINGSHOT_VNIS'' \<mapsto> t))"
    using run_set_int_array [OF assms(1,2)] by blast
  obtain s2 where 2: "run_state (setenv_json_string_array ''SLINGSHOT_DEVICES'' (JArray (map JString es))) s1 = (0, s2)"
    "memory_ok s2" "vars s2 = (case comma_names es of None \<Rightarrow> vars s1 | Some t \<Rightarrow> (vars s1)(''SLINGSHOT_DEVICES'' \<mapsto> t))"
    using run_set_string_array [OF 1(2)] by blast
  obtain s3 where 3: "run_state (setenv_json_int_array dumps ''SLINGSHOT_SVC_IDS'' (JArray (map JInt is))) s2 = (0, s3)"
    "memory_ok s3" "vars s3 = (case comma_ints is of None \<Rightarrow> vars s2 | Some t \<Rightarrow> (vars s2)(''SLINGSHOT_SVC_IDS'' \<mapsto> t))"
    using run_set_int_array [OF 2(2) assms(2)] by blast
  show ?thesis
    using 1 2 3 assms(3-5)
    by (auto simp: set_reservation_def slingshot_vars_def fun_eq_iff split: option.splits)
qed

text \<open>What a reservation of the VNIs \<open>ns\<close> gives on a node with the devices \<open>ds\<close>.\<close>

definition reserved_vars :: "traffic_classes \<Rightarrow> int list \<Rightarrow> nic list \<Rightarrow> (string \<rightharpoonup> string) \<Rightarrow> (string \<rightharpoonup> string)" where
  "reserved_vars tc ns ds = (let arr = JArray (map JInt ns) in
     slingshot_vars (comma_ints ns) (comma_names (map device_name ds)) (comma_ints (map (chosen_id arr \<circ> services_of) ds))
       (Some (''0x'' @ hex_of_nat (nat (fold (\<lambda>d k. k AND chosen_mask tc arr (services_of d)) ds tcmask_default)))))"

text \<open>The reserved mode, when the wait for the event gave a reservation.\<close>

lemma reserved_result:
  assumes "memory_ok s" and "\<And>is. dumps (map JInt is) = Some (argz_stringify (CHR '','') (map dec_of_int is))"
    and "vars s ''SLINGSHOT_VNIS'' = None" "vars s ''SLINGSHOT_DEVICES'' = None" "vars s ''SLINGSHOT_SVC_IDS'' = None"
    and "with_cxi node" and "nics node = Some ds" and "list_all readable ds"
    and "eventlog_wait_for loads timed_out ''cray-slingshot'' (-1) as = WaitDone (Some c)"
    and "json_object_get c ''vnis'' = Some (JArray (map JInt ns))"
  shows "\<exists>s2. cray_slingshot_reserved dumps loads timed_out node as s = Some (0, s2)
    \<and> vars s2 = reserved_vars (classes node) ns ds (vars s)"
proof -
  let ?arr = "JArray (map JInt ns)"
  let ?ids = "map (chosen_id ?arr \<circ> services_of) ds"
  let ?tm = "fold (\<lambda>d k. k AND chosen_mask (classes node) ?arr (services_of d)) ds tcmask_default"
  have f: "find_devices node ?arr = Some (map JString (map device_name ds), map JInt ?ids, ?tm)"
    using assms(6-8) by (simp add: find_devices_def add_devices_result)
  obtain s2 where s2: "run_state (set_reservation dumps ?arr (map JString (map device_name ds)) (map JInt ?ids) ?tm) s = (0, s2)"
    "vars s2 = slingshot_vars (comma_ints ns) (comma_names (map device_name ds)) (comma_ints ?ids)
      (Some (''0x'' @ hex_of_nat (nat ?tm))) (vars s)"
    using run_set_reservation [OF assms(1-5), of ns "map device_name ds" ?ids ?tm] by (elim exE conjE)
  have "cray_slingshot_reserved dumps loads timed_out node as s = Some (0, s2)"
    using assms(9,10) s2(1) by (simp only: cray_slingshot_reserved_def f option.case wait_result.case prod.case)
  moreover have "vars s2 = reserved_vars (classes node) ns ds (vars s)"
    unfolding s2(2) reserved_vars_def Let_def ..
  ultimately show ?thesis by blast
qed

text \<open>The outcome when the broker has no VNIs, for a job with the eventlog \<open>es\<close>.\<close>

definition reservation_outcome ::
  "traffic_classes \<Rightarrow> nic list \<Rightarrow> (string \<times> json option) list \<Rightarrow> (string \<rightharpoonup> string) \<Rightarrow> (int \<times> environment) option \<Rightarrow> bool" where
  "reservation_outcome tc ds es m r = (case wait_spec ''cray-slingshot'' es of
       None \<Rightarrow> r = None
     | Some None \<Rightarrow> (\<exists>s2. r = Some (0, s2) \<and> vars s2 = slingshot_vars None None None None m)
     | Some (Some c) \<Rightarrow> (\<forall>ns. json_object_get c ''vnis'' = Some (JArray (map JInt ns)) \<longrightarrow>
         (\<exists>s2. r = Some (0, s2) \<and> vars s2 = reserved_vars tc ns ds m)))"

text \<open>
  A state in which \<^verbatim>\<open>shell.init\<close> has unset the variables; \<open>m\<close> is what the environment was before.
\<close>

definition unset_state :: "(string \<Rightarrow> string option) \<Rightarrow> environment \<Rightarrow> bool" where
  "unset_state m s \<longleftrightarrow> memory_ok s \<and> vars s = m |` (- set slingshot_names)"

lemma unset_vars:
  assumes "unset_state m s"
  shows "memory_ok s" and "vars s = slingshot_vars None None None None m"
    and "slingshot_vars a b c d (vars s) = slingshot_vars a b c d m"
    and "vars s ''SLINGSHOT_VNIS'' = None" and "vars s ''SLINGSHOT_DEVICES'' = None"
    and "vars s ''SLINGSHOT_SVC_IDS'' = None" and "vars s ''SLINGSHOT_TCS'' = None"
  using assms by (auto simp: unset_state_def slingshot_names_def slingshot_vars_def fun_eq_iff restrict_map_def)

lemma init_unsets:
  assumes "memory_ok s" and "slingshot_shell_plugin_init registered created options s = (rc, True, s1)"
  shows "rc = 0 \<and> unset_state (vars s) s1"
  using assms
  by (auto simp: slingshot_shell_plugin_init_def run_unsetenvs unset_state_def memory_ok_def split: if_splits sum.splits)

text \<open>When the broker has no VNIs, the reservation of the job decides.\<close>

lemma reserved_outcome:
  assumes "unset_state m s1" and "list_all2 (holds_entry loads) as es"
    and "\<And>is. dumps (map JInt is) = Some (argz_stringify (CHR '','') (map dec_of_int is))"
    and "with_cxi node" and "nics node = Some ds" and "list_all readable ds"
    and "run_state (cray_slingshot_inherit f_getenv) s1 = (1, s1)"
  shows "reservation_outcome (classes node) ds es m (shell_post_init_cb dumps loads timed_out node as f_getenv s1)"
proof -
  note U = unset_vars [OF assms(1)]
  note W = wait_unlimited [OF assms(2), of "-1" timed_out "''cray-slingshot''"]
  have "\<exists>s2. cray_slingshot_reserved dumps loads timed_out node as s1 = Some (0, s2)
        \<and> vars s2 = reserved_vars (classes node) ns ds m"
    if "wait_spec ''cray-slingshot'' es = Some (Some c)" "json_object_get c ''vnis'' = Some (JArray (map JInt ns))" for c ns
  proof -
    have "eventlog_wait_for loads timed_out ''cray-slingshot'' (-1) as = WaitDone (Some c)" using W that(1) by simp
    from reserved_result [OF U(1) assms(3) U(4-6) assms(4-6) this that(2)]
    show ?thesis by (simp add: reserved_vars_def Let_def U(3))
  qed
  with W have "case wait_spec ''cray-slingshot'' es of
      None \<Rightarrow> cray_slingshot_reserved dumps loads timed_out node as s1 = None
    | Some None \<Rightarrow> cray_slingshot_reserved dumps loads timed_out node as s1 = Some (1, s1)
    | Some (Some c) \<Rightarrow> (\<forall>ns. json_object_get c ''vnis'' = Some (JArray (map JInt ns)) \<longrightarrow>
        (\<exists>s2. cray_slingshot_reserved dumps loads timed_out node as s1 = Some (0, s2)
          \<and> vars s2 = reserved_vars (classes node) ns ds m))"
    by (auto simp: cray_slingshot_reserved_def split: option.split)
  with U(2) assms(7) show ?thesis unfolding reservation_outcome_def
    by (simp add: shell_post_init_cb_def split: option.splits) fastforce+
qed

text \<open>What the broker has is inherited.\<close>

lemma inherit_outcome:
  assumes "unset_state m s1"
  shows "case f_getenv of
      Inl e \<Rightarrow> run_state (cray_slingshot_inherit f_getenv) s1 = (if e \<in> {EPERM, ENOSYS} then 1 else -1, s1)
    | Inr b \<Rightarrow> (case b_vnis b of
         None \<Rightarrow> run_state (cray_slingshot_inherit f_getenv) s1 = (1, s1)
       | Some v \<Rightarrow> \<exists>s2. run_state (cray_slingshot_inherit f_getenv) s1 = (0, s2)
           \<and> vars s2 = slingshot_vars (Some v) (b_devices b) (b_svc_ids b) (b_tcs b) m)"
proof -
  note U = unset_vars [OF assms]
  show ?thesis
  proof (cases f_getenv)
    case (Inl e)
    then show ?thesis using run_inherit [OF U(1), of f_getenv] by auto
  next
    case (Inr b)
    show ?thesis
    proof (cases "b_vnis b")
      case None
      then show ?thesis using run_inherit [OF U(1), of f_getenv] Inr by auto
    next
      case (Some v)
      then obtain s2 where s2: "run_state (cray_slingshot_inherit f_getenv) s1 = (0, s2)"
        "vars s2 = vars s1 ++ [''SLINGSHOT_VNIS'' \<mapsto> v]
             ++ (case b_devices b of None \<Rightarrow> Map.empty | Some d \<Rightarrow> [''SLINGSHOT_DEVICES'' \<mapsto> d])
             ++ (case b_svc_ids b of None \<Rightarrow> Map.empty | Some i \<Rightarrow> [''SLINGSHOT_SVC_IDS'' \<mapsto> i])
             ++ (case b_tcs b of None \<Rightarrow> Map.empty | Some t \<Rightarrow> [''SLINGSHOT_TCS'' \<mapsto> t])"
        using run_inherit [OF U(1), of f_getenv] Inr by auto
      have "vars s2 = slingshot_vars (Some v) (b_devices b) (b_svc_ids b) (b_tcs b) (vars s1)"
        using s2(2) U(4-7)
        by (cases "b_devices b"; cases "b_svc_ids b"; cases "b_tcs b") (simp_all add: slingshot_vars_def fun_eq_iff)
      with s2(1) Inr Some show ?thesis by (simp add: U(3))
    qed
  qed
qed

text \<open>
  C38. The environment that the tasks of a job get. Whatever it held before, the four variables are
  those of the broker when it has VNIs; otherwise those of the reservation of the job: the VNIs, the
  devices of the node, for each device the first enabled user service for these VNIs (or -1), and
  the traffic classes that all these services permit; otherwise none is set. An unexpected error of
  the request to the broker is fatal. All other variables stay as they are.
\<close>

theorem slingshot_environment:
  assumes "memory_ok s" and "list_all2 (holds_entry loads) as es"
    and "\<And>is. dumps (map JInt is) = Some (argz_stringify (CHR '','') (map dec_of_int is))"
    and "slingshot_shell_plugin_init registered created options s = (rc, True, s1)"
    and "with_cxi node" and "nics node = Some ds" and "list_all readable ds"
  shows "rc = 0 \<and> (let r = shell_post_init_cb dumps loads timed_out node as f_getenv s1 in
    case f_getenv of
      Inl e \<Rightarrow> if e \<in> {EPERM, ENOSYS} then reservation_outcome (classes node) ds es (vars s) r
        else (\<exists>s2. r = Some (-1, s2))
    | Inr b \<Rightarrow> (case b_vnis b of
        None \<Rightarrow> reservation_outcome (classes node) ds es (vars s) r
      | Some v \<Rightarrow> (\<exists>s2. r = Some (0, s2)
          \<and> vars s2 = slingshot_vars (Some v) (b_devices b) (b_svc_ids b) (b_tcs b) (vars s))))"
proof -
  have "rc = 0" and u: "unset_state (vars s) s1" using init_unsets [OF assms(1,4)] by simp_all
  moreover note reserved_outcome [OF u assms(2,3,5-7)]
  ultimately show ?thesis
    using inherit_outcome [OF u, of f_getenv]
    by (auto simp: Let_def shell_post_init_cb_def split: sum.splits option.splits if_splits)
qed

text \<open>A printer, a parser and a node for the witnesses.\<close>

definition sample_dumps :: "json list \<Rightarrow> string option" where
  "sample_dumps js = map_option (\<lambda>is. argz_stringify (CHR '','') (map dec_of_int is)) (those (map json_integer_value js))"

lemma sample_dumps_ints: "sample_dumps (map JInt is) = Some (argz_stringify (CHR '','') (map dec_of_int is))"
proof -
  have "those (map json_integer_value (map JInt is)) = Some is" by (induction "is") simp_all
  then show ?thesis by (simp add: sample_dumps_def)
qed

definition reservation_loads :: "string \<Rightarrow> json option" where
  "reservation_loads t = Some (sample_entry ''cray-slingshot'' [(''vnis'', JArray [JInt 3])])"

lemma reservation_holds:
  "holds_entry reservation_loads (sample_arrival ''r'' g t) (''cray-slingshot'', Some (JObject [(''vnis'', JArray [JInt 3])]))"
  by (auto simp: entry_eval reservation_loads_def)

definition sample_service :: cxi_svc_desc where
  "sample_service = \<lparr>svc_id = 3, enable = True, is_system_svc = False, restricted_members = True,
     members = [MemberUid 1000, MemberIgnore], restricted_vnis = True, num_vld_vnis = 1, vnis = [3, 0, 0, 0],
     resource_limits = False, limits = (\<lambda>_. \<lparr>limit_max = 0, limit_res = 0\<rparr>), restricted_tcs = True,
     tcs = (\<lambda>c. c = 3)\<rparr>"

definition sample_nic :: nic where
  "sample_nic = \<lparr>device_name = ''cxi0'', nic_services = Some [sample_service\<lparr>svc_id := 2, is_system_svc := True\<rparr>, sample_service],
     nic_mem = (True, True)\<rparr>"

definition sample_classes :: traffic_classes where
  "sample_classes = \<lparr>dedicated_access = 0, low_latency = 1, bulk_data = 2, best_effort = 3, tc_max = 5\<rparr>"

definition sample_node :: cxi_node where
  "sample_node = \<lparr>classes = sample_classes, with_cxi = True, nics = Some [sample_nic]\<rparr>"

lemma sample_chosen: "chosen_id (JArray [JInt 3]) (services_of sample_nic) = 3"
  by (simp add: chosen_id_def chosen_def sample_nic_def match_cxi_service_def sample_service_def same_vnis_def
      json_array_size_def int_at_def)

lemma slingshot_environment_witness:
  "\<exists>s1 s2. slingshot_shell_plugin_init (\<lambda>_. True) True (Some None)
       \<lparr>vars = [''SLINGSHOT_TCS'' \<mapsto> ''old''], set_ok = (\<lambda>_. True), set_count = 0\<rparr> = (0, True, s1) \<and>
     shell_post_init_cb sample_dumps reservation_loads ''timeout'' sample_node [sample_arrival ''r'' 1 1] (Inl ENOSYS) s1
       = Some (0, s2) \<and> vars s2 ''SLINGSHOT_SVC_IDS'' = Some (dec_of_int 3)"
proof -
  let ?s = "\<lparr>vars = [''SLINGSHOT_TCS'' \<mapsto> ''old''], set_ok = (\<lambda>_. True), set_count = 0\<rparr>"
  have m: "memory_ok ?s" by (simp add: memory_ok_def)
  let ?c = "JObject [(''vnis'', JArray [JInt 3])]"
  have e: "list_all2 (holds_entry reservation_loads) [sample_arrival ''r'' 1 1] [(''cray-slingshot'', Some ?c)]"
    by (simp add: reservation_holds)
  obtain s1 where i: "slingshot_shell_plugin_init (\<lambda>_. True) True (Some None) ?s = (0, True, s1)"
    by (simp add: slingshot_shell_plugin_init_def cray_slingshot_parse_args_def run_unsetenvs)
  have n: "with_cxi sample_node" "nics sample_node = Some [sample_nic]" "list_all readable [sample_nic]"
    by (simp_all add: sample_node_def readable_def) (simp add: sample_nic_def)
  have w: "wait_spec ''cray-slingshot'' [(''cray-slingshot'', Some ?c)] = Some (Some ?c)"
    by (simp add: wait_spec_def)
  have j: "json_object_get ?c ''vnis'' = Some (JArray (map JInt [3]))" by simp
  have o: "reservation_outcome (classes sample_node) [sample_nic] [(''cray-slingshot'', Some ?c)] (vars ?s)
      (shell_post_init_cb sample_dumps reservation_loads ''timeout'' sample_node [sample_arrival ''r'' 1 1] (Inl ENOSYS) s1)"
    using slingshot_environment [OF m e sample_dumps_ints i n, of "''timeout''" "Inl ENOSYS"] by (simp add: Let_def)
  obtain s2 where s2: "shell_post_init_cb sample_dumps reservation_loads ''timeout'' sample_node
      [sample_arrival ''r'' 1 1] (Inl ENOSYS) s1 = Some (0, s2)"
    "vars s2 = reserved_vars (classes sample_node) [3] [sample_nic] (vars ?s)"
    using o j unfolding reservation_outcome_def w by (simp only: option.case) blast
  then have "vars s2 ''SLINGSHOT_SVC_IDS'' = Some (dec_of_int 3)"
    by (simp add: reserved_vars_def slingshot_vars_def comma_ints_def sample_chosen Let_def)
  with i s2(1) show ?thesis by blast
qed

text \<open>
  C39. The mask of traffic classes has exactly the bits that Cray MPICH gives to the classes that
  every service found permits, the four low bits for dedicated access, low latency, bulk data and
  best effort; a device without a service for the VNIs does not restrict them.
\<close>

theorem traffic_class_mask:
  assumes "proper_classes tc" and "list_all readable ds"
    and "add_devices tc ds [] [] vnis_arr tcmask_default = Some (devs, svcs, tcmask)"
  shows "bit tcmask b \<longleftrightarrow> b < 4 \<and>
    (\<forall>d \<in> set ds. case chosen vnis_arr (services_of d) of None \<Rightarrow> True | Some e \<Rightarrow> tcs e (class_of_bit tc b))"
proof -
  have t: "tcmask = fold (\<lambda>d k. k AND chosen_mask tc vnis_arr (services_of d)) ds tcmask_default"
    using assms(3) add_devices_result [OF assms(2)] by simp
  have c: "bit (chosen_mask tc vnis_arr ss) b \<longleftrightarrow> b < 4 \<and>
      (case chosen vnis_arr ss of None \<Rightarrow> True | Some e \<Rightarrow> tcs e (class_of_bit tc b))" for ss
    by (simp add: chosen_mask_def tcmask_default_def bits_of_mask_constants bit_tcmask [OF assms(1)] split: option.split)
  show ?thesis
    unfolding t bit_fold_and c by (auto simp: tcmask_default_def bits_of_mask_constants)
qed

lemma traffic_class_mask_witness:
  "\<exists>devs svcs m. add_devices sample_classes [sample_nic] [] [] (JArray [JInt 3]) tcmask_default = Some (devs, svcs, m)
     \<and> bit m 3 \<and> \<not> bit m 2"
proof -
  have r: "list_all readable [sample_nic]" by (simp add: readable_def) (simp add: sample_nic_def)
  obtain devs svcs m where a: "add_devices sample_classes [sample_nic] [] [] (JArray [JInt 3]) tcmask_default = Some (devs, svcs, m)"
    using add_devices_result [OF r] by (metis prod_cases3)
  have p: "proper_classes sample_classes" by (auto simp: proper_classes_def sample_classes_def)
  have "chosen (JArray [JInt 3]) (services_of sample_nic) = Some sample_service"
    by (simp add: chosen_def sample_nic_def match_cxi_service_def sample_service_def same_vnis_def
      json_array_size_def int_at_def)
  then have "bit m 3 \<and> \<not> bit m 2"
    using traffic_class_mask [OF p r a, of 3] traffic_class_mask [OF p r a, of 2]
    by (simp add: sample_service_def class_of_bit_def sample_classes_def numeral_eq_Suc)
  with a show ?thesis by blast
qed

end
