(* ===== verification/SlingshotNode.thy ===== *)
theory SlingshotNode
  imports FluxSlingshot SlingshotShell
begin

text \<open>
  What the commands of \<^verbatim>\<open>flux-slingshot\<close> promise about the CXI services of a node: the epilog and
  the cleaning touch only what they are meant to, the loops that retry end, the epilog undoes the
  prolog, and a job finds the services that the prolog created for it.
\<close>

section \<open>Commands for a job with a reservation\<close>

text \<open>The command reaches the devices, for the user and the VNIs of the job.\<close>

definition granted :: "'i slingshot_libs \<Rightarrow> command \<Rightarrow> nat \<Rightarrow> json \<Rightarrow> bool" where
  "granted L c uid v \<longleftrightarrow> \<not> c_free_args c \<and> c_broker c \<and> c_cxi c \<and> \<not> c_dry_run c
     \<and> (\<exists>i. parse_job L c = Inr (i, uid))
     \<and> (\<exists>res. wait_reservation (l_loads L) (l_timed_out L) (c_watch c) = Inr (Some res)
          \<and> parse_reservation_vnis res = Some v)"

lemma granted_unique: "granted L c uid v \<Longrightarrow> granted L c uid' v' \<Longrightarrow> uid' = uid \<and> v' = v"
  by (auto simp: granted_def)

text \<open>libcxi works on every device for the whole pass, and the services can be allocated.\<close>

definition pass_ok :: "cxi_pass \<Rightarrow> cxi_dev list \<Rightarrow> bool" where
  "pass_ok p devs \<longleftrightarrow> p_list p \<and> (\<forall>dev \<in> set devs. p_open p (dev_id dev) \<and> p_query p (dev_id dev)
     \<and> (\<forall>i. p_destroy p (dev_id dev) i = Destroyed))"

definition allocs_fit :: "'i slingshot_libs \<Rightarrow> nat \<Rightarrow> json \<Rightarrow> nat \<Rightarrow> cxi_dev list \<Rightarrow> bool" where
  "allocs_fit L uid v ncores devs \<longleftrightarrow>
     (\<forall>dev \<in> set devs. alloc_fits (l_alloc L) dev (new_service (l_classes L) uid v ncores (capacity dev)))"

lemma reservation_range:
  assumes "parse_reservation_vnis res = Some v"
  shows "\<forall>i < json_array_size v. 0 \<le> int_at v i \<and> int_at v i \<le> 65535"
  using assms
  by (cases v) (auto simp: parse_reservation_vnis_def int_at_def json_array_size_def list_all_length good_entry_def
      split: option.splits if_splits)

lemma granted_range: "granted L c uid v \<Longrightarrow> \<forall>i < json_array_size v. 0 \<le> int_at v i \<and> int_at v i \<le> 65535"
  using reservation_range by (auto simp: granted_def)

lemma destroy_body_spared:
  assumes "\<forall>dev \<in> set ds. unique_ids dev" and "destroy_cxi_service p dry every m ds = (r, ds')"
  shows "list_all2 (spared m) ds ds' \<and> (\<forall>dev \<in> set ds'. unique_ids dev)"
proof -
  obtain b ds1 where D: "destroy_devices p dry every m ds = (b, ds1)" by (cases "destroy_devices p dry every m ds")
  have "ds' = ds \<or> ds' = ds1" using assms(2) D by (auto simp: destroy_cxi_service_def split: if_splits option.splits)
  then have S: "list_all2 (spared m) ds ds'" using destroy_devices_spared [OF assms(1) D] spared_list_refl by auto
  then show ?thesis using spared_list_unique [OF S assms(1)] by simp
qed

lemma destroy_body_dry: "destroy_cxi_service p True every m ds = (r, ds') \<Longrightarrow> ds' = ds \<and> r \<in> {Inl fatal, Inr 0}"
  by (cases "destroy_devices p True every m ds")
    (auto simp: destroy_cxi_service_def dest: destroy_devices_dry split: if_splits)

lemma body_spared:
  assumes "\<forall>dev \<in> set ds. unique_ids dev"
  shows "epilog_body c uid v p ds = (r, ds') \<Longrightarrow>
      list_all2 (spared (match_reservation uid v)) ds ds' \<and> (\<forall>dev \<in> set ds'. unique_ids dev)"
    and "clean_body api c pl p ds = (r, ds') \<Longrightarrow>
      list_all2 (spared (match_vnipool api (Some pl))) ds ds' \<and> (\<forall>dev \<in> set ds'. unique_ids dev)"
  using destroy_body_spared [OF assms] assms
  by (auto simp: epilog_body_def clean_body_def spared_list_refl split: if_splits)

lemma body_idle:
  assumes "c_dry_run c \<or> \<not> c_cxi c"
  shows "epilog_body c uid v p ds = (r, ds') \<Longrightarrow> ds' = ds" and "clean_body api c pl p ds = (r, ds') \<Longrightarrow> ds' = ds"
  using assms by (auto simp: epilog_body_def clean_body_def dest: destroy_body_dry split: if_splits)

lemma epilog_loop_spared:
  assumes "\<forall>dev \<in> set devs. unique_ids dev"
    and "retry_loop (epilog_body c uid v) timeout as devs = Some (devs', res)"
  shows "list_all2 (spared (match_reservation uid v)) devs devs'"
proof (rule retry_loop_rel [OF _ _ _ assms(2), where P = "\<lambda>ds. \<forall>dev \<in> set ds. unique_ids dev"])
  show "\<forall>p ds r ds'. (\<forall>dev \<in> set ds. unique_ids dev) \<longrightarrow> epilog_body c uid v p ds = (r, ds') \<longrightarrow>
      list_all2 (spared (match_reservation uid v)) ds ds' \<and> (\<forall>dev \<in> set ds'. unique_ids dev)"
    using body_spared(1) by blast
qed (use assms(1) in \<open>auto simp: spared_list_refl intro: spared_list_trans\<close>)

lemma clean_loop_spared:
  assumes "\<forall>dev \<in> set devs. unique_ids dev"
    and "retry_loop (clean_body api c pl) timeout as devs = Some (devs', res)"
  shows "list_all2 (spared (match_vnipool api (Some pl))) devs devs'"
proof (rule retry_loop_rel [OF _ _ _ assms(2), where P = "\<lambda>ds. \<forall>dev \<in> set ds. unique_ids dev"])
  show "\<forall>p ds r ds'. (\<forall>dev \<in> set ds. unique_ids dev) \<longrightarrow> clean_body api c pl p ds = (r, ds') \<longrightarrow>
      list_all2 (spared (match_vnipool api (Some pl))) ds ds' \<and> (\<forall>dev \<in> set ds'. unique_ids dev)"
    using body_spared(2) [of _ api c pl] by blast
qed (use assms(1) in \<open>auto simp: spared_list_refl intro: spared_list_trans\<close>)

lemma loops_idle:
  assumes "c_dry_run c \<or> \<not> c_cxi c"
  shows "retry_loop (epilog_body c uid v) timeout as devs = Some (devs', res) \<Longrightarrow> devs' = devs"
    and "retry_loop (clean_body api c pl) timeout as devs = Some (devs', res) \<Longrightarrow> devs' = devs"
proof -
  assume R: "retry_loop (epilog_body c uid v) timeout as devs = Some (devs', res)"
  have "devs = devs'"
  proof (rule retry_loop_rel [OF _ _ _ R, where P = "\<lambda>_. True" and R = "(=)"])
    show "\<forall>p ds r ds'. True \<longrightarrow> epilog_body c uid v p ds = (r, ds') \<longrightarrow> ds = ds' \<and> True"
      using body_idle(1) [OF assms] by blast
  qed simp_all
  then show "devs' = devs" ..
next
  assume R: "retry_loop (clean_body api c pl) timeout as devs = Some (devs', res)"
  have "devs = devs'"
  proof (rule retry_loop_rel [OF _ _ _ R, where P = "\<lambda>_. True" and R = "(=)"])
    show "\<forall>p ds r ds'. True \<longrightarrow> clean_body api c pl p ds = (r, ds') \<longrightarrow> ds = ds' \<and> True"
      using body_idle(2) [OF assms, of api pl] by blast
  qed simp_all
  then show "devs' = devs" ..
qed

section \<open>Safety\<close>

lemma cmd_epilog_spares:
  assumes "\<forall>dev \<in> set devs. unique_ids dev" and "cmd_epilog L c attempts devs = Some (devs', e)"
  shows "devs' = devs \<or> (\<exists>uid v. granted L c uid v \<and> list_all2 (spared (match_reservation uid v)) devs devs')"
proof (cases "c_free_args c \<or> \<not> c_broker c")
  case True
  with assms(2) show ?thesis by (auto simp: cmd_epilog_def split: sum.splits if_splits)
next
  case False
  note E = assms(2)[unfolded cmd_epilog_def]
  show ?thesis
  proof (cases "\<exists>i uid t res v. parse_job L c = Inr (i, uid) \<and> parse_retry (l_floats L) (c_retry_busy c) = Inr t
      \<and> wait_reservation (l_loads L) (l_timed_out L) (c_watch c) = Inr (Some res)
      \<and> parse_reservation_vnis res = Some v \<and> json_array_size v \<noteq> 0")
    case None: False
    with E False show ?thesis by (auto split: sum.splits if_splits option.splits)
  next
    case True
    then obtain i uid t res v where J: "parse_job L c = Inr (i, uid)" "parse_retry (l_floats L) (c_retry_busy c) = Inr t"
      "wait_reservation (l_loads L) (l_timed_out L) (c_watch c) = Inr (Some res)"
      "parse_reservation_vnis res = Some v" "json_array_size v \<noteq> 0"
      by blast
    with E False obtain r where R: "retry_loop (epilog_body c uid v) t attempts devs = Some (devs', r)"
      by auto
    show ?thesis
    proof (cases "c_dry_run c \<or> \<not> c_cxi c")
      case True
      then show ?thesis using loops_idle(1) R by blast
    next
      case ready: False
      then have "granted L c uid v" using False J by (auto simp: granted_def)
      then show ?thesis using epilog_loop_spared [OF assms(1) R] by blast
    qed
  qed
qed


text \<open>
  Whatever the epilog does and however often it retries, on every device it leaves every service
  alone, in its place, that is not a service for exactly the user and the VNIs of the job; and
  without a reservation, in a dry run or after an error it leaves the devices as they are.
\<close>

theorem epilog_spares_other_services:
  assumes "\<forall>dev \<in> set devs. unique_ids dev" and "cmd_epilog L c attempts devs = Some (devs', e)"
  shows "devs' = devs \<or> (\<exists>uid v. granted L c uid v \<and> list_all2 (spared (match_reservation uid v)) devs devs')"
  by (rule cmd_epilog_spares [OF assms])

section \<open>The epilog undoes the prolog\<close>

lemma prolog_creates:
  assumes "granted L c uid v" and "c_R_sent c" and "ncores_from_R (l_idsets L) (l_loads L) (c_rank c) (c_R c) = Inr ncores"
    and "pass_ok p devs" and "allocs_fit L uid v ncores devs" and "json_array_size v \<noteq> 0"
  shows "\<exists>devs1. cmd_prolog L c p devs = (devs1, Exit 0)
    \<and> list_all2 (\<lambda>dev dev1. \<exists>s. dev1 = with_service dev s \<and> match_reservation uid v s
        \<and> svc_id s \<notin> svc_id ` set (services dev)
        \<and> l_alloc L (dev_id dev) (new_service (l_classes L) uid v ncores (capacity dev)) = Some s) devs devs1"
proof -
  obtain devs1 where A: "allocate_devices p (l_alloc L) (l_classes L) False uid v ncores devs 0 = (devs1, Some (0 + length devs))"
    "list_all2 (\<lambda>dev dev1. \<exists>s. dev1 = with_service dev s \<and> match_reservation uid v s
        \<and> svc_id s \<notin> svc_id ` set (services dev)
        \<and> l_alloc L (dev_id dev) (new_service (l_classes L) uid v ncores (capacity dev)) = Some s) devs devs1"
    using allocate_devices_all [of devs p "l_alloc L" "l_classes L" uid v ncores 0] assms(4,5)
      granted_range [OF assms(1)]
    by (auto simp: pass_ok_def allocs_fit_def)
  have "p_list p" using assms(4) by (simp add: pass_ok_def)
  with A(1) assms(1,2,3,6) have "cmd_prolog L c p devs = (devs1, Exit 0)"
    by (auto simp: cmd_prolog_def granted_def allocate_cxi_service_def)
  with A(2) show ?thesis by blast
qed

lemma epilog_removes:
  assumes "granted L c uid v" and "parse_retry (l_floats L) (c_retry_busy c) = Inr t"
    and "pass_ok p devs" and "\<forall>dev \<in> set devs. \<forall>s \<in> set (services dev). \<not> match_reservation uid v s"
    and "json_array_size v \<noteq> 0"
    and "list_all2 (\<lambda>dev dev1. \<exists>s. dev1 = with_service dev s \<and> match_reservation uid v s
        \<and> svc_id s \<notin> svc_id ` set (services dev) \<and> Q dev s) devs devs1"
  shows "cmd_epilog L c ((p, el) # as) devs1 = Some (devs, Exit 0)"
proof -
  have "destroy_devices p False False (match_reservation uid v) devs1 = (Some 0, devs)"
    using destroy_devices_added [OF assms(6,4)] assms(3) by (simp add: pass_ok_def)
  then have "epilog_body c uid v p devs1 = (Inr 0, devs)"
    using assms(1,3) by (simp add: epilog_body_def granted_def destroy_cxi_service_def pass_ok_def)
  then have "retry_loop (epilog_body c uid v) t ((p, el) # as) devs1 = Some (devs, Inr 0)" by simp
  with assms(1,2,5) show ?thesis by (auto simp: cmd_epilog_def granted_def retry_exit_def)
qed

text \<open>
  C12. The epilog undoes the prolog. For a job with VNIs on a node whose devices work, where no
  service for the user and those VNIs exists yet, the prolog succeeds and adds one service to every
  device, for the user and the VNIs of the job, and the epilog then succeeds in its first attempt and
  leaves every device exactly as it was before the prolog.
\<close>

theorem epilog_undoes_prolog:
  assumes "granted L c uid v" and "granted L c' uid v" and "json_array_size v \<noteq> 0"
    and "c_R_sent c" and "ncores_from_R (l_idsets L) (l_loads L) (c_rank c) (c_R c) = Inr ncores"
    and "parse_retry (l_floats L) (c_retry_busy c') = Inr t"
    and "pass_ok p devs" and "pass_ok p' devs" and "allocs_fit L uid v ncores devs"
    and "\<forall>dev \<in> set devs. \<forall>s \<in> set (services dev). \<not> match_reservation uid v s"
  shows "\<exists>devs1. cmd_prolog L c p devs = (devs1, Exit 0)
    \<and> list_all2 (\<lambda>dev dev1. \<exists>s. dev1 = with_service dev s \<and> match_reservation uid v s) devs devs1
    \<and> cmd_epilog L c' ((p', elapsed) # attempts) devs1 = Some (devs, Exit 0)"
proof -
  obtain devs1 where P: "cmd_prolog L c p devs = (devs1, Exit 0)"
    "list_all2 (\<lambda>dev dev1. \<exists>s. dev1 = with_service dev s \<and> match_reservation uid v s
        \<and> svc_id s \<notin> svc_id ` set (services dev)
        \<and> l_alloc L (dev_id dev) (new_service (l_classes L) uid v ncores (capacity dev)) = Some s) devs devs1"
    using prolog_creates [OF assms(1,4,5,7,9,3)] by blast
  moreover have "list_all2 (\<lambda>dev dev1. \<exists>s. dev1 = with_service dev s \<and> match_reservation uid v s) devs devs1"
    by (rule list_all2_mono [OF P(2)]) blast
  moreover have "cmd_epilog L c' ((p', elapsed) # attempts) devs1 = Some (devs, Exit 0)"
    by (rule epilog_removes [OF assms(2,6,8,10,3) P(2)])
  ultimately show ?thesis by blast
qed

section \<open>Retrying\<close>

lemma destroy_loop_killed:
  "\<forall>i. \<not> txt i \<Longrightarrow> destroy_loop dry out txt every m ds matched busy svcs rep = (Some b, svcs', rep') \<Longrightarrow> b = busy"
  by (induction ds arbitrary: matched svcs rep) (auto split: if_splits destroy_result.splits)

lemma destroy_devices_killed:
  "\<forall>i. \<not> p_text_at p i \<Longrightarrow> destroy_devices p dry every m devs = (Some b, devs') \<Longrightarrow> b = 0"
proof (induction devs arbitrary: b devs')
  case (Cons dev devs)
  have "destroy_cxi_service_device p dry every m dev = (Some k, dev', rep) \<Longrightarrow> k = 0" for k dev' rep
    using destroy_loop_killed [OF Cons.prems(1)] by (auto simp: destroy_cxi_service_device_def split: if_splits prod.splits)
  with Cons show ?case by (fastforce split: if_splits prod.splits option.splits)
qed simp

lemma bodies_killed:
  assumes "\<forall>i. \<not> p_text_at p i"
  shows "epilog_body c uid v p devs = (Inr b, devs') \<Longrightarrow> b = 0" and "clean_body api c pl p devs = (Inr b, devs') \<Longrightarrow> b = 0"
  using destroy_devices_killed [OF assms]
  by (auto simp: epilog_body_def clean_body_def destroy_cxi_service_def split: if_splits option.splits prod.splits)

lemma retry_loop_once:
  assumes "\<And>b ds. body p devs = (Inr b, ds) \<Longrightarrow> b = 0"
  shows "retry_loop body timeout ((p, el) # as) devs = retry_loop body timeout [(p, el)] devs"
  using assms by (cases "body p devs"; cases "fst (body p devs)") auto

text \<open>
  C13. The loops that retry while services are busy end. Each attempt after the first comes after a
  sleep of a second, so the clock shows at least \<open>k\<close> seconds after the \<open>k\<close>-th retry; then, without
  \<^verbatim>\<open>--retry-busy\<close> after one attempt and with a finite time of \<open>r\<close> seconds after at most \<open>r + 1\<close>
  attempts, the epilog and the cleaning have a result, however long services stay busy. That the process goes on
  after a busy service hangs on what the faulty warning finds in memory: when there is nothing to read at the number of any
  service, there is never a second attempt, whatever \<^verbatim>\<open>--retry-busy\<close> says.
\<close>

theorem retries_end:
  assumes "attempts \<noteq> []" and "\<forall>k < length attempts. 1000 * real k \<le> snd (attempts ! k)"
    and "parse_retry (l_floats L) (c_retry_busy c) \<noteq> Inr (Infinite False)"
    and "\<forall>r. parse_retry (l_floats L) (c_retry_busy c) = Inr (Finite r) \<longrightarrow> r + 1 \<le> real (length attempts)"
  shows "(\<exists>res. cmd_epilog L c attempts devs = Some res) \<and> (\<exists>res. cmd_clean L c attempts devs = Some res)
    \<and> ((\<forall>i. \<not> p_text_at (fst (hd attempts)) i) \<longrightarrow>
        cmd_epilog L c attempts devs = cmd_epilog L c [hd attempts] devs
        \<and> cmd_clean L c attempts devs = cmd_clean L c [hd attempts] devs)"
proof (cases "parse_retry (l_floats L) (c_retry_busy c)")
  case (Inl e)
  then show ?thesis by (auto simp: cmd_epilog_def cmd_clean_def split: sum.split)
next
  case (Inr t)
  have ends: "\<exists>res. retry_loop body t attempts devs = Some res" for body
    using retry_loop_ends [of t 0 attempts body devs] assms Inr by simp
  obtain p el as where a: "attempts = (p, el) # as" using assms(1) by (cases attempts) auto
  have once: "retry_loop (epilog_body c uid v) t ((p, el) # as) devs = retry_loop (epilog_body c uid v) t [(p, el)] devs"
    "retry_loop (clean_body api c pl) t ((p, el) # as) devs = retry_loop (clean_body api c pl) t [(p, el)] devs"
    if "\<forall>i. \<not> p_text_at p i" for uid v pl and api :: "'a idset_api"
    by (rule retry_loop_once, erule bodies_killed [OF that])+
  have "\<exists>res. cmd_epilog L c attempts devs = Some res"
    using ends Inr by (auto simp: cmd_epilog_def split: sum.split option.split)
  moreover have "\<exists>res. cmd_clean L c attempts devs = Some res"
    using ends Inr by (auto simp: cmd_clean_def split: sum.split)
  moreover have "cmd_epilog L c attempts devs = cmd_epilog L c [hd attempts] devs"
    "cmd_clean L c attempts devs = cmd_clean L c [hd attempts] devs" if "\<forall>i. \<not> p_text_at (fst (hd attempts)) i"
  proof -
    have n: "\<forall>i. \<not> p_text_at p i" using that by (simp add: a)
    show "cmd_epilog L c attempts devs = cmd_epilog L c [hd attempts] devs"
      unfolding a list.sel cmd_epilog_def Inr sum.case once(1) [OF n] ..
    show "cmd_clean L c attempts devs = cmd_clean L c [hd attempts] devs"
      unfolding a list.sel cmd_clean_def Inr sum.case once(2) [OF n] ..
  qed
  ultimately show ?thesis by blast
qed

lemma lookup_vnipool_fails: "lookup_vnipool api config = Inl e \<Longrightarrow> e = fatal"
  by (auto simp: lookup_vnipool_def Let_def split: option.splits sum.splits)

text \<open>
  C14. When the cleaning exits with success after retrying, no service of the VNI pool is left busy on the devices that it
  could work on: on every device that could be opened and queried in the last attempt, a service in the pool is left
  only if destroying it failed for another reason. Services outside the pool, and all system
  services, are still there, on every device. On a device that could not be opened or queried nothing is said of services in
  the pool, and the exit status does not tell; and a process that the faulty warning kills does not exit with success.
\<close>

theorem clean_leaves_nothing_busy:
  assumes "\<forall>dev \<in> set devs. unique_ids dev" and "\<not> c_dry_run c" and "c_cxi c"
    and "parse_retry (l_floats L) (c_retry_busy c) = Inr t" and "positive t"
    and "cmd_clean L c attempts devs = Some (devs', Exit 0)"
  shows "\<exists>pl p elapsed. lookup_vnipool (l_idsets L) (c_config c) = Inr pl \<and> (p, elapsed) \<in> set attempts
    \<and> list_all2 (spared (match_vnipool (l_idsets L) (Some pl))) devs devs'
    \<and> (\<forall>dev \<in> set devs'. p_open p (dev_id dev) \<longrightarrow> p_query p (dev_id dev) \<longrightarrow>
        (\<forall>s \<in> set (services dev). match_vnipool (l_idsets L) (Some pl) s \<longrightarrow>
           p_destroy p (dev_id dev) (svc_id s) = DestroyFailed))"
proof -
  obtain pl r where R: "lookup_vnipool (l_idsets L) (c_config c) = Inr pl"
    "retry_loop (clean_body (l_idsets L) c pl) t attempts devs = Some (devs', r)" "retry_exit t r = Exit 0"
    using assms(4,6) by (auto simp: cmd_clean_def dest: lookup_vnipool_fails split: if_splits sum.splits)
  have "r \<noteq> Inl (Exit 0)"
  proof
    assume "r = Inl (Exit 0)"
    with retry_loop_last [OF _ R(2), of "\<lambda>_. True"] obtain p ds where "clean_body (l_idsets L) c pl p ds = (Inl (Exit 0), devs')"
      by auto
    then show False by (auto simp: clean_body_def destroy_cxi_service_def split: if_splits option.splits prod.splits)
  qed
  then have r: "r = Inr 0" using R(3) assms(5) by (auto simp: retry_exit_def split: sum.splits if_splits)
  let ?m = "match_vnipool (l_idsets L) (Some pl)"
  have keep: "\<forall>p ds b ds'. (\<forall>dev \<in> set ds. unique_ids dev) \<longrightarrow> clean_body (l_idsets L) c pl p ds = (b, ds') \<longrightarrow>
      (\<forall>dev \<in> set ds'. unique_ids dev)"
    using body_spared(2) [of _ "l_idsets L" c pl] by blast
  obtain p el ds where L: "(p, el) \<in> set attempts" "\<forall>dev \<in> set ds. unique_ids dev"
    "clean_body (l_idsets L) c pl p ds = (Inr 0, devs')"
    using retry_loop_last [OF keep R(2)[unfolded r]] assms(1) by blast
  then have "destroy_devices p False True ?m ds = (Some 0, devs')"
    using assms(2,3) by (auto simp: clean_body_def destroy_cxi_service_def split: if_splits option.splits prod.splits)
  note C = destroy_devices_clears [OF L(2) this]
  show ?thesis using R(1) L(1) C clean_loop_spared [OF assms(1) R(2)] by blast
qed


section \<open>The user\<close>

lemma is_space_digit: "char_digit c \<noteq> None \<Longrightarrow> \<not> is_space c \<and> c \<noteq> CHR ''-'' \<and> c \<noteq> CHR ''+''"
  by (auto simp: is_space_def char_digit_def split: if_splits)

lemma strtoul_digits:
  assumes "n < 2 ^ 64"
  shows "strtoul (dec_of_nat n) = Some (n, [])"
proof -
  obtain c cs where c: "dec_of_nat n = c # cs" by (cases "dec_of_nat n") auto
  have D: "\<forall>d \<in> set (dec_of_nat n). char_digit d \<noteq> None" using dec_of_nat_digits by blast
  with c have s: "\<not> is_space c \<and> c \<noteq> CHR ''-'' \<and> c \<noteq> CHR ''+''" using is_space_digit [of c] by simp
  have 1: "dropWhile is_space (dec_of_nat n) = dec_of_nat n" using s by (simp add: c)
  have 2: "takeWhile (\<lambda>c. char_digit c \<noteq> None) (dec_of_nat n) = dec_of_nat n"
    using D by (simp add: takeWhile_eq_all_conv)
  have 3: "hd (dec_of_nat n) \<noteq> CHR ''-'' \<and> hd (dec_of_nat n) \<noteq> CHR ''+''" using s by (simp add: c)
  show ?thesis using 3 assms by (simp add: strtoul_def Let_def 1 2 del: not_None_eq)
qed

text \<open>
  The user id is not checked for its range: every 64-bit number is accepted, and the command
  works for the user that its low 32 bits name (so \<open>2 ^ 32\<close> means root), \<^verbatim>\<open>-1\<close> is accepted as well,
  and an empty \<^verbatim>\<open>FLUX_JOB_USERID\<close> means root.
\<close>

theorem userid_wraps:
  "parse_userid (Some (dec_of_nat (unat (n :: 64 word)))) = Inr (unat n mod 2 ^ 32)
    \<and> parse_userid (Some ''-1'') = Inr (2 ^ 32 - 1) \<and> parse_userid (Some []) = Inr 0"
proof (intro conjI)
  have "unat n < 2 ^ 64" using unsigned_less [of n] by simp
  then show "parse_userid (Some (dec_of_nat (unat n))) = Inr (unat n mod 2 ^ 32)"
    using strtoul_digits [of "unat n"] by (simp add: parse_userid_def)
  show "parse_userid (Some ''-1'') = Inr (2 ^ 32 - 1)"
    by (simp add: parse_userid_def strtoul_def is_space_def parse_eval Let_def)
  show "parse_userid (Some []) = Inr 0" by (simp add: parse_userid_def strtoul_def)
qed


section \<open>The job finds its services\<close>

text \<open>The node as the shell plugin sees it.\<close>

definition nic_of :: "cxi_dev \<Rightarrow> nic" where
  "nic_of dev = \<lparr>device_name = dev_name dev, nic_services = Some (services dev), nic_mem = (True, True)\<rparr>"

definition node_of :: "traffic_classes \<Rightarrow> cxi_dev list \<Rightarrow> cxi_node" where
  "node_of tc devs = \<lparr>classes = tc, with_cxi = True, nics = Some (map nic_of devs)\<rparr>"

definition newest_id :: "cxi_dev \<Rightarrow> int" where
  "newest_id dev = svc_id (last (services dev))"

lemma readable_nic_of: "list_all readable (map nic_of devs)"
  by (simp add: list_all_iff readable_def nic_of_def)

text \<open>A reservation that the commands accept is an array of numbers.\<close>

lemma reservation_ints:
  assumes "parse_reservation_vnis res = Some v" and "json_array_size v \<noteq> 0"
  shows "\<exists>ns. v = JArray (map JInt ns) \<and> json_object_get res ''vnis'' = Some v"
proof -
  have g: "json_object_get res ''vnis'' = Some v"
    using assms(1) by (auto simp: parse_reservation_vnis_def split: option.splits if_splits)
  obtain es where v: "v = JArray es" using assms(2) by (cases v) (simp_all add: json_array_size_def)
  have "list_all good_entry es"
    using assms(1) by (auto simp: parse_reservation_vnis_def v split: option.splits if_splits)
  then have "\<exists>ns. es = map JInt ns"
  proof (induction es)
    case (Cons e es)
    then obtain ns where "es = map JInt ns" by auto
    moreover obtain n where "e = JInt n" using Cons.prems by (cases e) (auto simp: good_entry_def)
    ultimately show ?case by (auto intro: exI [of _ "n # ns"])
  qed simp
  with g v show ?thesis by blast
qed

lemma chosen_added:
  assumes "match_reservation uid v s" and "enable s" and "\<forall>t \<in> set (services dev). \<not> match_cxi_service t v"
  shows "chosen_id v (services (with_service dev s)) = svc_id s"
proof -
  have "match_cxi_service s v"
    using assms(1,2) by (auto simp: match_reservation_def match_cxi_service_def split: if_splits)
  moreover have "find (\<lambda>d. match_cxi_service d v) (services dev) = None"
    using assms(3) by (simp add: find_None_iff)
  ultimately show ?thesis by (simp add: chosen_id_def chosen_def with_service_def find_append)
qed

text \<open>
  A job finds the services that the prolog created for it. After a successful prolog on a node
  where no other enabled user service has the VNIs of the job, and when libcxi enables what it
  allocates, the shell plugin, given the same reservation, sets the variables with the VNIs of the
  reservation, the names of all devices and, for each of them, the id of the service that was added.
\<close>

lemma prolog_services_found:
  assumes "granted L c uid v" and "json_array_size v \<noteq> 0"
    and "c_R_sent c" and "ncores_from_R (l_idsets L) (l_loads L) (c_rank c) (c_R c) = Inr ncores"
    and "pass_ok p devs" and "allocs_fit L uid v ncores devs"
    and "\<forall>dev \<in> set devs. \<forall>s \<in> set (services dev). \<not> match_cxi_service s v"
    and "\<forall>n d d'. l_alloc L n d = Some d' \<longrightarrow> enable d'"
    and "parse_reservation_vnis res = Some v"
    and "eventlog_wait_for loads timed_out ''cray-slingshot'' (-1) as = WaitDone (Some res)"
    and "\<forall>is. dumps (map JInt is) = Some (argz_stringify (CHR '','') (map dec_of_int is))"
    and "memory_ok s" and "\<forall>nm \<in> set slingshot_names. vars s nm = None"
  shows "\<exists>devs1 s2 ns. cmd_prolog L c p devs = (devs1, Exit 0)
    \<and> list_all2 (\<lambda>dev dev1. \<exists>d. dev1 = with_service dev d \<and> match_reservation uid v d) devs devs1
    \<and> v = JArray (map JInt ns)
    \<and> cray_slingshot_reserved dumps loads timed_out (node_of (l_classes L) devs1) as s = Some (0, s2)
    \<and> vars s2 ''SLINGSHOT_VNIS'' = comma_ints ns
    \<and> vars s2 ''SLINGSHOT_DEVICES'' = comma_names (map dev_name devs)
    \<and> vars s2 ''SLINGSHOT_SVC_IDS'' = comma_ints (map newest_id devs1)"
proof -
  obtain devs1 where P: "cmd_prolog L c p devs = (devs1, Exit 0)"
    "list_all2 (\<lambda>dev dev1. \<exists>s. dev1 = with_service dev s \<and> match_reservation uid v s
        \<and> svc_id s \<notin> svc_id ` set (services dev)
        \<and> l_alloc L (dev_id dev) (new_service (l_classes L) uid v ncores (capacity dev)) = Some s) devs devs1"
    using prolog_creates [OF assms(1,3,4,5,6,2)] by blast
  obtain ns where ns: "v = JArray (map JInt ns)" "json_object_get res ''vnis'' = Some v"
    using reservation_ints [OF assms(9,2)] by blast
  let ?node = "node_of (l_classes L) devs1"
  have d: "\<And>is. dumps (map JInt is) = Some (argz_stringify (CHR '','') (map dec_of_int is))" using assms(11) by blast
  have none: "vars s ''SLINGSHOT_VNIS'' = None" "vars s ''SLINGSHOT_DEVICES'' = None" "vars s ''SLINGSHOT_SVC_IDS'' = None"
    using assms(13) by (simp_all add: slingshot_names_def)
  have n: "with_cxi ?node" "nics ?node = Some (map nic_of devs1)" by (simp_all add: node_of_def)
  obtain s2 where s2: "cray_slingshot_reserved dumps loads timed_out ?node as s = Some (0, s2)"
    "vars s2 = reserved_vars (classes ?node) ns (map nic_of devs1) (vars s)"
    using reserved_result [OF assms(12) d none n readable_nic_of assms(10) ns(2)[unfolded ns(1)]] by blast
  have A: "list_all2 (\<lambda>dev dev1. dev_name dev1 = dev_name dev \<and> chosen_id v (services dev1) = newest_id dev1) devs devs1"
  proof (rule list.rel_mono_strong [OF P(2)])
    fix dev dev1
    assume dev: "dev \<in> set devs" and "dev1 \<in> set devs1" and "\<exists>s. dev1 = with_service dev s \<and> match_reservation uid v s
        \<and> svc_id s \<notin> svc_id ` set (services dev)
        \<and> l_alloc L (dev_id dev) (new_service (l_classes L) uid v ncores (capacity dev)) = Some s"
    then obtain t where t: "dev1 = with_service dev t" "match_reservation uid v t" "enable t"
      using assms(8) by blast
    have "chosen_id v (services dev1) = svc_id t"
      using chosen_added [OF t(2,3)] assms(7) dev t(1) by blast
    then show "dev_name dev1 = dev_name dev \<and> chosen_id v (services dev1) = newest_id dev1"
      by (simp add: t(1) newest_id_def with_service_def)
  qed
  have ids: "map (chosen_id v \<circ> services_of) (map nic_of devs1) = map newest_id devs1"
    and names: "map device_name (map nic_of devs1) = map dev_name devs"
    using A by (induction rule: list_all2_induct) (simp_all add: nic_of_def)
  have "list_all2 (\<lambda>dev dev1. \<exists>d. dev1 = with_service dev d \<and> match_reservation uid v d) devs devs1"
    by (rule list_all2_mono [OF P(2)]) blast
  moreover have "vars s2 ''SLINGSHOT_VNIS'' = comma_ints ns"
    "vars s2 ''SLINGSHOT_DEVICES'' = comma_names (map dev_name devs)"
    "vars s2 ''SLINGSHOT_SVC_IDS'' = comma_ints (map newest_id devs1)"
    unfolding s2(2) reserved_vars_def Let_def slingshot_vars_def names ids [unfolded ns(1)] by simp_all
  ultimately show ?thesis using P(1) ns(1) s2(1) by blast
qed


section \<open>A node\<close>

text \<open>Libraries, a command, a pass and a device for the witnesses.\<close>

definition node_loads :: "string \<Rightarrow> json option" where
  "node_loads t = (if t = ''R''
     then Some (JObject [(''execution'', JObject [(''R_lite'', JArray
       [JObject [(''rank'', JString ''0''), (''children'', JObject [(''core'', JString ''0-3'')])]])])])
     else reservation_loads t)"

definition node_libs :: "refset slingshot_libs" where
  "node_libs = \<lparr>l_idsets = ref_api, l_loads = node_loads, l_jobid = (\<lambda>t. if t = ''f2'' then Some 2 else None),
     l_floats = sample_float, l_timed_out = ''timeout'', l_classes = sample_classes,
     l_alloc = (\<lambda>i d. Some (d\<lparr>svc_id := 7, enable := True\<rparr>))\<rparr>"

definition node_command :: "string option \<Rightarrow> command" where
  "node_command retry = \<lparr>c_free_args = False, c_dry_run = False, c_jobid = Some ''f2'', c_userid = Some ''1000'',
     c_retry_busy = retry, c_broker = True, c_R_sent = True, c_rank = Some 0, c_R = Some ''R'',
     c_watch = Some [sample_arrival ''r'' 1 1],
     c_config = Some (JObject [(''cray-slingshot'', JObject [(''vni-pool'', JString ''3'')])]), c_cxi = True\<rparr>"

definition node_pass :: "destroy_result \<Rightarrow> cxi_pass" where
  "node_pass r = \<lparr>p_list = True, p_open = (\<lambda>_. True), p_query = (\<lambda>_. True), p_destroy = (\<lambda>_ _. r), p_text_at = (\<lambda>_. True)\<rparr>"

definition node_device :: "cxi_svc_desc list \<Rightarrow> cxi_dev" where
  "node_device ss = \<lparr>dev_id = 0, dev_name = ''cxi0'', capacity = (\<lambda>_. 100), services = ss\<rparr>"

definition system_service :: cxi_svc_desc where
  "system_service = sample_service\<lparr>svc_id := 1, is_system_svc := True\<rparr>"

lemma node_simps [simp]:
  "l_idsets node_libs = ref_api" "l_loads node_libs = node_loads" "l_timed_out node_libs = ''timeout''"
  "l_floats node_libs = sample_float" "l_classes node_libs = sample_classes"
  "l_alloc node_libs = (\<lambda>i d. Some (d\<lparr>svc_id := 7, enable := True\<rparr>))"
  "c_retry_busy (node_command retry) = retry" "c_R_sent (node_command retry)" "\<not> c_dry_run (node_command retry)"
  "c_cxi (node_command retry)" "dev_id (node_device ss) = 0" "services (node_device ss) = ss"
  by (simp_all add: node_libs_def node_command_def node_device_def)

abbreviation node_reservation :: json where
  "node_reservation \<equiv> JObject [(''vnis'', JArray [JInt 3])]"

lemma node_holds:
  "holds_entry node_loads (sample_arrival ''r'' g t) (''cray-slingshot'', Some node_reservation)"
  by (auto simp: entry_eval node_loads_def reservation_loads_def)

lemma node_wait:
  assumes "timeout < 0 \<or> g \<le> timeout"
  shows "eventlog_wait_for node_loads msg ''cray-slingshot'' timeout [sample_arrival ''r'' g t] = WaitDone (Some node_reservation)"
  using wait_step [OF node_holds, of timeout g t] assms by (simp add: sample_arrival_def)

lemma node_reservation_ok: "parse_reservation_vnis node_reservation = Some (JArray [JInt 3])"
  by (simp add: parse_reservation_vnis_def json_array_size_def CXI_SVC_MAX_VNIS_def good_entry_def)

lemma node_user: "parse_userid (Some ''1000'') = Inr 1000"
  by (simp add: parse_userid_def strtoul_def is_space_def parse_eval Let_def)

lemma node_granted: "granted node_libs (node_command retry) 1000 (JArray [JInt 3])"
proof -
  have "parse_job node_libs (node_command retry) = Inr (2, 1000)"
    using node_user by (simp add: parse_job_def parse_jobid_def node_libs_def node_command_def)
  moreover have "wait_reservation node_loads ''timeout'' (Some [sample_arrival ''r'' 1 1]) = Inr (Some node_reservation)"
    by (simp add: wait_reservation_def eventlog_timeout_def node_wait)
  ultimately show ?thesis
    using node_reservation_ok by (simp add: granted_def) (simp add: node_command_def)
qed

lemma node_cores: "\<exists>n. ncores_from_R (l_idsets node_libs) (l_loads node_libs) (c_rank (node_command retry)) (c_R (node_command retry)) = Inr n"
  by (simp add: ncores_from_R_def node_command_def node_loads_def unpack_member_def idset_decode_def ref_api_def parse_eval Let_def)

lemma node_pass_ok: "pass_ok (node_pass Destroyed) devs"
  by (simp add: pass_ok_def node_pass_def)

lemma node_allocs: "allocs_fit node_libs uid v n [node_device [system_service]]"
  by (auto simp: allocs_fit_def alloc_fits_def system_service_def)


lemma node_unique: "unique_ids (node_device [system_service])" "unique_ids (node_device [system_service, sample_service])"
  by (simp_all add: unique_ids_def system_service_def sample_service_def)

lemma node_services:
  "\<not> match_reservation 1000 (JArray [JInt 3]) system_service" "\<not> match_cxi_service system_service (JArray [JInt 3])"
  by (simp_all add: match_reservation_def match_cxi_service_def system_service_def)

lemma epilog_undoes_prolog_witness:
  "\<exists>devs1. cmd_prolog node_libs (node_command None) (node_pass Destroyed) [node_device [system_service]] = (devs1, Exit 0)
    \<and> cmd_epilog node_libs (node_command None) [(node_pass Destroyed, 0)] devs1 = Some ([node_device [system_service]], Exit 0)"
proof -
  obtain n where n: "ncores_from_R (l_idsets node_libs) (l_loads node_libs) (c_rank (node_command None)) (c_R (node_command None)) = Inr n"
    using node_cores by blast
  have r: "parse_retry (l_floats node_libs) (c_retry_busy (node_command None)) = Inr (Finite (-1))"
    by (simp add: parse_retry_def)
  have "json_array_size (JArray [JInt 3]) \<noteq> 0" "c_R_sent (node_command None)" by (simp_all add: json_array_size_def)
  note U = epilog_undoes_prolog [OF node_granted node_granted this n r node_pass_ok node_pass_ok node_allocs, of 0 "[]"]
  have "\<forall>dev \<in> set [node_device [system_service]]. \<forall>s \<in> set (services dev). \<not> match_reservation 1000 (JArray [JInt 3]) s"
    using node_services by simp
  from U [OF this] show ?thesis by blast
qed

lemma node_retry: "parse_retry (l_floats node_libs) (c_retry_busy (node_command (Some ''2s''))) = Inr (Finite 2)"
  by (simp add: parse_retry_def fsd_parse_duration_def sample_float_def parse_eval
      is_invalid_duration_def double_less_def isinf_def fsd_unit_def read_ratio_def Let_def)

lemma retries_end_witness:
  "\<exists>res. cmd_epilog node_libs (node_command (Some ''2s'')) [(node_pass Busy, 0), (node_pass Busy, 1001), (node_pass Busy, 2002)]
     [node_device [sample_service]] = Some res"
proof -
  let ?as = "[(node_pass Busy, 0), (node_pass Busy, 1001), (node_pass Busy, 2002)] :: attempt list"
  have "\<forall>k < length ?as. 1000 * real k \<le> snd (?as ! k)" by (auto simp: less_Suc_eq)
  moreover have "parse_retry (l_floats node_libs) (c_retry_busy (node_command (Some ''2s''))) \<noteq> Inr (Infinite False)"
    "\<forall>r. parse_retry (l_floats node_libs) (c_retry_busy (node_command (Some ''2s''))) = Inr (Finite r) \<longrightarrow> r + 1 \<le> real (length ?as)"
    unfolding node_retry by simp_all
  ultimately show ?thesis
    using retries_end [of ?as node_libs "node_command (Some ''2s'')" "[node_device [sample_service]]"] by blast
qed

lemma node_pool: "\<exists>pl. lookup_vnipool ref_api (c_config (node_command retry)) = Inr pl \<and> rs_elems pl = {3}"
  by (auto simp: lookup_vnipool_def node_command_def unpack_member_def idset_decode_def ref_api_def parse_eval Let_def)

lemma clean_leaves_nothing_busy_witness:
  "\<exists>devs'. cmd_clean node_libs (node_command (Some ''2s'')) [(node_pass Busy, 0), (node_pass Destroyed, 1001)]
      [node_device [system_service, sample_service]] = Some (devs', Exit 0)
    \<and> list_all2 (\<lambda>dev dev'. filter is_system_svc (services dev') = filter is_system_svc (services dev))
        [node_device [system_service, sample_service]] devs'"
proof -
  let ?c = "node_command (Some ''2s'')" and ?devs = "[node_device [system_service, sample_service]]"
  let ?as = "[(node_pass Busy, 0), (node_pass Destroyed, 1001)] :: attempt list"
  obtain pl where pl: "lookup_vnipool ref_api (c_config ?c) = Inr pl" "rs_elems pl = {3}" using node_pool by blast
  have m: "match_vnipool ref_api (Some pl) sample_service" "\<not> match_vnipool ref_api (Some pl) system_service"
    using pl(2) by (simp_all add: match_vnipool_def system_service_def) (simp add: sample_service_def ref_api_def)
  have "clean_body ref_api ?c pl (node_pass Busy) ?devs = (Inr 1, ?devs)"
    using m by (simp add: clean_body_def destroy_cxi_service_def destroy_cxi_service_device_def node_pass_def node_device_def)
  moreover have "clean_body ref_api ?c pl (node_pass Destroyed) ?devs = (Inr 0, [node_device [system_service]])"
    using m by (simp add: clean_body_def destroy_cxi_service_def destroy_cxi_service_device_def node_pass_def node_device_def
        remove_service_def system_service_def sample_service_def)
  ultimately have r: "retry_loop (clean_body ref_api ?c pl) (Finite 2) ?as ?devs = Some ([node_device [system_service]], Inr 0)"
    by (simp add: positive_def time_left_def)
  have C: "cmd_clean node_libs ?c ?as ?devs = Some ([node_device [system_service]], Exit 0)"
    using node_retry pl(1) r by (simp add: cmd_clean_def retry_exit_def) (simp add: node_command_def)
  have u: "\<forall>dev \<in> set ?devs. unique_ids dev" using node_unique by simp
  have h: "\<not> c_dry_run ?c" "c_cxi ?c" "positive (Finite 2)" by (simp_all add: positive_def)
  from clean_leaves_nothing_busy [OF u h(1,2) node_retry h(3) C] obtain pl' where
    "list_all2 (spared (match_vnipool ref_api (Some pl'))) ?devs [node_device [system_service]]"
    by auto
  with C show ?thesis by (simp add: spared_def system_service_def sample_service_def)
qed

lemma epilog_spares_other_services_witness:
  "\<exists>uid v. granted node_libs (node_command None) uid v \<and> list_all2 (spared (match_reservation uid v))
     [node_device [system_service, sample_service]] [node_device [system_service]]"
proof -
  let ?devs = "[node_device [system_service, sample_service]]" and ?c = "node_command None"
  have m: "match_reservation 1000 (JArray [JInt 3]) sample_service"
    by (simp add: match_reservation_def sample_service_def same_vnis_def json_array_size_def int_at_def)
  have "epilog_body ?c 1000 (JArray [JInt 3]) (node_pass Destroyed) ?devs = (Inr 0, [node_device [system_service]])"
    using m node_services by (simp add: epilog_body_def destroy_cxi_service_def destroy_cxi_service_device_def node_pass_def
        node_device_def remove_service_def system_service_def sample_service_def)
  then have "cmd_epilog node_libs ?c [(node_pass Destroyed, 0)] ?devs = Some ([node_device [system_service]], Exit 0)"
    using node_granted [of None]
    by (auto simp: cmd_epilog_def granted_def parse_retry_def retry_exit_def json_array_size_def)
  moreover have "\<forall>dev \<in> set ?devs. unique_ids dev" using node_unique by simp
  ultimately have "[node_device [system_service]] = ?devs \<or> (\<exists>uid v. granted node_libs ?c uid v
      \<and> list_all2 (spared (match_reservation uid v)) ?devs [node_device [system_service]])"
    by (rule epilog_spares_other_services [rotated])
  then show ?thesis by (simp add: node_device_def)
qed

end
