(* ===== verification/SlingshotSystem.thy ===== *)
theory SlingshotSystem
  imports SlingshotReach SlingshotNode
begin

text \<open>
  The jobtap plugin and the commands on a node together, over time: VNIs are reserved and released
  in \<^verbatim>\<open>src/job-manager/plugins/cray-slingshot.c\<close>, and services with these VNIs are created and destroyed by
  \<^verbatim>\<open>src/cmd/flux-slingshot.c\<close>. What isolates jobs is that no two of them have services with a common VNI.
\<close>

abbreviation vni_array :: "nat list \<Rightarrow> json" where
  "vni_array xs \<equiv> JArray (map (JInt \<circ> int) xs)"

lemma same_vnis_take:
  assumes "same_vnis d (vni_array ns)"
  shows "num_vld_vnis d = length ns \<and> (\<forall>i < length ns. vnis d ! i = ns ! i)"
  using assms by (auto simp: same_vnis_def json_array_size_def int_at_def list_all_iff Ball_def)

lemma matches_same:
  assumes "match_reservation uid (vni_array xs) d" and "match_reservation uid' (vni_array ys) d"
  shows "uid' = uid \<and> ys = xs"
proof
  have "same_vnis d (vni_array xs)" "same_vnis d (vni_array ys)"
    using assms by (auto simp: match_reservation_def split: if_splits)
  note this [THEN same_vnis_take]
  then show "ys = xs" by (simp add: list_eq_iff_nth_eq)
  show "uid' = uid"
    using assms by (auto simp: match_reservation_def split: if_splits list.splits svc_member.splits)
qed

definition all_services :: "cxi_dev list \<Rightarrow> cxi_svc_desc set" where
  "all_services devs = (\<Union>dev \<in> set devs. set (services dev))"

lemma all_services_simps [simp]:
  "all_services [] = {}" "all_services (dev # devs) = set (services dev) \<union> all_services devs"
  by (simp_all add: all_services_def)

section \<open>What the commands do to the services\<close>

lemma destroy_loop_subset:
  "destroy_loop dry out txt every m ds matched busy svcs rep = (b, svcs', rep') \<Longrightarrow> set svcs' \<subseteq> set svcs"
  using destroy_loop_keeps by fastforce

lemma destroy_devices_subset: "destroy_devices p dry every m devs = (b, devs') \<Longrightarrow> all_services devs' \<subseteq> all_services devs"
proof (induction devs arbitrary: b devs')
  case (Cons dev devs)
  show ?case
  proof (cases "p_open p (dev_id dev)")
    case False
    with Cons show ?thesis by (auto split: prod.splits)
  next
    case True
    obtain b1 dev1 r where d: "destroy_cxi_service_device p dry every m dev = (b1, dev1, r)" by (cases "destroy_cxi_service_device p dry every m dev")
    have dev1: "set (services dev1) \<subseteq> set (services dev)"
      using d destroy_loop_subset by (fastforce simp: destroy_cxi_service_device_def split: if_splits prod.splits)
    obtain b2 devs1 where ds: "destroy_devices p dry every m devs = (b2, devs1)" by (cases "destroy_devices p dry every m devs")
    have "devs' = dev1 # devs \<or> devs' = dev1 # devs1" using Cons.prems True d ds by (auto split: option.splits)
    then show ?thesis using Cons.IH [OF ds] dev1 by auto
  qed
qed simp

lemma destroy_body_subset: "destroy_cxi_service p dry every m ds = (r, ds') \<Longrightarrow> all_services ds' \<subseteq> all_services ds"
  using destroy_devices_subset by (fastforce simp: destroy_cxi_service_def split: if_splits prod.splits option.splits)

lemma retry_loop_subset:
  assumes "\<And>p ds r ds'. body p ds = (r, ds') \<Longrightarrow> all_services ds' \<subseteq> all_services ds"
    and "retry_loop body timeout as devs = Some (devs', res)"
  shows "all_services devs' \<subseteq> all_services devs"
  by (rule retry_loop_rel [OF _ _ _ assms(2), where P = "\<lambda>_. True" and R = "\<lambda>a b. all_services b \<subseteq> all_services a"])
    (use assms(1) in auto)

lemma epilog_loop_subset:
  "retry_loop (epilog_body c u v) t as devs = Some (devs', res) \<Longrightarrow> all_services devs' \<subseteq> all_services devs"
  by (rule retry_loop_subset) (auto simp: epilog_body_def dest: destroy_body_subset split: if_splits)

lemma clean_loop_subset:
  "retry_loop (clean_body api c pl) t as devs = Some (devs', res) \<Longrightarrow> all_services devs' \<subseteq> all_services devs"
  by (rule retry_loop_subset) (auto simp: clean_body_def dest: destroy_body_subset split: if_splits)

lemma epilog_subset: "cmd_epilog L c attempts devs = Some (devs', e) \<Longrightarrow> all_services devs' \<subseteq> all_services devs"
  by (auto simp: cmd_epilog_def split: if_splits sum.splits option.splits dest: epilog_loop_subset [THEN subsetD])

lemma clean_subset: "cmd_clean L c attempts devs = Some (devs', e) \<Longrightarrow> all_services devs' \<subseteq> all_services devs"
  by (auto simp: cmd_clean_def split: if_splits sum.splits option.splits dest: clean_loop_subset [THEN subsetD])

text \<open>libcxi gives a service as it was asked for, with an id, and enables it or not.\<close>

definition alloc_keeps :: "(nat \<Rightarrow> cxi_svc_desc \<Rightarrow> cxi_svc_desc option) \<Rightarrow> bool" where
  "alloc_keeps alloc \<longleftrightarrow> (\<forall>n d d'. alloc n d = Some d' \<longrightarrow> (\<exists>i b. d' = d\<lparr>svc_id := i, enable := b\<rparr>))"

lemma allocate_devices_new:
  assumes "alloc_keeps alloc" and "\<forall>i < json_array_size v. 0 \<le> int_at v i \<and> int_at v i \<le> 65535"
  shows "allocate_devices p alloc tc dry uid v ncores devs k = (devs', r) \<Longrightarrow>
    d \<in> all_services devs' \<Longrightarrow> d \<in> all_services devs \<or> match_reservation uid v d"
proof (induction devs arbitrary: k devs' r)
  case (Cons dev devs)
  have one: "d \<in> set (services dev) \<or> match_reservation uid v d"
    if "allocate_cxi_service_device alloc tc dry uid v ncores dev = Some dev'" "d \<in> set (services dev')" for dev'
  proof (cases dry)
    case True
    with that show ?thesis by (simp add: allocate_cxi_service_device_def)
  next
    case False
    with that obtain s where s: "alloc (dev_id dev) (new_service tc uid v ncores (capacity dev)) = Some s"
      "dev' = dev\<lparr>services := services dev @ [s]\<rparr>"
      by (auto simp: allocate_cxi_service_device_def split: option.splits)
    obtain i b where "s = (new_service tc uid v ncores (capacity dev))\<lparr>svc_id := i, enable := b\<rparr>"
      using assms(1) s(1) unfolding alloc_keeps_def by blast
    with match_new_service [OF assms(2)] s(2) that(2) show ?thesis by auto
  qed
  show ?case
  proof (cases "p_open p (dev_id dev)")
    case False
    with Cons show ?thesis by (auto simp: map_prod_def split: prod.splits)
  next
    case open_ok: True
    show ?thesis
    proof (cases "allocate_cxi_service_device alloc tc dry uid v ncores dev")
      case None
      with Cons.prems open_ok show ?thesis by auto
    next
      case (Some dev')
      obtain devs1 r1 where R: "allocate_devices p alloc tc dry uid v ncores devs (Suc k) = (devs1, r1)"
        by (cases "allocate_devices p alloc tc dry uid v ncores devs (Suc k)")
      then have "devs' = dev' # devs1" using Cons.prems(1) open_ok Some by simp
      with Cons.prems(2) Cons.IH [OF R] one [OF Some] show ?thesis by auto
    qed
  qed
qed simp

text \<open>The prolog of a job, which has read an event: what it adds is for the user and the VNIs of the event.\<close>

definition reads_event :: "'i slingshot_libs \<Rightarrow> (error_text \<Rightarrow> string) \<Rightarrow> command \<Rightarrow> jobid \<Rightarrow> nat \<Rightarrow> vni_event \<Rightarrow> bool" where
  "reads_event L txt c i uid ev \<longleftrightarrow> parse_job L c = Inr (i, uid)
     \<and> wait_reservation (l_loads L) (l_timed_out L) (c_watch c) = Inr (Some (event_context txt ev))"

lemma prolog_services:
  assumes "reads_event L txt c i uid ev" and "alloc_keeps (l_alloc L)"
    and "cmd_prolog L c p devs = (devs', e)" and "d \<in> all_services devs'"
  shows "d \<in> all_services devs \<or> match_reservation uid (vni_array (ev_vnis ev)) d"
proof (cases "parse_reservation_vnis (event_context txt ev)")
  case None
  with assms show ?thesis by (auto simp: reads_event_def cmd_prolog_def split: if_splits)
next
  case (Some v)
  then have v: "v = vni_array (ev_vnis ev)"
    by (auto simp: parse_reservation_vnis_def event_context_def split: if_splits)
  note range = reservation_range [OF Some]
  show ?thesis
  proof (cases "devs' = devs")
    case False
    with assms(1,3) Some obtain n where
      "fst (allocate_cxi_service p (l_alloc L) (l_classes L) (c_dry_run c) uid v n devs) = devs'"
      by (auto simp: reads_event_def cmd_prolog_def split: if_splits sum.splits prod.splits option.splits) (metis fst_conv)+
    with False obtain r where "allocate_devices p (l_alloc L) (l_classes L) (c_dry_run c) uid v n devs 0 = (devs', r)"
      by (auto simp: allocate_cxi_service_def split: if_splits) (metis prod.collapse)
    from allocate_devices_new [OF assms(2) range this assms(4)] show ?thesis by (simp add: v)
  qed (use assms(4) in simp)
qed

section \<open>Jobs on the nodes of a cluster\<close>

text \<open>
  The plugin runs once; each node has its devices. The prolog of a job runs on any node while the job is
  active and reads the event that the plugin posted for it. The epilog and the cleaning, for whatever job
  and with whatever outcome, run on any node at any time. \<open>user\<close> gives the user of a job.
\<close>

record 'i cluster =
  plugin_sys :: "'i slingshot_sys"
  node_devs :: "nat \<Rightarrow> cxi_dev list"

abbreviation job_phase_of :: "'i cluster \<Rightarrow> jobid \<Rightarrow> job_phase" where
  "job_phase_of s \<equiv> phase (plugin_sys s)"

abbreviation announced :: "'i cluster \<Rightarrow> (jobid \<times> vni_event) set" where
  "announced s \<equiv> set (posted (jobs_host (plugin_sys s)))"

abbreviation vnis_free :: "('i \<Rightarrow> nat set) \<Rightarrow> 'i cluster \<Rightarrow> nat set" where
  "vnis_free elems s \<equiv> ids_of elems (pool (vnipool (plug (plugin_sys s))))"

inductive cluster_step ::
  "'i idset_api \<Rightarrow> (jobid \<Rightarrow> string option) \<Rightarrow> (jobid \<Rightarrow> nat) \<Rightarrow> 'i cluster \<Rightarrow> 'i cluster \<Rightarrow> bool" for A enc user where
  cluster_plugin: "slingshot_step A enc (plugin_sys s) p' \<Longrightarrow>
     cluster_step A enc user s \<lparr>plugin_sys = p', node_devs = node_devs s\<rparr>"
| cluster_prolog: "job_phase_of s i = Active \<Longrightarrow> (i, ev) \<in> announced s \<Longrightarrow>
     l_idsets L = A \<Longrightarrow> reads_event L txt c i (user i) ev \<Longrightarrow> alloc_keeps (l_alloc L) \<Longrightarrow>
     cmd_prolog L c p (node_devs s n) = (devs', e) \<Longrightarrow>
     cluster_step A enc user s \<lparr>plugin_sys = plugin_sys s, node_devs = (node_devs s)(n := devs')\<rparr>"
| cluster_epilog: "l_idsets L = A \<Longrightarrow> cmd_epilog L c attempts (node_devs s n) = Some (devs', e) \<Longrightarrow>
     cluster_step A enc user s \<lparr>plugin_sys = plugin_sys s, node_devs = (node_devs s)(n := devs')\<rparr>"
| cluster_clean: "l_idsets L = A \<Longrightarrow> cmd_clean L c attempts (node_devs s n) = Some (devs', e) \<Longrightarrow>
     cluster_step A enc user s \<lparr>plugin_sys = plugin_sys s, node_devs = (node_devs s)(n := devs')\<rparr>"

text \<open>A service of the job is still on a node.\<close>

definition left_over :: "(jobid \<Rightarrow> nat) \<Rightarrow> 'i cluster \<Rightarrow> jobid \<Rightarrow> bool" where
  "left_over user s i \<longleftrightarrow> (\<exists>n d ev. d \<in> all_services (node_devs s n) \<and> (i, ev) \<in> announced s
     \<and> match_reservation (user i) (vni_array (ev_vnis ev)) d)"

text \<open>
  The states of a cluster. With \<open>late\<close> set, a job is only cleaned up when none of its services is left:
  the order that \<^verbatim>\<open>doc/guide/slingshot.rst\<close> asks for. Without it, the job is cleaned up when it likes. \<open>ok\<close> limits the
  changes of the pool, as for \<open>slingshot_reachable\<close>.
\<close>

inductive cluster_reachable ::
  "bool \<Rightarrow> 'i idset_api \<Rightarrow> (jobid \<Rightarrow> string option) \<Rightarrow> ('i vnipool \<Rightarrow> 'i vnipool \<Rightarrow> bool) \<Rightarrow> (jobid \<Rightarrow> nat) \<Rightarrow> 'i cluster \<Rightarrow> bool"
  for late A enc ok user where
  cluster_init: "slingshot_plugin_init c p j mem = Some (ctx, handlers) \<Longrightarrow>
     \<forall>n. \<forall>d \<in> all_services (devs n). is_system_svc d \<Longrightarrow>
     cluster_reachable late A enc ok user \<lparr>plugin_sys = slingshot_start ctx, node_devs = devs\<rparr>"
| cluster_next: "cluster_reachable late A enc ok user s \<Longrightarrow> cluster_step A enc user s s' \<Longrightarrow>
     ok (vnipool (plug (plugin_sys s))) (vnipool (plug (plugin_sys s'))) \<Longrightarrow>
     (\<And>i. late \<Longrightarrow> job_phase_of s i = Active \<Longrightarrow> job_phase_of s' i = Done \<Longrightarrow> \<not> left_over user s i) \<Longrightarrow>
     cluster_reachable late A enc ok user s'"

lemma run_empty_posts: "set (posted h) \<subseteq> set (posted (run_empty E h i r))"
  using run_empty_cases [of E h i r] by auto

lemma post_event_posts: "post_event E h i v r = (h', x) \<Longrightarrow> set (posted h) \<subseteq> set (posted h')"
  by (auto simp: post_event_def split: if_splits)

lemma run_reserve_posts: "set (posted h) \<subseteq> set (posted (snd (run_reserve L E ctx h i n)))"
  using run_empty_posts [of h E i] post_event_posts [of E h i]
  by (fastforce simp: run_reserve_def Let_def split: sum.split prod.split)

lemma run_posts: "set (posted h) \<subseteq> set (posted (snd (job_state_run_cb L E junk ctx h u)))"
  using run_empty_posts [of h E] run_reserve_posts [of h L E ctx]
  by (auto simp: job_state_run_cb_def split: sum.split option.split)

lemma slingshot_step_posts: "slingshot_step A enc s s' \<Longrightarrow> set (posted (jobs_host s)) \<subseteq> set (posted (jobs_host s'))"
proof (induction rule: slingshot_step.induct)
  case (slingshot_run L s i u E junk ctx' h')
  with run_posts [of "jobs_host s" L E junk "plug s" u] show ?case by simp
qed simp_all

lemma slingshot_step_active: "slingshot_step A enc s s' \<Longrightarrow> phase s i = Active \<Longrightarrow> phase s' i = Active \<or> phase s' i = Done"
  by (induction rule: slingshot_step.induct) auto

section \<open>Every service belongs to an active job\<close>

lemma reachable_plugin: "cluster_reachable late A enc (vni_stable elems) user s \<Longrightarrow> slingshot_reachable A enc (vni_stable elems) (plugin_sys s)"
proof (induction rule: cluster_reachable.induct)
  case (cluster_init c p j mem ctx handlers devs)
  then show ?case by (simp add: slingshot_init)
next
  case (cluster_next s s')
  from cluster_next.hyps(2) show ?case
  proof cases
    case (cluster_plugin p')
    with cluster_next.hyps(3) slingshot_next [OF cluster_next.IH] show ?thesis by simp
  qed (use cluster_next.IH in simp_all)
qed

definition belongs :: "(jobid \<Rightarrow> nat) \<Rightarrow> 'i cluster \<Rightarrow> cxi_svc_desc \<Rightarrow> jobid \<Rightarrow> vni_event \<Rightarrow> bool" where
  "belongs user s d i ev \<longleftrightarrow> job_phase_of s i = Active \<and> (i, ev) \<in> announced s
     \<and> match_reservation (user i) (vni_array (ev_vnis ev)) d"

definition services_owned :: "(jobid \<Rightarrow> nat) \<Rightarrow> 'i cluster \<Rightarrow> bool" where
  "services_owned user s \<longleftrightarrow>
     (\<forall>n. \<forall>d \<in> all_services (node_devs s n). is_system_svc d \<or> (\<exists>i ev. belongs user s d i ev))"

lemma owned_fewer:
  assumes "services_owned user s" and "all_services devs' \<subseteq> all_services (node_devs s n)"
  shows "services_owned user \<lparr>plugin_sys = plugin_sys s, node_devs = (node_devs s)(n := devs')\<rparr>"
  using assms unfolding services_owned_def belongs_def by simp (meson subsetD)

lemma owned_new:
  assumes "services_owned user s" and "job_phase_of s i = Active" and "(i, ev) \<in> announced s"
    and "\<forall>d \<in> all_services devs'. d \<in> all_services (node_devs s n) \<or> match_reservation (user i) (vni_array (ev_vnis ev)) d"
  shows "services_owned user \<lparr>plugin_sys = plugin_sys s, node_devs = (node_devs s)(n := devs')\<rparr>"
  using assms unfolding services_owned_def belongs_def by simp metis

lemma owned_plugin:
  assumes "services_owned user s" and "slingshot_step A enc (plugin_sys s) p'"
    and "\<And>i. job_phase_of s i = Active \<Longrightarrow> phase p' i = Done \<Longrightarrow> \<not> left_over user s i"
  shows "services_owned user \<lparr>plugin_sys = p', node_devs = node_devs s\<rparr>"
  unfolding services_owned_def
proof (intro allI ballI)
  fix n d
  assume "d \<in> all_services (node_devs \<lparr>plugin_sys = p', node_devs = node_devs s\<rparr> n)"
  then have d: "d \<in> all_services (node_devs s n)" by simp
  show "is_system_svc d \<or> (\<exists>i ev. belongs user \<lparr>plugin_sys = p', node_devs = node_devs s\<rparr> d i ev)"
  proof (cases "is_system_svc d")
    case False
    with assms(1) d obtain i ev where b: "belongs user s d i ev" unfolding services_owned_def by blast
    then have b': "job_phase_of s i = Active" "(i, ev) \<in> announced s" "match_reservation (user i) (vni_array (ev_vnis ev)) d"
      by (simp_all add: belongs_def)
    with d have "left_over user s i" unfolding left_over_def by blast
    with slingshot_step_active [OF assms(2) b'(1)] assms(3) [OF b'(1)] have "phase p' i = Active" by blast
    moreover have "(i, ev) \<in> set (posted (jobs_host p'))" using slingshot_step_posts [OF assms(2)] b'(2) by blast
    ultimately have "belongs user \<lparr>plugin_sys = p', node_devs = node_devs s\<rparr> d i ev" using b'(3) by (simp add: belongs_def)
    then show ?thesis by blast
  qed simp
qed

lemma reachable_owned: "cluster_reachable True A enc (vni_stable elems) user s \<Longrightarrow> services_owned user s"
proof (induction rule: cluster_reachable.induct)
  case (cluster_init c p j mem ctx handlers devs)
  then show ?case by (simp add: services_owned_def)
next
  case (cluster_next s s')
  from cluster_next.hyps(2) show ?case
  proof cases
    case (cluster_plugin p')
    with owned_plugin [OF cluster_next.IH cluster_plugin(2)] cluster_next.hyps(4) show ?thesis by simp
  next
    case (cluster_prolog i ev L tx c p n devs' e)
    have "\<forall>d \<in> all_services devs'. d \<in> all_services (node_devs s n) \<or> match_reservation (user i) (vni_array (ev_vnis ev)) d"
      using prolog_services [OF cluster_prolog(5,6,7)] by blast
    from owned_new [OF cluster_next.IH cluster_prolog(2,3) this] show ?thesis by (simp add: cluster_prolog(1))
  next
    case (cluster_epilog L c attempts n devs' e)
    from owned_fewer [OF cluster_next.IH epilog_subset [OF cluster_epilog(3)]] show ?thesis by (simp add: cluster_epilog(1))
  next
    case (cluster_clean L c attempts n devs' e)
    from owned_fewer [OF cluster_next.IH clean_subset [OF cluster_clean(3)]] show ?thesis by (simp add: cluster_clean(1))
  qed
qed

text \<open>The VNIs that a service lets its user use.\<close>

definition service_vnis :: "cxi_svc_desc \<Rightarrow> nat set" where
  "service_vnis d = (\<lambda>i. vnis d ! i) ` {..<num_vld_vnis d}"

lemma matching_vnis: "match_reservation uid (vni_array ns) d \<Longrightarrow> service_vnis d = set ns"
proof -
  assume "match_reservation uid (vni_array ns) d"
  then have "same_vnis d (vni_array ns)" by (auto simp: match_reservation_def split: if_splits)
  from same_vnis_take [OF this] show ?thesis by (auto simp: service_vnis_def set_conv_nth)
qed

text \<open>
  C2. Services isolate jobs. In every state of a cluster in which jobs are cleaned up only when none of
  their services is left and no configuration brings back a VNI that a job still holds, whatever else
  fails and however often the epilog and the cleaning run:
  every service that is not a system service is for the user and the announced VNIs of an active job, and
  none of its VNIs is free; and any other such service on any node that has a VNI in common with it is for the same job.
\<close>

theorem services_isolated:
  assumes "cluster_reachable True A enc (vni_stable elems) user s" and "idset_lib A elems" and "f58_encoding enc"
    and "d \<in> all_services (node_devs s n)" and "\<not> is_system_svc d"
    and "d' \<in> all_services (node_devs s n')" and "\<not> is_system_svc d'"
  shows "\<exists>i ev. belongs user s d i ev \<and> service_vnis d \<inter> vnis_free elems s = {}
    \<and> (service_vnis d \<inter> service_vnis d' \<noteq> {} \<longrightarrow> belongs user s d' i ev)"
proof -
  note own = reachable_owned [OF assms(1), unfolded services_owned_def]
  obtain i ev where b: "belongs user s d i ev" using own assms(4,5) by blast
  obtain i' ev' where b': "belongs user s d' i' ev'" using own assms(6,7) by blast
  note R = reachable_plugin [OF assms(1)]
  have p: "(i, ev) \<in> announced s" "job_phase_of s i = Active" "(i', ev') \<in> announced s" "job_phase_of s i' = Active"
    using b b' by (simp_all add: belongs_def)
  have v: "service_vnis d = set (ev_vnis ev)" "service_vnis d' = set (ev_vnis ev')"
    using b b' matching_vnis by (auto simp: belongs_def)
  have free: "set (ev_vnis ev) \<inter> vnis_free elems s = {}"
    using announced_held [OF R assms(2,3) p(1,2)] held_by_subset [of "vnipool (plug (plugin_sys s))" "idf58 enc i"]
    unfolding vni_exclusive_def by blast
  have "belongs user s d' i ev" if "service_vnis d \<inter> service_vnis d' \<noteq> {}"
  proof -
    have "i = i'" using announced_disjoint [OF R assms(2,3) p(1,3,2,4)] that v by blast
    moreover have "distinct (map fst (posted (jobs_host (plugin_sys s))))"
      using slingshot_reachable_inv [OF R assms(2,3)] by (simp add: slingshot_inv_def)
    ultimately have "ev = ev'" using p(1,3) by (auto dest: eq_key_imp_eq_value)
    with b' \<open>i = i'\<close> show ?thesis by simp
  qed
  with b free v(1) show ?thesis by metis
qed

section \<open>A cluster\<close>

text \<open>
  Job 1 of user 1000 and job 2 of user 2000, with one VNI in the pool. Services get the ids that
  \<open>k\<close> gives.
\<close>

definition iso_libs :: "int \<Rightarrow> refset slingshot_libs" where
  "iso_libs k = node_libs\<lparr>l_jobid := (\<lambda>t. if t = ''f1'' then Some 1 else if t = ''f2'' then Some 2 else None),
     l_alloc := (\<lambda>_ d. Some (d\<lparr>svc_id := k, enable := True\<rparr>))\<rparr>"

definition iso_command :: "string \<Rightarrow> string \<Rightarrow> command" where
  "iso_command t u = (node_command None)\<lparr>c_jobid := Some t, c_userid := Some u\<rparr>"

definition iso_user :: "jobid \<Rightarrow> nat" where
  "iso_user i = (if i = 1 then 1000 else 2000)"

abbreviation iso_event :: vni_event where
  "iso_event \<equiv> \<lparr>ev_vnis = [3], ev_empty_reason = None\<rparr>"

lemma iso_jobs:
  "parse_job (iso_libs k) (iso_command ''f1'' ''1000'') = Inr (1, iso_user 1)"
  "parse_job (iso_libs k) (iso_command ''f2'' ''2000'') = Inr (2, iso_user 2)"
proof -
  have "parse_userid (Some ''2000'') = Inr 2000"
    by (simp add: parse_userid_def strtoul_def is_space_def parse_eval Let_def)
  with node_user show "parse_job (iso_libs k) (iso_command ''f1'' ''1000'') = Inr (1, iso_user 1)"
    "parse_job (iso_libs k) (iso_command ''f2'' ''2000'') = Inr (2, iso_user 2)"
    by (simp_all add: parse_job_def parse_jobid_def iso_libs_def iso_command_def iso_user_def)
qed

lemma iso_fields:
  "l_idsets (iso_libs k) = ref_api" "l_loads (iso_libs k) = node_loads" "l_timed_out (iso_libs k) = ''timeout''"
  "l_alloc (iso_libs k) = (\<lambda>_ d. Some (d\<lparr>svc_id := k, enable := True\<rparr>))"
  "c_watch (iso_command t u) = Some [sample_arrival ''r'' 1 1]" "c_R_sent (iso_command t u)"
  "\<not> c_free_args (iso_command t u)" "c_broker (iso_command t u)" "c_cxi (iso_command t u)" "\<not> c_dry_run (iso_command t u)"
  "c_rank (iso_command t u) = c_rank (node_command None)" "c_R (iso_command t u) = c_R (node_command None)"
  by (simp_all add: iso_libs_def iso_command_def) (simp_all add: node_command_def)

lemma iso_wait:
  "wait_reservation node_loads ''timeout'' (Some [sample_arrival ''r'' 1 1]) = Inr (Some node_reservation)"
  by (simp add: wait_reservation_def eventlog_timeout_def node_wait)

lemma iso_reads:
  assumes "parse_job (iso_libs k) (iso_command t u) = Inr (i, uid)"
  shows "reads_event (iso_libs k) tx (iso_command t u) i uid iso_event"
  using assms iso_wait by (simp add: reads_event_def iso_fields event_context_def)

lemma iso_prolog:
  assumes "parse_job (iso_libs k) (iso_command t u) = Inr (i, uid)" and "\<forall>s \<in> set ss. svc_id s \<noteq> k"
  obtains s where "cmd_prolog (iso_libs k) (iso_command t u) (node_pass Destroyed) [node_device ss] = ([node_device (ss @ [s])], Exit 0)"
    and "match_reservation uid (JArray [JInt 3]) s" and "enable s" and "svc_id s = k" and "members s = [MemberUid uid, MemberIgnore]"
proof -
  let ?v = "JArray [JInt 3]"
  have g: "granted (iso_libs k) (iso_command t u) uid ?v"
    using assms(1) iso_wait node_reservation_ok by (simp add: granted_def iso_fields)
  obtain n where n: "ncores_from_R (l_idsets (iso_libs k)) (l_loads (iso_libs k)) (c_rank (iso_command t u)) (c_R (iso_command t u)) = Inr n"
    using node_cores [of None] by (auto simp: iso_fields)
  have f: "allocs_fit (iso_libs k) uid ?v n [node_device ss]"
    using assms(2) by (auto simp: allocs_fit_def alloc_fits_def iso_fields)
  have z: "json_array_size ?v \<noteq> 0" by (simp add: json_array_size_def)
  obtain devs1 where P: "cmd_prolog (iso_libs k) (iso_command t u) (node_pass Destroyed) [node_device ss] = (devs1, Exit 0)"
    "list_all2 (\<lambda>dev dev1. \<exists>s. dev1 = with_service dev s \<and> match_reservation uid ?v s
        \<and> svc_id s \<notin> svc_id ` set (services dev)
        \<and> l_alloc (iso_libs k) (dev_id dev) (new_service (l_classes (iso_libs k)) uid ?v n (capacity dev)) = Some s) [node_device ss] devs1"
    using prolog_creates [OF g iso_fields(6) n node_pass_ok f z] by blast
  then obtain s where "devs1 = [node_device (ss @ [s])]" "match_reservation uid ?v s"
    "s = (new_service (l_classes (iso_libs k)) uid ?v n (capacity (node_device ss)))\<lparr>svc_id := k, enable := True\<rparr>"
    by (auto simp: list_all2_Cons1 with_service_def node_device_def iso_fields)
  with P(1) show ?thesis by (auto intro!: that simp: new_service_def Let_def)
qed

text \<open>The plugin: job 1 runs and is cleaned up, then job 2 runs and gets the same VNI.\<close>

lemma iso_configured:
  obtains ctx :: "refset slingshot" where
    "slingshot_step ref_api sample_enc (slingshot_start \<lparr>vnipool = vnipool0, vnis_per_job = 0, vni_reserve_fatal = False\<rparr>)
       (slingshot_start ctx)"
    and "vni_stable rs_elems vnipool0 (vnipool ctx)" and "vnis_per_job ctx = 1"
    and "vnipool_inv ref_api rs_elems (vnipool ctx)" and "ref.ids (pool (vnipool ctx)) = {3}"
    and "ref.ids (universe (vnipool ctx)) = {3}" and "jobs (vnipool ctx) = Map.empty"
proof -
  let ?ctx = "\<lparr>vnipool = vnipool0, vnis_per_job = 0, vni_reserve_fatal = False\<rparr>"
  obtain c where c: "vnipool_configure ref_libs vnipool0 (digit_string 3) = (c, Inr ())"
      "jobs c = Map.empty" "ref.ids (universe c) = {3}" "ref.ids (pool c) = {3}" "vnipool_inv ref_api rs_elems c"
    by (rule ref_configure_digit [of 3 vnipool0]) (simp_all add: vnipool0_inv, simp add: vnipool0_def)
  let ?ctx1 = "?ctx\<lparr>vnis_per_job := 1, vni_reserve_fatal := vni_reserve_fatal_default, vnipool := c\<rparr>"
  have "slingshot_step ref_api sample_enc (slingshot_start ?ctx) (slingshot_start ?ctx1)"
    using slingshot_conf [of ref_libs ref_api sample_enc "slingshot_start ?ctx", OF _ _ sample_conf] c(1)
    by (simp add: slingshot_start_def)
  moreover have "held vnipool0 = {}" by (rule held_none) (simp add: vnipool0_def)
  ultimately show ?thesis by (intro that [of ?ctx1]) (simp_all add: c vni_stable_def)
qed

lemma iso_granted:
  assumes "vnis_per_job (plug p) = 1" and "vnipool_inv ref_api rs_elems (vnipool (plug p))"
    and "ref.ids (pool (vnipool (plug p))) = {3}" and "phase p i = Pending"
  obtains p' where "slingshot_step ref_api sample_enc p p'" and "vni_stable rs_elems (vnipool (plug p)) (vnipool (plug p'))"
    and "phase p' = (phase p)(i := Active)" and "posted (jobs_host p') = posted (jobs_host p) @ [(i, iso_event)]"
    and "vnis_per_job (plug p') = 1" and "vnipool_inv ref_api rs_elems (vnipool (plug p'))"
    and "ref.ids (pool (vnipool (plug p'))) = {}" and "universe (vnipool (plug p')) = universe (vnipool (plug p))"
    and "\<exists>a. jobs (vnipool (plug p')) (idf58 sample_enc i) = Some a \<and> items a = [3]"
proof -
  obtain r a where r: "vnipool_reserve ref_libs (vnipool (plug p)) i 1 = (r, Inr a)" "items a = [3]"
      "jobs r = (jobs (vnipool (plug p)))(idf58 sample_enc i \<mapsto> a)" "universe r = universe (vnipool (plug p))"
      "ref.ids (pool r) = {}" "vnipool_inv ref_api rs_elems r"
    by (rule ref_reserve_single [OF assms(2,3), of i])
  let ?h = "(jobs_host p)\<lparr>posted := posted (jobs_host p) @ [(i, \<lparr>ev_vnis = items a, ev_empty_reason = None\<rparr>)]\<rparr>"
  let ?p = "\<lparr>plug = (plug p)\<lparr>vnipool := r\<rparr>, jobs_host = ?h, phase = (phase p)(i := Active)\<rparr>"
  have "slingshot_step ref_api sample_enc p ?p"
    by (rule slingshot_run [of ref_libs _ _ _ _ "Inr (plain_args i)", OF _ _ assms(4) _ sample_granted [OF r(1) assms(1)]])
      (simp_all add: plain_args_def)
  then show ?thesis by (rule that) (simp_all add: r assms(1) vni_stable_def)
qed

lemma iso_cleaned:
  assumes "vnis_per_job (plug p) = 1" and "vnipool_inv ref_api rs_elems (vnipool (plug p))"
    and "ref.ids (pool (vnipool (plug p))) = {}" and "ref.ids (universe (vnipool (plug p))) = {3}"
    and "\<exists>a. jobs (vnipool (plug p)) (idf58 sample_enc i) = Some a \<and> items a = [3]" and "phase p i = Active"
  obtains p' where "slingshot_step ref_api sample_enc p p'" and "vni_stable rs_elems (vnipool (plug p)) (vnipool (plug p'))"
    and "phase p' = (phase p)(i := Done)" and "posted (jobs_host p') = posted (jobs_host p)"
    and "vnis_per_job (plug p') = 1" and "vnipool_inv ref_api rs_elems (vnipool (plug p'))"
    and "ref.ids (pool (vnipool (plug p'))) = {3}"
proof -
  obtain a where a: "jobs (vnipool (plug p)) (idf58 sample_enc i) = Some a" "items a = [3]" using assms(5) by blast
  obtain vp r where v: "vnipool_release ref_libs (vnipool (plug p)) i = (vp, r)"
    by (cases "vnipool_release ref_libs (vnipool (plug p)) i")
  have a': "jobs (vnipool (plug p)) (idf58 (f58 ref_libs) i) = Some a" using a(1) by simp
  have inv: "vnipool_inv (idsets ref_libs) rs_elems (vnipool (plug p))" using assms(2) by simp
  note R = ref_vni.release_ok [OF inv a' v]
  let ?p = "\<lparr>plug = (plug p)\<lparr>vnipool := vp\<rparr>, jobs_host = jobs_host p, phase = (phase p)(i := Done)\<rparr>"
  have "job_state_cleanup_cb ref_libs (plug p) (Some i) = ((plug p)\<lparr>vnipool := vp\<rparr>, 0)"
    using v R(1) by (simp add: job_state_cleanup_cb_def)
  from slingshot_cleanup [OF _ _ assms(6) _ this, of ref_api sample_enc] have "slingshot_step ref_api sample_enc p ?p" by simp
  then show ?thesis by (rule that) (use R a(2) assms in \<open>simp_all add: vni_stable_def\<close>)
qed

abbreviation iso_devs :: "nat \<Rightarrow> cxi_dev list" where
  "iso_devs \<equiv> (\<lambda>_. [node_device [system_service]])"

abbreviation iso_reachable :: "bool \<Rightarrow> refset cluster \<Rightarrow> bool" where
  "iso_reachable late \<equiv> cluster_reachable late ref_api sample_enc (vni_stable rs_elems) iso_user"

lemma iso_plugin_step:
  assumes "iso_reachable late s" and "slingshot_step ref_api sample_enc (plugin_sys s) p'"
    and "vni_stable rs_elems (vnipool (plug (plugin_sys s))) (vnipool (plug p'))"
    and "\<And>i. late \<Longrightarrow> job_phase_of s i = Active \<Longrightarrow> phase p' i = Done \<Longrightarrow> \<not> left_over iso_user s i"
  shows "iso_reachable late \<lparr>plugin_sys = p', node_devs = node_devs s\<rparr>"
  by (rule cluster_next [OF assms(1) cluster_plugin [OF assms(2)]]) (use assms(3,4) in simp_all)

lemma iso_prolog_step:
  assumes "iso_reachable late s" and "job_phase_of s i = Active" and "(i, iso_event) \<in> announced s"
    and "parse_job (iso_libs k) (iso_command t u) = Inr (i, iso_user i)"
    and "node_devs s 0 = [node_device ss]" and "\<forall>d \<in> set ss. svc_id d \<noteq> k"
  obtains d where "iso_reachable late \<lparr>plugin_sys = plugin_sys s, node_devs = (node_devs s)(0 := [node_device (ss @ [d])])\<rparr>"
    and "match_reservation (iso_user i) (JArray [JInt 3]) d" and "enable d" and "svc_id d = k"
    and "members d = [MemberUid (iso_user i), MemberIgnore]"
proof -
  obtain d where d: "cmd_prolog (iso_libs k) (iso_command t u) (node_pass Destroyed) [node_device ss] = ([node_device (ss @ [d])], Exit 0)"
    "match_reservation (iso_user i) (JArray [JInt 3]) d" "enable d" "svc_id d = k" "members d = [MemberUid (iso_user i), MemberIgnore]"
    by (rule iso_prolog [OF assms(4,6)])
  have keeps: "alloc_keeps (l_alloc (iso_libs k))" by (auto simp: alloc_keeps_def iso_fields)
  have P: "cmd_prolog (iso_libs k) (iso_command t u) (node_pass Destroyed) (node_devs s 0) = ([node_device (ss @ [d])], Exit 0)"
    by (simp add: assms(5) d(1))
  note S = cluster_prolog [where user = iso_user and n = 0 and s = s and enc = sample_enc, OF assms(2,3) iso_fields(1) iso_reads [OF assms(4)] keeps P]
  have "iso_reachable late \<lparr>plugin_sys = plugin_sys s, node_devs = (node_devs s)(0 := [node_device (ss @ [d])])\<rparr>"
    by (rule cluster_next [OF assms(1) S]) (simp_all add: vni_stable_def)
  with d(2-5) that show ?thesis by blast
qed

lemma iso_first_job:
  obtains s d p where "iso_reachable late s" and "plugin_sys s = p" and "node_devs s = iso_devs(0 := [node_device [system_service, d]])"
    and "match_reservation (iso_user 1) (JArray [JInt 3]) d" and "enable d" and "svc_id d = 7"
    and "members d = [MemberUid (iso_user 1), MemberIgnore]"
    and "posted (jobs_host p) = [(1, iso_event)]" and "phase p = (\<lambda>_. Pending)(1 := Active)" and "vnis_per_job (plug p) = 1"
    and "vnipool_inv ref_api rs_elems (vnipool (plug p))" and "ref.ids (pool (vnipool (plug p))) = {}"
    and "ref.ids (universe (vnipool (plug p))) = {3}"
    and "\<exists>a. jobs (vnipool (plug p)) (idf58 sample_enc 1) = Some a \<and> items a = [3]"
proof -
  let ?start = "slingshot_start \<lparr>vnipool = vnipool0, vnis_per_job = 0, vni_reserve_fatal = False\<rparr> :: refset slingshot_sys"
  have R0: "iso_reachable late \<lparr>plugin_sys = ?start, node_devs = iso_devs\<rparr>"
    by (rule cluster_init [of True True True "\<lambda>_. True"])
      (simp_all add: slingshot_plugin_init_def cray_slingshot_create_def vnipool0_create node_device_def system_service_def)
  obtain ctx :: "refset slingshot" where c: "slingshot_step ref_api sample_enc ?start (slingshot_start ctx)"
    "vni_stable rs_elems vnipool0 (vnipool ctx)" "vnis_per_job ctx = 1" "vnipool_inv ref_api rs_elems (vnipool ctx)"
    "ref.ids (pool (vnipool ctx)) = {3}" "ref.ids (universe (vnipool ctx)) = {3}"
    by (rule iso_configured)
  have R1: "iso_reachable late \<lparr>plugin_sys = slingshot_start ctx, node_devs = iso_devs\<rparr>"
    using iso_plugin_step [OF R0, of "slingshot_start ctx"] c(1,2) by (simp add: slingshot_start_def)
  let ?p = "slingshot_start ctx"
  have h: "vnis_per_job (plug ?p) = 1" "vnipool_inv ref_api rs_elems (vnipool (plug ?p))"
    "ref.ids (pool (vnipool (plug ?p))) = {3}" "phase ?p 1 = Pending"
    by (simp_all add: slingshot_start_def c)
  obtain p where p: "slingshot_step ref_api sample_enc ?p p" "vni_stable rs_elems (vnipool (plug ?p)) (vnipool (plug p))"
    "phase p = (phase ?p)(1 := Active)" "posted (jobs_host p) = posted (jobs_host ?p) @ [(1, iso_event)]"
    "vnis_per_job (plug p) = 1" "vnipool_inv ref_api rs_elems (vnipool (plug p))"
    "ref.ids (pool (vnipool (plug p))) = {}" "universe (vnipool (plug p)) = universe (vnipool (plug ?p))"
    "\<exists>a. jobs (vnipool (plug p)) (idf58 sample_enc 1) = Some a \<and> items a = [3]"
    by (rule iso_granted [OF h])
  have ph: "phase p = (\<lambda>_. Pending)(1 := Active)" "posted (jobs_host p) = [(1, iso_event)]"
    "ref.ids (universe (vnipool (plug p))) = {3}"
    by (simp_all add: p(3,4,8) slingshot_start_def c(6))
  have "phase p i \<noteq> Done" for i by (simp add: ph(1))
  with iso_plugin_step [OF R1, of p] p(1,2) have R2: "iso_reachable late \<lparr>plugin_sys = p, node_devs = iso_devs\<rparr>" by simp
  obtain d where d: "iso_reachable late \<lparr>plugin_sys = p, node_devs = iso_devs(0 := [node_device ([system_service] @ [d])])\<rparr>"
    "match_reservation (iso_user 1) (JArray [JInt 3]) d" "enable d" "svc_id d = 7" "members d = [MemberUid (iso_user 1), MemberIgnore]"
    using iso_prolog_step [OF R2 _ _ iso_jobs(1) [of 7], of "[system_service]"] ph by (auto simp: system_service_def)
  show ?thesis by (rule that [of _ p d, OF d(1)]) (simp_all add: d(2-5) ph p(5-7,9))
qed

lemma services_isolated_witness:
  "\<exists>s d i ev. d \<in> all_services (node_devs s 0) \<and> enable d \<and> service_vnis d = {3}
    \<and> belongs iso_user s d i ev \<and> 3 \<notin> vnis_free rs_elems s"
proof -
  obtain s d p where s: "iso_reachable True s" "plugin_sys s = p" "node_devs s = iso_devs(0 := [node_device [system_service, d]])"
    "match_reservation (iso_user 1) (JArray [JInt 3]) d" "enable d"
    by (rule iso_first_job [of True])
  have v: "service_vnis d = {3}" using matching_vnis [of "iso_user 1" "[3]" d] s(4) by simp
  have d: "d \<in> all_services (node_devs s 0)" by (simp add: s(3) node_device_def)
  moreover have "\<not> is_system_svc d" using s(4) by (auto simp: match_reservation_def)
  ultimately obtain i ev where "belongs iso_user s d i ev \<and> service_vnis d \<inter> vnis_free rs_elems s = {}"
    using services_isolated [OF s(1) ref.idset_lib_axioms sample_f58.f58_encoding_axioms d _ d] by blast
  with d s(5) v show ?thesis by (intro exI [of _ s] exI [of _ d] exI [of _ i] exI [of _ ev]) simp
qed

text \<open>
  C26. Cleaning up at once is not enough. The plugin gives back the VNIs of a job as soon as the job is
  cleaned up, whether or not its services could be destroyed: then a node can have two enabled services
  for two different users with the same VNI.
\<close>

theorem vni_shared_between_users:
  "\<exists>s d d'. cluster_reachable False ref_api sample_enc (vni_stable rs_elems) iso_user s
    \<and> d \<in> all_services (node_devs s 0) \<and> d' \<in> all_services (node_devs s 0) \<and> enable d \<and> enable d'
    \<and> members d = [MemberUid 1000, MemberIgnore] \<and> members d' = [MemberUid 2000, MemberIgnore]
    \<and> service_vnis d = {3} \<and> service_vnis d' = {3}"
proof -
  obtain s d p where s: "iso_reachable False s" "plugin_sys s = p" "node_devs s = iso_devs(0 := [node_device [system_service, d]])"
    "match_reservation (iso_user 1) (JArray [JInt 3]) d" "enable d" "svc_id d = 7" "members d = [MemberUid (iso_user 1), MemberIgnore]"
    "posted (jobs_host p) = [(1, iso_event)]" "phase p = (\<lambda>_. Pending)(1 := Active)" "vnis_per_job (plug p) = 1"
    "vnipool_inv ref_api rs_elems (vnipool (plug p))" "ref.ids (pool (vnipool (plug p))) = {}"
    "ref.ids (universe (vnipool (plug p))) = {3}"
    "\<exists>a. jobs (vnipool (plug p)) (idf58 sample_enc 1) = Some a \<and> items a = [3]"
    by (rule iso_first_job [of False])
  have "phase p 1 = Active" by (simp add: s(9))
  then obtain q where q: "slingshot_step ref_api sample_enc p q" "vni_stable rs_elems (vnipool (plug p)) (vnipool (plug q))"
    "phase q = (phase p)(1 := Done)" "posted (jobs_host q) = posted (jobs_host p)" "vnis_per_job (plug q) = 1"
    "vnipool_inv ref_api rs_elems (vnipool (plug q))" "ref.ids (pool (vnipool (plug q))) = {3}"
    by (rule iso_cleaned [OF s(10-14)])
  have Q: "iso_reachable False \<lparr>plugin_sys = q, node_devs = node_devs s\<rparr>"
    using iso_plugin_step [OF s(1)] q(1,2) s(2) by simp
  have "phase q 2 = Pending" by (simp add: q(3) s(9))
  then obtain r where r: "slingshot_step ref_api sample_enc q r" "vni_stable rs_elems (vnipool (plug q)) (vnipool (plug r))"
    "phase r = (phase q)(2 := Active)" "posted (jobs_host r) = posted (jobs_host q) @ [(2, iso_event)]"
    by (rule iso_granted [OF q(5-7)])
  have R: "iso_reachable False \<lparr>plugin_sys = r, node_devs = node_devs s\<rparr>"
    using iso_plugin_step [OF Q] r(1,2) by simp
  have h: "phase r 2 = Active" "(2, iso_event) \<in> set (posted (jobs_host r))" by (simp_all add: r(3,4))
  obtain d' where d': "iso_reachable False \<lparr>plugin_sys = r, node_devs = (node_devs s)(0 := [node_device ([system_service, d] @ [d'])])\<rparr>"
    "match_reservation (iso_user 2) (JArray [JInt 3]) d'" "enable d'" "members d' = [MemberUid (iso_user 2), MemberIgnore]"
    using iso_prolog_step [OF R _ _ iso_jobs(2) [of 8], of "[system_service, d]"] h s(3,6) by (auto simp: system_service_def)
  have v: "service_vnis d = {3}" "service_vnis d' = {3}"
    using matching_vnis [of "iso_user 1" "[3]" d] matching_vnis [of "iso_user 2" "[3]" d'] s(4) d'(2) by simp_all
  have u: "iso_user 1 = 1000" "iso_user 2 = 2000" by (simp_all add: iso_user_def)
  show ?thesis
    by (rule exI [of _ "\<lparr>plugin_sys = r, node_devs = (node_devs s)(0 := [node_device ([system_service, d] @ [d'])])\<rparr>"],
        rule exI [of _ d], rule exI [of _ d'], intro conjI, rule d'(1)) (simp_all add: node_device_def s(5,7) d'(3,4) v u)
qed

end
