(* ===== verification/SlingshotList.thy ===== *)
theory SlingshotList
  imports FluxSlingshot Hostlist "HOL-Library.Multiset"
begin

text \<open>
  The \<^verbatim>\<open>list\<close> command of \<^verbatim>\<open>src/cmd/flux-slingshot.c\<close>: the services of all devices, with equal
  services of different devices combined into one line.
\<close>

section \<open>Service entries\<close>

record ('h, 'i) service_entry =
  devices :: 'h
  e_svc_id :: int
  e_enable :: bool
  e_is_system_svc :: bool
  e_restricted_members :: bool
  e_restricted_vnis :: bool
  e_resource_limits :: bool
  e_uid :: int
  e_vnis :: 'i
  e_limits :: "rsrc_type \<Rightarrow> rsrc_limits"

text \<open>
  The library calls of the command; \<open>ll_mem\<close>: whether there is memory for an entry. \<open>rsrc_types\<close>
  are the values below \<^verbatim>\<open>CXI_RSRC_TYPE_MAX\<close>, with the names that libcxi has for them.
\<close>

record ('h, 'i) list_libs =
  ll_mem :: bool
  ll_hosts :: "'h hostlist_api"
  hostlist_decode :: "string \<Rightarrow> 'h option"
  hostlist_encode :: "'h \<Rightarrow> string option"
  ll_ids :: "'i idset_api"
  idset_create_auto :: "'i option"
  idset_set :: "'i \<Rightarrow> nat \<Rightarrow> 'i option"
  rsrc_name :: "rsrc_type \<Rightarrow> string"

definition rsrc_types :: "rsrc_type list" where
  "rsrc_types = [PTE, TXQ, TGQ, EQ, CT, LE, TLE, AC]"

definition service_entry_equal ::
  "('h, 'i) list_libs \<Rightarrow> ('h, 'i) service_entry \<Rightarrow> ('h, 'i) service_entry \<Rightarrow> bool" where
  "service_entry_equal L e1 e2 =
     (if e_svc_id e1 \<noteq> e_svc_id e2 \<or> e_is_system_svc e1 \<noteq> e_is_system_svc e2
         \<or> e_restricted_members e1 \<noteq> e_restricted_members e2
         \<or> e_restricted_vnis e1 \<noteq> e_restricted_vnis e2 \<or> e_resource_limits e1 \<noteq> e_resource_limits e2
         \<or> e_enable e1 \<noteq> e_enable e2 then False
      else if e_restricted_members e1 \<and> e_uid e1 \<noteq> e_uid e2 then False
      else if e_restricted_vnis e1 \<and> \<not> idset_equal (ll_ids L) (Some (e_vnis e1)) (Some (e_vnis e2)) then False
      else if e_resource_limits e1 \<and> list_ex (\<lambda>r. limit_max (e_limits e1 r) \<noteq> limit_max (e_limits e2 r)
         \<or> limit_res (e_limits e1 r) \<noteq> limit_res (e_limits e2 r)) rsrc_types then False
      else True)"

text \<open>The first user among the members; an \<^verbatim>\<open>int\<close> has 32 bits.\<close>

fun first_uid :: "svc_member list \<Rightarrow> nat option" where
  "first_uid [] = None"
| "first_uid (MemberUid u # ms) = Some u"
| "first_uid (_ # ms) = first_uid ms"

fun set_vnis :: "('h, 'i) list_libs \<Rightarrow> nat list \<Rightarrow> 'i \<Rightarrow> 'i option" where
  "set_vnis L [] ids = Some ids"
| "set_vnis L (v # vs) ids = (case idset_set L ids v of None \<Rightarrow> None | Some ids' \<Rightarrow> set_vnis L vs ids')"

definition service_entry_create ::
  "('h, 'i) list_libs \<Rightarrow> string \<Rightarrow> cxi_svc_desc \<Rightarrow> ('h, 'i) service_entry option" where
  "service_entry_create L name desc =
     (if \<not> ll_mem L then None
      else case (hostlist_decode L name, idset_create_auto L) of
        (Some devs, Some ids) \<Rightarrow>
          let user = (if restricted_members desc then first_uid (members desc) else None) in
          (case (if restricted_vnis desc then set_vnis L (take (num_vld_vnis desc) (vnis desc)) ids else Some ids) of
             None \<Rightarrow> None
           | Some ids' \<Rightarrow> Some \<lparr>devices = devs, e_svc_id = svc_id desc, e_enable = enable desc,
               e_is_system_svc = is_system_svc desc, e_restricted_members = (user \<noteq> None),
               e_restricted_vnis = restricted_vnis desc, e_resource_limits = resource_limits desc,
               e_uid = (case user of None \<Rightarrow> 0 | Some u \<Rightarrow> signed_take_bit 31 (int u)), e_vnis = ids',
               e_limits = limits desc\<rparr>)
      | _ \<Rightarrow> None)"

text \<open>
  \<^verbatim>\<open>insert_services_entry\<close>: the first equal entry gets the devices of the new one; when that fails,
  or there is none, the new one is added at the end.
\<close>

fun combine_entry ::
  "('h, 'i) list_libs \<Rightarrow> ('h, 'i) service_entry list \<Rightarrow> ('h, 'i) service_entry \<Rightarrow> ('h, 'i) service_entry list option" where
  "combine_entry L [] entry = None"
| "combine_entry L (old # es) entry =
     (if service_entry_equal L old entry
      then (case hostlist_encode L (devices entry) of
          None \<Rightarrow> None
        | Some device \<Rightarrow> (case hostlist_append (ll_hosts L) (devices old) device of
            None \<Rightarrow> None
          | Some h \<Rightarrow> Some (old\<lparr>devices := h\<rparr> # es)))
      else map_option ((#) old) (combine_entry L es entry))"

definition insert_services_entry ::
  "('h, 'i) list_libs \<Rightarrow> ('h, 'i) service_entry list \<Rightarrow> ('h, 'i) service_entry \<Rightarrow> ('h, 'i) service_entry list" where
  "insert_services_entry L es entry = (case combine_entry L es entry of
       Some es' \<Rightarrow> es'
     | None \<Rightarrow> es @ [entry])"

section \<open>The command\<close>

text \<open>The conversions \<^verbatim>\<open>%-ns\<close> and \<^verbatim>\<open>%-nd\<close>.\<close>

definition pad :: "nat \<Rightarrow> string \<Rightarrow> string" where
  "pad n t = t @ replicate (n - length t) CHR '' ''"

definition service_entry_print ::
  "('h, 'i) list_libs \<Rightarrow> bool \<Rightarrow> ('h, 'i) service_entry \<Rightarrow> string option" where
  "service_entry_print L show_max entry =
     (case (hostlist_encode L (devices entry), idset_encode (ll_ids L) (Some (e_vnis entry))) of
        (Some name, Some vni_text) \<Rightarrow>
          let id = take 15 (dec_of_int (e_svc_id entry) @ (if e_is_system_svc entry then ''/sys'' else '''')
                @ (if e_enable entry then '''' else ''-''));
              uid = (if e_restricted_members entry then take 15 (dec_of_int (e_uid entry)) else ''-'')
          in Some (pad 8 name @ '' '' @ pad 6 id @ '' '' @ pad 5 uid @ '' '' @ pad 9 vni_text
               @ concat (map (\<lambda>r. '' '' @ pad 5 (dec_of_nat
                   (if show_max then limit_max (e_limits entry r) else limit_res (e_limits entry r)))) rsrc_types))
      | _ \<Rightarrow> None)"

definition service_entry_header_print :: "('h, 'i) list_libs \<Rightarrow> bool \<Rightarrow> string" where
  "service_entry_header_print L cxi =
     pad 8 ''Name'' @ '' '' @ pad 6 ''Svc'' @ '' '' @ pad 5 ''UID'' @ '' '' @ pad 9 ''VNIs''
       @ (if cxi then concat (map (\<lambda>r. '' '' @ pad 5 (rsrc_name L r)) rsrc_types) else [])"

text \<open>The loops of \<^verbatim>\<open>cmd_list\<close> over the services of a device and over the devices.\<close>

fun list_services ::
  "('h, 'i) list_libs \<Rightarrow> string \<Rightarrow> cxi_svc_desc list \<Rightarrow> ('h, 'i) service_entry list \<Rightarrow> ('h, 'i) service_entry list option" where
  "list_services L name [] es = Some es"
| "list_services L name (desc # descs) es = (case service_entry_create L name desc of
       None \<Rightarrow> None
     | Some entry \<Rightarrow> list_services L name descs (insert_services_entry L es entry))"

fun list_devices ::
  "('h, 'i) list_libs \<Rightarrow> cxi_pass \<Rightarrow> cxi_dev list \<Rightarrow> ('h, 'i) service_entry list \<Rightarrow> ('h, 'i) service_entry list option" where
  "list_devices L p [] entries = Some entries"
| "list_devices L p (dev # devs) entries =
     (if \<not> p_open p (dev_id dev) then list_devices L p devs entries
      else if \<not> p_query p (dev_id dev) then list_devices L p devs entries
      else (case list_services L (dev_name dev) (services dev) entries of
          None \<Rightarrow> None
        | Some entries' \<Rightarrow> list_devices L p devs entries'))"

fun print_entries :: "('h, 'i) list_libs \<Rightarrow> bool \<Rightarrow> ('h, 'i) service_entry list \<Rightarrow> string list \<times> exit" where
  "print_entries L show_max [] = ([], Exit 0)"
| "print_entries L show_max (e # es) = (case service_entry_print L show_max e of
       None \<Rightarrow> ([], fatal)
     | Some line \<Rightarrow> map_prod ((#) line) id (print_entries L show_max es))"

text \<open>\<^verbatim>\<open>cmd_list\<close>: the lines that it prints.\<close>

definition cmd_list ::
  "('h, 'i) list_libs \<Rightarrow> bool \<Rightarrow> bool \<Rightarrow> bool \<Rightarrow> bool \<Rightarrow> cxi_pass \<Rightarrow> cxi_dev list \<Rightarrow> string list \<times> exit" where
  "cmd_list L free_args no_header show_max cxi p devs =
     (if free_args then ([], fatal)
      else let header = (if no_header then [] else [service_entry_header_print L cxi]) in
        if \<not> cxi then (header, Exit 0)
        else if \<not> p_list p then (header, fatal)
        else (case list_devices L p devs [] of
            None \<Rightarrow> (header, fatal)
          | Some entries \<Rightarrow> map_prod ((@) header) id (print_entries L show_max entries)))"


section \<open>Grouping\<close>

text \<open>
  The attributes that decide whether two services are combined, all of which are shown. A user, VNIs
  or limits that are not in force do not count. The limits are printed even so: the line of services
  that are combined has those of the first one, when none of them is limited.
\<close>

type_synonym shown = "int \<times> bool \<times> bool \<times> nat set option \<times> (rsrc_type \<Rightarrow> rsrc_limits) option \<times> int option"

definition shown_of :: "('i \<Rightarrow> nat set) \<Rightarrow> ('h, 'i) service_entry \<Rightarrow> shown" where
  "shown_of elems e = (e_svc_id e, e_is_system_svc e, e_enable e,
     if e_restricted_vnis e then Some (elems (e_vnis e)) else None,
     if e_resource_limits e then Some (e_limits e) else None,
     if e_restricted_members e then Some (e_uid e) else None)"

definition shown_service :: "cxi_svc_desc \<Rightarrow> shown" where
  "shown_service d = (svc_id d, is_system_svc d, enable d,
     if restricted_vnis d then Some (set (take (num_vld_vnis d) (vnis d))) else None,
     if resource_limits d then Some (limits d) else None,
     if restricted_members d then map_option (\<lambda>u. signed_take_bit 31 (int u)) (first_uid (members d)) else None)"

locale list_env =
  hosts: hostlist_lib "ll_hosts L" hosts expand + ids: idset_lib "ll_ids L" elems
  for L :: "('h, 'i) list_libs" and hosts expand elems +
  assumes decode_hosts: "hostlist_decode L s = Some h \<Longrightarrow> expand s = Some (hosts h)"
    and encode_expand: "hostlist_encode L h = Some s \<Longrightarrow> expand s = Some (hosts h)"
    and create_auto: "idset_create_auto L = Some i \<Longrightarrow> elems i = {}"
    and set_elems: "idset_set L i x = Some j \<Longrightarrow> elems j = insert x (elems i)"
begin

lemma limits_equal:
  fixes f g :: "rsrc_type \<Rightarrow> rsrc_limits"
  shows "list_ex (\<lambda>r. limit_max (f r) \<noteq> limit_max (g r) \<or> limit_res (f r) \<noteq> limit_res (g r)) rsrc_types \<longleftrightarrow> f \<noteq> g"
proof -
  have "f = g" if "\<forall>r \<in> set rsrc_types. limit_max (f r) = limit_max (g r) \<and> limit_res (f r) = limit_res (g r)"
  proof
    fix r
    have "r \<in> set rsrc_types" by (cases r) (simp_all add: rsrc_types_def)
    with that have "limit_max (f r) = limit_max (g r)" "limit_res (f r) = limit_res (g r)" by simp_all
    then show "f r = g r" by (intro rsrc_limits.equality) simp_all
  qed
  then show ?thesis by (auto simp: list_ex_iff)
qed

lemma equal_iff_shown: "service_entry_equal L e1 e2 \<longleftrightarrow> shown_of elems e1 = shown_of elems e2"
  unfolding service_entry_equal_def limits_equal shown_of_def by auto

lemma set_vnis_elems: "set_vnis L vs i = Some j \<Longrightarrow> elems j = set vs \<union> elems i"
  by (induction vs arbitrary: i) (auto split: option.splits simp: set_elems)

lemma create_shown:
  assumes "service_entry_create L name desc = Some e"
  shows "shown_of elems e = shown_service desc \<and> expand name = Some (hosts (devices e))"
proof -
  obtain devs i where d: "hostlist_decode L name = Some devs" "idset_create_auto L = Some i"
    using assms by (auto simp: service_entry_create_def split: if_splits option.splits)
  let ?user = "if restricted_members desc then first_uid (members desc) else None"
  obtain j where j: "(if restricted_vnis desc then set_vnis L (take (num_vld_vnis desc) (vnis desc)) i else Some i) = Some j"
    "devices e = devs" "e_svc_id e = svc_id desc" "e_enable e = enable desc" "e_is_system_svc e = is_system_svc desc"
    "e_restricted_members e = (?user \<noteq> None)" "e_restricted_vnis e = restricted_vnis desc"
    "e_resource_limits e = resource_limits desc"
    "e_uid e = (case ?user of None \<Rightarrow> 0 | Some u \<Rightarrow> signed_take_bit 31 (int u))" "e_vnis e = j" "e_limits e = limits desc"
    using assms d by (auto simp: service_entry_create_def Let_def split: if_splits option.splits)
  have "restricted_vnis desc \<Longrightarrow> elems j = set (take (num_vld_vnis desc) (vnis desc))"
    using j(1) set_vnis_elems create_auto [OF d(2)] by auto
  then show ?thesis
    using decode_hosts [OF d(1)] j(2-11)
    by (auto simp: shown_of_def shown_service_def split: option.splits)
qed

text \<open>The devices with a certain service, among entries.\<close>

definition devices_with :: "shown \<Rightarrow> ('h, 'i) service_entry list \<Rightarrow> string list" where
  "devices_with k es = concat (map (hosts \<circ> devices) (filter (\<lambda>e. shown_of elems e = k) es))"

lemma devices_with_simps [simp]:
  "devices_with k [] = []"
  "devices_with k (e # es) = (if shown_of elems e = k then hosts (devices e) else []) @ devices_with k es"
  "devices_with k (es @ fs) = devices_with k es @ devices_with k fs"
  by (simp_all add: devices_with_def)

lemma shown_devices [simp]: "shown_of elems (e\<lparr>devices := h\<rparr>) = shown_of elems e"
  by (simp add: shown_of_def)

lemma combine_entry_result:
  "combine_entry L es e = Some es' \<Longrightarrow> map (shown_of elems) es' = map (shown_of elems) es
    \<and> mset (devices_with k es') = mset (devices_with k (es @ [e]))"
proof (induction es arbitrary: es')
  case (Cons old es)
  show ?case
  proof (cases "service_entry_equal L old e")
    case True
    then obtain s h where s: "hostlist_encode L (devices e) = Some s" "hostlist_append (ll_hosts L) (devices old) s = Some h"
      "es' = old\<lparr>devices := h\<rparr> # es"
      using Cons.prems by (auto split: option.splits)
    have "hosts h = hosts (devices old) @ hosts (devices e)"
      using hosts.append_hosts [OF s(2)] encode_expand [OF s(1)] by auto
    then show ?thesis using True s(3) by (auto simp: equal_iff_shown)
  next
    case False
    with Cons show ?thesis by auto
  qed
qed simp

lemma insert_devices: "mset (devices_with k (insert_services_entry L es e)) = mset (devices_with k (es @ [e]))"
  by (auto simp: insert_services_entry_def dest: combine_entry_result [where k = k] split: option.split)

lemma list_services_devices:
  "list_services L name descs es = Some es' \<Longrightarrow> mset (devices_with k es') = mset (devices_with k es
     @ concat (map (\<lambda>d. if shown_service d = k then the (expand name) else []) descs))"
proof (induction descs arbitrary: es)
  case (Cons d descs)
  then obtain e where e: "service_entry_create L name d = Some e"
    "list_services L name descs (insert_services_entry L es e) = Some es'"
    by (auto split: option.splits)
  from Cons.IH [OF e(2)] create_shown [OF e(1)] show ?case by (auto simp: insert_devices)
qed simp

end

text \<open>The services that can be read, each with the name of its device, and the devices that have one.\<close>

definition read_services :: "cxi_pass \<Rightarrow> cxi_dev list \<Rightarrow> (string \<times> cxi_svc_desc) list" where
  "read_services p devs = concat (map (\<lambda>dev. map (Pair (dev_name dev)) (services dev))
     (filter (\<lambda>dev. p_open p (dev_id dev) \<and> p_query p (dev_id dev)) devs))"

definition owners :: "(string \<Rightarrow> string list option) \<Rightarrow> shown \<Rightarrow> (string \<times> cxi_svc_desc) list \<Rightarrow> string list" where
  "owners expand k xs = concat (map (\<lambda>(name, d). if shown_service d = k then the (expand name) else []) xs)"

context list_env
begin

lemma list_devices_devices:
  "list_devices L p devs es = Some es' \<Longrightarrow>
     mset (devices_with k es') = mset (devices_with k es @ owners expand k (read_services p devs))"
proof (induction devs arbitrary: es)
  case (Cons dev devs)
  show ?case
  proof (cases "p_open p (dev_id dev) \<and> p_query p (dev_id dev)")
    case False
    with Cons show ?thesis by (auto simp: read_services_def split: if_splits)
  next
    case True
    with Cons.prems obtain es1 where es1: "list_services L (dev_name dev) (services dev) es = Some es1"
      "list_devices L p devs es1 = Some es'"
      by (auto split: option.splits)
    have "owners expand k (read_services p (dev # devs)) =
        concat (map (\<lambda>d. if shown_service d = k then the (expand (dev_name dev)) else []) (services dev))
        @ owners expand k (read_services p devs)"
      using True by (simp add: read_services_def owners_def comp_def)
    with Cons.IH [OF es1(2)] list_services_devices [OF es1(1), of k] show ?thesis by simp
  qed
qed (simp add: read_services_def owners_def)

end


text \<open>When the names of the devices can be written and appended, equal services are always combined.\<close>

definition combinable :: "('h, 'i) list_libs \<Rightarrow> (string \<Rightarrow> string list option) \<Rightarrow> cxi_dev list \<Rightarrow> bool" where
  "combinable L expand devs \<longleftrightarrow>
     (\<forall>dev \<in> set devs. \<forall>h. hostlist_decode L (dev_name dev) = Some h \<longrightarrow> hostlist_encode L h \<noteq> None)
     \<and> (\<forall>h s. expand s \<noteq> None \<longrightarrow> hostlist_append (ll_hosts L) h s \<noteq> None)"

context list_env
begin

lemma combine_entry_none:
  assumes "hostlist_encode L (devices e) \<noteq> None" and "\<forall>h s. expand s \<noteq> None \<longrightarrow> hostlist_append (ll_hosts L) h s \<noteq> None"
  shows "combine_entry L es e = None \<Longrightarrow> shown_of elems e \<notin> shown_of elems ` set es"
proof (induction es)
  case (Cons old es)
  obtain s where s: "hostlist_encode L (devices e) = Some s" using assms(1) by blast
  then have "hostlist_append (ll_hosts L) (devices old) s \<noteq> None" using encode_expand [OF s] assms(2) by simp
  then show ?case using Cons s by (auto simp: equal_iff_shown split: if_splits option.splits)
qed simp

lemma insert_distinct:
  assumes "hostlist_encode L (devices e) \<noteq> None" and "\<forall>h s. expand s \<noteq> None \<longrightarrow> hostlist_append (ll_hosts L) h s \<noteq> None"
    and "distinct (map (shown_of elems) es)"
  shows "distinct (map (shown_of elems) (insert_services_entry L es e))"
proof (cases "combine_entry L es e")
  case None
  with combine_entry_none [OF assms(1,2) None] assms(3) show ?thesis by (simp add: insert_services_entry_def)
next
  case (Some es')
  have "map (shown_of elems) es' = map (shown_of elems) es" using combine_entry_result [OF Some] by blast
  then show ?thesis using Some assms(3) by (simp add: insert_services_entry_def)
qed

lemma create_devices: "service_entry_create L name desc = Some e \<Longrightarrow> hostlist_decode L name = Some (devices e)"
  by (auto simp: service_entry_create_def Let_def split: if_splits option.splits)

lemma list_services_distinct:
  assumes "\<forall>h. hostlist_decode L name = Some h \<longrightarrow> hostlist_encode L h \<noteq> None"
    and "\<forall>h s. expand s \<noteq> None \<longrightarrow> hostlist_append (ll_hosts L) h s \<noteq> None"
  shows "list_services L name descs es = Some es' \<Longrightarrow> distinct (map (shown_of elems) es) \<Longrightarrow>
    distinct (map (shown_of elems) es')"
proof (induction descs arbitrary: es)
  case (Cons d descs)
  then obtain e where e: "service_entry_create L name d = Some e"
    "list_services L name descs (insert_services_entry L es e) = Some es'"
    by (auto split: option.splits)
  have "hostlist_encode L (devices e) \<noteq> None" using create_devices [OF e(1)] assms(1) by blast
  from Cons.IH [OF e(2) insert_distinct [OF this assms(2) Cons.prems(2)]] show ?case .
qed simp

lemma list_devices_distinct:
  "combinable L expand devs \<Longrightarrow> list_devices L p devs es = Some es' \<Longrightarrow> distinct (map (shown_of elems) es) \<Longrightarrow>
    distinct (map (shown_of elems) es')"
proof (induction devs arbitrary: es)
  case (Cons dev devs)
  have c: "combinable L expand devs" "\<forall>h. hostlist_decode L (dev_name dev) = Some h \<longrightarrow> hostlist_encode L h \<noteq> None"
    "\<forall>h s. expand s \<noteq> None \<longrightarrow> hostlist_append (ll_hosts L) h s \<noteq> None"
    using Cons.prems(1) unfolding combinable_def by simp_all
  show ?case
  proof (cases "p_open p (dev_id dev) \<and> p_query p (dev_id dev)")
    case False
    with Cons.IH [OF c(1)] Cons.prems(2,3) show ?thesis by (auto split: if_splits)
  next
    case True
    with Cons.prems(2) obtain es1 where es1: "list_services L (dev_name dev) (services dev) es = Some es1"
      "list_devices L p devs es1 = Some es'"
      by (auto split: option.splits)
    from Cons.IH [OF c(1) es1(2) list_services_distinct [OF c(2,3) es1(1) Cons.prems(3)]] show ?thesis .
  qed
qed simp

end

lemma print_entries_ok:
  "print_entries L m es = (lines, Exit 0) \<Longrightarrow> map Some lines = map (service_entry_print L m) es"
  by (induction es arbitrary: lines) (auto simp: map_prod_def split: option.splits prod.splits)

text \<open>
  C15. The list command groups the services as it should. When it succeeds without the header, it
  prints one line for each entry, and for every combination of shown attributes the entries with it
  have together exactly the devices that hold such a service, each as often as it holds one; no
  service that can be read is lost. As long as device names can be written and appended, no two lines
  are for the same attributes.
\<close>

theorem list_groups_services:
  assumes "list_env L hosts expand elems" and "cmd_list L False True show_max True p devs = (lines, Exit 0)"
  shows "\<exists>es. map Some lines = map (service_entry_print L show_max) es
    \<and> (\<forall>k. mset (concat (map (hosts \<circ> devices) (filter (\<lambda>e. shown_of elems e = k) es)))
         = mset (owners expand k (read_services p devs)))
    \<and> (combinable L expand devs \<longrightarrow> distinct (map (shown_of elems) es))"
proof -
  obtain es where es: "list_devices L p devs [] = Some es" "print_entries L show_max es = (lines, Exit 0)"
    using assms(2) by (auto simp: cmd_list_def map_prod_def split: if_splits option.splits prod.splits)
  have "mset (concat (map (hosts \<circ> devices) (filter (\<lambda>e. shown_of elems e = k) es))) = mset (owners expand k (read_services p devs))" for k
    using list_env.list_devices_devices [OF assms(1) es(1), of k]
    by (simp add: list_env.devices_with_def [OF assms(1)])
  moreover have "combinable L expand devs \<longrightarrow> distinct (map (shown_of elems) es)"
    using list_env.list_devices_distinct [OF assms(1) _ es(1)] by simp
  ultimately show ?thesis using print_entries_ok [OF es(2)] by blast
qed

section \<open>A node with two devices\<close>

definition sample_list :: "(string list, refset) list_libs" where
  "sample_list = \<lparr>ll_mem = True, ll_hosts = list_hostlist, hostlist_decode = (\<lambda>s. Some [s]),
     hostlist_encode = (\<lambda>h. if h = [] then None else if tl h = [] then Some (hd h) else None),
     ll_ids = ref_api, idset_create_auto = Some (rs_make {} 65535 0),
     idset_set = (\<lambda>i x. if x < rs_size i then Some (rs_with i (insert x (rs_elems i)) 0) else None),
     rsrc_name = (\<lambda>_. ''RES'')\<rparr>"

lemma sample_list_simps [simp]:
  "ll_hosts sample_list = list_hostlist" "ll_ids sample_list = ref_api" "ll_mem sample_list"
  "hostlist_decode sample_list s = Some [s]"
  "hostlist_encode sample_list h = (if h = [] then None else if tl h = [] then Some (hd h) else None)"
  "idset_create_auto sample_list = Some (rs_make {} 65535 0)"
  "idset_set sample_list i x = (if x < rs_size i then Some (rs_with i (insert x (rs_elems i)) 0) else None)"
  by (simp_all add: sample_list_def)

interpretation sample_list: list_env sample_list "\<lambda>h. h" "\<lambda>s. Some [s]" rs_elems
proof (intro list_env.intro list_env_axioms.intro)
  show "hostlist_lib (ll_hosts sample_list) (\<lambda>h. h) (\<lambda>s. Some [s])" by (simp add: plain_hosts.hostlist_lib_axioms)
  show "idset_lib (ll_ids sample_list) rs_elems" by (simp add: ref.idset_lib_axioms)
  fix h :: "string list" and s
  show "hostlist_encode sample_list h = Some s \<Longrightarrow> Some [s] = Some h" by (cases h) (auto split: if_splits)
qed (auto dest: rs_bound split: if_splits)


definition list_device :: "string \<Rightarrow> cxi_dev" where
  "list_device name = \<lparr>dev_id = 0, dev_name = name, capacity = (\<lambda>_. 0), services =
     [\<lparr>svc_id = 5, enable = True, is_system_svc = False, restricted_members = True,
       members = [MemberUid 1000, MemberIgnore], restricted_vnis = True, num_vld_vnis = 1, vnis = [7, 0, 0, 0],
       resource_limits = False, limits = (\<lambda>_. \<lparr>limit_max = 0, limit_res = 0\<rparr>), restricted_tcs = False, tcs = (\<lambda>_. True)\<rparr>]\<rparr>"

definition list_pass :: cxi_pass where
  "list_pass = \<lparr>p_list = True, p_open = (\<lambda>_. True), p_query = (\<lambda>_. True), p_destroy = (\<lambda>_ _. Destroyed), p_text_at = (\<lambda>_. True)\<rparr>"

lemma list_device_entry:
  "\<exists>e. service_entry_create sample_list name (hd (services (list_device name))) = Some e
    \<and> service_entry_print sample_list False e \<noteq> None"
  by (simp add: service_entry_create_def service_entry_print_def list_device_def ref_api_def)

lemma list_groups_services_witness:
  "\<exists>lines es. cmd_list sample_list False True False True list_pass [list_device ''cxi0''] = (lines, Exit 0)
    \<and> map Some lines = map (service_entry_print sample_list False) es
    \<and> distinct (map (shown_of rs_elems) es)"
proof -
  obtain e where e: "service_entry_create sample_list ''cxi0'' (hd (services (list_device ''cxi0''))) = Some e"
    "service_entry_print sample_list False e \<noteq> None"
    using list_device_entry by blast
  then obtain line where line: "service_entry_print sample_list False e = Some line" by blast
  obtain d where d: "services (list_device ''cxi0'') = [d]" by (simp add: list_device_def)
  have "list_services sample_list ''cxi0'' (services (list_device ''cxi0'')) [] = Some [e]"
    using e(1) by (simp add: d insert_services_entry_def)
  then have "list_devices sample_list list_pass [list_device ''cxi0''] [] = Some [e]"
    by (simp add: list_pass_def) (simp add: list_device_def)
  then have c: "cmd_list sample_list False True False True list_pass [list_device ''cxi0''] = ([line], Exit 0)"
    using line by (simp add: cmd_list_def) (simp add: list_pass_def)
  have "combinable sample_list (\<lambda>s. Some [s]) [list_device ''cxi0'']"
    by (simp add: combinable_def list_hostlist_def)
  with list_groups_services [OF sample_list.list_env_axioms c] c show ?thesis by blast
qed

end
