(* ===== verification/CcanList.thy ===== *)
theory CcanList
  imports Prelude "HOL-Library.Monad_Syntax"
begin

text \<open>
  The circular doubly linked list of \<^verbatim>\<open>src/common/libccan/ccan/list\<close>, which \<^verbatim>\<open>flux slingshot list\<close> keeps
  its entries in. The heap maps the addresses of the nodes that are allocated to their two pointers;
  reading or writing any other address is \<open>None\<close>. The macros \<^verbatim>\<open>list_debug\<close> and \<^verbatim>\<open>list_debug_node\<close> do
  nothing, as \<^verbatim>\<open>CCAN_LIST_DEBUG\<close> is not defined.
\<close>

section \<open>Nodes\<close>

type_synonym ptr = "64 word"

record list_node =
  next_node :: ptr
  prev_node :: ptr

type_synonym heap = "ptr \<rightharpoonup> list_node"

definition get_next :: "heap \<Rightarrow> ptr \<Rightarrow> ptr option" where
  "get_next h p = map_option next_node (h p)"

definition get_prev :: "heap \<Rightarrow> ptr \<Rightarrow> ptr option" where
  "get_prev h p = map_option prev_node (h p)"

definition set_next :: "ptr \<Rightarrow> ptr \<Rightarrow> heap \<Rightarrow> heap option" where
  "set_next p q h = map_option (\<lambda>n. h(p \<mapsto> n\<lparr>next_node := q\<rparr>)) (h p)"

definition set_prev :: "ptr \<Rightarrow> ptr \<Rightarrow> heap \<Rightarrow> heap option" where
  "set_prev p q h = map_option (\<lambda>n. h(p \<mapsto> n\<lparr>prev_node := q\<rparr>)) (h p)"

section \<open>Operations\<close>

text \<open>
  The address of a list head is that of its node. The functions that the macros of the same names
  call are modelled under the names of the macros.
\<close>

definition list_node_init :: "ptr \<Rightarrow> heap \<Rightarrow> heap option" where
  "list_node_init n h = do { h \<leftarrow> set_prev n n h; set_next n n h }"

definition list_head_init :: "ptr \<Rightarrow> heap \<Rightarrow> heap option" where
  "list_head_init head h = do { h \<leftarrow> set_prev head head h; set_next head head h }"

definition list_add_after :: "ptr \<Rightarrow> ptr \<Rightarrow> heap \<Rightarrow> heap option" where
  "list_add_after p n h = do {
     q \<leftarrow> get_next h p;
     h \<leftarrow> set_next n q h;
     h \<leftarrow> set_prev n p h;
     q \<leftarrow> get_next h p;
     h \<leftarrow> set_prev q n h;
     set_next p n h }"

definition list_add :: "ptr \<Rightarrow> ptr \<Rightarrow> heap \<Rightarrow> heap option" where
  "list_add head n h = list_add_after head n h"

definition list_add_before :: "ptr \<Rightarrow> ptr \<Rightarrow> heap \<Rightarrow> heap option" where
  "list_add_before p n h = do {
     h \<leftarrow> set_next n p h;
     q \<leftarrow> get_prev h p;
     h \<leftarrow> set_prev n q h;
     q \<leftarrow> get_prev h p;
     h \<leftarrow> set_next q n h;
     set_prev p n h }"

definition list_add_tail :: "ptr \<Rightarrow> ptr \<Rightarrow> heap \<Rightarrow> heap option" where
  "list_add_tail head n h = list_add_before head n h"

definition list_empty :: "ptr \<Rightarrow> heap \<Rightarrow> bool option" where
  "list_empty head h = map_option (\<lambda>q. q = head) (get_next h head)"

definition list_del :: "ptr \<Rightarrow> heap \<Rightarrow> heap option" where
  "list_del n h = do {
     q \<leftarrow> get_next h n;
     p \<leftarrow> get_prev h n;
     h \<leftarrow> set_prev q p h;
     p \<leftarrow> get_prev h n;
     q \<leftarrow> get_next h n;
     set_next p q h }"

definition list_del_init :: "ptr \<Rightarrow> heap \<Rightarrow> heap option" where
  "list_del_init n h = do { h \<leftarrow> list_del n h; list_node_init n h }"

text \<open>\<^verbatim>\<open>list_del_from\<close> has an assertion; when it fails the program aborts, here \<open>Inl ()\<close>.\<close>

definition list_del_from :: "ptr \<Rightarrow> ptr \<Rightarrow> heap \<Rightarrow> (unit + heap) option" where
  "list_del_from head n h = do {
     empty \<leftarrow> list_empty head h;
     if empty then Some (Inl ()) else map_option Inr (list_del n h) }"

definition list_swap :: "ptr \<Rightarrow> ptr \<Rightarrow> heap \<Rightarrow> heap option" where
  "list_swap old n h = do {
     node \<leftarrow> h old;
     _ \<leftarrow> h n;
     let h = h(n \<mapsto> node);
     q \<leftarrow> get_next h n;
     h \<leftarrow> set_prev q n h;
     p \<leftarrow> get_prev h n;
     set_next p n h }"

text \<open>Entries: \<open>off\<close> is the offset of the node in its structure. \<open>Some None\<close> is the null pointer.\<close>

definition list_node_to_off :: "ptr \<Rightarrow> ptr \<Rightarrow> ptr" where
  "list_node_to_off node off = node - off"

definition list_node_from_off :: "ptr \<Rightarrow> ptr \<Rightarrow> ptr" where
  "list_node_from_off i off = i + off"

definition list_top :: "ptr \<Rightarrow> ptr \<Rightarrow> heap \<Rightarrow> ptr option option" where
  "list_top head off h = do {
     empty \<leftarrow> list_empty head h;
     if empty then Some None else map_option (\<lambda>n. Some (n - off)) (get_next h head) }"

definition list_pop :: "ptr \<Rightarrow> ptr \<Rightarrow> heap \<Rightarrow> (ptr option \<times> heap) option" where
  "list_pop head off h = do {
     empty \<leftarrow> list_empty head h;
     if empty then Some (None, h)
     else do {
       n \<leftarrow> get_next h head;
       h \<leftarrow> list_del n h;
       Some (Some (n - off), h) } }"

definition list_tail :: "ptr \<Rightarrow> ptr \<Rightarrow> heap \<Rightarrow> ptr option option" where
  "list_tail head off h = do {
     empty \<leftarrow> list_empty head h;
     if empty then Some None else map_option (\<lambda>n. Some (n - off)) (get_prev h head) }"

definition list_entry_or_null :: "ptr \<Rightarrow> ptr \<Rightarrow> ptr \<Rightarrow> ptr option" where
  "list_entry_or_null head n off = (if n = head then None else Some (n - off))"

definition list_next :: "ptr \<Rightarrow> ptr \<Rightarrow> ptr \<Rightarrow> heap \<Rightarrow> ptr option option" where
  "list_next head i off h = map_option (\<lambda>n. list_entry_or_null head n off) (get_next h (i + off))"

definition list_prev :: "ptr \<Rightarrow> ptr \<Rightarrow> ptr \<Rightarrow> heap \<Rightarrow> ptr option option" where
  "list_prev head i off h = map_option (\<lambda>n. list_entry_or_null head n off) (get_prev h (i + off))"

definition list_append_list :: "ptr \<Rightarrow> ptr \<Rightarrow> heap \<Rightarrow> heap option" where
  "list_append_list to from h = do {
     from_tail \<leftarrow> get_prev h from;
     to_tail \<leftarrow> get_prev h to;
     h \<leftarrow> set_prev to from_tail h;
     h \<leftarrow> set_next from_tail to h;
     h \<leftarrow> set_next to_tail from h;
     h \<leftarrow> set_prev from to_tail h;
     h \<leftarrow> list_del from h;
     list_head_init from h }"

definition list_prepend_list :: "ptr \<Rightarrow> ptr \<Rightarrow> heap \<Rightarrow> heap option" where
  "list_prepend_list to from h = do {
     from_tail \<leftarrow> get_prev h from;
     to_head \<leftarrow> get_next h to;
     h \<leftarrow> set_next to from h;
     h \<leftarrow> set_prev from to h;
     h \<leftarrow> set_prev to_head from_tail h;
     h \<leftarrow> set_next from_tail to_head h;
     h \<leftarrow> list_del from h;
     list_head_init from h }"

section \<open>Checking\<close>

text \<open>
  \<^verbatim>\<open>list_check_node\<close> gives its argument back, or \<^verbatim>\<open>NULL\<close> (\<open>corrupt\<close>), or aborts with a report of
  the node and the count; the fourth outcome is an invalid access. The loop has no bound in the source:
  \<open>None\<close> is a loop that does not end.
\<close>

datatype check = Consistent | Corrupt | Aborted ptr nat | Invalid

definition corrupt :: "bool \<Rightarrow> ptr \<Rightarrow> nat \<Rightarrow> check" where
  "corrupt abortstr node count = (if abortstr then Aborted node count else Corrupt)"

partial_function (option) check_loop :: "bool \<Rightarrow> ptr \<Rightarrow> ptr \<Rightarrow> ptr \<Rightarrow> nat \<Rightarrow> heap \<Rightarrow> check option" where
  "check_loop abortstr node p n count h =
     (if n = node then Some (case get_prev h node of
          None \<Rightarrow> Invalid
        | Some q \<Rightarrow> if q \<noteq> p then corrupt abortstr node 0 else Consistent)
      else (case h n of
          None \<Rightarrow> Some Invalid
        | Some ln \<Rightarrow>
            if prev_node ln \<noteq> p then Some (corrupt abortstr n (Suc count))
            else check_loop abortstr node n (next_node ln) (Suc count) h))"

definition list_check_node :: "bool \<Rightarrow> ptr \<Rightarrow> heap \<Rightarrow> check option" where
  "list_check_node abortstr node h = (case get_next h node of
       None \<Rightarrow> Some Invalid
     | Some n \<Rightarrow> check_loop abortstr node node n 0 h)"

definition list_check :: "bool \<Rightarrow> ptr \<Rightarrow> heap \<Rightarrow> check option" where
  "list_check abortstr head h = list_check_node abortstr head h"

section \<open>The sequence of a list\<close>

text \<open>The two pointers between neighbours agree.\<close>

definition linked :: "heap \<Rightarrow> ptr \<Rightarrow> ptr \<Rightarrow> bool" where
  "linked h p q \<longleftrightarrow> get_next h p = Some q \<and> get_prev h q = Some p"

fun path :: "heap \<Rightarrow> ptr list \<Rightarrow> bool" where
  "path h [] \<longleftrightarrow> True"
| "path h [p] \<longleftrightarrow> True"
| "path h (p # q # ps) \<longleftrightarrow> linked h p q \<and> path h (q # ps)"

text \<open>The nodes after the head, in order: what the list is for its users.\<close>

definition list_at :: "heap \<Rightarrow> ptr \<Rightarrow> ptr list \<Rightarrow> bool" where
  "list_at h head ns \<longleftrightarrow> path h (head # ns @ [head]) \<and> distinct (head # ns)"

lemma path_append: "xs \<noteq> [] \<Longrightarrow> ys \<noteq> [] \<Longrightarrow>
    path h (xs @ ys) \<longleftrightarrow> path h xs \<and> linked h (last xs) (hd ys) \<and> path h ys"
proof (induction h xs rule: path.induct)
  case (2 h p)
  then show ?case by (cases ys) auto
qed auto

lemma path_cong:
  "\<forall>m \<in> set (butlast xs). get_next h' m = get_next h m \<Longrightarrow> \<forall>m \<in> set (tl xs). get_prev h' m = get_prev h m \<Longrightarrow>
    path h' xs \<longleftrightarrow> path h xs"
proof (induction h xs rule: path.induct)
  case (3 h p q ps)
  from 3(2) have n: "get_next h' p = get_next h p" "\<forall>m \<in> set (butlast (q # ps)). get_next h' m = get_next h m" by simp_all
  from 3(3) have p: "get_prev h' q = get_prev h q" "\<forall>m \<in> set (tl (q # ps)). get_prev h' m = get_prev h m" by simp_all
  from 3(1) [OF n(2) p(2)] n(1) p(1) show ?case by (simp add: linked_def)
qed simp_all

text \<open>Writing one pointer.\<close>

definition upd_next :: "ptr \<Rightarrow> ptr \<Rightarrow> heap \<Rightarrow> heap" where
  "upd_next p q h = h(p := map_option (\<lambda>n. n\<lparr>next_node := q\<rparr>) (h p))"

definition upd_prev :: "ptr \<Rightarrow> ptr \<Rightarrow> heap \<Rightarrow> heap" where
  "upd_prev p q h = h(p := map_option (\<lambda>n. n\<lparr>prev_node := q\<rparr>) (h p))"

lemma set_upd: "set_next p q h = (if p \<in> dom h then Some (upd_next p q h) else None)"
    "set_prev p q h = (if p \<in> dom h then Some (upd_prev p q h) else None)"
  by (auto simp: set_next_def set_prev_def upd_next_def upd_prev_def)

lemma dom_upd [simp]: "dom (upd_next p q h) = dom h" "dom (upd_prev p q h) = dom h"
  by (auto simp: upd_next_def upd_prev_def)

lemma get_upd [simp]:
  "get_next (upd_next p q h) m = (if m = p \<and> p \<in> dom h then Some q else get_next h m)"
  "get_prev (upd_prev p q h) m = (if m = p \<and> p \<in> dom h then Some q else get_prev h m)"
  "get_next (upd_prev p q h) m = get_next h m"
  "get_prev (upd_next p q h) m = get_prev h m"
  by (cases "h p", auto simp: upd_next_def upd_prev_def get_next_def get_prev_def)+

lemma upd_other [simp]: "m \<noteq> p \<Longrightarrow> upd_next p q h m = h m" "m \<noteq> p \<Longrightarrow> upd_prev p q h m = h m"
  by (simp_all add: upd_next_def upd_prev_def)

lemma get_dom: "get_next h p = Some q \<Longrightarrow> p \<in> dom h" "get_prev h p = Some q \<Longrightarrow> p \<in> dom h"
  by (auto simp: get_next_def get_prev_def)

lemma linked_dom: "linked h p q \<Longrightarrow> p \<in> dom h \<and> q \<in> dom h"
  by (auto simp: linked_def dest: get_dom)

text \<open>A list, cut between two neighbours.\<close>

lemma list_at_cut:
  "list_at h head (xs @ ys) \<longleftrightarrow> path h (head # xs) \<and> linked h (last (head # xs)) (hd (ys @ [head]))
     \<and> path h (ys @ [head]) \<and> distinct (head # xs @ ys)"
  using path_append [of "head # xs" "ys @ [head]" h] by (auto simp: list_at_def)

lemma set_tl: "x \<in> set (tl (ys @ [y])) \<Longrightarrow> x \<in> set ys \<or> x = y"
  by (cases ys) auto

text \<open>What happens between the two parts does not change them.\<close>

lemma cut_frame:
  assumes "distinct (head # xs @ ys)"
    and "\<And>m. m \<in> set (head # xs @ ys) \<Longrightarrow> m \<noteq> last (head # xs) \<Longrightarrow> get_next h' m = get_next h m"
    and "\<And>m. m \<in> set (head # xs @ ys) \<Longrightarrow> m \<noteq> hd (ys @ [head]) \<Longrightarrow> get_prev h' m = get_prev h m"
  shows "path h' (head # xs) \<longleftrightarrow> path h (head # xs)" and "path h' (ys @ [head]) \<longleftrightarrow> path h (ys @ [head])"
proof -
  have "distinct (head # xs)" "distinct (ys @ [head])" "set (head # xs) \<inter> set ys = {}" using assms(1) by auto
  note d = this
  have l: "last (head # xs) \<notin> set (butlast (head # xs))"
    using d(1) append_butlast_last_id [of "head # xs"] by (metis distinct_append disjoint_iff list.set_intros(1) list.discI)
  have f: "hd (ys @ [head]) \<notin> set (tl (ys @ [head]))" using d(2) by (cases ys) auto
  have "hd (ys @ [head]) \<notin> set xs" using assms(1) by (cases ys) auto
  then show "path h' (head # xs) \<longleftrightarrow> path h (head # xs)"
    using l assms(2,3) by (intro path_cong) (auto dest: in_set_butlastD split: if_splits)
  have "last (head # xs) \<in> set (head # xs)" by (rule last_in_set) simp
  then have "last (head # xs) \<notin> set ys" using d(3) by blast
  then show "path h' (ys @ [head]) \<longleftrightarrow> path h (ys @ [head])"
    using f assms(2,3) by (intro path_cong) (auto dest: set_tl)
qed

section \<open>Every operation does to the sequence what it should\<close>

text \<open>The heap with a node linked in between \<open>p\<close> and \<open>q\<close>, and with it taken out again.\<close>

definition link_in :: "ptr \<Rightarrow> ptr \<Rightarrow> ptr \<Rightarrow> heap \<Rightarrow> heap" where
  "link_in p n q h = upd_next p n (upd_prev q n (upd_prev n p (upd_next n q h)))"

definition link_out :: "ptr \<Rightarrow> ptr \<Rightarrow> heap \<Rightarrow> heap" where
  "link_out p q h = upd_next p q (upd_prev q p h)"

lemma list_add_after_eq:
  assumes "linked h p q" and "n \<in> dom h" and "n \<noteq> p" and "n \<noteq> q"
  shows "list_add_after p n h = Some (link_in p n q h)"
  using assms linked_dom [OF assms(1)]
  by (simp add: list_add_after_def link_in_def set_upd linked_def)

lemma list_add_before_eq:
  assumes "linked h p q" and "n \<in> dom h" and "n \<noteq> p" and "n \<noteq> q"
  shows "list_add_before q n h = Some (upd_prev q n (upd_next p n (upd_prev n p (upd_next n q h))))"
  using assms linked_dom [OF assms(1)]
  by (simp add: list_add_before_def set_upd linked_def)

lemma upd_commute: "upd_prev q n (upd_next p m h) = upd_next p m (upd_prev q n h)"
  by (cases "p = q"; cases "h p") (auto simp: upd_next_def upd_prev_def fun_eq_iff)

lemma list_add_before_link:
  assumes "linked h p q" and "n \<in> dom h" and "n \<noteq> p" and "n \<noteq> q"
  shows "list_add_before q n h = Some (link_in p n q h)"
  using list_add_before_eq [OF assms] by (simp add: link_in_def upd_commute)

lemma list_del_eq:
  assumes "linked h p n" and "linked h n q" and "n \<noteq> p" and "n \<noteq> q"
  shows "list_del n h = Some (link_out p q h)"
  using assms linked_dom [OF assms(1)] linked_dom [OF assms(2)]
  by (simp add: list_del_def link_out_def set_upd linked_def)

text \<open>What they leave alone, and what they do to a list.\<close>

lemma link_dom [simp]: "dom (link_in p n q h) = dom h" "dom (link_out p q h) = dom h"
  by (simp_all add: link_in_def link_out_def)

lemma link_other [simp]:
  "m \<noteq> p \<Longrightarrow> m \<noteq> n \<Longrightarrow> m \<noteq> q \<Longrightarrow> link_in p n q h m = h m" "m \<noteq> p \<Longrightarrow> m \<noteq> q \<Longrightarrow> link_out p q h m = h m"
  by (simp_all add: link_in_def link_out_def)

lemma link_in_list:
  assumes "list_at h head (xs @ ys)" and "n \<in> dom h" and "n \<notin> set (head # xs @ ys)"
  defines "p \<equiv> last (head # xs)" and "q \<equiv> hd (ys @ [head])"
  shows "list_at (link_in p n q h) head (xs @ n # ys)"
proof -
  let ?h = "link_in p n q h"
  from assms(1) have c: "path h (head # xs)" "linked h p q" "path h (ys @ [head])" "distinct (head # xs @ ys)"
    unfolding list_at_cut p_def q_def by blast+
  have pq: "n \<noteq> p" "n \<noteq> q" "p \<in> dom h" "q \<in> dom h"
    using assms(3) linked_dom [OF c(2)] last_in_set [of "head # xs"] by (cases ys, auto simp: p_def q_def)+
  have "get_next ?h m = get_next h m" if "m \<in> set (head # xs @ ys)" "m \<noteq> last (head # xs)" for m
    using that assms(3) unfolding p_def [symmetric] by (auto simp: link_in_def)
  moreover have "get_prev ?h m = get_prev h m" if "m \<in> set (head # xs @ ys)" "m \<noteq> hd (ys @ [head])" for m
    using that assms(3) unfolding q_def [symmetric] by (auto simp: link_in_def)
  ultimately have "path ?h (head # xs) \<and> path ?h (ys @ [head])"
    using c(1,3) cut_frame [OF c(4), of ?h h] by blast
  moreover have "linked ?h p n" "linked ?h n q"
    using pq assms(2) by (simp_all add: link_in_def linked_def)
  ultimately have "path ?h ((head # xs) @ n # ys @ [head])"
    using path_append [of "head # xs" "n # ys @ [head]" ?h] path_append [of "[n]" "ys @ [head]" ?h]
    by (simp add: p_def q_def)
  then show ?thesis using c(4) assms(3) by (auto simp: list_at_def)
qed

lemma link_out_list:
  assumes "list_at h head (xs @ n # ys)"
  defines "p \<equiv> last (head # xs)" and "q \<equiv> hd (ys @ [head])"
  shows "list_at (link_out p q h) head (xs @ ys) \<and> linked h p n \<and> linked h n q \<and> n \<noteq> p \<and> n \<noteq> q"
proof -
  let ?h = "link_out p q h"
  from assms(1) have c: "path h (head # xs)" "linked h p n" "path h (n # ys @ [head])" "distinct (head # xs @ n # ys)"
    unfolding list_at_cut p_def q_def by simp_all
  then have n: "linked h n q" "path h (ys @ [head])" using path_append [of "[n]" "ys @ [head]" h] by (simp_all add: q_def)
  have d: "distinct (head # xs @ ys)" using c(4) by simp
  have pq: "n \<noteq> p" "n \<noteq> q" using c(4) last_in_set [of "head # xs"] by (cases ys, auto simp: p_def q_def)+
  have "get_next ?h m = get_next h m" if "m \<noteq> last (head # xs)" for m
    using that unfolding p_def [symmetric] by (auto simp: link_out_def)
  moreover have "get_prev ?h m = get_prev h m" if "m \<noteq> hd (ys @ [head])" for m
    using that unfolding q_def [symmetric] by (auto simp: link_out_def)
  ultimately have "path ?h (head # xs) \<and> path ?h (ys @ [head])"
    using c(1) n(2) cut_frame [OF d, of ?h h] by blast
  moreover have "linked ?h p q"
    using linked_dom [OF c(2)] linked_dom [OF n(1)] by (simp add: link_out_def linked_def)
  ultimately have "list_at ?h head (xs @ ys)" using d unfolding list_at_cut p_def q_def by blast
  with pq c(2) n(1) show ?thesis by blast
qed

text \<open>Only the given nodes are written.\<close>

definition same_but :: "ptr set \<Rightarrow> heap \<Rightarrow> heap \<Rightarrow> bool" where
  "same_but S h h' \<longleftrightarrow> dom h' = dom h \<and> (\<forall>m. m \<notin> S \<longrightarrow> h' m = h m)"

lemma same_but_trans: "same_but S h h' \<Longrightarrow> same_but S h' h'' \<Longrightarrow> same_but S h h''"
  by (simp add: same_but_def)

lemma same_but_mono: "same_but S h h' \<Longrightarrow> S \<subseteq> T \<Longrightarrow> same_but T h h'"
  by (auto simp: same_but_def)

lemma same_but_refl [simp]: "same_but S h h"
  by (simp add: same_but_def)

lemma same_but_upd [simp]:
  "same_but S h g \<Longrightarrow> p \<in> S \<Longrightarrow> same_but S h (upd_next p q g)"
  "same_but S h g \<Longrightarrow> p \<in> S \<Longrightarrow> same_but S h (upd_prev p q g)"
  by (auto simp: same_but_def) (auto simp: upd_next_def upd_prev_def)

lemma path_dom: "path h xs \<Longrightarrow> length xs > 1 \<Longrightarrow> set xs \<subseteq> dom h"
proof (induction h xs rule: path.induct)
  case (3 h p q ps)
  then show ?case using linked_dom [of h p q] by (cases ps) auto
qed simp_all

lemma list_at_dom: "list_at h head ns \<Longrightarrow> set (head # ns) \<subseteq> dom h"
  using path_dom [of h "head # ns @ [head]"] by (simp add: list_at_def)

lemma list_at_first: "list_at h head ns \<Longrightarrow> get_next h head = Some (hd (ns @ [head]))"
  using list_at_cut [of h head "[]" ns] by (simp add: linked_def)

lemma list_at_last: "list_at h head ns \<Longrightarrow> get_prev h head = Some (last (head # ns))"
  using list_at_cut [of h head ns "[]"] by (simp add: linked_def)

lemma list_at_next: "list_at h head (xs @ n # ys) \<Longrightarrow> get_next h n = Some (hd (ys @ [head]))"
  using list_at_cut [of h head "xs @ [n]" ys] by (simp add: linked_def)

lemma list_at_prev: "list_at h head (xs @ n # ys) \<Longrightarrow> get_prev h n = Some (last (head # xs))"
  using list_at_cut [of h head xs "n # ys"] by (simp add: linked_def)

lemma list_at_cong:
  "same_but S h h' \<Longrightarrow> S \<inter> set (head # ns) = {} \<Longrightarrow> list_at h' head ns \<longleftrightarrow> list_at h head ns"
  unfolding list_at_def
  by (subst path_cong [of "head # ns @ [head]" h' h]) (auto simp: same_but_def get_next_def get_prev_def dest: in_set_butlastD)

lemma list_head_init_ok:
  assumes "head \<in> dom h"
  obtains h' where "list_head_init head h = Some h'" "list_at h' head []" "same_but {head} h h'"
proof
  show "list_head_init head h = Some (upd_next head head (upd_prev head head h))"
    using assms by (simp add: list_head_init_def set_upd)
  show "list_at (upd_next head head (upd_prev head head h)) head []"
    using assms by (simp add: list_at_def linked_def)
qed (auto simp: same_but_def)

lemma insert_ok:
  assumes "list_at h head (xs @ ys)" and "n \<in> dom h" and "n \<notin> set (head # xs @ ys)"
  obtains h' where "list_add_after (last (head # xs)) n h = Some h'" "list_add_before (hd (ys @ [head])) n h = Some h'"
    "list_at h' head (xs @ n # ys)" "same_but (set (n # head # xs @ ys)) h h'"
proof
  let ?p = "last (head # xs)" and ?q = "hd (ys @ [head])"
  have c: "linked h ?p ?q" using assms(1) unfolding list_at_cut by blast
  have i: "?p \<in> set (head # xs @ ys)" "?q \<in> set (head # xs @ ys)" by (auto simp: hd_append)
  then have pq: "n \<noteq> ?p" "n \<noteq> ?q" using assms(3) by blast+
  show "list_add_after ?p n h = Some (link_in ?p n ?q h)" by (rule list_add_after_eq [OF c assms(2) pq])
  show "list_add_before ?q n h = Some (link_in ?p n ?q h)" by (rule list_add_before_link [OF c assms(2) pq])
  show "list_at (link_in ?p n ?q h) head (xs @ n # ys)" by (rule link_in_list [OF assms])
  show "same_but (set (n # head # xs @ ys)) h (link_in ?p n ?q h)"
    unfolding same_but_def
  proof (intro conjI allI impI)
    fix m assume "m \<notin> set (n # head # xs @ ys)"
    then show "link_in ?p n ?q h m = h m" using i by (intro link_other) auto
  qed simp
qed

lemma remove_ok:
  assumes "list_at h head (xs @ n # ys)"
  obtains h' where "list_del n h = Some h'" "list_at h' head (xs @ ys)" "same_but (set (head # xs @ ys)) h h'" "h' n = h n"
proof
  let ?p = "last (head # xs)" and ?q = "hd (ys @ [head])"
  note L = link_out_list [OF assms]
  then show "list_del n h = Some (link_out ?p ?q h)" using list_del_eq by blast
  show "list_at (link_out ?p ?q h) head (xs @ ys)" using L by blast
  have i: "?p \<in> set (head # xs @ ys)" "?q \<in> set (head # xs @ ys)" by (auto simp: hd_append)
  show "same_but (set (head # xs @ ys)) h (link_out ?p ?q h)"
    unfolding same_but_def
  proof (intro conjI allI impI)
    fix m assume "m \<notin> set (head # xs @ ys)"
    then show "link_out ?p ?q h m = h m" using i by (intro link_other) auto
  qed simp
  show "link_out ?p ?q h n = h n" using L by simp
qed

text \<open>A whole list sewn into another one.\<close>

lemma sew_list:
  assumes "list_at h to (xs @ ys)" and "list_at h from ms" and "set (to # xs @ ys) \<inter> set (from # ms) = {}"
    and "p = last (to # xs)" and "q = hd (ys @ [to])" and "t = last (from # ms)"
    and "\<And>m. get_next h' m = (if m = p then Some from else if m = t then Some q else get_next h m)"
    and "\<And>m. get_prev h' m = (if m = from then Some p else if m = q then Some t else get_prev h m)"
  shows "list_at h' to (xs @ from # ms @ ys)"
proof -
  have c: "path h (to # xs)" "path h (ys @ [to])" "distinct (to # xs @ ys)" using assms(1) unfolding list_at_cut by blast+
  have d: "path h (from # ms)" "distinct (from # ms)"
    using assms(2) list_at_cut [of h "from" ms "[]"] by simp_all
  have p: "p \<in> set (to # xs)" and q: "q \<in> set (ys @ [to])" and t: "t \<in> set (from # ms)"
    unfolding assms(4-6) by (auto simp: hd_append)
  have "m \<noteq> t \<and> m \<noteq> from" if "m \<in> set (to # xs @ ys)" for m using that t assms(3) by auto
  then have 1: "path h' (to # xs)" "path h' (ys @ [to])"
    using c cut_frame [OF c(3), of h' h] assms(4,5,7,8) by (metis)+
  have "t \<notin> set (butlast (from # ms))"
    using d(2) append_butlast_last_id [of "from # ms"] assms(6)
    by (metis distinct_append disjoint_iff list.set_intros(1) list.discI)
  moreover have "m \<noteq> p \<and> m \<noteq> q" if "m \<in> set (from # ms)" for m using that p q assms(3) by auto
  ultimately have "path h' (from # ms)"
    using d by (subst path_cong [of "from # ms" h' h]) (auto simp: assms(7,8) dest: in_set_butlastD)
  moreover have "p \<noteq> t" "q \<noteq> from" using p q t assms(3) by auto
  then have "linked h' p from" "linked h' t q" by (simp_all add: linked_def assms(7,8))
  ultimately have "path h' ((to # xs) @ (from # ms) @ ys @ [to])"
    using 1 path_append [of "to # xs" "(from # ms) @ ys @ [to]" h'] path_append [of "from # ms" "ys @ [to]" h']
    by (simp add: assms(4-6))
  then show ?thesis using c(3) d(2) assms(3) by (auto simp: list_at_def)
qed

lemma splice_out:
  assumes "list_at h to (xs @ from # ms @ ys)" and "same_but S h0 h" and "set (to # xs @ from # ms @ ys) \<subseteq> S"
  obtains h1 h2 where "list_del from h = Some h1" "list_head_init from h1 = Some h2"
    "list_at h2 to (xs @ ms @ ys)" "list_at h2 from []" "same_but S h0 h2"
proof -
  obtain h1 where h1: "list_del from h = Some h1" "list_at h1 to (xs @ ms @ ys)" "same_but (set (to # xs @ ms @ ys)) h h1"
    using remove_ok [OF assms(1)] by metis
  have "from \<in> dom h1" using list_at_dom [OF assms(1)] h1(3) by (simp add: same_but_def)
  then obtain h2 where h2: "list_head_init from h1 = Some h2" "list_at h2 from []" "same_but {from} h1 h2"
    by (rule list_head_init_ok)
  have "from \<notin> set (to # xs @ ms @ ys)" using assms(1) by (auto simp: list_at_def)
  then have "list_at h2 to (xs @ ms @ ys)" using list_at_cong [OF h2(3), of to "xs @ ms @ ys"] h1(2) by simp
  moreover have "same_but S h h1" "same_but S h1 h2"
    using assms(3) by (auto intro!: same_but_mono [OF h1(3)] same_but_mono [OF h2(3)])
  then have "same_but S h0 h2" using assms(2) same_but_trans by blast
  ultimately show ?thesis by (rule that [OF h1(1) h2(1) _ h2(2)])
qed

lemma append_ok:
  assumes "list_at h to ns" and "list_at h from ms" and "set (to # ns) \<inter> set (from # ms) = {}"
  obtains h' where "list_append_list to from h = Some h'" "list_at h' to (ns @ ms)" "list_at h' from []"
    "same_but (set (to # ns) \<union> set (from # ms)) h h'"
proof -
  define p t S where p: "p = last (to # ns)" and t: "t = last (from # ms)" and S: "S = set (to # ns) \<union> set (from # ms)"
  define h4 where "h4 = upd_prev from p (upd_next p from (upd_next t to (upd_prev to t h)))"
  have i: "p \<in> set (to # ns)" "t \<in> set (from # ms)" unfolding p t by (rule last_in_set, simp)+
  have d: "p \<in> dom h" "t \<in> dom h" "to \<in> dom h" "from \<in> dom h"
    using i list_at_dom [OF assms(1)] list_at_dom [OF assms(2)] by auto
  have n: "p \<noteq> t" "to \<noteq> from" using i assms(3) by auto
  have l: "list_at h to (ns @ [])" "set (to # ns @ []) \<inter> set (from # ms) = {}" "to = hd ([] @ [to])"
    using assms(1,3) by simp_all
  have "list_at h4 to (ns @ from # ms @ [])"
    by (rule sew_list [OF l(1) assms(2) l(2) p l(3) t]) (use d n in \<open>simp_all add: h4_def\<close>)
  moreover have "p \<in> S" "t \<in> S" "to \<in> S" "from \<in> S" using i by (auto simp: S)
  then have "same_but S h h4" by (simp add: h4_def)
  moreover have "set (to # ns @ from # ms @ []) \<subseteq> S" by (auto simp: S)
  ultimately obtain h1 h2 where h: "list_del from h4 = Some h1" "list_head_init from h1 = Some h2"
    "list_at h2 to (ns @ ms @ [])" "list_at h2 from []" "same_but S h h2"
    by (rule splice_out)
  have "list_append_list to from h = Some h2"
    using h(1,2) d list_at_last [OF assms(1)] list_at_last [OF assms(2)]
    unfolding p [symmetric] t [symmetric] h4_def by (simp add: list_append_list_def set_upd)
  with h that show ?thesis unfolding S by simp
qed

lemma prepend_ok:
  assumes "list_at h to ns" and "list_at h from ms" and "set (to # ns) \<inter> set (from # ms) = {}"
  obtains h' where "list_prepend_list to from h = Some h'" "list_at h' to (ms @ ns)" "list_at h' from []"
    "same_but (set (to # ns) \<union> set (from # ms)) h h'"
proof -
  define q t S where q: "q = hd (ns @ [to])" and t: "t = last (from # ms)" and S: "S = set (to # ns) \<union> set (from # ms)"
  define h4 where "h4 = upd_next t q (upd_prev q t (upd_prev from to (upd_next to from h)))"
  have i: "q \<in> set (to # ns)" "t \<in> set (from # ms)" unfolding q t by (cases ns, simp_all)
  have d: "q \<in> dom h" "t \<in> dom h" "to \<in> dom h" "from \<in> dom h"
    using i list_at_dom [OF assms(1)] list_at_dom [OF assms(2)] by auto
  have n: "q \<noteq> from" "to \<noteq> from" "to \<noteq> t" using i assms(3) by auto
  have l: "list_at h to ([] @ ns)" "set (to # [] @ ns) \<inter> set (from # ms) = {}" "to = last (to # [])"
    using assms(1,3) by simp_all
  have "list_at h4 to ([] @ from # ms @ ns)"
    by (rule sew_list [OF l(1) assms(2) l(2) l(3) q t]) (use d n in \<open>simp_all add: h4_def\<close>)
  moreover have "q \<in> S" "t \<in> S" "to \<in> S" "from \<in> S" using i by (auto simp: S)
  then have "same_but S h h4" by (simp add: h4_def)
  moreover have "set (to # [] @ from # ms @ ns) \<subseteq> S" by (auto simp: S)
  ultimately obtain h1 h2 where h: "list_del from h4 = Some h1" "list_head_init from h1 = Some h2"
    "list_at h2 to ([] @ ms @ ns)" "list_at h2 from []" "same_but S h h2"
    by (rule splice_out)
  have "list_prepend_list to from h = Some h2"
    using h(1,2) d list_at_first [OF assms(1)] list_at_last [OF assms(2)]
    unfolding q [symmetric] t [symmetric] h4_def by (simp add: list_prepend_list_def set_upd)
  with h that show ?thesis unfolding S by simp
qed

text \<open>Replacing a node is taking it out and linking the other one in.\<close>

lemma heap_eqI:
  assumes "dom h = dom h'" and "get_next h = get_next h'" and "get_prev h = get_prev h'"
  shows "h = h'"
proof
  fix m
  have "(h m = None) = (h' m = None)" using assms(1) by blast
  then show "h m = h' m"
    using fun_cong [OF assms(2), of m] fun_cong [OF assms(3), of m]
    by (cases "h m"; cases "h' m") (auto simp: get_next_def get_prev_def)
qed

lemma get_copy:
  "get_next (h(n \<mapsto> x)) m = (if m = n then Some (next_node x) else get_next h m)"
  "get_prev (h(n \<mapsto> x)) m = (if m = n then Some (prev_node x) else get_prev h m)"
  by (simp_all add: get_next_def get_prev_def)

lemma list_swap_eq:
  assumes "linked h p old" and "linked h old q" and "n \<in> dom h" and "n \<notin> {p, q, old}"
  shows "list_swap old n h = Some (link_in p n q (link_out p q h))"
proof -
  obtain x where x: "h old = Some x" "prev_node x = p" "next_node x = q"
    using assms(1,2) by (auto simp: linked_def get_next_def get_prev_def)
  let ?h = "h(n \<mapsto> x)"
  obtain y where y: "h n = Some y" using assms(3) by blast
  have d: "p \<in> dom h" "q \<in> dom h" using linked_dom assms(1,2) by blast+
  have "list_swap old n h = Some (upd_next p n (upd_prev q n ?h))"
    using d assms(4) by (simp add: list_swap_def x y get_copy set_upd Let_def)
  also have "upd_next p n (upd_prev q n ?h) = link_in p n q (link_out p q h)"
    using d assms(3,4) by (intro heap_eqI) (auto simp: link_in_def link_out_def get_copy x fun_eq_iff)
  finally show ?thesis .
qed

lemma swap_ok:
  assumes "list_at h head (xs @ old # ys)" and "n \<in> dom h" and "n \<notin> set (head # xs @ old # ys)"
  obtains h' where "list_swap old n h = Some h'" "list_at h' head (xs @ n # ys)" "same_but (set (n # head # xs @ ys)) h h'"
proof -
  let ?p = "last (head # xs)" and ?q = "hd (ys @ [head])"
  have o: "list_at (link_out ?p ?q h) head (xs @ ys)" "linked h ?p old" "linked h old ?q"
    using link_out_list [OF assms(1)] by blast+
  have i: "?p \<in> set (head # xs @ ys)" "?q \<in> set (head # xs @ ys)" by (auto simp: hd_append)
  then have "n \<notin> {?p, ?q, old}" using assms(3) by auto
  then have "list_swap old n h = Some (link_in ?p n ?q (link_out ?p ?q h))" by (rule list_swap_eq [OF o(2,3) assms(2)])
  moreover have "list_at (link_in ?p n ?q (link_out ?p ?q h)) head (xs @ n # ys)"
    by (rule link_in_list [OF o(1)]) (use assms(2,3) in auto)
  moreover have "same_but {n, p, q} h (link_in p n q (link_out p q h))" for p q
    by (simp add: link_in_def link_out_def)
  then have "same_but (set (n # head # xs @ ys)) h (link_in ?p n ?q (link_out ?p ?q h))"
    by (rule same_but_mono) (use i in auto)
  ultimately show ?thesis by (rule that)
qed

text \<open>Reading.\<close>

lemma list_empty_ok: "list_at h head ns \<Longrightarrow> list_empty head h = Some (ns = [])"
  by (cases ns) (auto simp: list_empty_def list_at_first, auto simp: list_at_def)

lemma list_top_ok: "list_at h head ns \<Longrightarrow> list_top head off h = Some (case ns of [] \<Rightarrow> None | n # _ \<Rightarrow> Some (n - off))"
  by (simp add: list_top_def list_empty_ok list_at_first split: list.split)

lemma list_tail_ok: "list_at h head ns \<Longrightarrow> list_tail head off h = Some (if ns = [] then None else Some (last ns - off))"
  by (simp add: list_tail_def list_empty_ok list_at_last)

lemma list_next_ok:
  assumes "list_at h head (xs @ n # ys)"
  shows "list_next head (n - off) off h = Some (case ys of [] \<Rightarrow> None | m # _ \<Rightarrow> Some (m - off))"
  using assms list_at_next [OF assms]
  by (cases ys) (auto simp: list_next_def list_entry_or_null_def list_at_def)

lemma list_prev_ok:
  assumes "list_at h head (xs @ n # ys)"
  shows "list_prev head (n - off) off h = Some (if xs = [] then None else Some (last xs - off))"
proof -
  have "head \<notin> set xs" using assms by (simp add: list_at_def)
  then have "last xs \<noteq> head" if "xs \<noteq> []" using that by (metis last_in_set)
  then show ?thesis using list_at_prev [OF assms] by (auto simp: list_prev_def list_entry_or_null_def)
qed

lemma list_pop_ok:
  assumes "list_at h head ns"
  obtains h' where "list_pop head off h = Some (case ns of [] \<Rightarrow> None | n # _ \<Rightarrow> Some (n - off), h')"
    "list_at h' head (tl ns)" "same_but (set (head # ns)) h h'"
proof (cases ns)
  case Nil
  then show ?thesis using assms that [of h] by (simp add: list_pop_def list_empty_ok)
next
  case (Cons n ms)
  have "list_at h head ([] @ n # ms)" using assms Cons by simp
  then obtain h' where h': "list_del n h = Some h'" "list_at h' head ([] @ ms)" "same_but (set (head # [] @ ms)) h h'"
    by (rule remove_ok)
  have "list_pop head off h = Some (Some (n - off), h')"
    using assms Cons h'(1) by (simp add: list_pop_def list_empty_ok list_at_first)
  then show ?thesis using h' Cons by (intro that [of h']) (auto intro: same_but_mono [OF h'(3)])
qed

text \<open>A heap has at most one sequence for a head.\<close>

lemma path_unique:
  "path h (p # xs @ [e]) \<Longrightarrow> path h (p # ys @ [e]) \<Longrightarrow> e \<notin> set xs \<Longrightarrow> e \<notin> set ys \<Longrightarrow> xs = ys"
proof (induction xs arbitrary: p ys)
  case Nil
  then show ?case by (cases ys) (auto simp: linked_def)
next
  case (Cons x xs)
  from Cons.prems obtain y zs where ys: "ys = y # zs" by (cases ys) (auto simp: linked_def)
  with Cons.prems have "y = x" by (simp add: linked_def)
  with Cons.prems ys have "xs = zs" by (intro Cons.IH [of x zs]) (auto simp: linked_def)
  with ys \<open>y = x\<close> show ?case by simp
qed

lemma list_at_unique: "list_at h head ns \<Longrightarrow> list_at h head ms \<Longrightarrow> ns = ms"
  by (rule path_unique [of h head ns head ms]) (auto simp: list_at_def)

section \<open>The consistency check decides\<close>

text \<open>The predecessor of a node that was passed is not the node that was passed last.\<close>

lemma path_no_return:
  assumes "path h (node # vs)" and "distinct (node # vs)" and "get_prev h n = Some (last (node # vs))" and "n \<noteq> node"
  shows "n \<notin> set vs"
proof
  assume "n \<in> set vs"
  then obtain xs zs where vs: "vs = xs @ n # zs" by (meson split_list)
  have "path h ((node # xs) @ n # zs)" using assms(1) vs by simp
  then have "linked h (last (node # xs)) n"
    using path_append [of "node # xs" "n # zs" h] by (simp del: last.simps)
  then have "last (node # xs) = last (n # zs)"
    using assms(3) vs by (simp add: linked_def)
  moreover have "last (node # xs) \<in> set (node # xs)" "last (n # zs) \<in> set (n # zs)" by (rule last_in_set, simp)+
  moreover have "set (node # xs) \<inter> set (n # zs) = {}" using assms(2) vs by auto
  ultimately show False by (metis disjoint_iff)
qed

text \<open>
  The loop after it passed \<open>vs\<close>, whose pointers agree. It passes no node twice, so it ends; and it
  finds the list consistent exactly when the nodes that it passed are the beginning of one.
\<close>

text \<open>The loop is back at the head: the ring is complete, and only the back pointer of the head is left.\<close>

lemma check_loop_home:
  assumes "path h (node # vs)" and "distinct (node # vs)" and "get_next h (last (node # vs)) = Some node"
  shows "(\<exists>ws. list_at h node (vs @ ws)) \<longleftrightarrow> get_prev h node = Some (last (node # vs))"
proof
  assume "\<exists>ws. list_at h node (vs @ ws)"
  then obtain ws where ws: "list_at h node (vs @ ws)" ..
  then have "hd (ws @ [node]) = node" using assms(3) unfolding list_at_cut by (simp add: linked_def)
  then have "ws = []" using ws by (cases ws) (auto simp: list_at_def)
  then show "get_prev h node = Some (last (node # vs))" using ws list_at_last by fastforce
next
  assume "get_prev h node = Some (last (node # vs))"
  then have "list_at h node (vs @ [])" using assms unfolding list_at_cut by (simp add: linked_def)
  then show "\<exists>ws. list_at h node (vs @ ws)" ..
qed

lemma check_loop_decides:
  assumes "path h (node # vs)" and "distinct (node # vs)" and "get_next h (last (node # vs)) = Some n"
  shows "\<exists>r. check_loop abortstr node (last (node # vs)) n count h = Some r
    \<and> (r = Consistent \<longleftrightarrow> (\<exists>ws. list_at h node (vs @ ws)))
    \<and> (abortstr \<longrightarrow> r \<noteq> Corrupt) \<and> ((\<forall>m q. get_next h m = Some q \<longrightarrow> q \<in> dom h) \<longrightarrow> r \<noteq> Invalid)"
  using assms
proof (induction "card (UNIV - set (node # vs))" arbitrary: vs n count rule: less_induct)
  case less
  let ?p = "last (node # vs)"
  have ext: "n = hd (ws @ [node])" if "list_at h node (vs @ ws)" for ws
    using that less.prems(3) unfolding list_at_cut by (simp add: linked_def)
  show ?case
  proof (cases "n = node")
    case True
    note check_loop_home [OF less.prems(1,2) less.prems(3) [unfolded True]]
    moreover have "node \<in> dom h \<Longrightarrow> get_prev h node \<noteq> None" by (auto simp: get_prev_def)
    ultimately show ?thesis
      using True less.prems(3) by (subst check_loop.simps) (auto simp: corrupt_def split: option.split)
  next
    case False
    have ws: "\<exists>us. ws = n # us" if "list_at h node (vs @ ws)" for ws
      using ext [OF that] False by (cases ws) auto
    show ?thesis
    proof (cases "get_prev h n = Some ?p")
      case True
      then obtain ln where ln: "h n = Some ln" "prev_node ln = ?p" by (auto simp: get_prev_def)
      have new: "n \<notin> set (node # vs)" using path_no_return [OF less.prems(1,2) True False] False by simp
      have P: "path h (node # vs @ [n])"
        using path_append [of "node # vs" "[n]" h] less.prems(1,3) True by (simp add: linked_def)
      have D: "distinct (node # vs @ [n])" using less.prems(2) new by auto
      have N: "get_next h (last (node # vs @ [n])) = Some (next_node ln)" using ln by (simp add: get_next_def)
      have "card (UNIV - set (node # vs @ [n])) < card (UNIV - set (node # vs))"
        using new by (intro psubset_card_mono) auto
      from less.hyps [OF this P D N, of "Suc count"] obtain r where
        r: "check_loop abortstr node n (next_node ln) (Suc count) h = Some r"
          "r = Consistent \<longleftrightarrow> (\<exists>ws. list_at h node ((vs @ [n]) @ ws))"
          "abortstr \<longrightarrow> r \<noteq> Corrupt" "(\<forall>m q. get_next h m = Some q \<longrightarrow> q \<in> dom h) \<longrightarrow> r \<noteq> Invalid"
        by auto
      have "(\<exists>ws. list_at h node ((vs @ [n]) @ ws)) \<longleftrightarrow> (\<exists>ws. list_at h node (vs @ ws))"
        using ws by fastforce
      moreover have "check_loop abortstr node ?p n count h = Some r"
        using False ln r(1) by (subst check_loop.simps) simp
      ultimately show ?thesis using r by simp
    next
      case no: False
      have "\<not> (\<exists>ws. list_at h node (vs @ ws))"
        using ws no list_at_prev [of h node vs n] by blast
      moreover have "n \<in> dom h" if "\<forall>m q. get_next h m = Some q \<longrightarrow> q \<in> dom h" using that less.prems(3) by blast
      ultimately show ?thesis
        using False no by (subst check_loop.simps) (auto simp: get_prev_def corrupt_def split: option.split)
    qed
  qed
qed

text \<open>
  C17. The consistency check always ends, on every heap, even when the pointers are arbitrary: it
  never follows a corrupt chain for ever. It accepts exactly the heaps in which the head is on a ring
  whose pointers agree in both directions. With an abort string it never returns a null pointer, and
  when no pointer leads out of the allocated nodes it makes no invalid access.
\<close>

theorem list_check_decides:
  "\<exists>r. list_check abortstr head h = Some r \<and> (r = Consistent \<longleftrightarrow> (\<exists>ns. list_at h head ns))
    \<and> (abortstr \<longrightarrow> r \<noteq> Corrupt)
    \<and> (head \<in> dom h \<and> (\<forall>m q. get_next h m = Some q \<longrightarrow> q \<in> dom h) \<longrightarrow> r \<noteq> Invalid)"
proof (cases "get_next h head")
  case None
  then have "\<not> list_at h head ns" for ns using list_at_first by fastforce
  moreover have "head \<notin> dom h" using None by (auto simp: get_next_def)
  ultimately show ?thesis using None by (simp add: list_check_def list_check_node_def)
next
  case (Some n)
  then show ?thesis
    using check_loop_decides [of h head "[]" n abortstr 0] by (auto simp: list_check_def list_check_node_def)
qed

text \<open>A node that points to itself, on which following the pointers would not end.\<close>

definition stuck_heap :: heap where
  "stuck_heap = [1 \<mapsto> \<lparr>next_node = 2, prev_node = 2\<rparr>, 2 \<mapsto> \<lparr>next_node = 2, prev_node = 1\<rparr>]"

theorem list_check_decides_witness:
  "\<exists>r. list_check True 1 stuck_heap = Some r \<and> r = Aborted 2 2 \<and> \<not> (\<exists>ns. list_at stuck_heap 1 ns)"
proof -
  have "list_check True 1 stuck_heap = Some (Aborted 2 2)"
    by (simp add: list_check_def list_check_node_def get_next_def stuck_heap_def check_loop.simps corrupt_def)
  moreover have "1 \<in> dom stuck_heap \<and> (\<forall>m q. get_next stuck_heap m = Some q \<longrightarrow> q \<in> dom stuck_heap)"
    by (auto simp: stuck_heap_def get_next_def)
  ultimately show ?thesis using list_check_decides [of True 1 stuck_heap] by auto
qed

section \<open>Refinement of sequences\<close>

text \<open>The call returns, the list is then the given one, and nothing outside of \<open>S\<close> is written.\<close>

definition becomes :: "ptr set \<Rightarrow> heap \<Rightarrow> heap option \<Rightarrow> ptr \<Rightarrow> ptr list \<Rightarrow> bool" where
  "becomes S h r head ns \<longleftrightarrow> (\<exists>h'. r = Some h' \<and> list_at h' head ns \<and> same_but S h h')"

lemma add_after_becomes:
  assumes "list_at h head (xs @ m # ys)" and "n \<in> dom h" and "n \<notin> set (head # xs @ m # ys)"
  shows "becomes (set (n # head # xs @ m # ys)) h (list_add_after m n h) head (xs @ m # n # ys)"
  using insert_ok [of h head "xs @ [m]" ys n] assms by (auto simp: becomes_def)

lemma add_before_becomes:
  assumes "list_at h head (xs @ m # ys)" and "n \<in> dom h" and "n \<notin> set (head # xs @ m # ys)"
  shows "becomes (set (n # head # xs @ m # ys)) h (list_add_before m n h) head (xs @ n # m # ys)"
  using insert_ok [of h head xs "m # ys" n] assms by (auto simp: becomes_def)

lemma add_becomes:
  assumes "list_at h head ns" and "n \<in> dom h" and "n \<notin> set (head # ns)"
  shows "becomes (set (n # head # ns)) h (list_add head n h) head (n # ns)"
    and "becomes (set (n # head # ns)) h (list_add_tail head n h) head (ns @ [n])"
proof -
  obtain h1 where "list_add_after (last [head]) n h = Some h1" "list_at h1 head ([] @ n # ns)" "same_but (set (n # head # [] @ ns)) h h1"
    using insert_ok [of h head "[]" ns n] assms by (metis append_Nil)
  then show "becomes (set (n # head # ns)) h (list_add head n h) head (n # ns)" by (simp add: becomes_def list_add_def)
  obtain h2 where "list_add_before (hd [head]) n h = Some h2" "list_at h2 head (ns @ [n])" "same_but (set (n # head # ns @ [])) h h2"
    using insert_ok [of h head ns "[]" n] assms by (metis append_Nil append_Nil2)
  then show "becomes (set (n # head # ns)) h (list_add_tail head n h) head (ns @ [n])"
    by (simp add: becomes_def list_add_tail_def)
qed

lemma del_becomes:
  assumes "list_at h head (xs @ m # ys)"
  shows "becomes (set (head # xs @ ys)) h (list_del m h) head (xs @ ys)"
  using remove_ok [OF assms] unfolding becomes_def by metis

lemma swap_becomes:
  assumes "list_at h head (xs @ m # ys)" and "n \<in> dom h" and "n \<notin> set (head # xs @ m # ys)"
  shows "becomes (set (n # head # xs @ ys)) h (list_swap m n h) head (xs @ n # ys)"
  using swap_ok [OF assms] unfolding becomes_def by metis

text \<open>The call returns, the first list is then the given one and the second one is empty.\<close>

definition moves :: "ptr set \<Rightarrow> heap \<Rightarrow> heap option \<Rightarrow> ptr \<Rightarrow> ptr \<Rightarrow> ptr list \<Rightarrow> bool" where
  "moves S h r to from ns \<longleftrightarrow> (\<exists>h'. r = Some h' \<and> list_at h' to ns \<and> list_at h' from [] \<and> same_but S h h')"

lemma move_ok:
  assumes "list_at h to ns" and "list_at h from ms" and "set (from # ms) \<inter> set (to # ns) = {}"
  shows "moves (set (to # ns) \<union> set (from # ms)) h (list_append_list to from h) to from (ns @ ms)"
    and "moves (set (to # ns) \<union> set (from # ms)) h (list_prepend_list to from h) to from (ms @ ns)"
proof -
  have d: "set (to # ns) \<inter> set (from # ms) = {}" using assms(3) by blast
  show "moves (set (to # ns) \<union> set (from # ms)) h (list_append_list to from h) to from (ns @ ms)"
    using append_ok [OF assms(1,2) d] unfolding moves_def by metis
  show "moves (set (to # ns) \<union> set (from # ms)) h (list_prepend_list to from h) to from (ms @ ns)"
    using prepend_ok [OF assms(1,2) d] unfolding moves_def by metis
qed

text \<open>
  C18. Every operation on the linked list does to the sequence of its nodes what it is meant to, when it
  is given a list, empty or not, and an allocated node outside of it: making the node an empty list,
  adding it at the front or the end, after or before a member, removing a member and replacing it by the
  node; and moving all of another list to the end or to the front, which leaves the other list empty.
  No operation makes an invalid access, and none writes a node outside of the lists that it is given, so all other
  lists stay as they are.
\<close>

theorem list_operations_refine:
  assumes "list_at h head ns" and "n \<in> dom h" and "n \<notin> set (head # ns)"
    and "list_at h from ms" and "set (from # ms) \<inter> set (head # ns) = {}"
  shows "becomes {n} h (list_head_init n h) n []
    \<and> becomes (set (n # head # ns)) h (list_add head n h) head (n # ns)
    \<and> becomes (set (n # head # ns)) h (list_add_tail head n h) head (ns @ [n])
    \<and> (\<forall>xs m ys. ns = xs @ m # ys \<longrightarrow>
        becomes (set (n # head # ns)) h (list_add_after m n h) head (xs @ m # n # ys)
        \<and> becomes (set (n # head # ns)) h (list_add_before m n h) head (xs @ n # m # ys)
        \<and> becomes (set (head # xs @ ys)) h (list_del m h) head (xs @ ys)
        \<and> becomes (set (n # head # xs @ ys)) h (list_swap m n h) head (xs @ n # ys))
    \<and> moves (set (head # ns) \<union> set (from # ms)) h (list_append_list head from h) head from (ns @ ms)
    \<and> moves (set (head # ns) \<union> set (from # ms)) h (list_prepend_list head from h) head from (ms @ ns)"
proof -
  have "becomes {n} h (list_head_init n h) n []"
    using list_head_init_ok [OF assms(2)] unfolding becomes_def by metis
  moreover have "becomes (set (n # head # ns)) h (list_add_after m n h) head (xs @ m # n # ys)
      \<and> becomes (set (n # head # ns)) h (list_add_before m n h) head (xs @ n # m # ys)
      \<and> becomes (set (head # xs @ ys)) h (list_del m h) head (xs @ ys)
      \<and> becomes (set (n # head # xs @ ys)) h (list_swap m n h) head (xs @ n # ys)" if "ns = xs @ m # ys" for xs m ys
    using add_after_becomes [of h head xs m ys n] add_before_becomes [of h head xs m ys n] del_becomes [of h head xs m ys]
      swap_becomes [of h head xs m ys n] assms(1-3) unfolding that by blast
  ultimately show ?thesis using add_becomes [OF assms(1-3)] move_ok [OF assms(1,4,5)] by blast
qed

text \<open>Two lists, at 1 with the members 2 and 3, and at 4 with the member 5, and a node 6 in no list.\<close>

definition two_lists :: heap where
  "two_lists = [1 \<mapsto> \<lparr>next_node = 2, prev_node = 3\<rparr>, 2 \<mapsto> \<lparr>next_node = 3, prev_node = 1\<rparr>,
     3 \<mapsto> \<lparr>next_node = 1, prev_node = 2\<rparr>, 4 \<mapsto> \<lparr>next_node = 5, prev_node = 5\<rparr>,
     5 \<mapsto> \<lparr>next_node = 4, prev_node = 4\<rparr>, 6 \<mapsto> \<lparr>next_node = 0, prev_node = 0\<rparr>]"

lemma two_lists_at: "list_at two_lists 1 [2, 3]" "list_at two_lists 4 [5]"
  by (simp_all add: list_at_def linked_def get_next_def get_prev_def two_lists_def)

theorem list_operations_refine_witness:
  "becomes (set [6, 1, 2, 3]) two_lists (list_add_after 2 6 two_lists) 1 [2, 6, 3]
    \<and> moves (set [1, 2, 3] \<union> set [4, 5]) two_lists (list_append_list 1 4 two_lists) 1 4 [2, 3, 5]
    \<and> moves (set [1, 2, 3] \<union> set [4, 5]) two_lists (list_prepend_list 1 4 two_lists) 1 4 [5, 2, 3]"
proof -
  have "6 \<in> dom two_lists" "6 \<notin> set ((1 :: ptr) # [2, 3])" "set ((4 :: ptr) # [5]) \<inter> set (1 # [2, 3]) = {}"
    by (simp_all add: two_lists_def)
  note R = list_operations_refine [OF two_lists_at(1) this(1,2) two_lists_at(2) this(3)]
  have "[2, 3 :: ptr] = [] @ 2 # [3]" by simp
  with R have "becomes (set [6, 1, 2, 3]) two_lists (list_add_after 2 6 two_lists) 1 ([] @ 2 # 6 # [3])" by blast
  with R show ?thesis unfolding append_Nil append_Cons by blast
qed

section \<open>Queues and stacks\<close>

text \<open>Adding elements one after the other, and taking elements until there is none.\<close>

fun add_all :: "('e \<Rightarrow> 'h \<Rightarrow> 'h option) \<Rightarrow> 'e list \<Rightarrow> 'h \<Rightarrow> 'h option" where
  "add_all add [] h = Some h"
| "add_all add (e # es) h = Option.bind (add e h) (add_all add es)"

partial_function (option) pop_all :: "('h \<Rightarrow> ('e option \<times> 'h) option) \<Rightarrow> 'h \<Rightarrow> ('e list \<times> 'h) option" where
  "pop_all pop h = (case pop h of
       None \<Rightarrow> None
     | Some (x, h') \<Rightarrow> (case x of
          None \<Rightarrow> Some ([], h')
        | Some e \<Rightarrow> Option.bind (pop_all pop h') (\<lambda>(es, h''). Some (e # es, h''))))"

text \<open>
  What a user of a list relies on: \<open>rep h l es\<close> says that the list \<open>l\<close> has the elements \<open>es\<close>, and
  \<open>avail h l\<close> are the elements that can be in it.
\<close>

locale sequence_store =
  fixes rep :: "'h \<Rightarrow> 'l \<Rightarrow> 'e list \<Rightarrow> bool"
    and avail :: "'h \<Rightarrow> 'l \<Rightarrow> 'e set"
    and add_front :: "'l \<Rightarrow> 'e \<Rightarrow> 'h \<Rightarrow> 'h option"
    and add_back :: "'l \<Rightarrow> 'e \<Rightarrow> 'h \<Rightarrow> 'h option"
    and take_front :: "'l \<Rightarrow> 'h \<Rightarrow> ('e option \<times> 'h) option"
  assumes front_law: "rep h l es \<Longrightarrow> e \<in> avail h l \<Longrightarrow> e \<notin> set es \<Longrightarrow>
      \<exists>h'. add_front l e h = Some h' \<and> rep h' l (e # es) \<and> avail h' l = avail h l"
    and back_law: "rep h l es \<Longrightarrow> e \<in> avail h l \<Longrightarrow> e \<notin> set es \<Longrightarrow>
      \<exists>h'. add_back l e h = Some h' \<and> rep h' l (es @ [e]) \<and> avail h' l = avail h l"
    and take_law: "rep h l es \<Longrightarrow> \<exists>h'. rep h' l (tl es) \<and> avail h' l = avail h l \<and>
      take_front l h = Some (case es of [] \<Rightarrow> None | e # _ \<Rightarrow> Some e, h')"
begin

lemma add_all_back:
  "rep h l es \<Longrightarrow> set new \<subseteq> avail h l \<Longrightarrow> distinct (es @ new) \<Longrightarrow>
    \<exists>h'. add_all (add_back l) new h = Some h' \<and> rep h' l (es @ new) \<and> avail h' l = avail h l"
proof (induction new arbitrary: h es)
  case (Cons e new)
  then obtain h1 where "add_back l e h = Some h1" "rep h1 l (es @ [e])" "avail h1 l = avail h l"
    using back_law [of h l es e] by auto
  with Cons.IH [of h1 "es @ [e]"] Cons.prems show ?case by auto
qed simp

lemma add_all_front:
  "rep h l es \<Longrightarrow> set new \<subseteq> avail h l \<Longrightarrow> distinct (es @ new) \<Longrightarrow>
    \<exists>h'. add_all (add_front l) new h = Some h' \<and> rep h' l (rev new @ es) \<and> avail h' l = avail h l"
proof (induction new arbitrary: h es)
  case (Cons e new)
  then obtain h1 where "add_front l e h = Some h1" "rep h1 l (e # es)" "avail h1 l = avail h l"
    using front_law [of h l es e] by auto
  with Cons.IH [of h1 "e # es"] Cons.prems show ?case by auto
qed simp

lemma pop_all_elements: "rep h l es \<Longrightarrow> \<exists>h'. pop_all (take_front l) h = Some (es, h') \<and> rep h' l []"
proof (induction es arbitrary: h)
  case Nil
  with take_law [OF Nil] show ?case by (subst pop_all.simps) auto
next
  case (Cons e es)
  obtain h1 where h1: "rep h1 l es" "take_front l h = Some (Some e, h1)" using take_law [OF Cons.prems] by auto
  with Cons.IH [OF h1(1)] show ?case by (subst pop_all.simps) auto
qed

lemma queue_order:
  assumes "rep h l []" and "set es \<subseteq> avail h l" and "distinct es"
  shows "\<exists>h'. Option.bind (add_all (add_back l) es h) (pop_all (take_front l)) = Some (es, h') \<and> rep h' l []"
  using add_all_back [OF assms(1,2)] assms(3) pop_all_elements [of _ l es] by fastforce

lemma stack_order:
  assumes "rep h l []" and "set es \<subseteq> avail h l" and "distinct es"
  shows "\<exists>h'. Option.bind (add_all (add_front l) es h) (pop_all (take_front l)) = Some (rev es, h') \<and> rep h' l []"
  using add_all_front [OF assms(1,2)] assms(3) pop_all_elements [of _ l "rev es"] by fastforce

end

text \<open>The linked list of structures with a node at offset \<open>off\<close>.\<close>

definition entries_at :: "ptr \<Rightarrow> heap \<Rightarrow> ptr \<Rightarrow> ptr list \<Rightarrow> bool" where
  "entries_at off h head es \<longleftrightarrow> list_at h head (map (\<lambda>e. e + off) es)"

definition entry_room :: "ptr \<Rightarrow> heap \<Rightarrow> ptr \<Rightarrow> ptr set" where
  "entry_room off h head = {e. e + off \<in> dom h \<and> e + off \<noteq> head}"

interpretation ccan: sequence_store "entries_at off" "entry_room off" "\<lambda>head e. list_add head (e + off)"
  "\<lambda>head e. list_add_tail head (e + off)" "\<lambda>head. list_pop head off" for off
proof
  fix h head es and e :: ptr
  assume r: "entries_at off h head es" and e: "e \<in> entry_room off h head" "e \<notin> set es"
  have n: "e + off \<in> dom h" "e + off \<notin> set (head # map (\<lambda>e. e + off) es)"
    using e by (auto simp: entry_room_def)
  note add_becomes [OF r [unfolded entries_at_def] n]
  then show "\<exists>h'. list_add head (e + off) h = Some h' \<and> entries_at off h' head (e # es) \<and> entry_room off h' head = entry_room off h head"
    and "\<exists>h'. list_add_tail head (e + off) h = Some h' \<and> entries_at off h' head (es @ [e]) \<and> entry_room off h' head = entry_room off h head"
    by (auto simp: becomes_def entries_at_def entry_room_def same_but_def)
next
  fix h head es
  assume r: "entries_at off h head es"
  obtain h' where h': "list_pop head off h = Some (case map (\<lambda>e. e + off) es of [] \<Rightarrow> None | n # _ \<Rightarrow> Some (n - off), h')"
    "list_at h' head (tl (map (\<lambda>e. e + off) es))" "same_but (set (head # map (\<lambda>e. e + off) es)) h h'"
    using list_pop_ok [OF r [unfolded entries_at_def]] by metis
  then have "entries_at off h' head (tl es)" "entry_room off h' head = entry_room off h head"
    by (auto simp: entries_at_def entry_room_def same_but_def map_tl)
  moreover have "list_pop head off h = Some (case es of [] \<Rightarrow> None | e # _ \<Rightarrow> Some e, h')"
    using h'(1) by (cases es) simp_all
  ultimately show "\<exists>h'. entries_at off h' head (tl es) \<and> entry_room off h' head = entry_room off h head
      \<and> list_pop head off h = Some (case es of [] \<Rightarrow> None | e # _ \<Rightarrow> Some e, h')" by blast
qed

text \<open>
  The list is a queue and a stack. Structures that are added to an empty list at the end are taken
  from it in the order in which they were added, and those that are added at the front in the opposite order; taking ends, with the
  same structures and an empty list.
\<close>

theorem list_queue_stack:
  assumes "list_at h head []" and "\<forall>e \<in> set es. e + off \<in> dom h \<and> e + off \<noteq> head" and "distinct es"
  shows "(\<exists>h'. Option.bind (add_all (\<lambda>e. list_add_tail head (e + off)) es h) (pop_all (list_pop head off)) = Some (es, h')
      \<and> list_at h' head [])
    \<and> (\<exists>h'. Option.bind (add_all (\<lambda>e. list_add head (e + off)) es h) (pop_all (list_pop head off)) = Some (rev es, h')
      \<and> list_at h' head [])"
proof -
  have "entries_at off h head []" "set es \<subseteq> entry_room off h head"
    using assms(1,2) by (auto simp: entries_at_def entry_room_def)
  from ccan.queue_order [OF this assms(3)] ccan.stack_order [OF this assms(3)] show ?thesis
    by (simp add: entries_at_def)
qed

theorem list_queue_stack_witness:
  "\<exists>h'. Option.bind (add_all (\<lambda>e. list_add_tail 1 (e + 8)) [100, 200, 300]
      [1 \<mapsto> \<lparr>next_node = 1, prev_node = 1\<rparr>, 108 \<mapsto> \<lparr>next_node = 0, prev_node = 0\<rparr>,
       208 \<mapsto> \<lparr>next_node = 0, prev_node = 0\<rparr>, 308 \<mapsto> \<lparr>next_node = 0, prev_node = 0\<rparr>])
    (pop_all (list_pop 1 8)) = Some ([100, 200, 300], h') \<and> list_at h' 1 []"
proof -
  let ?h = "[1 :: ptr \<mapsto> \<lparr>next_node = 1, prev_node = 1\<rparr>, 108 \<mapsto> \<lparr>next_node = 0, prev_node = 0\<rparr>,
     208 \<mapsto> \<lparr>next_node = 0, prev_node = 0\<rparr>, 308 \<mapsto> \<lparr>next_node = 0, prev_node = 0\<rparr>]"
  have "list_at ?h 1 []" by (simp add: list_at_def linked_def get_next_def get_prev_def)
  moreover have "\<forall>e \<in> set [100, 200, 300]. e + 8 \<in> dom ?h \<and> e + 8 \<noteq> 1" by simp
  moreover have "distinct [100 :: ptr, 200, 300]" by simp
  ultimately show ?thesis using list_queue_stack by blast
qed

end
