(* ===== verification/SlingshotHeap.thy ===== *)
theory SlingshotHeap
  imports SlingshotList CcanList
begin

text \<open>
  The \<^verbatim>\<open>list\<close> command of \<^verbatim>\<open>src/cmd/flux-slingshot.c\<close> once more, now with its memory: the entries are
  structures that are allocated and freed, and they are kept in the linked list of
  \<^verbatim>\<open>src/common/libccan/ccan/list\<close>. The command is shown to do on memory what \<open>SlingshotList\<close> says that
  it does on a list, without an invalid access, and to free all that it allocates.
\<close>

section \<open>Memory\<close>

text \<open>
  The entries by their addresses, without their member \<^verbatim>\<open>list\<close>, which is at the offset \<open>off\<close> in
  the structure, and the list nodes, of the entries and of the head. What is not allocated
  is in neither map; reading it, writing it or freeing it makes the outcome \<open>None\<close>.
\<close>

record ('h, 'i) memory =
  m_entries :: "ptr \<rightharpoonup> ('h, 'i) service_entry"
  m_nodes :: heap

definition on_nodes :: "(heap \<Rightarrow> heap option) \<Rightarrow> ('h, 'i) memory \<Rightarrow> ('h, 'i) memory option" where
  "on_nodes f m = map_option (\<lambda>h. m\<lparr>m_nodes := h\<rparr>) (f (m_nodes m))"

definition service_entry_destroy :: "ptr \<Rightarrow> ptr \<Rightarrow> ('h, 'i) memory \<Rightarrow> ('h, 'i) memory option" where
  "service_entry_destroy off e m = (case m_entries m e of
       None \<Rightarrow> None
     | Some _ \<Rightarrow> Some (m\<lparr>m_entries := (m_entries m)(e := None), m_nodes := (m_nodes m)(e + off := None)\<rparr>))"

text \<open>
  \<^verbatim>\<open>service_entry_create\<close>: \<open>alloc\<close> is \<^verbatim>\<open>calloc\<close>. \<open>Some (None, m)\<close> is the null pointer; after an error what
  was allocated has been freed again.
\<close>

definition service_entry_new ::
  "(('h, 'i) memory \<Rightarrow> ptr option) \<Rightarrow> ptr \<Rightarrow> ('h, 'i) list_libs \<Rightarrow> string \<Rightarrow> cxi_svc_desc \<Rightarrow> ('h, 'i) memory \<Rightarrow>
    (ptr option \<times> ('h, 'i) memory) option" where
  "service_entry_new alloc off L name desc m = (case alloc m of
       None \<Rightarrow> Some (None, m)
     | Some e \<Rightarrow> (case service_entry_create L name desc of
          None \<Rightarrow> Some (None, m)
        | Some entry \<Rightarrow>
            map_option (Pair (Some e)) (on_nodes (list_node_init (e + off))
              (m\<lparr>m_entries := (m_entries m)(e \<mapsto> entry),
                 m_nodes := (m_nodes m)(e + off \<mapsto> \<lparr>next_node = 0, prev_node = 0\<rparr>)\<rparr>))))"

section \<open>The command\<close>

text \<open>The loop of \<^verbatim>\<open>insert_services_entry\<close>, from the position \<open>i\<close> on, and what comes after it.\<close>

partial_function (option) insert_loop ::
  "('h, 'i) list_libs \<Rightarrow> ptr \<Rightarrow> ptr \<Rightarrow> ptr \<Rightarrow> ptr \<Rightarrow> ('h, 'i) memory \<Rightarrow> ('h, 'i) memory option" where
  "insert_loop L off head entry i m =
     (if list_node_from_off i off = head then on_nodes (list_add_tail head (entry + off)) m
      else Option.bind (m_entries m i) (\<lambda>old. Option.bind (m_entries m entry) (\<lambda>new.
        if service_entry_equal L old new
        then (case hostlist_encode L (devices new) of
            None \<Rightarrow> on_nodes (list_add_tail head (entry + off)) m
          | Some device \<Rightarrow> (case hostlist_append (ll_hosts L) (devices old) device of
              None \<Rightarrow> on_nodes (list_add_tail head (entry + off)) m
            | Some h \<Rightarrow> service_entry_destroy off entry
                (m\<lparr>m_entries := (m_entries m)(i \<mapsto> old\<lparr>devices := h\<rparr>)\<rparr>)))
        else Option.bind (get_next (m_nodes m) (list_node_from_off i off))
          (\<lambda>n. insert_loop L off head entry (list_node_to_off n off) m))))"

definition insert_entry_at ::
  "('h, 'i) list_libs \<Rightarrow> ptr \<Rightarrow> ptr \<Rightarrow> ptr \<Rightarrow> ('h, 'i) memory \<Rightarrow> ('h, 'i) memory option" where
  "insert_entry_at L off head entry m =
     Option.bind (get_next (m_nodes m) head) (\<lambda>n. insert_loop L off head entry (list_node_to_off n off) m)"

text \<open>The loops over services and devices; the inner \<open>None\<close> is \<^verbatim>\<open>fatal\<close>.\<close>

fun services_into ::
  "(('h, 'i) memory \<Rightarrow> ptr option) \<Rightarrow> ptr \<Rightarrow> ptr \<Rightarrow> ('h, 'i) list_libs \<Rightarrow> string \<Rightarrow> cxi_svc_desc list \<Rightarrow>
    ('h, 'i) memory \<Rightarrow> ('h, 'i) memory option option" where
  "services_into alloc off head L name [] m = Some (Some m)"
| "services_into alloc off head L name (desc # descs) m =
     (case service_entry_new alloc off L name desc m of
        None \<Rightarrow> None
      | Some (None, _) \<Rightarrow> Some None
      | Some (Some entry, m') \<Rightarrow>
          Option.bind (insert_entry_at L off head entry m') (services_into alloc off head L name descs))"

fun devices_into ::
  "(('h, 'i) memory \<Rightarrow> ptr option) \<Rightarrow> ptr \<Rightarrow> ptr \<Rightarrow> ('h, 'i) list_libs \<Rightarrow> cxi_pass \<Rightarrow> cxi_dev list \<Rightarrow>
    ('h, 'i) memory \<Rightarrow> ('h, 'i) memory option option" where
  "devices_into alloc off head L p [] m = Some (Some m)"
| "devices_into alloc off head L p (dev # devs) m =
     (if \<not> p_open p (dev_id dev) then devices_into alloc off head L p devs m
      else if \<not> p_query p (dev_id dev) then devices_into alloc off head L p devs m
      else (case services_into alloc off head L (dev_name dev) (services dev) m of
          None \<Rightarrow> None
        | Some None \<Rightarrow> Some None
        | Some (Some m') \<Rightarrow> devices_into alloc off head L p devs m'))"

text \<open>The last loop, \<^verbatim>\<open>list_for_each_safe\<close>, at the position \<open>i\<close> with \<open>nxt\<close> read in advance.\<close>

partial_function (option) print_loop ::
  "('h, 'i) list_libs \<Rightarrow> bool \<Rightarrow> ptr \<Rightarrow> ptr \<Rightarrow> ptr \<Rightarrow> ptr \<Rightarrow> ('h, 'i) memory \<Rightarrow>
    (('h, 'i) memory \<times> string list \<times> exit) option" where
  "print_loop L show_max off head i nxt m =
     (if list_node_from_off i off = head then Some (m, [], Exit 0)
      else Option.bind (m_entries m i) (\<lambda>entry. case service_entry_print L show_max entry of
          None \<Rightarrow> Some (m, [], fatal)
        | Some line \<Rightarrow>
            Option.bind (on_nodes (list_del (i + off)) m) (\<lambda>m.
            Option.bind (service_entry_destroy off i m) (\<lambda>m.
            Option.bind (get_next (m_nodes m) (list_node_from_off nxt off)) (\<lambda>n.
            Option.bind (print_loop L show_max off head nxt (list_node_to_off n off) m) (\<lambda>(m, lines, e).
            Some (m, line # lines, e)))))))"

definition print_all ::
  "('h, 'i) list_libs \<Rightarrow> bool \<Rightarrow> ptr \<Rightarrow> ptr \<Rightarrow> ('h, 'i) memory \<Rightarrow> (('h, 'i) memory \<times> string list \<times> exit) option" where
  "print_all L show_max off head m =
     Option.bind (get_next (m_nodes m) head) (\<lambda>n.
     Option.bind (get_next (m_nodes m) (list_node_from_off (list_node_to_off n off) off)) (\<lambda>n'.
     print_loop L show_max off head (list_node_to_off n off) (list_node_to_off n' off) m))"

text \<open>\<open>head\<close> is the address of the variable \<^verbatim>\<open>services\<close>.\<close>

definition cmd_list_at ::
  "(('h, 'i) memory \<Rightarrow> ptr option) \<Rightarrow> ptr \<Rightarrow> ptr \<Rightarrow> ('h, 'i) list_libs \<Rightarrow> bool \<Rightarrow> bool \<Rightarrow> bool \<Rightarrow> bool \<Rightarrow>
    cxi_pass \<Rightarrow> cxi_dev list \<Rightarrow> ('h, 'i) memory \<Rightarrow> (('h, 'i) memory \<times> string list \<times> exit) option" where
  "cmd_list_at alloc off head L free_args no_header show_max cxi p devs m =
     (if free_args then Some (m, [], fatal)
      else Option.bind (on_nodes (list_head_init head) m) (\<lambda>m.
        let header = (if no_header then [] else [service_entry_header_print L cxi]) in
        if \<not> cxi then Some (m, header, Exit 0)
        else if \<not> p_list p then Some (m, header, fatal)
        else (case devices_into alloc off head L p devs m of
            None \<Rightarrow> None
          | Some None \<Rightarrow> Some (m, header, fatal)
          | Some (Some m') \<Rightarrow>
              map_option (\<lambda>(m'', lines, e). (m'', header @ lines, e)) (print_all L show_max off head m'))))"

section \<open>The list in memory\<close>

text \<open>The list at \<open>head\<close> has the entries \<open>es\<close> at the addresses \<open>ps\<close>, and nothing else is allocated.\<close>

definition holds_list :: "ptr \<Rightarrow> ptr \<Rightarrow> ('h, 'i) memory \<Rightarrow> ptr list \<Rightarrow> ('h, 'i) service_entry list \<Rightarrow> bool" where
  "holds_list off head m ps es \<longleftrightarrow> entries_at off (m_nodes m) head ps \<and> map (m_entries m) ps = map Some es
     \<and> dom (m_entries m) = set ps \<and> dom (m_nodes m) = insert head ((\<lambda>p. p + off) ` set ps)"

text \<open>The same, while one more entry is allocated and not in the list.\<close>

definition holds_and :: "ptr \<Rightarrow> ptr \<Rightarrow> ('h, 'i) memory \<Rightarrow> ptr list \<Rightarrow> ('h, 'i) service_entry list \<Rightarrow>
    ptr \<Rightarrow> ('h, 'i) service_entry \<Rightarrow> bool" where
  "holds_and off head m ps es e entry \<longleftrightarrow> entries_at off (m_nodes m) head ps \<and> map (m_entries m) ps = map Some es
     \<and> m_entries m e = Some entry \<and> e \<notin> set ps \<and> e + off \<noteq> head
     \<and> dom (m_entries m) = set (e # ps) \<and> dom (m_nodes m) = insert head ((\<lambda>p. p + off) ` set (e # ps))"

lemma on_nodes_simps [simp]:
  "f (m_nodes m) = Some h \<Longrightarrow> on_nodes f m = Some (m\<lparr>m_nodes := h\<rparr>)"
  by (simp add: on_nodes_def)

lemma entry_off [simp]: "list_node_from_off (list_node_to_off n off) off = n"
  by (simp add: list_node_from_off_def list_node_to_off_def)

lemma holds_distinct: "entries_at off h head ps \<Longrightarrow> distinct ps \<and> (\<forall>p \<in> set ps. p + off \<noteq> head)"
  by (auto simp: entries_at_def list_at_def distinct_map)

text \<open>A list does not depend on other nodes.\<close>

lemma entries_at_other:
  assumes "\<And>m. m \<noteq> n \<Longrightarrow> h' m = h m" and "n \<noteq> head" and "n \<notin> (\<lambda>p. p + off) ` set ps"
  shows "entries_at off h' head ps \<longleftrightarrow> entries_at off h head ps"
proof -
  let ?ns = "head # map (\<lambda>p. p + off) ps @ [head]"
  have "h' m = h m" if "m \<in> set ?ns" for m using assms that by (intro assms(1)) auto
  then have "path h' ?ns \<longleftrightarrow> path h ?ns"
    by (intro path_cong) (auto simp: get_next_def get_prev_def dest: in_set_butlastD)
  then show ?thesis by (simp add: entries_at_def list_at_def)
qed

lemma add_tail_holds:
  assumes "holds_and off head m ps es e entry"
  shows "\<exists>m'. on_nodes (list_add_tail head (e + off)) m = Some m' \<and> holds_list off head m' (ps @ [e]) (es @ [entry])"
proof -
  have "e \<in> entry_room off (m_nodes m) head" "e \<notin> set ps" "entries_at off (m_nodes m) head ps"
    using assms by (auto simp: holds_and_def entry_room_def)
  then obtain h where h: "list_add_tail head (e + off) (m_nodes m) = Some h" "entries_at off h head (ps @ [e])"
    using ccan.back_law by blast
  have "e + off \<in> dom (m_nodes m)" "e + off \<notin> set (head # map (\<lambda>e. e + off) ps)" "list_at (m_nodes m) head (map (\<lambda>e. e + off) ps)"
    using assms by (auto simp: holds_and_def entries_at_def)
  then have "dom h = dom (m_nodes m)"
    using h(1) add_becomes(2) by (fastforce simp: becomes_def same_but_def)
  with h assms have "holds_list off head (m\<lparr>m_nodes := h\<rparr>) (ps @ [e]) (es @ [entry])"
    by (simp add: holds_and_def holds_list_def insert_commute)
  with h(1) show ?thesis by simp
qed

lemma combine_holds:
  assumes "holds_and off head m (xs @ p # ys) (as @ b # bs) e entry" and "length as = length xs"
  shows "\<exists>m'. service_entry_destroy off e (m\<lparr>m_entries := (m_entries m)(p \<mapsto> c)\<rparr>) = Some m'
    \<and> holds_list off head m' (xs @ p # ys) (as @ c # bs)"
proof -
  note H = assms(1)[unfolded holds_and_def]
  let ?m = "m\<lparr>m_entries := (m_entries m)(p \<mapsto> c, e := None), m_nodes := (m_nodes m)(e + off := None)\<rparr>"
  have d: "distinct (xs @ p # ys)" "e \<notin> set (xs @ p # ys)" using H holds_distinct by blast+
  have "map (m_entries ?m) (xs @ p # ys) = map Some (as @ c # bs)"
    using H d assms(2) by (auto simp: map_eq_append_conv append_eq_append_conv)
  moreover have "e + off \<notin> (\<lambda>p. p + off) ` set (xs @ p # ys)" using d(2) by auto
  then have "entries_at off ((m_nodes m)(e + off := None)) head (xs @ p # ys)"
    using H by (subst entries_at_other [of "e + off" _ "m_nodes m"]) simp_all
  ultimately have "holds_list off head ?m (xs @ p # ys) (as @ c # bs)"
    using H d unfolding holds_list_def by auto
  moreover have "service_entry_destroy off e (m\<lparr>m_entries := (m_entries m)(p \<mapsto> c)\<rparr>) = Some ?m"
    using H by (auto simp: service_entry_destroy_def)
  ultimately show ?thesis by blast
qed

text \<open>The entry at the front of what is left of the list, from the position that the loop is at.\<close>

definition position :: "ptr \<Rightarrow> ptr \<Rightarrow> ptr list \<Rightarrow> ptr" where
  "position off head ys = list_node_to_off (hd (map (\<lambda>p. p + off) ys @ [head])) off"

lemma position_simps [simp]:
  "list_node_from_off (position off head []) off = head" "position off head (p # ps) = p"
  by (simp_all add: position_def list_node_from_off_def list_node_to_off_def)

lemma entries_next:
  assumes "entries_at off h head (xs @ p # ys)"
  shows "get_next h (p + off) = Some (list_node_from_off (position off head ys) off)"
  using list_at_next [of h head "map (\<lambda>p. p + off) xs" "p + off" "map (\<lambda>p. p + off) ys"] assms
  by (simp add: entries_at_def position_def)

lemma entries_first:
  "entries_at off h head ps \<Longrightarrow> get_next h head = Some (list_node_from_off (position off head ps) off)"
  using list_at_first by (fastforce simp: entries_at_def position_def)

lemma to_from [simp]: "list_node_to_off (list_node_from_off i off) off = i"
  by (simp add: list_node_from_off_def list_node_to_off_def)

lemma insert_loop_refines:
  assumes "holds_and off head m (xs @ ys) (as @ bs) e entry" and "length as = length xs"
  shows "\<exists>m' ps. insert_loop L off head e (position off head ys) m = Some m'
    \<and> holds_list off head m' ps (as @ (case combine_entry L bs entry of Some es' \<Rightarrow> es' | None \<Rightarrow> bs @ [entry]))"
  using assms
proof (induction ys arbitrary: xs as bs)
  case Nil
  have "length (as @ bs) = length (xs @ [])" using Nil(1) unfolding holds_and_def by (metis length_map)
  then have "bs = []" using Nil(2) by simp
  then show ?case using add_tail_holds [OF Nil(1)] by (subst insert_loop.simps) auto
next
  case (Cons p ys)
  have "length (as @ bs) = length (xs @ p # ys)" using Cons.prems(1) unfolding holds_and_def by (metis length_map)
  then obtain b bs' where b: "bs = b # bs'" using Cons.prems(2) by (cases bs) auto
  note H = Cons.prems(1)[unfolded holds_and_def b]
  have p: "m_entries m p = Some b" using H Cons.prems(2) by (auto simp: append_eq_append_conv)
  have q: "list_node_from_off p off \<noteq> head" using H holds_distinct [of off "m_nodes m" head "xs @ p # ys"]
    by (auto simp: list_node_from_off_def)
  have tail: "\<exists>m' ps. on_nodes (list_add_tail head (e + off)) m = Some m' \<and> holds_list off head m' ps (as @ bs @ [entry])"
    using add_tail_holds [OF Cons.prems(1)] by auto
  show ?case
  proof (cases "service_entry_equal L b entry")
    case True
    show ?thesis
    proof (cases "combine_entry L bs entry")
      case None
      then have "insert_loop L off head e p m = on_nodes (list_add_tail head (e + off)) m"
        using H p q True b by (subst insert_loop.simps) (auto split: option.splits)
      with tail None show ?thesis by simp
    next
      case (Some es')
      then obtain d h where h: "hostlist_encode L (devices entry) = Some d" "hostlist_append (ll_hosts L) (devices b) d = Some h"
        "es' = b\<lparr>devices := h\<rparr> # bs'"
        using True b by (auto split: option.splits)
      then have "insert_loop L off head e p m =
          service_entry_destroy off e (m\<lparr>m_entries := (m_entries m)(p \<mapsto> b\<lparr>devices := h\<rparr>)\<rparr>)"
        using H p q True by (subst insert_loop.simps) auto
      with combine_holds [OF Cons.prems(1)[unfolded b] Cons.prems(2), of "b\<lparr>devices := h\<rparr>"] Some h(3) show ?thesis
        by auto
    qed
  next
    case False
    have "get_next (m_nodes m) (list_node_from_off p off) = Some (list_node_from_off (position off head ys) off)"
      using H entries_next [of off "m_nodes m" head xs p ys] by (simp add: list_node_from_off_def)
    then have "insert_loop L off head e p m = insert_loop L off head e (position off head ys) m"
      using H p q False by (subst insert_loop.simps) auto
    moreover have "holds_and off head m ((xs @ [p]) @ ys) ((as @ [b]) @ bs') e entry" "length (as @ [b]) = length (xs @ [p])"
      using Cons.prems b by simp_all
    note Cons.IH [OF this]
    ultimately show ?thesis using b False by (auto split: option.splits)
  qed
qed

lemma insert_refines:
  assumes "holds_and off head m ps es e entry"
  shows "\<exists>m' ps'. insert_entry_at L off head e m = Some m' \<and> holds_list off head m' ps' (insert_services_entry L es entry)"
proof -
  have "get_next (m_nodes m) head = Some (list_node_from_off (position off head ps) off)"
    using assms entries_first by (auto simp: holds_and_def)
  then show ?thesis
    using insert_loop_refines [of off head m "[]" ps "[]" es e entry L] assms
    by (auto simp: insert_entry_at_def insert_services_entry_def)
qed

section \<open>All of the command\<close>

text \<open>\<^verbatim>\<open>calloc\<close> gives memory that is not in use, or fails.\<close>

definition fresh_alloc :: "ptr \<Rightarrow> (('h, 'i) memory \<Rightarrow> ptr option) \<Rightarrow> bool" where
  "fresh_alloc off alloc \<longleftrightarrow> (\<forall>m e. alloc m = Some e \<longrightarrow> e \<notin> dom (m_entries m) \<and> e + off \<notin> dom (m_nodes m))"

lemma new_holds:
  assumes "holds_list off head m ps es" and "fresh_alloc off alloc" and "alloc m = Some e"
    and "service_entry_create L name desc = Some entry"
  shows "\<exists>m'. service_entry_new alloc off L name desc m = Some (Some e, m') \<and> holds_and off head m' ps es e entry"
proof -
  note H = assms(1)[unfolded holds_list_def]
  have f: "e \<notin> dom (m_entries m)" "e + off \<notin> dom (m_nodes m)" using assms(2,3) by (auto simp: fresh_alloc_def)
  then have d: "e \<notin> set ps" "e + off \<noteq> head" "e + off \<notin> (\<lambda>p. p + off) ` set ps" using H by auto
  let ?n = "e + off" and ?E = "(m_entries m)(e \<mapsto> entry)"
  let ?h0 = "(m_nodes m)(?n \<mapsto> \<lparr>next_node = 0, prev_node = 0\<rparr>)"
  let ?h = "upd_next ?n ?n (upd_prev ?n ?n ?h0)"
  have "service_entry_new alloc off L name desc m = Some (Some e, m\<lparr>m_entries := ?E, m_nodes := ?h\<rparr>)"
    by (simp add: service_entry_new_def assms(3,4) list_node_init_def set_upd)
  moreover have "entries_at off ?h head ps"
    using H d by (subst entries_at_other [of ?n ?h "m_nodes m"]) simp_all
  then have "holds_and off head (m\<lparr>m_entries := ?E, m_nodes := ?h\<rparr>) ps es e entry"
    using H d unfolding holds_and_def by (auto simp: map_eq_conv)
  ultimately show ?thesis by blast
qed

text \<open>
  What makes the command fail for want of memory: \<^verbatim>\<open>calloc\<close> fails when only the head of the list and
  fewer than \<open>n\<close> entries are allocated.
\<close>

definition short_of_memory :: "ptr \<Rightarrow> ptr \<Rightarrow> (('h, 'i) memory \<Rightarrow> ptr option) \<Rightarrow> nat \<Rightarrow> bool" where
  "short_of_memory off head alloc n \<longleftrightarrow> (\<exists>m. alloc m = None \<and> finite (dom (m_entries m)) \<and> card (dom (m_entries m)) < n
     \<and> dom (m_nodes m) = insert head ((\<lambda>e. e + off) ` dom (m_entries m)))"

text \<open>The number of services that the command can read, which is as many entries as it can need.\<close>

definition readable :: "cxi_pass \<Rightarrow> cxi_dev list \<Rightarrow> nat" where
  "readable p devs = sum_list (map (length \<circ> services)
     (filter (\<lambda>dev. p_open p (dev_id dev) \<and> p_query p (dev_id dev)) devs))"

lemma readable_simps [simp]:
  "readable p [] = 0"
  "readable p (dev # devs) = (if p_open p (dev_id dev) \<and> p_query p (dev_id dev)
     then length (services dev) + readable p devs else readable p devs)"
  by (simp_all add: readable_def)

lemma holds_short:
  assumes "holds_list off head m ps es" and "alloc m = None" and "length es < n"
  shows "short_of_memory off head alloc n"
proof -
  note H = assms(1)[unfolded holds_list_def]
  have "length ps = length es" using H by (metis length_map)
  then have "card (dom (m_entries m)) < n" using H card_length [of ps] assms(3) by simp
  with H assms(2) show ?thesis unfolding short_of_memory_def by (intro exI [of _ m]) simp
qed

lemma combine_length: "combine_entry L es e = Some es' \<Longrightarrow> length es' = length es"
  by (induction es arbitrary: es') (auto split: if_splits option.splits)

lemma insert_length: "length (insert_services_entry L es e) \<le> Suc (length es)"
  by (auto simp: insert_services_entry_def dest: combine_length split: option.split)

text \<open>The outcome of a part of the command on memory, against the entries that it should have, at most \<open>k\<close>.\<close>

definition refines_list ::
  "ptr \<Rightarrow> ptr \<Rightarrow> (('h, 'i) memory \<Rightarrow> ptr option) \<Rightarrow> nat \<Rightarrow> nat \<Rightarrow> ('h, 'i) memory option option \<Rightarrow>
    ('h, 'i) service_entry list option \<Rightarrow> bool" where
  "refines_list off head alloc n k r es \<longleftrightarrow>
     (\<exists>m ps es'. r = Some (Some m) \<and> es = Some es' \<and> holds_list off head m ps es' \<and> length es' \<le> k)
     \<or> r = Some None \<and> (es = None \<or> short_of_memory off head alloc n)"

lemma services_refine:
  assumes "fresh_alloc off alloc"
  shows "holds_list off head m ps es \<Longrightarrow> length es + length descs \<le> k \<Longrightarrow> k \<le> n \<Longrightarrow>
    refines_list off head alloc n k (services_into alloc off head L name descs m) (list_services L name descs es)"
proof (induction descs arbitrary: m ps es)
  case Nil
  then show ?case by (auto simp: refines_list_def)
next
  case (Cons d descs)
  show ?case
  proof (cases "alloc m")
    case None
    have "length es < n" using Cons.prems(2,3) by simp
    from holds_short [of off head m ps es alloc n, OF Cons.prems(1) None this] None show ?thesis
      by (simp add: refines_list_def service_entry_new_def)
  next
    case (Some e)
    show ?thesis
    proof (cases "service_entry_create L name d")
      case None
      then show ?thesis using Some by (simp add: refines_list_def service_entry_new_def)
    next
      case new: (Some entry)
      obtain m1 where m1: "service_entry_new alloc off L name d m = Some (Some e, m1)" "holds_and off head m1 ps es e entry"
        using new_holds [OF Cons.prems(1) assms Some new] by blast
      obtain m2 ps2 where m2: "insert_entry_at L off head e m1 = Some m2" "holds_list off head m2 ps2 (insert_services_entry L es entry)"
        using insert_refines [OF m1(2)] by blast
      have "length (insert_services_entry L es entry) + length descs \<le> k"
        using insert_length [of L es entry] Cons.prems(2) by simp
      from Cons.IH [OF m2(2) this Cons.prems(3)] show ?thesis by (simp add: m1(1) m2(1) new)
    qed
  qed
qed

lemma devices_refine:
  assumes "fresh_alloc off alloc"
  shows "holds_list off head m ps es \<Longrightarrow> length es + readable p devs \<le> n \<Longrightarrow>
    refines_list off head alloc n n (devices_into alloc off head L p devs m) (list_devices L p devs es)"
proof (induction devs arbitrary: m ps es)
  case Nil
  then show ?case by (auto simp: refines_list_def)
next
  case (Cons dev devs)
  show ?case
  proof (cases "p_open p (dev_id dev) \<and> p_query p (dev_id dev)")
    case False
    with Cons show ?thesis by auto
  next
    case True
    let ?k = "length es + length (services dev)"
    have k: "?k + readable p devs \<le> n" using Cons.prems(2) True by simp
    then have "?k \<le> n" by simp
    from services_refine [OF assms Cons.prems(1) order_refl this, of L "dev_name dev"]
    consider m1 ps1 es1 where "services_into alloc off head L (dev_name dev) (services dev) m = Some (Some m1)"
        "list_services L (dev_name dev) (services dev) es = Some es1" "holds_list off head m1 ps1 es1" "length es1 \<le> ?k"
      | "services_into alloc off head L (dev_name dev) (services dev) m = Some None"
        "list_services L (dev_name dev) (services dev) es = None \<or> short_of_memory off head alloc n"
      unfolding refines_list_def by blast
    then show ?thesis
    proof cases
      case 1
      have "length es1 + readable p devs \<le> n" using 1(4) k by simp
      from Cons.IH [OF 1(3) this] True show ?thesis by (simp add: 1(1,2))
    next
      case 2
      with True show ?thesis by (auto simp: refines_list_def split: option.split)
    qed
  qed
qed

text \<open>The last loop takes the entries out one by one and frees them.\<close>

lemma del_holds:
  assumes "holds_list off head m (p # ps) (e # es)"
  shows "\<exists>m1 m2. on_nodes (list_del (p + off)) m = Some m1 \<and> service_entry_destroy off p m1 = Some m2
    \<and> holds_list off head m2 ps es"
proof -
  note H = assms[unfolded holds_list_def]
  have d: "distinct (p # ps)" "\<forall>q \<in> set (p # ps). q + off \<noteq> head" using H holds_distinct by blast+
  have "list_at (m_nodes m) head ([] @ (p + off) # map (\<lambda>p. p + off) ps)" using H by (simp add: entries_at_def)
  then obtain h where h: "list_del (p + off) (m_nodes m) = Some h" "list_at h head (map (\<lambda>p. p + off) ps)"
    "same_but (set (head # map (\<lambda>p. p + off) ps)) (m_nodes m) h"
    using remove_ok [of "m_nodes m" head "[]" "p + off" "map (\<lambda>p. p + off) ps"] by (metis append_Nil)
  let ?m = "m\<lparr>m_entries := (m_entries m)(p := None), m_nodes := h(p + off := None)\<rparr>"
  have o: "p + off \<notin> (\<lambda>p. p + off) ` set ps" "p + off \<noteq> head" using d by auto
  have "entries_at off (h(p + off := None)) head ps"
    using h(2) o by (subst entries_at_other [of "p + off" _ h]) (simp_all add: entries_at_def)
  moreover have "dom h = insert head ((\<lambda>p. p + off) ` set (p # ps))" using h(3) H by (simp add: same_but_def)
  then have "dom (h(p + off := None)) = insert head ((\<lambda>p. p + off) ` set ps)" using o by auto
  moreover have "map ((m_entries m)(p := None)) ps = map Some es" using H d(1) by auto
  moreover have "dom ((m_entries m)(p := None)) = set ps" using H d(1) by auto
  ultimately have "holds_list off head ?m ps es" by (simp add: holds_list_def)
  moreover have "m_entries m p = Some e" using H by simp
  then have "service_entry_destroy off p (m\<lparr>m_nodes := h\<rparr>) = Some ?m" by (simp add: service_entry_destroy_def)
  ultimately show ?thesis using h(1) by auto
qed

lemma position_read:
  assumes "entries_at off h head ps"
  shows "\<exists>n. get_next h (list_node_from_off (position off head ps) off) = Some n
    \<and> (ps \<noteq> [] \<longrightarrow> list_node_to_off n off = position off head (tl ps))"
proof (cases ps)
  case Nil
  with entries_first [OF assms] show ?thesis by simp
next
  case (Cons p qs)
  with entries_next [of off h head "[]" p qs] assms show ?thesis by (auto simp: list_node_from_off_def list_node_to_off_def)
qed

lemma print_loop_refines:
  "holds_list off head m ps es \<Longrightarrow> ps \<noteq> [] \<longrightarrow> nxt = position off head (tl ps) \<Longrightarrow>
    \<exists>m'. print_loop L show_max off head (position off head ps) nxt m = Some (m', print_entries L show_max es)
      \<and> (snd (print_entries L show_max es) = Exit 0 \<longrightarrow> holds_list off head m' [] [])"
proof (induction es arbitrary: m ps nxt)
  case Nil
  then have "ps = []" by (simp add: holds_list_def)
  with Nil show ?case by (subst print_loop.simps) simp
next
  case (Cons e es)
  obtain p qs where ps: "ps = p # qs" using Cons.prems(1) by (cases ps) (auto simp: holds_list_def)
  note H = Cons.prems(1)[unfolded holds_list_def ps]
  have p: "m_entries m p = Some e" "list_node_from_off p off \<noteq> head" "nxt = position off head qs"
    using H holds_distinct [of off "m_nodes m" head "p # qs"] Cons.prems(2) ps
    by (auto simp: list_node_from_off_def)
  show ?case
  proof (cases "service_entry_print L show_max e")
    case None
    then show ?thesis using p ps by (subst print_loop.simps) simp
  next
    case (Some line)
    obtain m1 m2 where m: "on_nodes (list_del (p + off)) m = Some m1" "service_entry_destroy off p m1 = Some m2"
      "holds_list off head m2 qs es"
      using del_holds [OF Cons.prems(1)[unfolded ps]] by blast
    obtain n where n: "get_next (m_nodes m2) (list_node_from_off nxt off) = Some n"
      "qs \<noteq> [] \<longrightarrow> list_node_to_off n off = position off head (tl qs)"
      using position_read [of off "m_nodes m2" head qs] m(3) p(3) by (auto simp: holds_list_def)
    obtain m' where m': "print_loop L show_max off head nxt (list_node_to_off n off) m2 = Some (m', print_entries L show_max es)"
      "snd (print_entries L show_max es) = Exit 0 \<longrightarrow> holds_list off head m' [] []"
      using Cons.IH [OF m(3) n(2)] p(3) by blast
    have "print_loop L show_max off head p nxt m =
        Some (m', line # fst (print_entries L show_max es), snd (print_entries L show_max es))"
      by (subst print_loop.simps) (simp add: p(1,2) Some m(1,2) n(1) m'(1) split_beta)
    then show ?thesis using Some m'(2) ps by (auto simp: map_prod_def split_beta)
  qed
qed

lemma print_all_refines:
  assumes "holds_list off head m ps es"
  shows "\<exists>m'. print_all L show_max off head m = Some (m', print_entries L show_max es)
    \<and> (snd (print_entries L show_max es) = Exit 0 \<longrightarrow> holds_list off head m' [] [])"
proof -
  have r: "entries_at off (m_nodes m) head ps" using assms by (simp add: holds_list_def)
  obtain n where n: "get_next (m_nodes m) (list_node_from_off (position off head ps) off) = Some n"
    "ps \<noteq> [] \<longrightarrow> list_node_to_off n off = position off head (tl ps)"
    using position_read [OF r] by blast
  from print_loop_refines [OF assms n(2)] show ?thesis
    by (simp add: print_all_def entries_first [OF r] n(1))
qed

text \<open>
  C16. The list command is safe with its memory and does what it should. It starts with nothing
  allocated but the head of its list. Whatever libcxi and the other libraries do, it ends, it never
  reads, writes or frees memory that is not allocated, and no entry is freed twice. It prints and
  returns exactly what the command on a list of entries does, with one exception: when \<^verbatim>\<open>calloc\<close> fails
  while fewer entries are allocated than there are services to read, it may stop after the header
  with the fatal status. When it succeeds, all entries have been freed.
\<close>

theorem list_command_memory:
  assumes "fresh_alloc off alloc" and "m_entries m = Map.empty" and "dom (m_nodes m) = {head}"
  shows "\<exists>m' out. cmd_list_at alloc off head L free_args no_header show_max cxi p devs m = Some (m', out)
    \<and> (out = cmd_list L free_args no_header show_max cxi p devs
       \<or> \<not> free_args \<and> cxi \<and> p_list p \<and> short_of_memory off head alloc (readable p devs)
         \<and> out = (if no_header then [] else [service_entry_header_print L cxi], fatal))
    \<and> (snd out = Exit 0 \<longrightarrow> m_entries m' = Map.empty \<and> dom (m_nodes m') = {head})"
proof (cases free_args)
  case True
  then show ?thesis by (simp add: cmd_list_at_def cmd_list_def)
next
  case args: False
  obtain h where h: "list_head_init head (m_nodes m) = Some h" "list_at h head []" "same_but {head} (m_nodes m) h"
    using list_head_init_ok [of head "m_nodes m"] assms(3) by auto
  let ?m = "m\<lparr>m_nodes := h\<rparr>"
  have H: "holds_list off head ?m [] []"
    using h assms(2,3) by (simp add: holds_list_def entries_at_def same_but_def)
  have i: "on_nodes (list_head_init head) m = Some ?m" using h(1) by simp
  show ?thesis
  proof (cases "cxi \<and> p_list p")
    case False
    then show ?thesis using args i H assms(2) by (auto simp: cmd_list_at_def cmd_list_def Let_def holds_list_def)
  next
    case True
    have n: "length [] + readable p devs \<le> readable p devs" by simp
    from devices_refine [OF assms(1) H n, of L] show ?thesis
      unfolding refines_list_def
    proof (elim disjE exE conjE)
      fix m1 ps es
      assume r: "devices_into alloc off head L p devs ?m = Some (Some m1)" "list_devices L p devs [] = Some es"
        and m1: "holds_list off head m1 ps es"
      from print_all_refines [OF m1, of L show_max] obtain m2 where
        m2: "print_all L show_max off head m1 = Some (m2, print_entries L show_max es)"
          "snd (print_entries L show_max es) = Exit 0 \<longrightarrow> holds_list off head m2 [] []" by blast
      show ?thesis
        using args i r m2 True by (auto simp: cmd_list_at_def cmd_list_def Let_def holds_list_def map_prod_def split_beta)
    next
      assume "devices_into alloc off head L p devs ?m = Some None" "list_devices L p devs [] = None"
      then show ?thesis using args i True by (auto simp: cmd_list_at_def cmd_list_def Let_def)
    next
      assume "devices_into alloc off head L p devs ?m = Some None" "short_of_memory off head alloc (readable p devs)"
      then show ?thesis using args i True by (auto simp: cmd_list_at_def Let_def)
    qed
  qed
qed

text \<open>A node with one device, and an allocator with one block.\<close>

definition one_block :: "('h, 'i) memory \<Rightarrow> ptr option" where
  "one_block m = (if m_entries m 1000 = None \<and> m_nodes m 1064 = None then Some 1000 else None)"

definition stack_only :: "('h, 'i) memory" where
  "stack_only = \<lparr>m_entries = Map.empty, m_nodes = [8 \<mapsto> \<lparr>next_node = 0, prev_node = 0\<rparr>]\<rparr>"

lemma one_block_fresh: "fresh_alloc 64 one_block"
  by (auto simp: fresh_alloc_def one_block_def split: if_splits)

lemma one_block_run:
  "\<exists>m' lines. cmd_list_at one_block 64 8 sample_list False True False True list_pass [list_device ''cxi0''] stack_only
     = Some (m', lines, Exit 0)"
proof -
  obtain d where d: "services (list_device ''cxi0'') = [d]" by (simp add: list_device_def)
  obtain e where e: "service_entry_create sample_list ''cxi0'' d = Some e" "service_entry_print sample_list False e \<noteq> None"
    using list_device_entry [of "''cxi0''"] d by auto
  then obtain line where line: "service_entry_print sample_list False e = Some line" by blast
  let ?start = "stack_only :: (string list, refset) memory"
  obtain h where h: "list_head_init 8 (m_nodes ?start) = Some h" "list_at h 8 []" "same_but {8} (m_nodes ?start) h"
    using list_head_init_ok [of 8 "m_nodes ?start"] by (auto simp: stack_only_def)
  let ?m = "?start\<lparr>m_nodes := h\<rparr>"
  have H: "holds_list 64 8 ?m [] []"
    using h(2,3) by (simp add: holds_list_def entries_at_def same_but_def) (simp add: stack_only_def)
  have "1064 \<notin> dom h" using h(3) by (simp add: same_but_def) (simp add: stack_only_def)
  then have a: "one_block ?m = Some 1000" by (auto simp: one_block_def stack_only_def)
  obtain m1 where m1: "service_entry_new one_block 64 sample_list ''cxi0'' d ?m = Some (Some 1000, m1)"
    "holds_and 64 8 m1 [] [] 1000 e"
    using new_holds [OF H one_block_fresh a e(1)] by blast
  obtain m2 ps where m2: "insert_entry_at sample_list 64 8 1000 m1 = Some m2" "holds_list 64 8 m2 ps [e]"
    using insert_refines [OF m1(2), of sample_list] by (auto simp: insert_services_entry_def)
  obtain m3 where m3: "print_all sample_list False 64 8 m2 = Some (m3, [line], Exit 0)"
    using print_all_refines [OF m2(2), of sample_list False] line by auto
  have "services_into one_block 64 8 sample_list ''cxi0'' (services (list_device ''cxi0'')) ?m = Some (Some m2)"
    by (simp add: d m1(1) m2(1))
  then have "devices_into one_block 64 8 sample_list list_pass [list_device ''cxi0''] ?m = Some (Some m2)"
    by (simp add: list_pass_def) (simp add: list_device_def)
  moreover have "p_list list_pass" by (simp add: list_pass_def)
  moreover have "on_nodes (list_head_init 8) ?start = Some ?m" using h(1) by simp
  ultimately have "cmd_list_at one_block 64 8 sample_list False True False True list_pass [list_device ''cxi0''] ?start
      = Some (m3, [line], Exit 0)"
    using m3 by (simp add: cmd_list_at_def Let_def)
  then show ?thesis by blast
qed

lemma list_command_memory_witness:
  "\<exists>m' lines. cmd_list_at one_block 64 8 sample_list False True False True list_pass [list_device ''cxi0''] stack_only
      = Some (m', lines, Exit 0)
    \<and> (lines, Exit 0) = cmd_list sample_list False True False True list_pass [list_device ''cxi0'']
    \<and> m_entries m' = Map.empty \<and> dom (m_nodes m') = {8}"
proof -
  have m: "m_entries stack_only = Map.empty" "dom (m_nodes stack_only) = {8}" by (simp_all add: stack_only_def)
  obtain m' lines where r: "cmd_list_at one_block 64 8 sample_list False True False True list_pass [list_device ''cxi0''] stack_only
     = Some (m', lines, Exit 0)" using one_block_run by blast
  from list_command_memory [OF one_block_fresh m, of sample_list False True False True list_pass "[list_device ''cxi0'']"] r
  show ?thesis by (intro exI [of _ m'] exI [of _ lines]) auto
qed

end
