(* ===== verification/SlingshotMain.thy ===== *)
theory SlingshotMain
  imports SlingshotNode SlingshotList
begin

text \<open>
  The front of \<^verbatim>\<open>src/cmd/flux-slingshot.c\<close>: the tables of commands and options, \<^verbatim>\<open>main\<close> and \<^verbatim>\<open>usage\<close>, and
  how the commands get what they are given. The option parser of flux-core is not part of this repository; it is
  a parameter, and its documented behaviour is the locale \<open>optparse_lib\<close>.
\<close>

section \<open>Tables\<close>

record optparse_option =
  opt_name :: string
  opt_key :: "char option"
  opt_has_arg :: bool

datatype cmd_fn = CmdProlog | CmdEpilog | CmdList | CmdJobinfo | CmdClean

record optparse_subcommand =
  sub_name :: string
  sub_doc :: string
  sub_fn :: cmd_fn
  sub_hidden :: bool
  sub_opts :: "optparse_option list"

definition prolog_opts :: "optparse_option list" where
  "prolog_opts =
     [\<lparr>opt_name = ''dry-run'', opt_key = None, opt_has_arg = False\<rparr>,
      \<lparr>opt_name = ''userid'', opt_key = Some CHR ''u'', opt_has_arg = True\<rparr>,
      \<lparr>opt_name = ''jobid'', opt_key = Some CHR ''j'', opt_has_arg = True\<rparr>]"

definition epilog_opts :: "optparse_option list" where
  "epilog_opts =
     [\<lparr>opt_name = ''dry-run'', opt_key = None, opt_has_arg = False\<rparr>,
      \<lparr>opt_name = ''userid'', opt_key = Some CHR ''u'', opt_has_arg = True\<rparr>,
      \<lparr>opt_name = ''jobid'', opt_key = Some CHR ''j'', opt_has_arg = True\<rparr>,
      \<lparr>opt_name = ''retry-busy'', opt_key = None, opt_has_arg = True\<rparr>]"

definition list_opts :: "optparse_option list" where
  "list_opts =
     [\<lparr>opt_name = ''no-header'', opt_key = Some CHR ''n'', opt_has_arg = False\<rparr>,
      \<lparr>opt_name = ''max'', opt_key = None, opt_has_arg = False\<rparr>]"

definition jobinfo_opts :: "optparse_option list" where
  "jobinfo_opts = [\<lparr>opt_name = ''jobid'', opt_key = Some CHR ''j'', opt_has_arg = True\<rparr>]"

definition clean_opts :: "optparse_option list" where
  "clean_opts =
     [\<lparr>opt_name = ''dry-run'', opt_key = None, opt_has_arg = False\<rparr>,
      \<lparr>opt_name = ''retry-busy'', opt_key = None, opt_has_arg = True\<rparr>]"

definition subcommands :: "optparse_subcommand list" where
  "subcommands =
     [\<lparr>sub_name = ''prolog'', sub_doc = ''Create CXI services for job'' @ [CHR 0x27] @ ''s VNI reservation'',
       sub_fn = CmdProlog, sub_hidden = False, sub_opts = prolog_opts\<rparr>,
      \<lparr>sub_name = ''epilog'', sub_doc = ''Remove CXI services for job'' @ [CHR 0x27] @ ''s VNI reservation'',
       sub_fn = CmdEpilog, sub_hidden = False, sub_opts = epilog_opts\<rparr>,
      \<lparr>sub_name = ''list'', sub_doc = ''List devices and their CXI service counts'',
       sub_fn = CmdList, sub_hidden = False, sub_opts = list_opts\<rparr>,
      \<lparr>sub_name = ''jobinfo'', sub_doc = ''Show job'' @ [CHR 0x27] @ ''s slingshot reservation in JSON form'',
       sub_fn = CmdJobinfo, sub_hidden = False, sub_opts = jobinfo_opts\<rparr>,
      \<lparr>sub_name = ''clean'', sub_doc = ''Clean orphan CXI services'',
       sub_fn = CmdClean, sub_hidden = False, sub_opts = clean_opts\<rparr>]"

section \<open>The option parser\<close>

text \<open>
  What it found: the options that were given (\<^verbatim>\<open>optparse_hasopt\<close>), their arguments (\<^verbatim>\<open>optparse_get_str\<close>
  with its default), and whether there are free arguments.
\<close>

record parsed =
  hasopt :: "string \<Rightarrow> bool"
  get_str :: "string \<Rightarrow> string option \<Rightarrow> string option"
  free_args :: bool

text \<open>
  \<open>set_up\<close>: whether the three calls that prepare the parser succeed. \<open>parse_args\<close> is the index of the
  subcommand in the arguments, or fails; \<open>run_subcommand\<close> parses the options of a subcommand by its
  table and says which function is then called with what, or fails.
\<close>

record optparse =
  set_up :: bool
  parse_args :: "string list \<Rightarrow> nat option"
  get_subcommand :: "optparse_subcommand list \<Rightarrow> string \<Rightarrow> optparse_subcommand option"
  run_subcommand :: "optparse_subcommand list \<Rightarrow> string list \<Rightarrow> (cmd_fn \<times> parsed) option"

text \<open>Only options of the table are found, with an argument exactly when they have one.\<close>

definition well_parsed :: "optparse_option list \<Rightarrow> parsed \<Rightarrow> bool" where
  "well_parsed tbl opts \<longleftrightarrow>
     (\<forall>n. if hasopt opts n
          then \<exists>x \<in> set tbl. opt_name x = n \<and> (opt_has_arg x \<longrightarrow> (\<exists>arg. get_str opts n = (\<lambda>_. Some arg)))
          else get_str opts n = (\<lambda>dflt. dflt))"

locale optparse_lib =
  fixes P :: optparse
  assumes index_bound: "parse_args P argv = Some k \<Longrightarrow> k \<le> length argv"
    and subcommand_found: "get_subcommand P tbl name = Some s \<Longrightarrow> s \<in> set tbl \<and> sub_name s = name"
    and runs_named: "run_subcommand P tbl argv = Some (f, opts) \<Longrightarrow> parse_args P argv = Some k \<Longrightarrow>
      \<exists>s. get_subcommand P tbl (argv ! k) = Some s \<and> sub_fn s = f \<and> well_parsed (sub_opts s) opts"

text \<open>An instance: the name of the subcommand comes first, and options have no arguments.\<close>

definition plain_parser :: optparse where
  "plain_parser = \<lparr>set_up = True,
     parse_args = (\<lambda>argv. if argv = [] then None else Some 1),
     get_subcommand = (\<lambda>tbl name. find (\<lambda>s. sub_name s = name) tbl),
     run_subcommand = (\<lambda>tbl argv. if length argv < 2 then None
       else case find (\<lambda>s. sub_name s = argv ! 1) tbl of
         None \<Rightarrow> None
       | Some s \<Rightarrow>
           if list_all (\<lambda>a. list_ex (\<lambda>x. \<not> opt_has_arg x \<and> a = ''--'' @ opt_name x) (sub_opts s)) (drop 2 argv)
           then Some (sub_fn s, \<lparr>hasopt = (\<lambda>n. ''--'' @ n \<in> set (drop 2 argv)), get_str = (\<lambda>_ dflt. dflt), free_args = False\<rparr>)
           else None)\<rparr>"

interpretation plain: optparse_lib plain_parser
proof
  fix argv k
  assume "parse_args plain_parser argv = Some k"
  then show "k \<le> length argv" by (cases argv) (auto simp: plain_parser_def)
next
  fix tbl name s
  assume "get_subcommand plain_parser tbl name = Some s"
  then show "s \<in> set tbl \<and> sub_name s = name" by (auto simp: plain_parser_def find_Some_iff)
next
  fix tbl argv f opts k
  assume r: "run_subcommand plain_parser tbl argv = Some (f, opts)" and k: "parse_args plain_parser argv = Some k"
  have "k = 1" using k by (auto simp: plain_parser_def split: if_splits)
  with r obtain s where s: "get_subcommand plain_parser tbl (argv ! k) = Some s" "sub_fn s = f"
    "\<forall>a \<in> set (drop 2 argv). \<exists>x \<in> set (sub_opts s). \<not> opt_has_arg x \<and> a = ''--'' @ opt_name x"
    "opts = \<lparr>hasopt = (\<lambda>n. ''--'' @ n \<in> set (drop 2 argv)), get_str = (\<lambda>_ dflt. dflt), free_args = False\<rparr>"
    by (auto simp: plain_parser_def list_all_iff list_ex_iff split: if_splits option.splits)
  have "well_parsed (sub_opts s) opts" using s(3) by (fastforce simp: well_parsed_def s(4))
  with s(1,2) show "\<exists>s. get_subcommand plain_parser tbl (argv ! k) = Some s \<and> sub_fn s = f \<and> well_parsed (sub_opts s) opts" by blast
qed

section \<open>Running a command\<close>

text \<open>The surroundings: the environment, the broker and its answers, and whether there is libcxi.\<close>

record surroundings =
  getenv :: "string \<Rightarrow> string option"
  s_command :: command

definition command_of :: "surroundings \<Rightarrow> parsed \<Rightarrow> command" where
  "command_of E opts = (s_command E)\<lparr>
     c_free_args := free_args opts,
     c_dry_run := hasopt opts ''dry-run'',
     c_jobid := get_str opts ''jobid'' (getenv E ''FLUX_JOB_ID''),
     c_userid := get_str opts ''userid'' (getenv E ''FLUX_JOB_USERID''),
     c_retry_busy := (if hasopt opts ''retry-busy'' then get_str opts ''retry-busy'' None else None)\<rparr>"

text \<open>
  The function that was chosen, in a world with the attempts that the retry loops can make and, as the
  first pass, those of the commands that make one. The result has the devices, the printed lines and
  the exit status; \<open>None\<close>: a retry loop has not ended within the attempts.
\<close>

definition run_fn ::
  "'i slingshot_libs \<Rightarrow> ('h, 'i) list_libs \<Rightarrow> (json \<Rightarrow> string option) \<Rightarrow> surroundings \<Rightarrow> cmd_fn \<Rightarrow> parsed \<Rightarrow>
    cxi_pass \<Rightarrow> attempt list \<Rightarrow> cxi_dev list \<Rightarrow> (cxi_dev list \<times> string list \<times> exit) option" where
  "run_fn L LL dumps E f opts p attempts devs = (let c = command_of E opts in
     case f of
       CmdProlog \<Rightarrow> (case cmd_prolog L c p devs of (devs', e) \<Rightarrow> Some (devs', [], e))
     | CmdEpilog \<Rightarrow> map_option (\<lambda>(devs', e). (devs', [], e)) (cmd_epilog L c attempts devs)
     | CmdList \<Rightarrow> (case cmd_list LL (c_free_args c) (hasopt opts ''no-header'') (hasopt opts ''max'') (c_cxi c) p devs of
         (lines, e) \<Rightarrow> Some (devs, lines, e))
     | CmdJobinfo \<Rightarrow> (case cmd_jobinfo L dumps c of
         (None, e) \<Rightarrow> Some (devs, [], e) | (Some line, e) \<Rightarrow> Some (devs, [line], e))
     | CmdClean \<Rightarrow> map_option (\<lambda>(devs', e). (devs', [], e)) (cmd_clean L c attempts devs))"

text \<open>What \<^verbatim>\<open>usage\<close> prints after the text of the option parser; it exits with status 1.\<close>

definition usage_lines :: "optparse_subcommand list \<Rightarrow> string list" where
  "usage_lines tbl = [[], ''Common commands for flux-slingshot:'']
     @ map (\<lambda>s. ''   '' @ pad 15 (sub_name s) @ '' '' @ sub_doc s) (filter (\<lambda>s. \<not> sub_hidden s) tbl)"

text \<open>\<^verbatim>\<open>main\<close>: the devices, the lines on standard output, the lines of the usage message, and the status.\<close>

definition slingshot_main ::
  "optparse \<Rightarrow> 'i slingshot_libs \<Rightarrow> ('h, 'i) list_libs \<Rightarrow> (json \<Rightarrow> string option) \<Rightarrow> surroundings \<Rightarrow> string list \<Rightarrow>
    cxi_pass \<Rightarrow> attempt list \<Rightarrow> cxi_dev list \<Rightarrow> (cxi_dev list \<times> string list \<times> string list \<times> exit) option" where
  "slingshot_main P L LL dumps E argv p attempts devs =
     (if \<not> set_up P then Some (devs, [], [], fatal)
      else case parse_args P argv of
        None \<Rightarrow> Some (devs, [], [], Exit 1)
      | Some optindex \<Rightarrow>
          if length argv - optindex = 0 \<or> get_subcommand P subcommands (argv ! optindex) = None
          then Some (devs, [], usage_lines subcommands, Exit 1)
          else (case run_subcommand P subcommands argv of
              None \<Rightarrow> Some (devs, [], usage_lines subcommands, Exit 1)
            | Some (f, opts) \<Rightarrow> map_option (\<lambda>(devs', lines, e). case e of
                  Hangs \<Rightarrow> (devs', lines, [], Hangs)
                | Killed \<Rightarrow> (devs', lines, [], Killed)
                | Exit n \<Rightarrow> if n < 0 then (devs', lines, usage_lines subcommands, Exit 1) else (devs', lines, [], Exit n))
                (run_fn L LL dumps E f opts p attempts devs)))"

section \<open>Which options a command depends on\<close>

text \<open>Two results of the parser that are the same for the options of a table.\<close>

definition agree_on :: "optparse_option list \<Rightarrow> parsed \<Rightarrow> parsed \<Rightarrow> bool" where
  "agree_on tbl o1 o2 \<longleftrightarrow> free_args o1 = free_args o2
     \<and> (\<forall>x \<in> set tbl. hasopt o1 (opt_name x) = hasopt o2 (opt_name x)
          \<and> (opt_has_arg x \<longrightarrow> get_str o1 (opt_name x) = get_str o2 (opt_name x)))"

lemmas option_tables = prolog_opts_def epilog_opts_def list_opts_def jobinfo_opts_def clean_opts_def

lemma subcommand_cases:
  assumes "s \<in> set subcommands"
  obtains "sub_fn s = CmdProlog" "sub_opts s = prolog_opts" | "sub_fn s = CmdEpilog" "sub_opts s = epilog_opts"
    | "sub_fn s = CmdList" "sub_opts s = list_opts" | "sub_fn s = CmdJobinfo" "sub_opts s = jobinfo_opts"
    | "sub_fn s = CmdClean" "sub_opts s = clean_opts"
  using assms by (auto simp: subcommands_def)

text \<open>What a command does not look at.\<close>

lemma unused_options [simp]:
  "cmd_prolog L (c\<lparr>c_retry_busy := r\<rparr>) = cmd_prolog L c"
  "cmd_clean L (c\<lparr>c_jobid := j, c_userid := u\<rparr>) = cmd_clean L c"
  "cmd_jobinfo L dumps (c\<lparr>c_dry_run := d, c_userid := u, c_retry_busy := r\<rparr>) = cmd_jobinfo L dumps c"
proof -
  have b: "clean_body api (c\<lparr>c_jobid := j, c_userid := u\<rparr>) = clean_body api c" for api :: "'a idset_api"
    by (intro ext) (simp add: clean_body_def)
  show "cmd_clean L (c\<lparr>c_jobid := j, c_userid := u\<rparr>) = cmd_clean L c"
    by (intro ext, simp only: cmd_clean_def b, cases c) (simp only: command.simps)
  show "cmd_prolog L (c\<lparr>c_retry_busy := r\<rparr>) = cmd_prolog L c"
    by (intro ext) (cases c, simp only: cmd_prolog_def parse_job_def command.simps)
  show "cmd_jobinfo L dumps (c\<lparr>c_dry_run := d, c_userid := u, c_retry_busy := r\<rparr>) = cmd_jobinfo L dumps c"
    by (cases c) (simp only: cmd_jobinfo_def command.simps)
qed

lemma command_of_agree:
  "agree_on prolog_opts o1 o2 \<Longrightarrow> command_of E o1 = (command_of E o2)\<lparr>c_retry_busy := c_retry_busy (command_of E o1)\<rparr>"
  "agree_on epilog_opts o1 o2 \<Longrightarrow> command_of E o1 = command_of E o2"
  "agree_on clean_opts o1 o2 \<Longrightarrow>
     command_of E o1 = (command_of E o2)\<lparr>c_jobid := c_jobid (command_of E o1), c_userid := c_userid (command_of E o1)\<rparr>"
  "agree_on jobinfo_opts o1 o2 \<Longrightarrow> command_of E o1 = (command_of E o2)\<lparr>c_dry_run := c_dry_run (command_of E o1),
     c_userid := c_userid (command_of E o1), c_retry_busy := c_retry_busy (command_of E o1)\<rparr>"
  "agree_on list_opts o1 o2 \<Longrightarrow> free_args o1 = free_args o2 \<and> hasopt o1 ''no-header'' = hasopt o2 ''no-header''
     \<and> hasopt o1 ''max'' = hasopt o2 ''max''"
  by (simp_all add: agree_on_def option_tables command_of_def)

text \<open>
  C24. Every option that a command asks for is in its table, with an argument where the command reads
  one: what a command does depends on no other option. For two results of the option parser that agree on
  the options in the table of a command, the command does the same.
\<close>

theorem commands_use_their_options:
  assumes "s \<in> set subcommands" and "agree_on (sub_opts s) o1 o2"
  shows "run_fn L LL dumps E (sub_fn s) o1 p attempts devs = run_fn L LL dumps E (sub_fn s) o2 p attempts devs"
  using assms(1)
proof (cases rule: subcommand_cases)
  case 1
  then have "command_of E o1 = (command_of E o2)\<lparr>c_retry_busy := c_retry_busy (command_of E o1)\<rparr>"
    using assms(2) command_of_agree(1) by metis
  then have "cmd_prolog L (command_of E o1) = cmd_prolog L (command_of E o2)" using unused_options(1) by metis
  then show ?thesis by (simp add: run_fn_def Let_def 1)
next
  case 2
  with assms(2) show ?thesis by (simp add: run_fn_def Let_def command_of_agree(2) [of o1 o2])
next
  case 3
  with command_of_agree(5) [of o1 o2] assms(2) show ?thesis by (simp add: run_fn_def Let_def command_of_def)
next
  case 4
  then have "command_of E o1 = (command_of E o2)\<lparr>c_dry_run := c_dry_run (command_of E o1),
     c_userid := c_userid (command_of E o1), c_retry_busy := c_retry_busy (command_of E o1)\<rparr>"
    using assms(2) command_of_agree(4) by metis
  then have "cmd_jobinfo L dumps (command_of E o1) = cmd_jobinfo L dumps (command_of E o2)"
    using unused_options(3) by metis
  then show ?thesis by (simp add: run_fn_def Let_def 4)
next
  case 5
  then have "command_of E o1 = (command_of E o2)\<lparr>c_jobid := c_jobid (command_of E o1), c_userid := c_userid (command_of E o1)\<rparr>"
    using assms(2) command_of_agree(3) by metis
  then have "cmd_clean L (command_of E o1) = cmd_clean L (command_of E o2)" using unused_options(2) by metis
  then show ?thesis by (simp add: run_fn_def Let_def 5)
qed

section \<open>Outcomes\<close>

text \<open>
  The wait for the event has lost its timeout (see \<open>eventlog_wait_for_loses_timeout\<close>); a service could not be destroyed,
  and the warning about it finds nothing to read at the number of the service.
\<close>

definition wait_lost :: "'i slingshot_libs \<Rightarrow> command \<Rightarrow> bool" where
  "wait_lost L c \<longleftrightarrow> (\<exists>w. c_watch c = Some w
     \<and> eventlog_wait_for (l_loads L) (l_timed_out L) ''cray-slingshot'' eventlog_timeout w = WaitHangs)"

definition warning_kills :: "attempt list \<Rightarrow> bool" where
  "warning_kills attempts \<longleftrightarrow> (\<exists>(q, elapsed) \<in> set attempts. \<exists>n i. p_destroy q n i \<noteq> Destroyed \<and> \<not> p_text_at q i)"

definition status_ok :: "bool \<Rightarrow> bool \<Rightarrow> exit \<Rightarrow> bool" where
  "status_ok lost kills e \<longleftrightarrow> e \<in> {Exit 0, Exit 1} \<or> (e = Hangs \<and> lost) \<or> (e = Killed \<and> kills)"

lemma status_ok_simps [simp]: "status_ok lost kills (Exit 0)" "status_ok lost kills (Exit 1)"
  by (simp_all add: status_ok_def)

lemma parse_job_status: "parse_job L c = Inl e \<Longrightarrow> status_ok l k e"
  by (auto simp: parse_job_def parse_jobid_def parse_userid_def split: option.splits sum.splits if_splits)

lemma wait_status: "wait_reservation (l_loads L) (l_timed_out L) (c_watch c) = Inl e \<Longrightarrow> status_ok (wait_lost L c) k e"
  by (auto simp: wait_reservation_def wait_lost_def status_ok_def split: option.splits wait_result.splits)

lemma ncores_status: "ncores_from_R api loads rank R = Inl e \<Longrightarrow> status_ok l k e"
proof -
  have "ncores_loop api rk es = Inl e \<Longrightarrow> status_ok l k e" for rk es
    by (induction es) (auto simp: Let_def split: option.splits if_splits)
  then show "ncores_from_R api loads rank R = Inl e \<Longrightarrow> status_ok l k e"
    by (auto simp: ncores_from_R_def split: option.splits)
qed

lemma parse_retry_status: "parse_retry F a = Inl e \<Longrightarrow> status_ok l k e"
  by (auto simp: parse_retry_def split: option.splits sum.splits)

lemma lookup_status: "lookup_vnipool api c = Inl e \<Longrightarrow> status_ok l k e"
  by (auto simp: lookup_vnipool_def Let_def split: option.splits)

lemmas early_exits = parse_job_status wait_status ncores_status parse_retry_status lookup_status

text \<open>A pass kills the process only with the warning.\<close>

lemma destroy_loop_kills:
  "destroy_loop dry out txt every m ds matched busy svcs rep = (None, svcs', rep') \<Longrightarrow> \<exists>i. out i \<noteq> Destroyed \<and> \<not> txt i"
proof (induction ds arbitrary: matched busy svcs rep)
  case (Cons d ds)
  then show ?case by (cases "out (svc_id d)") (auto split: if_splits, (metis destroy_result.distinct)+)
qed simp

lemma destroy_devices_kills:
  "destroy_devices p dry every m devs = (None, devs') \<Longrightarrow> \<exists>n i. p_destroy p n i \<noteq> Destroyed \<and> \<not> p_text_at p i"
proof (induction devs arbitrary: devs')
  case (Cons dev devs)
  have "destroy_cxi_service_device p dry every m dev = (None, dev', rep) \<Longrightarrow> ?case" for dev' rep
    using destroy_loop_kills by (fastforce simp: destroy_cxi_service_device_def split: if_splits prod.splits)
  with Cons show ?case by (fastforce split: if_splits prod.splits option.splits)
qed simp

lemma destroy_body_status:
  "destroy_cxi_service p dry every m devs = (Inl e, devs') \<Longrightarrow>
     e = fatal \<or> (e = Killed \<and> (\<exists>n i. p_destroy p n i \<noteq> Destroyed \<and> \<not> p_text_at p i))"
  by (auto simp: destroy_cxi_service_def dest: destroy_devices_kills split: if_splits prod.splits option.splits)

lemma retry_status:
  assumes "\<And>p ds e ds'. body p ds = (Inl e, ds') \<Longrightarrow> e = fatal \<or> (e = Killed \<and> (\<exists>n i. p_destroy p n i \<noteq> Destroyed \<and> \<not> p_text_at p i))"
    and "retry_loop body t as devs = Some (devs', r)"
  shows "status_ok l (warning_kills as) (retry_exit t r)"
proof (cases r)
  case (Inl e)
  obtain p el ds where "(p, el) \<in> set as" "body p ds = (Inl e, devs')"
    using retry_loop_last [OF _ assms(2), of "\<lambda>_. True"] Inl by auto
  with assms(1) [of p ds e devs'] show ?thesis
    by (auto simp: Inl retry_exit_def status_ok_def warning_kills_def)
qed (simp add: retry_exit_def)

lemma epilog_retry_status:
  "retry_loop (epilog_body c u v) t as devs = Some (devs', r) \<Longrightarrow> status_ok l (warning_kills as) (retry_exit t r)"
  by (rule retry_status) (auto simp: epilog_body_def dest: destroy_body_status split: if_splits)

lemma clean_retry_status:
  "retry_loop (clean_body api c pl) t as devs = Some (devs', r) \<Longrightarrow> status_ok l (warning_kills as) (retry_exit t r)"
  by (rule retry_status) (auto simp: clean_body_def dest: destroy_body_status split: if_splits)

text \<open>In a dry run, or without libcxi, nothing is allocated.\<close>

lemma allocate_dry: "fst (allocate_devices p alloc tc True uid v n devs k) = devs"
  by (induction devs arbitrary: k) (auto simp: allocate_cxi_service_device_def)

lemma prolog_outcome:
  "status_ok (wait_lost L c) k (snd (cmd_prolog L c p devs)) \<and> (c_dry_run c \<longrightarrow> fst (cmd_prolog L c p devs) = devs)"
proof -
  have "c_dry_run c \<Longrightarrow> fst (allocate_cxi_service p alloc tc (c_dry_run c) uid v n devs) = devs" for alloc tc uid v n
    using allocate_dry by (simp add: allocate_cxi_service_def)
  then show ?thesis
    by (auto simp: cmd_prolog_def intro: early_exits
        split: sum.split option.split prod.split) (metis fst_conv)+
qed

lemma epilog_outcome:
  assumes "cmd_epilog L c attempts devs = Some (devs', e)"
  shows "status_ok (wait_lost L c) (warning_kills attempts) e \<and> (c_dry_run c \<longrightarrow> devs' = devs)"
  using assms
  by (auto simp: cmd_epilog_def intro: early_exits epilog_retry_status dest: loops_idle(1) [rotated]
      split: if_splits sum.splits option.splits)

lemma clean_outcome:
  assumes "cmd_clean L c attempts devs = Some (devs', e)"
  shows "status_ok (wait_lost L c) (warning_kills attempts) e \<and> (c_dry_run c \<longrightarrow> devs' = devs)"
  using assms
  by (auto simp: cmd_clean_def intro: early_exits clean_retry_status dest: loops_idle(2) [rotated]
      split: if_splits sum.splits option.splits)

lemma list_status: "status_ok l k (snd (cmd_list L f n m cxi p devs))"
proof -
  have "status_ok l k (snd (print_entries L m es))" for es
    by (induction es) (auto split: option.split)
  then show ?thesis by (auto simp: cmd_list_def Let_def split: option.split)
qed

lemma jobinfo_status: "status_ok (wait_lost L c) k (snd (cmd_jobinfo L dumps c))"
proof -
  have "parse_jobid f j = Inl e \<Longrightarrow> status_ok l k e" for f j e l
    by (auto simp: parse_jobid_def split: option.splits)
  then show ?thesis
    by (auto simp: cmd_jobinfo_def intro: wait_status split: sum.split option.split)
qed

text \<open>Only three commands work on the devices, and none of them in a dry run.\<close>

lemma run_fn_outcome:
  assumes "run_fn L LL dumps E f opts p attempts devs = Some (devs', lines, e)"
  shows "status_ok (wait_lost L (s_command E)) (warning_kills attempts) e
    \<and> (devs' \<noteq> devs \<longrightarrow> f \<in> {CmdProlog, CmdEpilog, CmdClean} \<and> \<not> hasopt opts ''dry-run'')"
proof -
  let ?c = "command_of E opts"
  have d: "c_dry_run ?c = hasopt opts ''dry-run''" by (simp add: command_of_def)
  have w: "wait_lost L ?c = wait_lost L (s_command E)" by (simp add: command_of_def wait_lost_def)
  note O = prolog_outcome [of L ?c "warning_kills attempts" p devs, unfolded w]
    list_status [of "wait_lost L (s_command E)" "warning_kills attempts" LL "c_free_args ?c" "hasopt opts ''no-header''" "hasopt opts ''max''" "c_cxi ?c" p devs]
    jobinfo_status [of L ?c "warning_kills attempts" dumps, unfolded w] epilog_outcome [of L ?c attempts devs, unfolded w]
    clean_outcome [of L ?c attempts devs, unfolded w]
  show ?thesis
    using assms O by (cases f) (auto simp: run_fn_def Let_def d split: prod.splits option.splits)
qed

text \<open>
  C23. The process as a whole. It exits with status 0 or 1, but for two cases: it waits for ever when the wait for the
  event has lost its timeout, and it is killed when a service could not be destroyed and the faulty warning about
  that finds nothing to read.
  The devices of the node are changed only when the subcommand that was named is prolog, epilog or
  clean, and no dry run was asked for, with an option that its table has. When the usage message is
  printed the status is 1 and nothing was done.
\<close>

theorem main_outcome:
  assumes "optparse_lib P" and "parse_args P argv = Some k"
    and "slingshot_main P L LL dumps E argv p attempts devs = Some (devs', lines, help, e)"
  shows "(e \<in> {Exit 0, Exit 1} \<or> (e = Hangs \<and> wait_lost L (s_command E)) \<or> (e = Killed \<and> warning_kills attempts))
    \<and> (devs' \<noteq> devs \<longrightarrow> k < length argv \<and> (\<exists>s \<in> set subcommands. \<exists>opts. sub_name s = argv ! k
         \<and> run_subcommand P subcommands argv = Some (sub_fn s, opts) \<and> well_parsed (sub_opts s) opts
         \<and> sub_fn s \<in> {CmdProlog, CmdEpilog, CmdClean} \<and> \<not> hasopt opts ''dry-run''))
    \<and> (help \<noteq> [] \<longrightarrow> e = Exit 1 \<and> devs' = devs \<and> lines = [])"
proof (cases "set_up P \<and> k < length argv \<and> get_subcommand P subcommands (argv ! k) \<noteq> None
    \<and> run_subcommand P subcommands argv \<noteq> None")
  case False
  have "k \<le> length argv" by (rule optparse_lib.index_bound [OF assms(1,2)])
  with False assms(2) have "\<exists>h. slingshot_main P L LL dumps E argv p attempts devs = Some (devs, [], h, Exit 1)"
    by (cases "run_subcommand P subcommands argv") (auto simp: slingshot_main_def)
  with assms(3) show ?thesis by auto
next
  case True
  then obtain f opts where r: "run_subcommand P subcommands argv = Some (f, opts)" by auto
  obtain s where s: "get_subcommand P subcommands (argv ! k) = Some s" "sub_fn s = f" "well_parsed (sub_opts s) opts"
    using optparse_lib.runs_named [OF assms(1) r assms(2)] by blast
  from assms(2,3) True r obtain devs1 lines1 e1 where R: "run_fn L LL dumps E f opts p attempts devs = Some (devs1, lines1, e1)"
    "(devs', lines, help, e) = (case e1 of Hangs \<Rightarrow> (devs1, lines1, [], Hangs) | Killed \<Rightarrow> (devs1, lines1, [], Killed)
       | Exit n \<Rightarrow> if n < 0 then (devs1, lines1, usage_lines subcommands, Exit 1) else (devs1, lines1, [], Exit n))"
    by (auto simp: slingshot_main_def)
  note O = run_fn_outcome [OF R(1)]
  then have "(devs', lines, help, e) = (devs1, lines1, [], e1)"
    using R(2) by (auto simp: status_ok_def)
  moreover have "s \<in> set subcommands \<and> sub_name s = argv ! k" by (rule optparse_lib.subcommand_found [OF assms(1) s(1)])
  ultimately show ?thesis using O r s True by (auto simp: status_ok_def)
qed

text \<open>A node, with the environment of an epilog.\<close>

definition node_surroundings :: surroundings where
  "node_surroundings = \<lparr>getenv = [''FLUX_JOB_ID'' \<mapsto> ''f2'', ''FLUX_JOB_USERID'' \<mapsto> ''1000''], s_command = node_command None\<rparr>"

abbreviation no_opts :: parsed where
  "no_opts \<equiv> \<lparr>hasopt = (\<lambda>_. False), get_str = (\<lambda>_ dflt. dflt), free_args = False\<rparr>"

lemma node_command_of: "command_of node_surroundings no_opts = node_command None"
  by (simp add: command_of_def node_surroundings_def node_command_def)

lemma node_cleaned:
  "cmd_clean node_libs (node_command None) [(node_pass Destroyed, 0)] [node_device [system_service, sample_service]]
    = Some ([node_device [system_service]], Exit 0)"
proof -
  let ?c = "node_command None" and ?devs = "[node_device [system_service, sample_service]]"
  obtain pl where pl: "lookup_vnipool ref_api (c_config ?c) = Inr pl" "rs_elems pl = {3}" using node_pool by blast
  have "match_vnipool ref_api (Some pl) sample_service" "\<not> match_vnipool ref_api (Some pl) system_service"
    using pl(2) by (simp_all add: match_vnipool_def system_service_def) (simp add: sample_service_def ref_api_def)
  then have "clean_body ref_api ?c pl (node_pass Destroyed) ?devs = (Inr 0, [node_device [system_service]])"
    by (simp add: clean_body_def destroy_cxi_service_def destroy_cxi_service_device_def node_pass_def node_device_def
        remove_service_def system_service_def sample_service_def)
  then show ?thesis using pl(1)
    by (simp add: cmd_clean_def retry_exit_def parse_retry_def) (simp add: node_command_def)
qed

lemma node_main_clean:
  "slingshot_main plain_parser node_libs sample_list (\<lambda>_. None) node_surroundings [''flux-slingshot'', ''clean''] (node_pass Destroyed)
     [(node_pass Destroyed, 0)] [node_device [system_service, sample_service]]
    = Some ([node_device [system_service]], [], [], Exit 0)"
proof -
  have "get_subcommand plain_parser subcommands ''clean'' = Some (subcommands ! 4)" by (simp add: plain_parser_def subcommands_def)
  moreover have "sub_fn (subcommands ! 4) = CmdClean" by (simp add: subcommands_def)
  ultimately have "run_subcommand plain_parser subcommands [''flux-slingshot'', ''clean''] = Some (CmdClean, no_opts)"
    "get_subcommand plain_parser subcommands ''clean'' \<noteq> None"
    by (simp_all add: plain_parser_def)
  moreover have "set_up plain_parser" "parse_args plain_parser [''flux-slingshot'', ''clean''] = Some 1"
    by (simp_all add: plain_parser_def)
  ultimately show ?thesis
    by (simp add: slingshot_main_def run_fn_def node_command_of node_cleaned)
qed

theorem main_outcome_witness:
  "\<exists>s. s \<in> set subcommands \<and> sub_name s = ''clean'' \<and> sub_fn s \<in> {CmdProlog, CmdEpilog, CmdClean}
    \<and> slingshot_main plain_parser node_libs sample_list (\<lambda>_. None) node_surroundings [''flux-slingshot'', ''clean''] (node_pass Destroyed)
     [(node_pass Destroyed, 0)] [node_device [system_service, sample_service]]
    = Some ([node_device [system_service]], [], [], Exit 0)"
proof -
  have k: "parse_args plain_parser [''flux-slingshot'', ''clean''] = Some 1" by (simp add: plain_parser_def)
  have "[node_device [system_service]] \<noteq> [node_device [system_service, sample_service]]" by (simp add: node_device_def)
  with main_outcome [OF plain.optparse_lib_axioms k node_main_clean] node_main_clean show ?thesis by auto
qed

theorem commands_use_their_options_witness:
  "run_fn node_libs sample_list (\<lambda>_. None) node_surroundings CmdClean
      \<lparr>hasopt = (\<lambda>n. n = ''userid''), get_str = (\<lambda>n dflt. if n = ''userid'' then Some ''7'' else dflt), free_args = False\<rparr>
      (node_pass Destroyed) [(node_pass Destroyed, 0)] [node_device [system_service, sample_service]]
    = Some ([node_device [system_service]], [], Exit 0)"
proof -
  define s where "s = subcommands ! 4"
  have s: "s \<in> set subcommands" "sub_fn s = CmdClean" "sub_opts s = clean_opts"
    by (simp_all add: s_def subcommands_def)
  have "agree_on (sub_opts s)
    \<lparr>hasopt = (\<lambda>n. n = ''userid''), get_str = (\<lambda>n dflt. if n = ''userid'' then Some ''7'' else dflt), free_args = False\<rparr> no_opts"
    by (simp add: agree_on_def s(3) clean_opts_def fun_eq_iff)
  note commands_use_their_options [OF s(1) this, of node_libs sample_list "\<lambda>_. None" node_surroundings "node_pass Destroyed"
    "[(node_pass Destroyed, 0)]" "[node_device [system_service, sample_service]]"]
  also have "run_fn node_libs sample_list (\<lambda>_. None) node_surroundings (sub_fn s) no_opts
      (node_pass Destroyed) [(node_pass Destroyed, 0)] [node_device [system_service, sample_service]]
    = Some ([node_device [system_service]], [], Exit 0)"
    by (simp add: run_fn_def node_command_of node_cleaned s(2))
  finally show ?thesis unfolding s(2) .
qed

end
