(* ===== verification/RpcHelper.thy ===== *)
theory RpcHelper
  imports SlingshotNode
begin

text \<open>
  The helper \<^verbatim>\<open>t/util/rpc.c\<close> of the test suite: one request to the broker, whose answer is printed or whose error is
  compared with an expected one. The parsing of options by \<^verbatim>\<open>getopt_long\<close> and the broker are arguments: the
  options found with the other arguments, whether the broker can be reached, and what a request for a topic
  brings, where \<open>None\<close> is a request that cannot be sent. A process is its exit status and its output.
\<close>

definition rpc_usage :: "int \<times> string" where
  "rpc_usage = (1, '''')"

text \<open>The loop over the options, which fails for any but \<^verbatim>\<open>-r\<close>; the result is the flag \<open>raw\<close>.\<close>

primrec rpc_options :: "string \<Rightarrow> bool \<Rightarrow> bool option" where
  "rpc_options [] raw = Some raw"
| "rpc_options (ch # opts) raw = (if ch = CHR ''r'' then rpc_options opts True else None)"

text \<open>The expected error: \<^verbatim>\<open>strtoul\<close> without a check, stored in an \<^verbatim>\<open>int\<close>.\<close>

definition expected_errno_of :: "string \<Rightarrow> int" where
  "expected_errno_of arg = signed_take_bit 31 (case strtoul arg of None \<Rightarrow> 2 ^ 64 - 1 | Some (v, _) \<Rightarrow> int v)"

definition rpc_main :: "string \<Rightarrow> string list \<Rightarrow> bool \<Rightarrow> (string \<Rightarrow> (int + string) option) \<Rightarrow> int \<times> string" where
  "rpc_main opts operands opens rpc = (case rpc_options opts False of
       None \<Rightarrow> rpc_usage
     | Some raw \<Rightarrow>
         if length operands \<noteq> 1 \<and> length operands \<noteq> 2 then rpc_usage
         else let topic = operands ! 0;
                  expected_errno = (if length operands > 1 then expected_errno_of (operands ! 1) else - 1)
           in if \<not> opens then (1, '''')
           else (case rpc topic of
                None \<Rightarrow> (1, '''')
              | Some (Inl e) \<Rightarrow>
                  if expected_errno > 0 then if e \<noteq> expected_errno then (1, '''') else (0, '''')
                  else (1, '''')
              | Some (Inr result) \<Rightarrow>
                  if expected_errno > 0 then (1, '''') else (0, result @ [CHR 0x0A])))"

text \<open>Without an expected error the helper succeeds exactly when the request does, and prints the answer.\<close>

lemma rpc_main_answer:
  "rpc_main opts [topic] True rpc = (0, out) \<longleftrightarrow>
     set opts \<subseteq> {CHR ''r''} \<and> (\<exists>result. rpc topic = Some (Inr result) \<and> out = result @ [CHR 0x0A])"
proof -
  have "rpc_options opts raw \<noteq> None \<longleftrightarrow> set opts \<subseteq> {CHR ''r''}" for raw
    by (induction opts arbitrary: raw) auto
  from this [of False] show ?thesis
    by (auto simp: rpc_main_def rpc_usage_def Let_def split: option.splits sum.splits)
qed

text \<open>With the decimal number of an error it succeeds exactly when the request fails with this error.\<close>

lemma rpc_main_expects:
  assumes "0 < n" and "n < 2 ^ 31" and "set opts \<subseteq> {CHR ''r''}"
  shows "fst (rpc_main opts [topic, dec_of_nat n] True rpc) = 0 \<longleftrightarrow> rpc topic = Some (Inl (int n))"
proof -
  have "int n < 2 ^ 31" using assms(2) by (simp add: nat_less_iff)
  then have "expected_errno_of (dec_of_nat n) = int n"
    using assms(2) strtoul_digits [of n] by (simp add: expected_errno_of_def signed_take_bit_int_eq_self)
  moreover have "rpc_options opts raw \<noteq> None" for raw using assms(3) by (induction opts arbitrary: raw) auto
  ultimately show ?thesis
    using assms(1) by (auto simp: rpc_main_def rpc_usage_def Let_def split: option.splits sum.splits)
qed

text \<open>The option \<^verbatim>\<open>-r\<close> changes nothing.\<close>

lemma rpc_main_raw: "rpc_main (CHR ''r'' # opts) operands opens rpc = rpc_main opts operands opens rpc"
proof -
  have "rpc_options opts raw = None \<longleftrightarrow> rpc_options opts raw' = None" for raw raw'
    by (induction opts arbitrary: raw raw') auto
  from this [of True False] show ?thesis by (auto simp: rpc_main_def split: option.splits)
qed

end
