(* ===== verification/Spec2Isabelle.thy ===== *)
theory Spec2Isabelle
  imports CcanBitmap CcanBase64 ApinfoTests PmiBootstrap DwsJobtap Libutil CrayPals DwsEnvironment SlingshotSystem SlingshotHeap SlingshotMain RpcHelper
begin

text \<open>
  A verification library for the C code of flux-coral2, the plugins and commands that make the Flux
  resource manager work on HPE Cray EX systems: VNI reservations and CXI services for the Slingshot
  network, ports and the application file for Cray's PMI, and the workflows of rabbit storage.

  \<^bold>\<open>The program.\<close> A job enters the RUN state. In the job manager, \<^verbatim>\<open>src/job-manager/plugins/cray-slingshot.c\<close>
  reserves VNIs from the pool of \<^verbatim>\<open>vnipool.c\<close> and posts them in a \<^verbatim>\<open>cray-slingshot\<close> event,
  \<^verbatim>\<open>cray-pmi-bootstrap.c\<close> pops two ports and posts them in a \<^verbatim>\<open>cray-pmi-bootstrap\<close> event, and
  \<^verbatim>\<open>dws-jobtap.c\<close> holds the job with a dependency, a prolog and an epilog while the coral2-dws service
  works. On every node, the prolog runs \<^verbatim>\<open>flux slingshot prolog\<close> (\<^verbatim>\<open>src/cmd/flux-slingshot.c\<close>), which
  waits for the event with \<^verbatim>\<open>src/common/libutil/eventlog.c\<close> and creates CXI services; then the shell plugins
  (\<^verbatim>\<open>src/shell/plugins\<close>) wait for the same events, write the application file through
  \<^verbatim>\<open>src/common/libapinfo\<close> and set the environment of the tasks. In CLEANUP the epilog removes the
  services, and the callbacks give VNIs and ports back.

  \<^bold>\<open>Theories and code.\<close> Paths from here on are relative to the directory \<^verbatim>\<open>src\<close>. Each theory of a component follows its C file:
  one definition for each function, with the guards and early returns in their order, and loops as
  recursive functions of their own.

  \<^item> \<open>Prelude\<close>: errors as sums, decimal numbers, \<^verbatim>\<open>common/libutil/idf58.h\<close>.
  \<^item> \<open>Json\<close>, \<open>Idset\<close>, \<open>Hostlist\<close>, \<open>Taskmap\<close>, \<open>Cxi\<close>: the libraries of flux-core, jansson and libcxi that
    the code calls. Their operations are records that the definitions take as arguments, their
    documented behaviour is a locale (\<open>idset_lib\<close>, \<open>hostlist_lib\<close>, \<open>taskmap_lib\<close>), and each has an
    instance on plain sets and lists.
  \<^item> \<open>Vnipool\<close>, \<open>VniReach\<close>: \<^verbatim>\<open>job-manager/plugins/vnipool.c\<close>. The record \<open>vnipool\<close> is the C structure;
    the steps of \<open>vni_step\<close> are the calls that the plugin makes.
  \<^item> \<open>SlingshotJobtap\<close>, \<open>SlingshotReach\<close>: \<^verbatim>\<open>job-manager/plugins/cray-slingshot.c\<close>; the host is the list of
    posted events and raised exceptions. \<open>run_spec\<close> states the outcome of a request as the documentation
    has it. The steps of \<open>slingshot_step\<close> are the callbacks that the job manager makes for any number of
    jobs, with any outcome of the calls in them. \<open>slingshot_reachable\<close> and \<open>cluster_reachable\<close> have a condition
    on the pool before and after each step as an argument; the properties take \<open>vni_stable\<close> for it, that no
    configuration brings back a VNI that a job still holds.
  \<^item> \<open>PmiBootstrap\<close>: \<^verbatim>\<open>job-manager/plugins/cray-pmi-bootstrap.c\<close>, the port stack and the states it reaches.
  \<^item> \<open>DwsJobtap\<close>: \<^verbatim>\<open>job-manager/plugins/dws-jobtap.c\<close> in the state monad; the state has the calls made
    into the host, in order, each of which may fail, and the items stored with the jobs. In \<open>dws_reachable\<close>
    messages, replies and exceptions come in any order; the history counts the messages that end a prolog for a job without
    the flag, which the code handles without remembering it.
  \<^item> \<open>Libutil\<close>, \<open>Eventlog\<close>: \<^verbatim>\<open>common/libutil\<close>: error texts in their 160 bytes, time differences, durations,
    and the loop that waits for an event. \<open>wait_spec\<close> is what the loop looks for, \<open>header_spec\<close> what \<^verbatim>\<open>eventlog.h\<close>
    promises; they differ in exceptions of a severity other than 0, which the loop passes over.
  \<^item> \<open>ApinfoBase\<close>, \<open>ApinfoSections\<close>, \<open>Apinfo1\<close>, \<open>Apinfo5\<close>, \<open>Apinfo\<close>: \<^verbatim>\<open>common/libapinfo\<close>, both versions of
    the file down to its bytes, with C integers at their width.
  \<^item> \<open>Shell\<close>, \<open>CrayPals\<close>, \<open>SlingshotShell\<close>, \<open>DwsEnvironment\<close>: \<^verbatim>\<open>shell/plugins/cray_pals.c\<close>,
    \<^verbatim>\<open>cray-slingshot.c\<close> and \<^verbatim>\<open>dws_environment.c\<close> over an environment in which setting a variable may fail.
  \<^item> \<open>CxiServices\<close>, \<open>FluxSlingshot\<close>, \<open>SlingshotNode\<close>, \<open>SlingshotList\<close>, \<open>SlingshotMain\<close>: \<^verbatim>\<open>cmd/flux-slingshot.c\<close>.
    A device has its list of services; a pass over the devices comes with what libcxi answers in it. The warning about a
    service that cannot be destroyed takes the id of the service for the address of a string, which is undefined; a pass
    therefore also says at which addresses there is a readable text (\<open>p_text_at\<close>), and elsewhere the process ends with \<open>Killed\<close>.
    \<open>SlingshotMain\<close> has the tables of commands and options and \<^verbatim>\<open>main\<close>.
  \<^item> \<open>CcanList\<close>: the linked list of \<^verbatim>\<open>common/libccan/ccan/list\<close> on a heap of nodes, the only container of
    the vendored code that the program uses. \<open>SlingshotHeap\<close>: the list command again, with its entries allocated
    and freed in memory and kept in that linked list.
  \<^item> \<open>CcanEndian\<close>, \<open>CcanBitmap\<close>, \<open>CcanBase64\<close>, \<open>CcanStr\<close>: \<^verbatim>\<open>common/libccan/ccan\<close>, \<^verbatim>\<open>endian\<close>,
    \<^verbatim>\<open>bitmap\<close>, \<^verbatim>\<open>base64\<close> and \<^verbatim>\<open>str\<close> with \<^verbatim>\<open>hex\<close>, which are built into the library but, besides
    the comparison of strings, not used yet. The byte order of the host is an argument \<open>little\<close>; an access outside
    the words of a bitmap, a failed assertion and a call of \<^verbatim>\<open>abort\<close> are \<open>None\<close>.
  \<^item> \<open>Libtap\<close>: \<^verbatim>\<open>common/libtap\<close>, the library of the unit tests, with its static variables as a record and the
    output as text; \<open>tap_call\<close> and \<open>run_program\<close> are the test programs written with it. \<open>ApinfoTests\<close>:
    \<^verbatim>\<open>common/libapinfo/test/apinfo.c\<close>, the unit test of libapinfo, as such a program. \<open>RpcHelper\<close>:
    \<^verbatim>\<open>../t/util/rpc.c\<close>, the program with which the other tests send a request.
  \<^item> \<open>SlingshotSystem\<close>: the jobtap plugin and the commands on the nodes of a cluster together, in any order.
    The steps of \<open>cluster_step\<close> are those of the plugin, and a prolog, an epilog or a cleaning on a node.
  \<^item> This theory: the properties that span components.

  \<^bold>\<open>Interfaces.\<close> \<open>vni_service\<close> (Vnipool) is the contract of the pool that the jobtap plugin relies on,
  \<open>resource_pool\<close> (PmiBootstrap) that of the port stack, \<open>section_layout\<close> and \<open>apinfo_backend\<close>
  (ApinfoSections) that of a file version, \<open>list_env\<close> (SlingshotList) that of the libraries behind the
  list command, \<open>sequence_store\<close> (CcanList) that of a list for its users, \<open>optparse_lib\<close> (SlingshotMain) that of the
  option parser, \<open>float_lib\<close> (Libutil) that of floating-point numbers and their text, \<open>base64_alphabet\<close> (CcanBase64) what an alphabet must be, \<open>unit_test_libs\<close> (ApinfoTests) what the unit test of
  libapinfo relies on in flux-core. All are interpreted on the definitions that
  model the code.

  \<^bold>\<open>What is shown.\<close> Exclusive ownership of VNIs and of ports in every reachable state, and one exception:
  when a configuration brings a VNI back that a job still holds, two jobs can get it (\<open>vni_double_allocation\<close>). The effect of every pool operation
  and of every callback on all branches, errors included, and that reserving and releasing, and prolog and
  epilog, undo each other. That the application file says exactly what the job is, that it can be read
  back, and that the consistency check is complete. In each run of the storage plugin an epilog is started at most once,
  and a prolog is finished at most once but for messages for a job without the flag; failures release what was held. The environment
  of a job is the documented one in all modes. The epilog of a job leaves the services of other, active jobs
  alone, with one exception: the plugin releases the VNIs of a job in CLEANUP without waiting for its epilog,
  so another job of the same user can be given just these VNIs while the epilog still runs. When jobs are cleaned
  up only after their services are gone, the services of a cluster isolate the jobs from each other
  (\<open>services_isolated\<close>); the plugin does not ensure this order, and without it two users can share a VNI
  (\<open>vni_shared_between_users\<close>). Retrying ends, and there is none when the faulty warning kills the process; cleaning and
  listing cover all services of the devices that can be read. A duration that was printed is read back up to rounding. The pointer operations of the linked list do
  to the sequence of its nodes what they should, its consistency check ends on every heap and decides, and the list
  command makes no invalid access and frees what it allocates. The process changes devices only for the commands
  that are meant to, and each command depends only on the options in its table. The VNIs and the ports that are
  reserved in the job manager are those that the tasks see. Of the vendored modules: bitmaps are sets of numbers on
  hosts of either byte order, what was encoded in base64 or in hexadecimal can be decoded, and a test program reports each of
  its tests once and exits with the status that it deserves. The unit test of libapinfo, run on the models of libapinfo and
  libtap, reports 66 passed tests.

  \<^bold>\<open>Bounds.\<close> The loops that wait for the eventlog and that retry run through lists: the responses that still
  arrive, with their times, and the attempts, with what libcxi does in them and the clock after them.
  A wait whose responses are used up has the value \<open>WaitHangs\<close> or reports the timeout; a retry loop whose
  attempts are used up has the value \<open>None\<close>, and \<open>retries_end\<close> shows that a timeout of \<open>r\<close> seconds needs at
  most \<open>r + 1\<close> of them. The loops through the pointers of the linked list are partial functions, where \<open>None\<close> is a
  loop that does not end or an invalid access; \<open>list_check_decides\<close> and \<open>list_command_memory\<close> show that neither
  happens. The search in a bitmap and the counting of a substring are partial functions as well; \<open>bitmap_is_set\<close> shows that
  the search ends within a bitmap, \<open>strcount_meaning\<close> that counting ends but for the empty string. Bitmaps have fewer than
  \<open>2 ^ 58\<close> words and sources to encode fewer than \<open>2 ^ 61\<close> bytes, far beyond the memory of a host, so that their sizes do not
  wrap around; \<open>bitmap_sizeof_wraps\<close> shows what happens otherwise. The counters of the list check and of libtap are natural
  numbers where C has an \<^verbatim>\<open>int\<close>, which would overflow after \<open>2 ^ 31\<close> nodes or tests. No other definition has a bound: all other loops go through finite data. Durations
  are \<open>double\<close> values with the operations of the C library as a parameter, whose relative errors \<open>float_lib\<close> bounds; comparing a clock with a timeout
  is done on real numbers.

  \<^bold>\<open>Not modelled.\<close> Freeing memory (but for the list command and the blocks of \<^verbatim>\<open>apinfo_destroy\<close>), the texts of logging and
  warnings (but for the warning with the wrong argument, see \<open>CxiServices\<close>), exhaustion of memory inside argz, and the option parser of flux-core. Of the
  vendored \<^verbatim>\<open>common/libccan\<close>: what only speaks to the compiler (attributes, checks at compile time, casts between
  pointers and members), the wrappers of \<^verbatim>\<open>ctype.h\<close>, and debugging code that is not built. The test
  \<^verbatim>\<open>common/libapinfo/test/pals.c\<close>, which asks the vendor's libpals about the files. The Python services under
  \<^verbatim>\<open>modules\<close> and \<^verbatim>\<open>python\<close>, which work against Kubernetes and Flux APIs.
\<close>

section \<open>From the VNI pool to the devices\<close>

text \<open>What the run callback announces, the commands accept.\<close>

lemma announced_parses:
  assumes "\<forall>x \<in> set (ev_vnis ev). valid_vni x" and "length (ev_vnis ev) \<le> 4"
  shows "parse_reservation_vnis (event_context txt ev) = Some (JArray (map (JInt \<circ> int) (ev_vnis ev)))"
proof -
  have "list_all good_entry (map (JInt \<circ> int) (ev_vnis ev))"
    using assms(1) by (auto simp: list_all_iff good_entry_def valid_vni_def)
  then show ?thesis
    using assms(2) by (simp add: parse_reservation_vnis_def event_context_def json_array_size_def CXI_SVC_MAX_VNIS_def)
qed

lemma announced_valid:
  assumes "vni_env L elems" and "vnipool_inv (idsets L) elems (vnipool ctx)"
    and "reserved_vnis L (vnipool ctx) (run_id args) = None"
    and "job_state_run_cb L E junk ctx h (Inr args) = (ctx', h')"
    and "posted h' = posted h @ [(run_id args, ev)]"
  shows "(\<forall>x \<in> set (ev_vnis ev). valid_vni x) \<and> length (ev_vnis ev) \<le> 4
    \<and> (ev_vnis ev = [] \<or> reserved_vnis L (vnipool ctx') (run_id args) = Some (ev_vnis ev))"
proof -
  have inv: "vnipool_inv (idsets L) elems (vnipool ctx')"
    and S: "(\<exists>ev. run_announced L elems (run_id args) ctx h ctx' h' ev) \<or> (\<exists>e. run_excepted L elems (run_id args) ctx h ctx' h' e)"
    using job_state_run_settles [OF assms(1-4)] by blast+
  then have A: "run_announced L elems (run_id args) ctx h ctx' h' ev"
    using assms(5) by (auto simp: run_announced_def run_excepted_def)
  show ?thesis
  proof (cases "ev_empty_reason ev")
    case None
    then have r: "reserved_vnis L (vnipool ctx') (run_id args) = Some (ev_vnis ev)"
      using A by (simp add: run_announced_def)
    then obtain a where "jobs (vnipool ctx') (idf58 (f58 L) (run_id args)) = Some a" "items a = ev_vnis ev"
      by (auto simp: reserved_vnis_def)
    with inv have "reservation_ok a" by (auto simp: vnipool_inv_def)
    with \<open>items a = ev_vnis ev\<close> r show ?thesis by (simp add: reservation_ok_def)
  next
    case (Some r)
    with A show ?thesis by (simp add: run_announced_def)
  qed
qed

text \<open>
  C4. The epilog of one job leaves the services of other jobs alone. In every state that the jobtap plugin
  reaches, as long as no configuration brings back a VNI that a job still holds, when the epilog of a job for which VNIs were announced runs, however often it retries, every
  service for the VNIs announced for another, active job and for its user is still on its device
  afterwards, in the same order. The only exception is another job of the same user that was given exactly the same
  VNIs, and that cannot happen before the first job is cleaned up.
\<close>

theorem epilog_spares_other_jobs:
  assumes "slingshot_reachable A enc (vni_stable elems) s" and "idset_lib A elems" and "f58_encoding enc"
    and "(i, ev) \<in> set (posted (jobs_host s))" and "(j, ev') \<in> set (posted (jobs_host s))"
    and "i \<noteq> j" and "phase s j = Active" and "ev_vnis ev \<noteq> []"
    and "granted L c uid (JArray (map (JInt \<circ> int) (ev_vnis ev)))"
    and "\<forall>dev \<in> set devs. unique_ids dev" and "cmd_epilog L c attempts devs = Some (devs', e)"
  shows "list_all2 (\<lambda>dev dev'. let m = match_reservation uid' (JArray (map (JInt \<circ> int) (ev_vnis ev'))) in
      filter m (services dev') = filter m (services dev)) devs devs'
    \<or> (uid' = uid \<and> ev_vnis ev' = ev_vnis ev \<and> phase s i \<noteq> Active)"
proof (cases "uid' = uid \<and> ev_vnis ev' = ev_vnis ev")
  case True
  have "phase s i \<noteq> Active"
  proof
    assume "phase s i = Active"
    from announced_disjoint [OF assms(1-5) this assms(7,6)] True assms(8) show False by simp
  qed
  with True show ?thesis by simp
next
  case False
  let ?m = "match_reservation uid (JArray (map (JInt \<circ> int) (ev_vnis ev)))"
  let ?q = "match_reservation uid' (JArray (map (JInt \<circ> int) (ev_vnis ev')))"
  have D: "?q d \<Longrightarrow> \<not> ?m d" for d using matches_same [of uid "ev_vnis ev" d uid' "ev_vnis ev'"] False by blast
  have "devs' = devs \<or> list_all2 (spared ?m) devs devs'"
    using cmd_epilog_spares [OF assms(10,11)] granted_unique assms(9) by metis
  then have S: "list_all2 (spared ?m) devs devs'" using spared_list_refl by blast
  have "list_all2 (\<lambda>dev dev'. let m = ?q in filter m (services dev') = filter m (services dev)) devs devs'"
  proof (rule list_all2_mono [OF S])
    fix dev dev'
    assume "spared ?m dev dev'"
    then have "filter (\<lambda>s. \<not> ?m s) (services dev') = filter (\<lambda>s. \<not> ?m s) (services dev)"
      by (simp add: spared_def)
    then have "filter ?q (filter (\<lambda>s. \<not> ?m s) (services dev')) = filter ?q (filter (\<lambda>s. \<not> ?m s) (services dev))"
      by simp
    moreover have "filter ?q (filter (\<lambda>s. \<not> ?m s) xs) = filter ?q xs" for xs
      using D by (simp add: filter_filter) (rule filter_cong, auto)
    ultimately show "let m = ?q in filter m (services dev') = filter m (services dev)" by simp
  qed
  then show ?thesis by simp
qed

text \<open>The command works on the devices, for the job and the user.\<close>

definition acts_for :: "'i slingshot_libs \<Rightarrow> command \<Rightarrow> jobid \<Rightarrow> nat \<Rightarrow> bool" where
  "acts_for L c i uid \<longleftrightarrow> \<not> c_free_args c \<and> c_broker c \<and> c_cxi c \<and> \<not> c_dry_run c \<and> c_R_sent c \<and> parse_job L c = Inr (i, uid)"

text \<open>
  C8. The VNIs that are reserved for a job are those that its tasks use. When the run callback of the
  jobtap plugin announces VNIs for a job, the job holds them in the pool; the prolog, which reads the
  announced event, accepts them and creates on every device a service for the user of the job with
  exactly these VNIs; and the shell plugin, which reads the same event, sets the variables with these
  VNIs and with the ids of exactly these services.
\<close>

theorem announced_vnis_reach_job:
  assumes "vni_env P elems" and "vnipool_inv (idsets P) elems (vnipool ctx)"
    and "reserved_vnis P (vnipool ctx) (run_id args) = None"
    and "job_state_run_cb P E junk ctx h (Inr args) = (ctx', h')"
    and "posted h' = posted h @ [(run_id args, ev)]" and "ev_vnis ev \<noteq> []"
    and "v = JArray (map (JInt \<circ> int) (ev_vnis ev))"
    and "acts_for L c (run_id args) uid"
    and "wait_reservation (l_loads L) (l_timed_out L) (c_watch c) = Inr (Some (event_context txt ev))"
    and "ncores_from_R (l_idsets L) (l_loads L) (c_rank c) (c_R c) = Inr ncores"
    and "pass_ok p devs" and "allocs_fit L uid v ncores devs"
    and "\<forall>dev \<in> set devs. \<forall>s \<in> set (services dev). \<not> match_cxi_service s v"
    and "\<forall>n d d'. l_alloc L n d = Some d' \<longrightarrow> enable d'"
    and "eventlog_wait_for loads timed_out ''cray-slingshot'' (-1) as = WaitDone (Some (event_context txt ev))"
    and "\<forall>is. dumps (map JInt is) = Some (argz_stringify (CHR '','') (map dec_of_int is))"
    and "memory_ok s" and "\<forall>nm \<in> set slingshot_names. vars s nm = None"
  shows "reserved_vnis P (vnipool ctx') (run_id args) = Some (ev_vnis ev)
    \<and> (\<exists>devs1 s2. cmd_prolog L c p devs = (devs1, Exit 0)
      \<and> list_all2 (\<lambda>dev dev1. \<exists>d. dev1 = with_service dev d \<and> match_reservation uid v d) devs devs1
      \<and> cray_slingshot_reserved dumps loads timed_out (node_of (l_classes L) devs1) as s = Some (0, s2)
      \<and> vars s2 ''SLINGSHOT_VNIS'' = comma_ints (map int (ev_vnis ev))
      \<and> vars s2 ''SLINGSHOT_SVC_IDS'' = comma_ints (map newest_id devs1))"
proof -
  note V = announced_valid [OF assms(1-5)]
  have R: "parse_reservation_vnis (event_context txt ev) = Some v"
    unfolding assms(7) by (rule announced_parses) (use V in simp_all)
  have G: "granted L c uid v" and sent: "c_R_sent c"
    using assms(8,9) R by (auto simp: acts_for_def granted_def)
  have n: "json_array_size v \<noteq> 0" using assms(6) by (simp add: assms(7) json_array_size_def)
  obtain devs1 s2 ns where W: "cmd_prolog L c p devs = (devs1, Exit 0)"
    "list_all2 (\<lambda>dev dev1. \<exists>d. dev1 = with_service dev d \<and> match_reservation uid v d) devs devs1"
    "v = JArray (map JInt ns)"
    "cray_slingshot_reserved dumps loads timed_out (node_of (l_classes L) devs1) as s = Some (0, s2)"
    "vars s2 ''SLINGSHOT_VNIS'' = comma_ints ns" "vars s2 ''SLINGSHOT_SVC_IDS'' = comma_ints (map newest_id devs1)"
    using prolog_services_found [OF G n sent assms(10-14) R assms(15-18)] by blast
  have "map JInt ns = map JInt (map int (ev_vnis ev))" using W(3) by (simp add: assms(7))
  then have "ns = map int (ev_vnis ev)" by (simp add: map_injective inj_def)
  then show ?thesis using V assms(6) W by blast
qed

section \<open>From the port pool to the tasks\<close>

lemma popped_ports:
  assumes "pmi_reachable hl E s" and "free_ports (ports_left s) = free_ports r @ [q, p]"
  shows "p \<noteq> q \<and> {p, q} \<subseteq> {1024..65535} \<and> {p, q} \<inter> set (free_ports r) = {} \<and> {p, q} \<inter> set (job_ports s j) = {}"
proof -
  obtain lo hi where inv: "pmi_inv lo hi s" using pmi_reachable_inv [OF assms(1)] by blast
  have b: "1024 \<le> lo" "hi \<le> 65536" "distinct (free_ports (ports_left s))" "set (free_ports (ports_left s)) \<subseteq> {lo..<hi}"
    "set (job_ports s j) \<inter> set (free_ports (ports_left s)) = {}"
    using inv by (simp_all add: pmi_inv_def)
  then show ?thesis by (auto simp: assms(2))
qed

text \<open>
  C9. The ports that the jobtap plugin gives a job reach its tasks. After a successful run callback
  for a job that does not have exactly one host, in any reachable state, the shell plugin, when it reads the
  posted event, gives the tasks the control ports \<open>p,q\<close>: two different ones from 1024 to 65535 that
  no other job has and that are no longer free; and the secret is the posted random number.
\<close>

theorem pmi_ports_reach_tasks:
  assumes "pmi_reachable hl E s" and "pmi_run_cb hl R (ports_left s) (pmi_host s) = (r', w', 0)"
    and "pmi_unpacked R = Some (i, nodelist)" and "hostlist_from_array hl nodelist = Some h"
    and "hostlist_count hl h \<noteq> 1"
    and "last (pmi_events w') = (i, ports, random)"
    and "eventlog_wait_for loads timed_out ''cray-pmi-bootstrap'' (-1) fut = WaitDone (Some (pmi_event_context ports random))"
    and "memory_ok env" and "vars env ''FLUX_JOB_TMPDIR'' = Some dir"
  shows "\<exists>p q ctx' env'. ports = [p, q] \<and> p \<noteq> q \<and> {p, q} \<subseteq> {1024..65535}
    \<and> {p, q} \<inter> set (free_ports r') = {} \<and> {p, q} \<inter> set (job_ports s j) = {}
    \<and> get_pmi_bootstrap loads timed_out (Some fut) ctx = Some (0, ctx')
    \<and> run_state (set_environment ctx') env = (0, env')
    \<and> vars env' ''PMI_CONTROL_PORT'' = Some (dec_of_int p @ '','' @ dec_of_int q)
    \<and> vars env' ''PMI_SHARED_SECRET'' = Some (dec_of_nat (nat (random mod 2 ^ 64)))"
proof -
  have wf: "range_wf (ports_left s)" using pmi_reachable_inv [OF assms(1)] by (auto simp: pmi_inv_def)
  obtain p q where pq: "free_ports (ports_left s) = free_ports r' @ [q, p]"
    "pmi_events w' = pmi_events (pmi_host s) @ [(i, [p, q], random_value R)]"
    using pmi_run_cb_effect [OF wf assms(2-5)] by blast
  have ports: "ports = [p, q]" using assms(6) pq(2) by simp
  have P: "p \<noteq> q" "{p, q} \<subseteq> {1024..65535}" "{p, q} \<inter> set (free_ports r') = {}" "{p, q} \<inter> set (job_ports s j) = {}"
    using popped_ports [OF assms(1) pq(1), of j] by blast+
  have c: "c_int p = p" "c_int q = q" using P(2) by (simp_all add: c_int_def signed_take_bit_int_eq_self)
  define ctx' where "ctx' = ctx\<lparr>pmi := (pmi ctx)\<lparr>port0 := p, port1 := q, secret := random, valid := True\<rparr>\<rparr>"
  have g: "get_pmi_bootstrap loads timed_out (Some fut) ctx = Some (0, ctx')"
    using assms(7) by (simp add: get_pmi_bootstrap_def read_future_def ports pmi_event_context_def unpack_member_def c ctx'_def)
  obtain env' where e: "run_state (set_environment ctx') env = (0, env')" "vars env' = pals_vars ctx' dir (vars env)"
    using set_environment_success [OF assms(8,9)] by blast
  have "vars env' ''PMI_CONTROL_PORT'' = Some (dec_of_int p @ '','' @ dec_of_int q)"
    "vars env' ''PMI_SHARED_SECRET'' = Some (dec_of_nat (nat (random mod 2 ^ 64)))"
    by (simp_all add: e(2) pals_vars_def ctx'_def)
  with ports P g e(1) show ?thesis by blast
qed


section \<open>Witnesses\<close>

definition other_service :: cxi_svc_desc where
  "other_service = sample_service\<lparr>svc_id := 2, vnis := [2, 0, 0, 0]\<rparr>"

lemma node_epilog:
  "cmd_epilog node_libs (node_command None) [(node_pass Destroyed, 0)]
     [node_device [system_service, other_service, sample_service]] = Some ([node_device [system_service, other_service]], Exit 0)"
proof (rule epilog_removes [OF node_granted _ node_pass_ok])
  show "parse_retry (l_floats node_libs) (c_retry_busy (node_command None)) = Inr (Finite (-1))"
    by (simp add: parse_retry_def)
  show "\<forall>dev \<in> set [node_device [system_service, other_service]]. \<forall>s \<in> set (services dev). \<not> match_reservation 1000 (JArray [JInt 3]) s"
    using node_services by (simp add: other_service_def match_reservation_def sample_service_def same_vnis_def json_array_size_def int_at_def)
  have "match_reservation 1000 (JArray [JInt 3]) sample_service"
    by (simp add: match_reservation_def sample_service_def same_vnis_def json_array_size_def int_at_def)
  then show "list_all2 (\<lambda>dev dev1. \<exists>s. dev1 = with_service dev s \<and> match_reservation 1000 (JArray [JInt 3]) s
        \<and> svc_id s \<notin> svc_id ` set (services dev) \<and> True) [node_device [system_service, other_service]]
      [node_device [system_service, other_service, sample_service]]"
    by (auto simp: with_service_def node_device_def system_service_def other_service_def intro!: exI [of _ sample_service])
      (auto simp: sample_service_def)
qed (simp add: json_array_size_def)

lemma epilog_spares_other_jobs_witness:
  "\<exists>s :: refset slingshot_sys. phase s 1 = Active \<and> phase s 2 = Active
    \<and> list_all2 (\<lambda>dev dev'. let m = match_reservation 1000 (JArray (map (JInt \<circ> int) [2])) in
        filter m (services dev') = filter m (services dev))
      [node_device [system_service, other_service, sample_service]] [node_device [system_service, other_service]]"
proof -
  let ?ev1 = "\<lparr>ev_vnis = [2], ev_empty_reason = None\<rparr>" and ?ev2 = "\<lparr>ev_vnis = [3], ev_empty_reason = None\<rparr>"
  obtain s :: "refset slingshot_sys" where s: "slingshot_reachable ref_api sample_enc (vni_stable rs_elems) s"
    "posted (jobs_host s) = [(1, ?ev1), (2, ?ev2)]" "phase s 1 = Active" "phase s 2 = Active"
    by (rule sample_system)
  have g: "granted node_libs (node_command None) 1000 (JArray (map (JInt \<circ> int) (ev_vnis ?ev2)))"
    using node_granted by simp
  have u: "\<forall>dev \<in> set [node_device [system_service, other_service, sample_service]]. unique_ids dev"
    by (simp add: unique_ids_def system_service_def other_service_def sample_service_def)
  have p: "(2, ?ev2) \<in> set (posted (jobs_host s))" "(1, ?ev1) \<in> set (posted (jobs_host s))" by (simp_all add: s(2))
  have n: "(2 :: jobid) \<noteq> 1" "ev_vnis ?ev2 \<noteq> []" by simp_all
  note L = epilog_spares_other_jobs [OF s(1) ref.idset_lib_axioms sample_f58.f58_encoding_axioms p n(1) s(3) n(2) g u node_epilog, of 1000]
  have "list_all2 (\<lambda>dev dev'. let m = match_reservation 1000 (JArray (map (JInt \<circ> int) (ev_vnis ?ev1))) in
        filter m (services dev') = filter m (services dev))
      [node_device [system_service, other_service, sample_service]] [node_device [system_service, other_service]]"
    using L by (rule disjE) (use s(4) in simp_all)
  then have "list_all2 (\<lambda>dev dev'. let m = match_reservation 1000 (JArray (map (JInt \<circ> int) [2])) in
        filter m (services dev') = filter m (services dev))
      [node_device [system_service, other_service, sample_service]] [node_device [system_service, other_service]]"
    unfolding vni_event.select_convs .
  with s(3,4) show ?thesis by blast
qed

lemma sample_run_posts:
  obtains ctx ctx' :: "refset slingshot" and h' where "vnipool_inv (idsets ref_libs) rs_elems (vnipool ctx)"
    and "reserved_vnis ref_libs (vnipool ctx) (run_id (plain_args 2)) = None"
    and "job_state_run_cb ref_libs SlingshotJobtap.sample_env 0 ctx no_calls (Inr (plain_args 2)) = (ctx', h')"
    and "posted h' = posted no_calls @ [(run_id (plain_args 2), \<lparr>ev_vnis = [3], ev_empty_reason = None\<rparr>)]"
proof -
  obtain ctx :: "refset slingshot" where c: "vnipool_inv (idsets ref_libs) rs_elems (vnipool ctx)"
    "reserved_vnis ref_libs (vnipool ctx) 2 = None" "ref.ids (pool (vnipool ctx)) = {3}" "vnis_per_job ctx = 1"
    using sample_plugin by metis
  obtain vp a where r: "vnipool_reserve ref_libs (vnipool ctx) 2 1 = (vp, Inr a)" "items a = [3]"
    using ref_reserve_single [OF c(1) [unfolded ref_libs_simps] c(3), of 2] by metis
  have "\<exists>ctx' h'. job_state_run_cb ref_libs SlingshotJobtap.sample_env 0 ctx no_calls (Inr (plain_args 2)) = (ctx', h')
      \<and> posted h' = posted no_calls @ [(2, \<lparr>ev_vnis = [3], ev_empty_reason = None\<rparr>)]"
    using r c(4) by (simp add: job_state_run_cb_def plain_args_def run_reserve_def post_event_def SlingshotJobtap.sample_env_def)
  with c(1,2) that show ?thesis by (auto simp: plain_args_def)
qed

lemma announced_vnis_reach_job_witness:
  "\<exists>devs1 s2. cmd_prolog node_libs (node_command None) (node_pass Destroyed) [node_device [system_service]] = (devs1, Exit 0)
    \<and> cray_slingshot_reserved sample_dumps node_loads ''timeout'' (node_of sample_classes devs1) [sample_arrival ''r'' 1 1]
        \<lparr>vars = Map.empty, set_ok = (\<lambda>_. True), set_count = 0\<rparr> = Some (0, s2)
    \<and> vars s2 ''SLINGSHOT_VNIS'' = comma_ints [3]"
proof -
  let ?s = "\<lparr>vars = Map.empty, set_ok = (\<lambda>_. True), set_count = 0\<rparr>"
  let ?devs = "[node_device [system_service]]" and ?c = "node_command None"
  let ?ev = "\<lparr>ev_vnis = [3], ev_empty_reason = None\<rparr>"
  obtain ctx ctx' :: "refset slingshot" and h' where R: "vnipool_inv (idsets ref_libs) rs_elems (vnipool ctx)"
    "reserved_vnis ref_libs (vnipool ctx) (run_id (plain_args 2)) = None"
    "job_state_run_cb ref_libs SlingshotJobtap.sample_env 0 ctx no_calls (Inr (plain_args 2)) = (ctx', h')"
    "posted h' = posted no_calls @ [(run_id (plain_args 2), ?ev)]"
    by (rule sample_run_posts)
  have ev: "ev_vnis ?ev \<noteq> []" "JArray [JInt 3] = JArray (map (JInt \<circ> int) (ev_vnis ?ev))" by simp_all
  have ctxt: "event_context (\<lambda>_. []) ?ev = node_reservation" by (simp add: event_context_def)
  have a: "acts_for node_libs ?c (run_id (plain_args 2)) 1000"
    using node_user
    by (simp add: acts_for_def parse_job_def parse_jobid_def node_libs_def node_command_def plain_args_def)
  have w: "wait_reservation (l_loads node_libs) (l_timed_out node_libs) (c_watch ?c) = Inr (Some (event_context (\<lambda>_. []) ?ev))"
    unfolding ctxt wait_reservation_def eventlog_timeout_def by (simp add: node_command_def node_wait)
  obtain n where n: "ncores_from_R (l_idsets node_libs) (l_loads node_libs) (c_rank ?c) (c_R ?c) = Inr n"
    using node_cores by blast
  have m: "\<forall>dev \<in> set ?devs. \<forall>s \<in> set (services dev). \<not> match_cxi_service s (JArray [JInt 3])"
    using node_services by simp
  have e: "\<forall>n d d'. l_alloc node_libs n d = Some d' \<longrightarrow> enable d'" by auto
  have w2: "eventlog_wait_for node_loads ''timeout'' ''cray-slingshot'' (-1) [sample_arrival ''r'' 1 1]
      = WaitDone (Some (event_context (\<lambda>_. []) ?ev))"
    unfolding ctxt by (simp add: node_wait)
  have d: "\<forall>is. sample_dumps (map JInt is) = Some (argz_stringify (CHR '','') (map dec_of_int is))"
    using sample_dumps_ints by blast
  have s: "memory_ok ?s" "\<forall>nm \<in> set slingshot_names. vars ?s nm = None" by (simp_all add: memory_ok_def)
  from announced_vnis_reach_job [OF ref_vni.vni_env_axioms R ev a w n node_pass_ok node_allocs m e w2 d s]
  show ?thesis by auto
qed

definition pmi_loads :: "string \<Rightarrow> json option" where
  "pmi_loads t = Some (JObject [(''timestamp'', JReal 1), (''name'', JString ''cray-pmi-bootstrap''),
     (''context'', pmi_event_context [2049, 2048] 7)])"

lemma pmi_ports_reach_tasks_witness:
  "\<exists>ctx' env'. get_pmi_bootstrap pmi_loads ''timeout'' (Some [sample_arrival ''p'' 1 1]) sample_pals = Some (0, ctx')
    \<and> run_state (set_environment ctx') sample_vars = (0, env')
    \<and> vars env' ''PMI_CONTROL_PORT'' = Some (dec_of_int 2049 @ '','' @ dec_of_int 2048)"
proof -
  let ?s = "pmi_start sample_range"
  have r: "pmi_run_cb list_hostlist (sample_run True) (ports_left ?s) (pmi_host ?s) = (ports_left sample_sys, pmi_host sample_sys, 0)"
    using sample_run_cb by (simp add: pmi_start_def)
  have n: "pmi_unpacked (sample_run True) = Some (1, Some [Some ''a'', Some ''b''])" by (simp add: sample_run_def)
  have h: "hostlist_from_array list_hostlist (Some [Some ''a'', Some ''b'']) = Some [''a'', ''b'']"
    "hostlist_count list_hostlist [''a'', ''b''] \<noteq> 1"
    by (simp_all add: hostlist_from_array_def list_hostlist_def)
  have l: "last (pmi_events (pmi_host sample_sys)) = (1, [2049, 2048], 7)" by (simp add: sample_sys_def)
  have "holds_entry pmi_loads (sample_arrival ''p'' 1 1) (''cray-pmi-bootstrap'', Some (pmi_event_context [2049, 2048] 7))"
    by (auto simp: entry_eval pmi_loads_def pmi_event_context_def)
  then have w: "eventlog_wait_for pmi_loads ''timeout'' ''cray-pmi-bootstrap'' (-1) [sample_arrival ''p'' 1 1]
      = WaitDone (Some (pmi_event_context [2049, 2048] 7))"
    using wait_step by simp
  have m: "memory_ok sample_vars" "vars sample_vars ''FLUX_JOB_TMPDIR'' = Some ''/t''"
    by (simp_all add: memory_ok_def sample_vars_def)
  from pmi_ports_reach_tasks [OF sample_reachable(1) r n h l w m, of 2 sample_pals] show ?thesis by auto
qed

end
